(* ===== verification/Prelude.thy ===== *)
theory Prelude
  imports "HOL-Library.Word" "HOL-Library.Char_ord" "HOL-Library.List_Lexorder"
    "HOL-Library.Sublist" "HOL-Library.AList" "HOL-Library.Multiset"
begin

text \<open>
  What every component shares: the names of the machine types, the collections of
  simplification rules, HTTP status codes, and generic lemmas on words, lists and byte slices.

  A \<^verbatim>\<open>u64\<close> is a \<open>64 word\<close>, so that \<open>+\<close> and \<open>-\<close> wrap as they do in a release build.
  A \<^verbatim>\<open>String\<close>, a \<^verbatim>\<open>&str\<close> and a \<^verbatim>\<open>Vec<u8>\<close> are all lists of HOL characters, which are
  bytes: a \<^verbatim>\<open>&str\<close> is the list of the bytes of its UTF-8 encoding, so \<open>length\<close> is
  \<^verbatim>\<open>str::len\<close>. A \<^verbatim>\<open>usize\<close> that counts elements of a vector in memory is a \<open>nat\<close>; where
  the source subtracts from one, the wrap-around is written out (\<open>usize_sub\<close>).
\<close>

type_synonym u64 = "64 word"
type_synonym bytes = "char list"
type_synonym path = "char list"

named_theorems std_simps \<open>evaluation of the standard-library models on concrete strings\<close>
named_theorems unit_tests \<open>the repository's unit tests\<close>
named_theorems range_facts \<open>bounds of planned byte ranges\<close>

section \<open>Status codes\<close>

text \<open>The \<^verbatim>\<open>http::StatusCode\<close> constants the source names, by their numeric value.\<close>

abbreviation "STATUS_OK \<equiv> 200 :: nat"
abbreviation "STATUS_PARTIAL_CONTENT \<equiv> 206 :: nat"
abbreviation "STATUS_MOVED_PERMANENTLY \<equiv> 301 :: nat"
abbreviation "STATUS_NOT_MODIFIED \<equiv> 304 :: nat"
abbreviation "STATUS_BAD_REQUEST \<equiv> 400 :: nat"
abbreviation "STATUS_FORBIDDEN \<equiv> 403 :: nat"
abbreviation "STATUS_NOT_FOUND \<equiv> 404 :: nat"
abbreviation "STATUS_METHOD_NOT_ALLOWED \<equiv> 405 :: nat"
abbreviation "STATUS_PRECONDITION_FAILED \<equiv> 412 :: nat"
abbreviation "STATUS_URI_TOO_LONG \<equiv> 414 :: nat"
abbreviation "STATUS_RANGE_NOT_SATISFIABLE \<equiv> 416 :: nat"
abbreviation "STATUS_INTERNAL_SERVER_ERROR \<equiv> 500 :: nat"

section \<open>Machine integers\<close>

definition usize_sub :: "nat \<Rightarrow> nat \<Rightarrow> nat" where
  "usize_sub a b = (if b \<le> a then a - b else 2 ^ 64 + a - b)"

lemma usize_sub_le [simp]: "b \<le> a \<Longrightarrow> usize_sub a b = a - b"
  by (simp add: usize_sub_def)

lemma unat_u64_less: "unat (w :: u64) < 2 ^ 64"
proof -
  have "unat w < 2 ^ LENGTH(64)" by (rule unsigned_less)
  then show ?thesis by simp
qed

lemma unat_diff_u64: "(b :: u64) \<le> a \<Longrightarrow> unat (a - b) = unat a - unat b"
  by (rule unat_sub)

lemma unat_minus_one_u64: "(w :: u64) \<noteq> 0 \<Longrightarrow> unat (w - 1) = unat w - 1"
  by (rule unat_minus_one)

lemma unat_plus_u64: "unat (a :: u64) + unat b < 2 ^ 64 \<Longrightarrow> unat (a + b) = unat a + unat b"
  by (simp add: unat_plus_if')

lemma unat_min_u64: "unat (min (a :: u64) b) = min (unat a) (unat b)"
  by (simp add: min_def word_le_nat_alt)

lemma unat_of_nat_u64: "n < 2 ^ 64 \<Longrightarrow> unat (of_nat n :: u64) = n"
  by (simp add: unat_of_nat)

lemma unat_inj_u64: "unat (a :: u64) = unat b \<longleftrightarrow> a = b"
  by (rule word_unat_eq_iff [symmetric])

text \<open>The number of bytes of the inclusive range \<open>a..b\<close>, as the source computes it.\<close>

lemma unat_range_len:
  assumes "(a :: u64) \<le> b" and "b < n"
  shows "unat (b - a + 1) = unat b - unat a + 1"
proof -
  have "unat b < unat n" "unat n < 2 ^ 64"
    using assms unat_u64_less [of n] by (simp_all add: word_less_nat_alt)
  then have "unat (b - a) + unat (1 :: u64) < 2 ^ 64"
    using assms by (simp add: unat_diff_u64)
  then have "unat (b - a + 1) = unat (b - a) + unat (1 :: u64)" by (rule unat_plus_u64)
  then show ?thesis using assms by (simp add: unat_diff_u64)
qed

section \<open>Slices of a byte sequence\<close>

text \<open>\<open>slice c a n\<close> is what a file with content \<open>c\<close> holds in \<open>[a, a + n)\<close>, cut at its end.\<close>

definition slice :: "'a list \<Rightarrow> nat \<Rightarrow> nat \<Rightarrow> 'a list" where
  "slice c a n = take n (drop a c)"

lemma slice_0 [simp]: "slice c a 0 = []"
  by (simp add: slice_def)

lemma slice_whole [simp]: "slice c 0 (length c) = c"
  by (simp add: slice_def)

lemma slice_append: "slice c a m @ slice c (a + m) n = slice c a (m + n)"
  by (simp add: slice_def take_add add.commute)

lemma length_slice: "a + n \<le> length c \<Longrightarrow> length (slice c a n) = n"
  by (simp add: slice_def)

lemma length_slice_le: "length (slice c a n) \<le> n"
  by (simp add: slice_def)

section \<open>Lists and association lists\<close>

lemma sum_list_append_map: "sum_list (map f (xs @ ys)) = sum_list (map f xs) + sum_list (map f ys)"
  by simp

lemma length_concat_map: "length (concat (map f xs)) = sum_list (map (\<lambda>x. length (f x)) xs)"
  by (simp add: length_concat comp_def)

lemma take_Suc_concat_map:
  "i < length xs \<Longrightarrow>
     concat (map f (take (Suc i) xs)) = concat (map f (take i xs)) @ f (xs ! i)"
  by (simp add: take_Suc_conv_app_nth)

lemma delete_present_shorter:
  assumes "map_of al k = Some v"
  shows "length (AList.delete k al) < length al"
proof -
  have "length (filter (\<lambda>p. k \<noteq> fst p) al) < length al"
    using map_of_SomeD [OF assms] by (intro length_filter_less) auto
  then show ?thesis by (simp add: AList.delete_eq case_prod_unfold)
qed

text \<open>Rust's \<^verbatim>\<open>collect::<Result<_, _>>()\<close>: the first error wins.\<close>

fun collect_results :: "('a \<Rightarrow> 'e + 'b) \<Rightarrow> 'a list \<Rightarrow> 'e + 'b list" where
  "collect_results f [] = Inr []"
| "collect_results f (x # xs) =
     (case f x of Inl e \<Rightarrow> Inl e
      | Inr y \<Rightarrow> (case collect_results f xs of Inl e \<Rightarrow> Inl e | Inr ys \<Rightarrow> Inr (y # ys)))"

lemma collect_results_Inr:
  "collect_results f xs = Inr ys \<longleftrightarrow> list_all2 (\<lambda>x y. f x = Inr y) xs ys"
proof (induction xs arbitrary: ys)
  case Nil
  then show ?case by auto
next
  case (Cons x xs)
  show ?case
    by (cases "f x"; cases "collect_results f xs"; cases ys) (auto simp flip: Cons)
qed

lemma list_all2_sources: "list_all2 P xs ys \<Longrightarrow> y \<in> set ys \<Longrightarrow> \<exists>x \<in> set xs. P x y"
  by (induction rule: list_all2_induct) auto

text \<open>The question-mark operator: \<^verbatim>\<open>Result::and_then\<close>.\<close>

fun and_then :: "'e + 'a \<Rightarrow> ('a \<Rightarrow> 'e + 'b) \<Rightarrow> 'e + 'b" where
  "and_then (Inl e) f = Inl e"
| "and_then (Inr a) f = f a"

lemma and_then_Inr: "and_then x f = Inr b \<longleftrightarrow> (\<exists>a. x = Inr a \<and> f a = Inr b)"
  by (cases x) auto

lemma and_then_Inl: "and_then x f = Inl e \<longleftrightarrow> x = Inl e \<or> (\<exists>a. x = Inr a \<and> f a = Inl e)"
  by (cases x) auto

end
