(* ===== verification/Std_String.thy ===== *)
theory Std_String
  imports Prelude
begin

text \<open>
  The part of Rust's \<^verbatim>\<open>str\<close> and formatting library the source uses, on UTF-8 byte lists:
  splitting and joining, prefix stripping, ASCII case folding, \<^verbatim>\<open>trim\<close> (which removes
  Unicode white space, so its tokens are the UTF-8 encodings of those characters), decimal and
  hexadecimal printing and \<^verbatim>\<open>u64::from_str\<close>.
\<close>

section \<open>Splitting and joining\<close>

text \<open>\<^verbatim>\<open>str::split(char)\<close>: always at least one piece.\<close>

fun split_on :: "char \<Rightarrow> string \<Rightarrow> string list" where
  "split_on c [] = [[]]"
| "split_on c (x # xs) =
     (if x = c then [] # split_on c xs
      else case split_on c xs of [] \<Rightarrow> [[x]] | y # ys \<Rightarrow> (x # y) # ys)"

text \<open>\<^verbatim>\<open>[String]::join(sep)\<close>.\<close>

fun join_with :: "string \<Rightarrow> string list \<Rightarrow> string" where
  "join_with sep [] = []"
| "join_with sep [x] = x"
| "join_with sep (x # y # ys) = x @ sep @ join_with sep (y # ys)"

text \<open>\<^verbatim>\<open>str::split_once(char)\<close>: around the first occurrence.\<close>

fun split_once :: "char \<Rightarrow> string \<Rightarrow> (string \<times> string) option" where
  "split_once c [] = None"
| "split_once c (x # xs) =
     (if x = c then Some ([], xs)
      else map_option (\<lambda>(a, b). (x # a, b)) (split_once c xs))"

text \<open>\<^verbatim>\<open>str::strip_prefix\<close>.\<close>

definition strip_prefix_of :: "string \<Rightarrow> string \<Rightarrow> string option" where
  "strip_prefix_of p s = (if prefix p s then Some (drop (length p) s) else None)"

lemma split_on_ne [simp]: "split_on c s \<noteq> []"
  by (induction s) (auto split: list.splits)

lemma split_on_Cons_other:
  "x \<noteq> c \<Longrightarrow> split_on c (x # xs) = (x # hd (split_on c xs)) # tl (split_on c xs)"
  by (simp split: list.splits)

lemma split_on_no_sep: "c \<notin> set s \<Longrightarrow> split_on c s = [s]"
  by (induction s) auto

lemma split_on_append_sep: "c \<notin> set a \<Longrightarrow> split_on c (a @ c # b) = a # split_on c b"
  by (induction a) (auto split: list.splits)

lemma split_on_sep_notin: "p \<in> set (split_on c s) \<Longrightarrow> c \<notin> set p"
proof (induction s arbitrary: p)
  case Nil
  then show ?case by simp
next
  case (Cons x xs)
  then show ?case
    by (cases "split_on c xs") (auto split: if_splits)
qed

lemma join_Cons_hd: "xs \<noteq> [] \<Longrightarrow> join_with sep ((x # hd xs) # tl xs) = x # join_with sep xs"
  by (cases xs; cases "tl xs") auto

lemma join_split_on: "join_with [c] (split_on c s) = s"
proof (induction s)
  case Nil
  then show ?case by simp
next
  case (Cons x xs)
  show ?case
  proof (cases "x = c")
    case True
    obtain y ys where "split_on c xs = y # ys" by (meson split_on_ne neq_Nil_conv)
    with True Cons show ?thesis by simp
  next
    case False
    then show ?thesis
      using Cons by (simp add: split_on_Cons_other join_Cons_hd del: split_on.simps)
  qed
qed

lemma split_on_join:
  "xs \<noteq> [] \<Longrightarrow> \<forall>x \<in> set xs. c \<notin> set x \<Longrightarrow> split_on c (join_with [c] xs) = xs"
  by (induction "[c]" xs rule: join_with.induct)
     (auto simp: split_on_no_sep split_on_append_sep)

lemma set_join_with: "set (join_with sep xs) \<subseteq> set sep \<union> \<Union> (set ` set xs)"
  by (induction sep xs rule: join_with.induct) auto

text \<open>Joining non-empty pieces without the separator gives text that does not end in it.\<close>

lemma last_join_with:
  "xs \<noteq> [] \<Longrightarrow> \<forall>x \<in> set xs. x \<noteq> [] \<and> c \<notin> set x \<Longrightarrow>
     join_with sep xs \<noteq> [] \<and> last (join_with sep xs) \<noteq> c"
proof (induction sep xs rule: join_with.induct)
  case (2 sep x)
  then show ?case using last_in_set [of x] by auto
qed auto

lemma split_once_Some: "split_once c s = Some (a, b) \<longleftrightarrow> s = a @ c # b \<and> c \<notin> set a"
  by (induction s arbitrary: a b) (auto simp: Cons_eq_append_conv)

lemma split_once_None: "split_once c s = None \<longleftrightarrow> c \<notin> set s"
  by (induction s) auto

lemma strip_prefix_of_Some [simp]: "strip_prefix_of p s = Some r \<longleftrightarrow> s = p @ r"
  by (auto simp: strip_prefix_of_def prefix_def)

lemma strip_prefix_of_append [simp]: "strip_prefix_of p (p @ r) = Some r"
  by simp

lemma strip_prefix_of_simps [simp]:
  "strip_prefix_of [] s = Some s"
  "strip_prefix_of (p # ps) [] = None"
  "strip_prefix_of (p # ps) (c # s) = (if p = c then strip_prefix_of ps s else None)"
  by (auto simp: strip_prefix_of_def)

lemma strip_prefix_of_None: "strip_prefix_of p s = None \<longleftrightarrow> \<not> prefix p s"
  by (simp add: strip_prefix_of_def)

section \<open>ASCII case\<close>

definition to_ascii_lower :: "char \<Rightarrow> char" where
  "to_ascii_lower c =
     (if 65 \<le> (of_char c :: nat) \<and> (of_char c :: nat) \<le> 90
      then char_of ((of_char c :: nat) + 32) else c)"

definition to_ascii_lowercase :: "string \<Rightarrow> string" where
  "to_ascii_lowercase = map to_ascii_lower"

definition eq_ignore_ascii_case :: "string \<Rightarrow> string \<Rightarrow> bool" where
  "eq_ignore_ascii_case a b \<longleftrightarrow> to_ascii_lowercase a = to_ascii_lowercase b"

lemma of_char_less_256: "(of_char c :: nat) < 256"
proof -
  have "(of_char c :: nat) = of_char c mod 256" by simp
  then show ?thesis by (metis mod_less_divisor zero_less_numeral)
qed

lemma of_char_to_ascii_lower:
  "(of_char (to_ascii_lower c) :: nat) =
     (if 65 \<le> (of_char c :: nat) \<and> (of_char c :: nat) \<le> 90 then of_char c + 32 else of_char c)"
  by (simp add: to_ascii_lower_def)

lemma to_ascii_lower_idem [simp]: "to_ascii_lower (to_ascii_lower c) = to_ascii_lower c"
proof -
  have "(of_char (to_ascii_lower (to_ascii_lower c)) :: nat) = of_char (to_ascii_lower c)"
    by (simp add: of_char_to_ascii_lower)
  then show ?thesis by simp
qed

lemma to_ascii_lowercase_idem [simp]:
  "to_ascii_lowercase (to_ascii_lowercase s) = to_ascii_lowercase s"
  by (simp add: to_ascii_lowercase_def)

lemma eq_ignore_ascii_case_refl [simp]: "eq_ignore_ascii_case a a"
  by (simp add: eq_ignore_ascii_case_def)

lemma eq_ignore_ascii_case_sym: "eq_ignore_ascii_case a b = eq_ignore_ascii_case b a"
  by (auto simp: eq_ignore_ascii_case_def)

lemma eq_ignore_ascii_case_trans:
  "eq_ignore_ascii_case a b \<Longrightarrow> eq_ignore_ascii_case b c \<Longrightarrow> eq_ignore_ascii_case a c"
  by (simp add: eq_ignore_ascii_case_def)

section \<open>Trimming\<close>

text \<open>The UTF-8 encodings of the characters with the Unicode property White\_Space.\<close>

definition white_space :: "string list" where
  "white_space =
     [[CHR 0x09], [CHR 0x0A], [CHR 0x0B], [CHR 0x0C], [CHR 0x0D], [CHR 0x20],
      [CHR 0xC2, CHR 0x85], [CHR 0xC2, CHR 0xA0],
      [CHR 0xE1, CHR 0x9A, CHR 0x80],
      [CHR 0xE2, CHR 0x80, CHR 0x80], [CHR 0xE2, CHR 0x80, CHR 0x81],
      [CHR 0xE2, CHR 0x80, CHR 0x82], [CHR 0xE2, CHR 0x80, CHR 0x83],
      [CHR 0xE2, CHR 0x80, CHR 0x84], [CHR 0xE2, CHR 0x80, CHR 0x85],
      [CHR 0xE2, CHR 0x80, CHR 0x86], [CHR 0xE2, CHR 0x80, CHR 0x87],
      [CHR 0xE2, CHR 0x80, CHR 0x88], [CHR 0xE2, CHR 0x80, CHR 0x89],
      [CHR 0xE2, CHR 0x80, CHR 0x8A],
      [CHR 0xE2, CHR 0x80, CHR 0xA8], [CHR 0xE2, CHR 0x80, CHR 0xA9],
      [CHR 0xE2, CHR 0x80, CHR 0xAF], [CHR 0xE2, CHR 0x81, CHR 0x9F],
      [CHR 0xE3, CHR 0x80, CHR 0x80]]"

function trim_with :: "string list \<Rightarrow> string \<Rightarrow> string" where
  "trim_with toks s =
     (case find (\<lambda>w. w \<noteq> [] \<and> prefix w s) toks of
        None \<Rightarrow> s
      | Some w \<Rightarrow> trim_with toks (drop (length w) s))"
  by pat_completeness auto
termination
proof (relation "measure (\<lambda>(toks, s). length s)")
  fix toks :: "string list" and s w
  assume "find (\<lambda>w. w \<noteq> [] \<and> prefix w s) toks = Some w"
  then have "w \<noteq> [] \<and> prefix w s" by (auto simp: find_Some_iff)
  then show "((toks, drop (length w) s), (toks, s)) \<in> measure (\<lambda>(toks, s). length s)"
    by (cases s) (auto simp: prefix_def)
qed simp

declare trim_with.simps [simp del]

definition trim_start :: "string \<Rightarrow> string" where
  "trim_start s = trim_with white_space s"

definition trim_end :: "string \<Rightarrow> string" where
  "trim_end s = rev (trim_with (map rev white_space) (rev s))"

definition trim :: "string \<Rightarrow> string" where
  "trim s = trim_end (trim_start s)"

text \<open>\<^verbatim>\<open>str::trim_end_matches(char)\<close>.\<close>

definition trim_end_char :: "char \<Rightarrow> string \<Rightarrow> string" where
  "trim_end_char c s = rev (dropWhile (\<lambda>x. x = c) (rev s))"

lemma trim_with_id:
  assumes "\<And>w. w \<in> set toks \<Longrightarrow> w = [] \<or> \<not> prefix w s"
  shows "trim_with toks s = s"
proof -
  have "find (\<lambda>w. w \<noteq> [] \<and> prefix w s) toks = None"
    using assms by (auto simp: find_None_iff)
  then show ?thesis by (simp add: trim_with.simps [of toks s])
qed

lemma trim_with_prefix_free:
  "w \<in> set toks \<Longrightarrow> w \<noteq> [] \<Longrightarrow> \<not> prefix w (trim_with toks s)"
proof (induction toks s rule: trim_with.induct)
  case (1 toks s)
  show ?case
  proof (cases "find (\<lambda>w. w \<noteq> [] \<and> prefix w s) toks")
    case None
    then have "trim_with toks s = s" by (simp add: trim_with.simps [of toks s])
    with None "1.prems" show ?thesis by (auto simp: find_None_iff)
  next
    case (Some w')
    with 1 show ?thesis by (simp add: trim_with.simps [of toks s])
  qed
qed

lemma trim_with_suffix: "suffix (trim_with toks s) s"
proof (induction toks s rule: trim_with.induct)
  case (1 toks s)
  show ?case
  proof (cases "find (\<lambda>w. w \<noteq> [] \<and> prefix w s) toks")
    case None
    then show ?thesis by (simp add: trim_with.simps [of toks s])
  next
    case (Some w)
    then show ?thesis
      using 1 suffix_drop suffix_order.trans by (fastforce simp: trim_with.simps [of toks s])
  qed
qed

definition ascii_graphic :: "char \<Rightarrow> bool" where
  "ascii_graphic c \<longleftrightarrow> 33 \<le> (of_char c :: nat) \<and> (of_char c :: nat) \<le> 126"

lemma white_space_ends:
  "w \<in> set white_space \<Longrightarrow>
     w \<noteq> [] \<and> \<not> ascii_graphic (hd w) \<and> \<not> ascii_graphic (last w)"
  by (auto simp: white_space_def ascii_graphic_def)

text \<open>A string that begins and ends with a graphic ASCII character is not changed.\<close>

lemma trim_graphic:
  assumes "s \<noteq> []" "ascii_graphic (hd s)" "ascii_graphic (last s)"
  shows "trim s = s"
proof -
  have "trim_start s = s"
    unfolding trim_start_def
  proof (rule trim_with_id)
    fix w assume "w \<in> set white_space"
    then show "w = [] \<or> \<not> prefix w s"
      using white_space_ends [of w] assms by (auto simp: prefix_def)
  qed
  moreover have "trim_end s = s"
  proof -
    have "trim_with (map rev white_space) (rev s) = rev s"
    proof (rule trim_with_id)
      fix w assume "w \<in> set (map rev white_space)"
      then obtain v where v: "v \<in> set white_space" "w = rev v" by auto
      then have "hd w = last v" "v \<noteq> []"
        using white_space_ends [of v] by (auto simp: hd_rev)
      then show "w = [] \<or> \<not> prefix w (rev s)"
        using v white_space_ends [of v] assms
        by (auto simp: prefix_def rev_eq_append_conv)
    qed
    then show ?thesis by (simp add: trim_end_def)
  qed
  ultimately show ?thesis by (simp add: trim_def)
qed

text \<open>Spaces at either end are trimmed one by one.\<close>

lemma trim_leading_space: "trim (CHR '' '' # s) = trim s"
proof -
  have "find (\<lambda>w. w \<noteq> [] \<and> prefix w (CHR '' '' # s)) white_space = Some '' ''"
    by (simp add: white_space_def)
  then have "trim_start (CHR '' '' # s) = trim_start s"
    by (simp add: trim_start_def trim_with.simps [of white_space "CHR '' '' # s"])
  then show ?thesis by (simp add: trim_def)
qed

lemma trim_start_of_graphic: "s \<noteq> [] \<Longrightarrow> ascii_graphic (hd s) \<Longrightarrow> trim_start s = s"
  unfolding trim_start_def by (rule trim_with_id) (use white_space_ends in \<open>fastforce simp: prefix_def\<close>)

lemma trim_trailing_space:
  assumes "s \<noteq> []" "ascii_graphic (hd s)" "last s = CHR '' ''"
  shows "trim s = trim (butlast s)"
proof -
  obtain r where s: "s = r @ '' ''" using assms(1,3) by (metis append_butlast_last_id)
  have "r \<noteq> []" using assms(2) s by (cases r) (auto simp: ascii_graphic_def)
  moreover have "find (\<lambda>w. w \<noteq> [] \<and> prefix w (CHR '' '' # rev r)) (map rev white_space) = Some '' ''"
    by (simp add: white_space_def)
  then have "trim_end (r @ '' '') = trim_end r"
    by (simp add: trim_end_def trim_with.simps [of "map rev white_space" "CHR '' '' # rev r"])
  ultimately show ?thesis using assms(2) by (simp add: trim_def trim_start_of_graphic s)
qed

lemma trim_empty [simp]: "trim [] = []"
proof -
  have "trim_with toks [] = []" for toks :: "string list"
    by (rule trim_with_id) auto
  then show ?thesis by (simp add: trim_def trim_start_def trim_end_def)
qed

lemma last_trim_end_char: "trim_end_char c s \<noteq> [] \<Longrightarrow> last (trim_end_char c s) \<noteq> c"
  using hd_dropWhile [of "\<lambda>x. x = c" "rev s"] by (auto simp: trim_end_char_def last_rev)

lemma trim_end_char_prefix: "\<exists>n. s = trim_end_char c s @ replicate n c"
proof -
  let ?t = "takeWhile (\<lambda>x. x = c) (rev s)"
  have "rev s = ?t @ dropWhile (\<lambda>x. x = c) (rev s)" by simp
  then have "s = trim_end_char c s @ rev ?t"
    unfolding trim_end_char_def by (metis rev_append rev_rev_ident)
  moreover have "rev ?t = replicate (length ?t) c"
    by (rule replicate_eqI) (auto dest: set_takeWhileD)
  ultimately show ?thesis by metis
qed

end
