(* ===== verification/Std_Num.thy ===== *)
theory Std_Num
  imports Std_String
begin

text \<open>
  Rust's integer formatting and parsing: \<^verbatim>\<open>{}\<close>, \<^verbatim>\<open>{:x}\<close> and \<^verbatim>\<open>{:016x}\<close> of a \<^verbatim>\<open>u64\<close>
  and \<^verbatim>\<open>u64::from_str\<close>, with the round trip between them.
\<close>

section \<open>Digits\<close>

definition is_ascii_digit :: "char \<Rightarrow> bool" where
  "is_ascii_digit c \<longleftrightarrow> 48 \<le> (of_char c :: nat) \<and> (of_char c :: nat) \<le> 57"

definition is_lower_hex :: "char \<Rightarrow> bool" where
  "is_lower_hex c \<longleftrightarrow> is_ascii_digit c \<or> (97 \<le> (of_char c :: nat) \<and> (of_char c :: nat) \<le> 102)"

text \<open>The digit of a value below sixteen, the only values printing uses.\<close>

definition digit_char :: "nat \<Rightarrow> char" where
  "digit_char d = ''0123456789abcdef'' ! d"

definition digit_val :: "char \<Rightarrow> nat" where
  "digit_val c = (if 97 \<le> (of_char c :: nat) then of_char c - 87 else of_char c - 48)"

lemma of_char_digit_char:
  "d < 16 \<Longrightarrow> (of_char (digit_char d) :: nat) = (if d < 10 then 48 + d else 87 + d)"
proof -
  have "\<forall>d \<in> set [0..<16]. (of_char (digit_char d) :: nat) = (if d < 10 then 48 + d else 87 + d)"
    by (simp add: digit_char_def upt_rec)
  then show "d < 16 \<Longrightarrow> ?thesis" by simp
qed

lemma digit_val_digit_char [simp]: "d < 16 \<Longrightarrow> digit_val (digit_char d) = d"
  by (simp add: digit_val_def of_char_digit_char)

lemma is_lower_hex_digit_char: "d < 16 \<Longrightarrow> is_lower_hex (digit_char d)"
  by (simp add: is_lower_hex_def is_ascii_digit_def of_char_digit_char)

lemma is_ascii_digit_digit_char: "d < 10 \<Longrightarrow> is_ascii_digit (digit_char d)"
  by (simp add: is_ascii_digit_def of_char_digit_char)

lemma is_lower_hex_graphic: "is_lower_hex c \<Longrightarrow> ascii_graphic c"
  by (auto simp: is_lower_hex_def is_ascii_digit_def ascii_graphic_def)

lemma is_ascii_digit_graphic: "is_ascii_digit c \<Longrightarrow> ascii_graphic c"
  by (auto simp: is_ascii_digit_def ascii_graphic_def)

section \<open>Printing\<close>

function to_radix :: "nat \<Rightarrow> nat \<Rightarrow> string" where
  "to_radix b n =
     (if b < 2 \<or> n < b then [digit_char n]
      else to_radix b (n div b) @ [digit_char (n mod b)])"
  by pat_completeness auto
termination
  by (relation "measure snd") auto

declare to_radix.simps [simp del]

definition dec_u64 :: "u64 \<Rightarrow> string" where
  "dec_u64 w = to_radix 10 (unat w)"

definition hex_u64 :: "u64 \<Rightarrow> string" where
  "hex_u64 w = to_radix 16 (unat w)"

text \<open>\<^verbatim>\<open>{:016x}\<close>: zero padding on the left to at least sixteen digits.\<close>

definition hex016_u64 :: "u64 \<Rightarrow> string" where
  "hex016_u64 w = replicate (16 - length (hex_u64 w)) (CHR ''0'') @ hex_u64 w"

definition of_radix :: "nat \<Rightarrow> string \<Rightarrow> nat" where
  "of_radix b s = foldl (\<lambda>a c. a * b + digit_val c) 0 s"

lemma to_radix_ne [simp]: "to_radix b n \<noteq> []"
  by (subst to_radix.simps) simp

lemma of_radix_snoc: "of_radix b (s @ [c]) = of_radix b s * b + digit_val c"
  by (simp add: of_radix_def)

lemma of_radix_to_radix: "2 \<le> b \<Longrightarrow> b \<le> 16 \<Longrightarrow> of_radix b (to_radix b n) = n"
proof (induction b n rule: to_radix.induct)
  case (1 b n)
  show ?case
  proof (cases "n < b")
    case True
    with "1.prems" show ?thesis
      by (simp add: to_radix.simps [of b n] of_radix_def)
  next
    case False
    have "n mod b < 16" using "1.prems" mod_less_divisor [of b n] by linarith
    with False 1 show ?thesis
      by (simp add: to_radix.simps [of b n] of_radix_snoc)
  qed
qed

lemma to_radix_digits:
  "2 \<le> b \<Longrightarrow> (\<And>d. d < b \<Longrightarrow> P (digit_char d)) \<Longrightarrow> c \<in> set (to_radix b n) \<Longrightarrow> P c"
proof (induction b n rule: to_radix.induct)
  case (1 b n)
  show ?case
    using 1 by (cases "n < b") (auto simp: to_radix.simps [of b n] mod_less_divisor)
qed

lemma dec_u64_digits: "c \<in> set (dec_u64 w) \<Longrightarrow> is_ascii_digit c"
  unfolding dec_u64_def by (rule to_radix_digits [of 10]) (auto simp: is_ascii_digit_digit_char)

lemma hex_u64_digits: "c \<in> set (hex_u64 w) \<Longrightarrow> is_lower_hex c"
  unfolding hex_u64_def by (rule to_radix_digits [of 16]) (auto simp: is_lower_hex_digit_char)

lemma hex016_u64_digits: "c \<in> set (hex016_u64 w) \<Longrightarrow> is_lower_hex c"
  by (auto simp: hex016_u64_def is_lower_hex_def is_ascii_digit_def dest: hex_u64_digits)

lemma dec_u64_ne [simp]: "dec_u64 w \<noteq> []"
  by (simp add: dec_u64_def)

lemma hex_u64_ne [simp]: "hex_u64 w \<noteq> []"
  by (simp add: hex_u64_def)

lemma to_radix_inj: "2 \<le> b \<Longrightarrow> b \<le> 16 \<Longrightarrow> to_radix b m = to_radix b n \<longleftrightarrow> m = n"
  by (metis of_radix_to_radix)

lemma hex_u64_inj: "hex_u64 a = hex_u64 b \<longleftrightarrow> a = b"
  by (simp add: hex_u64_def to_radix_inj unat_inj_u64)

lemma dec_u64_inj: "dec_u64 a = dec_u64 b \<longleftrightarrow> a = b"
  by (simp add: dec_u64_def to_radix_inj unat_inj_u64)

section \<open>Parsing\<close>

text \<open>
  \<^verbatim>\<open>u64::from_str\<close>: an optional plus sign, then at least one digit, and no overflow.
\<close>

definition u64_from_str :: "string \<Rightarrow> u64 option" where
  "u64_from_str s =
     (let ds = (case s of [] \<Rightarrow> [] | c # r \<Rightarrow> if c = CHR ''+'' then r else s) in
      if ds = [] \<or> \<not> list_all is_ascii_digit ds then None
      else if of_radix 10 ds < 2 ^ 64 then Some (of_nat (of_radix 10 ds)) else None)"

lemma not_digit_plus [simp]: "\<not> is_ascii_digit (CHR ''+'')"
  by (simp add: is_ascii_digit_def)

lemma u64_from_str_digits:
  assumes "s \<noteq> []" "list_all is_ascii_digit s"
  shows "u64_from_str s =
    (if of_radix 10 s < 2 ^ 64 then Some (of_nat (of_radix 10 s)) else None)"
  using assms by (cases s) (auto simp: u64_from_str_def Let_def)

lemma u64_from_str_dec [simp]: "u64_from_str (dec_u64 w) = Some w"
proof -
  have "list_all is_ascii_digit (dec_u64 w)"
    by (auto simp: list_all_iff dec_u64_digits)
  then show ?thesis
    using unat_u64_less [of w]
    by (simp add: u64_from_str_digits dec_u64_def of_radix_to_radix)
qed

lemmas std_num_eval [std_simps] =
  u64_from_str_def is_ascii_digit_def of_radix_def digit_val_def to_radix.simps digit_char_def
  dec_u64_def hex_u64_def trim_graphic trim_leading_space trim_trailing_space ascii_graphic_def

end
