(* ===== verification/Ranges.thy ===== *)
theory Ranges
  imports Std_Num
begin

text \<open>
  \<^verbatim>\<open>envoy-files-core/src/range.rs\<close>: parsing of a \<^verbatim>\<open>Range\<close> header, planning of the byte
  ranges to serve, and the framing of a \<^verbatim>\<open>multipart/byteranges\<close> body. The locale
  \<open>range_planner\<close> is what the response planner relies on; \<open>plan_ranges\<close> interprets it.
\<close>

section \<open>Data\<close>

record byte_range =
  range_start :: u64
  range_end :: u64

datatype range_outcome =
    Full
  | Single byte_range
  | Multi "byte_range list"
  | Unsatisfiable

record range_policy =
  allow_multi :: bool
  max_parts :: nat

datatype spec_result = SpecUnsatisfiable | SpecRange byte_range

section \<open>Parsing\<close>

definition is_all_ascii_digits :: "string \<Rightarrow> bool" where
  "is_all_ascii_digits s \<longleftrightarrow> s \<noteq> [] \<and> list_all is_ascii_digit s"

definition open_ended_spec :: "u64 \<Rightarrow> u64 \<Rightarrow> spec_result" where
  "open_ended_spec first_byte_pos total_len =
     (if total_len = 0 \<or> first_byte_pos \<ge> total_len then SpecUnsatisfiable
      else SpecRange \<lparr>range_start = first_byte_pos, range_end = total_len - 1\<rparr>)"

definition parse_suffix_spec :: "string \<Rightarrow> u64 \<Rightarrow> spec_result option" where
  "parse_suffix_spec suffix_digits total_len =
     (if suffix_digits = [] \<or> \<not> is_all_ascii_digits suffix_digits then None
      else case u64_from_str suffix_digits of
        None \<Rightarrow> None
      | Some suffix_length \<Rightarrow>
          if suffix_length = 0 \<or> total_len = 0 then Some SpecUnsatisfiable
          else if suffix_length \<ge> total_len
          then Some (SpecRange \<lparr>range_start = 0, range_end = total_len - 1\<rparr>)
          else Some (SpecRange \<lparr>range_start = total_len - suffix_length,
                               range_end = total_len - 1\<rparr>))"

definition parse_one_spec :: "string \<Rightarrow> u64 \<Rightarrow> spec_result option" where
  "parse_one_spec spec total_len =
     (case strip_prefix_of ''-'' spec of
        Some suffix_digits \<Rightarrow> parse_suffix_spec suffix_digits total_len
      | None \<Rightarrow>
        (case split_once (CHR ''-'') spec of
           None \<Rightarrow> None
         | Some (first_digits, last_digits) \<Rightarrow>
             if first_digits = [] \<or> \<not> is_all_ascii_digits first_digits then None
             else case u64_from_str first_digits of
               None \<Rightarrow> None
             | Some first_byte_pos \<Rightarrow>
                 if last_digits = [] then Some (open_ended_spec first_byte_pos total_len)
                 else if \<not> is_all_ascii_digits last_digits then None
                 else case u64_from_str last_digits of
                   None \<Rightarrow> None
                 | Some last_byte_pos \<Rightarrow>
                     if last_byte_pos < first_byte_pos then Some SpecUnsatisfiable
                     else if total_len = 0 \<or> first_byte_pos \<ge> total_len
                     then Some SpecUnsatisfiable
                     else Some (SpecRange \<lparr>range_start = first_byte_pos,
                                          range_end = min last_byte_pos (total_len - 1)\<rparr>)))"

section \<open>Planning\<close>

fun is_ascending_non_overlapping :: "byte_range list \<Rightarrow> bool" where
  "is_ascending_non_overlapping (a # b # rs) \<longleftrightarrow>
     range_start b > range_end a \<and> is_ascending_non_overlapping (b # rs)"
| "is_ascending_non_overlapping _ \<longleftrightarrow> True"

text \<open>
  The loop over the comma-separated specs with its two variables, \<^verbatim>\<open>valid_ranges\<close> and
  \<^verbatim>\<open>saw_any_spec\<close>; \<open>None\<close> is the early return on a syntactically invalid spec.
\<close>

fun plan_loop :: "string list \<Rightarrow> u64 \<Rightarrow> byte_range list \<Rightarrow> bool \<Rightarrow> (byte_range list \<times> bool) option"
where
  "plan_loop [] total_len valid_ranges saw_any_spec = Some (valid_ranges, saw_any_spec)"
| "plan_loop (raw_spec # rest) total_len valid_ranges saw_any_spec =
     (let trimmed = trim raw_spec in
      if trimmed = [] then plan_loop rest total_len valid_ranges saw_any_spec
      else case parse_one_spec trimmed total_len of
        None \<Rightarrow> None
      | Some SpecUnsatisfiable \<Rightarrow> plan_loop rest total_len valid_ranges True
      | Some (SpecRange r) \<Rightarrow> plan_loop rest total_len (valid_ranges @ [r]) True)"

definition plan_ranges :: "string \<Rightarrow> u64 \<Rightarrow> range_policy \<Rightarrow> range_outcome" where
  "plan_ranges range_header total_len policy =
     (case strip_prefix_of ''bytes='' range_header of
        None \<Rightarrow> Full
      | Some specs_str \<Rightarrow>
        (case plan_loop (split_on (CHR '','') specs_str) total_len [] False of
           None \<Rightarrow> Full
         | Some (valid_ranges, saw_any_spec) \<Rightarrow>
             if \<not> saw_any_spec then Full
             else if valid_ranges = [] then Unsatisfiable
             else if length valid_ranges = 1 then Single (valid_ranges ! 0)
             else if \<not> allow_multi policy \<or> length valid_ranges > max_parts policy then Full
             else if \<not> is_ascending_non_overlapping valid_ranges then Full
             else Multi valid_ranges))"

section \<open>Header values and multipart framing\<close>

definition content_range :: "byte_range \<Rightarrow> u64 \<Rightarrow> string" where
  "content_range r total_len =
     ''bytes '' @ dec_u64 (range_start r) @ ''-'' @ dec_u64 (range_end r) @ ''/'' @ dec_u64 total_len"

definition content_range_unsatisfied :: "u64 \<Rightarrow> string" where
  "content_range_unsatisfied total_len = ''bytes */'' @ dec_u64 total_len"

record multipart_part =
  part_range :: byte_range
  part_header :: bytes

definition crlf :: string where
  "crlf = [CHR 0x0D, CHR 0x0A]"

definition range_len :: "byte_range \<Rightarrow> u64" where
  "range_len r = range_end r - range_start r + 1"

definition multipart_header :: "nat \<Rightarrow> byte_range \<Rightarrow> string \<Rightarrow> u64 \<Rightarrow> string \<Rightarrow> bytes" where
  "multipart_header index r content_type total_len boundary =
     (if index > 0 then crlf else []) @ ''--'' @ boundary @ crlf
     @ ''Content-Type: '' @ content_type @ crlf
     @ ''Content-Range: '' @ content_range r total_len @ crlf @ crlf"

fun multipart_loop ::
  "nat \<Rightarrow> byte_range list \<Rightarrow> string \<Rightarrow> u64 \<Rightarrow> string \<Rightarrow> multipart_part list \<Rightarrow> u64 \<Rightarrow>
     multipart_part list \<times> u64"
where
  "multipart_loop index [] content_type total_len boundary parts content_length =
     (parts, content_length)"
| "multipart_loop index (r # rs) content_type total_len boundary parts content_length =
     (let header = multipart_header index r content_type total_len boundary in
      multipart_loop (Suc index) rs content_type total_len boundary
        (parts @ [\<lparr>part_range = r, part_header = header\<rparr>])
        (content_length + of_nat (length header) + range_len r))"

definition multipart_parts ::
  "byte_range list \<Rightarrow> string \<Rightarrow> u64 \<Rightarrow> string \<Rightarrow> multipart_part list \<times> bytes \<times> u64" where
  "multipart_parts ranges content_type total_len boundary =
     (case multipart_loop 0 ranges content_type total_len boundary [] 0 of
        (parts, content_length) \<Rightarrow>
          let terminator = crlf @ ''--'' @ boundary @ ''--'' @ crlf in
          (parts, terminator, content_length + of_nat (length terminator)))"

section \<open>Bounds of what is planned\<close>

definition range_ok :: "u64 \<Rightarrow> byte_range \<Rightarrow> bool" where
  "range_ok total_len r \<longleftrightarrow> range_start r \<le> range_end r \<and> range_end r < total_len"

lemma range_len_ok: "range_ok total_len r \<Longrightarrow> unat (range_len r) = unat (range_end r) - unat (range_start r) + 1"
  unfolding range_ok_def range_len_def by (blast intro: unat_range_len)

lemma pred_less_u64: "(n :: u64) \<noteq> 0 \<Longrightarrow> n - 1 < n"
  by (simp add: word_less_nat_alt unat_minus_one_u64 unat_gt_0)

lemma le_pred_u64: "(a :: u64) < n \<Longrightarrow> a \<le> n - 1"
proof -
  assume "a < n"
  then have "n \<noteq> 0" "unat a < unat n" by (auto simp: word_less_nat_alt)
  then show ?thesis by (simp add: word_le_nat_alt unat_minus_one_u64)
qed

lemma open_ended_spec_ok: "open_ended_spec a n = SpecRange r \<Longrightarrow> range_ok n r"
  by (auto simp: open_ended_spec_def range_ok_def pred_less_u64 le_pred_u64 not_le split: if_splits)

lemma parse_suffix_spec_ok: "parse_suffix_spec s n = Some (SpecRange r) \<Longrightarrow> range_ok n r"
proof -
  assume "parse_suffix_spec s n = Some (SpecRange r)"
  then obtain k where "n \<noteq> 0" "k \<noteq> 0"
    and r: "r = \<lparr>range_start = 0, range_end = n - 1\<rparr> \<or>
            k < n \<and> r = \<lparr>range_start = n - k, range_end = n - 1\<rparr>"
    by (auto simp: parse_suffix_spec_def not_le split: if_splits option.splits)
  moreover have "n - k \<le> n - 1" if "k < n"
  proof -
    have "unat (n - k) = unat n - unat k" "0 < unat k"
      using that \<open>k \<noteq> 0\<close> by (simp_all add: unat_diff_u64 less_imp_le unat_gt_0)
    then show ?thesis
      using \<open>n \<noteq> 0\<close> by (simp add: word_le_nat_alt unat_minus_one_u64)
  qed
  ultimately show ?thesis by (auto simp: range_ok_def pred_less_u64)
qed

lemma parse_one_spec_ok: "parse_one_spec s n = Some (SpecRange r) \<Longrightarrow> range_ok n r"
  by (auto simp: parse_one_spec_def not_less not_le min_def
      split: option.splits prod.splits if_splits
      dest: parse_suffix_spec_ok open_ended_spec_ok)
     (auto simp: range_ok_def pred_less_u64 le_pred_u64 not_le intro: le_less_trans)

text \<open>One step of the loop, by what the trimmed spec parses to.\<close>

lemma plan_loop_step:
  "trim raw = [] \<Longrightarrow> plan_loop (raw # rest) n acc saw = plan_loop rest n acc saw"
  "trim raw \<noteq> [] \<Longrightarrow> parse_one_spec (trim raw) n = None \<Longrightarrow>
     plan_loop (raw # rest) n acc saw = None"
  "trim raw \<noteq> [] \<Longrightarrow> parse_one_spec (trim raw) n = Some SpecUnsatisfiable \<Longrightarrow>
     plan_loop (raw # rest) n acc saw = plan_loop rest n acc True"
  "trim raw \<noteq> [] \<Longrightarrow> parse_one_spec (trim raw) n = Some (SpecRange r) \<Longrightarrow>
     plan_loop (raw # rest) n acc saw = plan_loop rest n (acc @ [r]) True"
  by (simp_all add: Let_def)

lemma spec_cases:
  obtains "trim raw = []"
  | "trim raw \<noteq> []" "parse_one_spec (trim raw) n = None"
  | "trim raw \<noteq> []" "parse_one_spec (trim raw) n = Some SpecUnsatisfiable"
  | r where "trim raw \<noteq> []" "parse_one_spec (trim raw) n = Some (SpecRange r)"
  by (cases "trim raw = []"; cases "parse_one_spec (trim raw) n";
      cases "the (parse_one_spec (trim raw) n)") auto

lemma plan_loop_ok:
  "plan_loop ss n acc saw = Some (rs, saw') \<Longrightarrow> \<forall>r \<in> set acc. range_ok n r \<Longrightarrow>
     \<forall>r \<in> set rs. range_ok n r"
proof (induction ss arbitrary: acc saw)
  case Nil
  then show ?case by simp
next
  case (Cons raw rest)
  show ?case
  proof (cases rule: spec_cases [where raw = raw and n = n])
    case (4 r)
    then have "plan_loop rest n (acc @ [r]) True = Some (rs, saw')"
      using Cons.prems(1) by (simp add: plan_loop_step del: plan_loop.simps)
    moreover have "\<forall>r \<in> set (acc @ [r]). range_ok n r"
      using Cons.prems(2) 4 by (auto dest: parse_one_spec_ok)
    ultimately show ?thesis by (rule Cons.IH)
  qed (use Cons in \<open>simp_all add: plan_loop_step del: plan_loop.simps\<close>)
qed

section \<open>The reference meaning of a range spec\<close>

text \<open>
  RFC 9110, section 14.1.2: the three forms of a byte-range spec, their grammar, and the set of
  byte positions of an \<open>n\<close>-byte resource each one selects, all independent of the parser.
\<close>

datatype range_spec = FromTo u64 u64 | FromOn u64 | LastN u64

definition u64_digits :: "string \<Rightarrow> u64 \<Rightarrow> bool" where
  "u64_digits s v \<longleftrightarrow>
     s \<noteq> [] \<and> list_all is_ascii_digit s \<and> of_radix 10 s = unat v"

inductive spec_grammar :: "string \<Rightarrow> range_spec \<Rightarrow> bool" where
  last_n: "u64_digits ds k \<Longrightarrow> spec_grammar (''-'' @ ds) (LastN k)"
| from_on: "u64_digits ds a \<Longrightarrow> spec_grammar (ds @ ''-'') (FromOn a)"
| from_to: "u64_digits ds a \<Longrightarrow> u64_digits es b \<Longrightarrow> spec_grammar (ds @ ''-'' @ es) (FromTo a b)"

inductive_cases spec_grammar_LastN: "spec_grammar s (LastN k)"
inductive_cases spec_grammar_FromOn: "spec_grammar s (FromOn a)"
inductive_cases spec_grammar_FromTo: "spec_grammar s (FromTo a b)"

fun wanted :: "range_spec \<Rightarrow> u64 \<Rightarrow> nat set" where
  "wanted (FromTo a b) n = {i. unat a \<le> i \<and> i \<le> unat b \<and> i < unat n}"
| "wanted (FromOn a) n = {i. unat a \<le> i \<and> i < unat n}"
| "wanted (LastN k) n = {i. unat n - unat k \<le> i \<and> i < unat n}"

definition range_bytes :: "byte_range \<Rightarrow> nat set" where
  "range_bytes r = {unat (range_start r) .. unat (range_end r)}"

fun spec_meaning :: "spec_result \<Rightarrow> u64 \<Rightarrow> nat set \<Rightarrow> bool" where
  "spec_meaning SpecUnsatisfiable n W \<longleftrightarrow> W = {}"
| "spec_meaning (SpecRange r) n W \<longleftrightarrow> range_ok n r \<and> range_bytes r = W"

lemma u64_digits_parse: "u64_digits s v \<Longrightarrow> u64_from_str s = Some v"
  using unat_u64_less [of v] by (simp add: u64_digits_def u64_from_str_digits)

lemma u64_digits_iff:
  "is_all_ascii_digits s \<and> u64_from_str s = Some v \<longleftrightarrow> u64_digits s v"
  by (auto simp: is_all_ascii_digits_def u64_from_str_digits u64_digits_def unat_of_nat_u64
      split: if_splits intro: u64_digits_parse [unfolded u64_digits_def])

lemma u64_digits_dec: "u64_digits (dec_u64 v) v"
  by (auto simp: u64_digits_def list_all_iff dec_u64_digits)
     (simp add: dec_u64_def of_radix_to_radix)

lemma u64_digits_no_minus: "u64_digits s v \<Longrightarrow> CHR ''-'' \<notin> set s"
  by (auto simp: u64_digits_def list_all_iff is_ascii_digit_def)

lemma u64_digits_ne: "u64_digits s v \<Longrightarrow> s \<noteq> []"
  by (simp add: u64_digits_def)

lemma open_ended_meaning: "spec_meaning (open_ended_spec a n) n (wanted (FromOn a) n)"
  unfolding open_ended_spec_def
  by (auto simp: range_ok_def range_bytes_def pred_less_u64 le_pred_u64 not_le word_le_nat_alt
      unat_minus_one_u64 word_less_nat_alt unat_gt_0)

lemma spec_meaning_inj: "spec_meaning r1 n W \<Longrightarrow> spec_meaning r2 n W \<Longrightarrow> r1 = r2"
  by (cases r1; cases r2)
     (auto simp: range_ok_def range_bytes_def Icc_eq_Icc word_le_nat_alt unat_inj_u64)

lemma range_meaning:
  assumes "b < n" "a \<le> b"
    and "W = {i. unat a \<le> i \<and> i \<le> unat b}"
  shows "spec_meaning (SpecRange \<lparr>range_start = a, range_end = b\<rparr>) n W"
  using assms by (auto simp: range_ok_def range_bytes_def)

lemma parse_suffix_meaning:
  assumes "u64_digits ds k"
  shows "\<exists>res. parse_suffix_spec ds n = Some res \<and> spec_meaning res n (wanted (LastN k) n)"
proof -
  note ds = assms [THEN u64_digits_ne] assms [folded u64_digits_iff]
  show ?thesis
  proof (cases "k = 0 \<or> n = 0")
    case True
    with ds show ?thesis by (auto simp: parse_suffix_spec_def)
  next
    case False
    then have n: "unat (n - 1) = unat n - 1" "n - 1 < n" "0 < unat n" "0 < unat k"
      by (simp_all add: unat_minus_one_u64 pred_less_u64 unat_gt_0)
    show ?thesis
    proof (cases "k \<ge> n")
      case True
      then have "unat n \<le> unat k" by (simp add: word_le_nat_alt)
      then have "spec_meaning (SpecRange \<lparr>range_start = 0, range_end = n - 1\<rparr>) n (wanted (LastN k) n)"
        using n by (intro range_meaning) auto
      with ds False True show ?thesis by (simp add: parse_suffix_spec_def)
    next
      case less: False
      then have "unat (n - k) = unat n - unat k" "unat k < unat n"
        using unat_diff_u64 [of k n] by (auto simp: word_less_nat_alt word_le_nat_alt)
      then have "spec_meaning (SpecRange \<lparr>range_start = n - k, range_end = n - 1\<rparr>) n
          (wanted (LastN k) n)"
        using n by (intro range_meaning) (auto simp: word_le_nat_alt)
      with ds False less show ?thesis by (simp add: parse_suffix_spec_def)
    qed
  qed
qed

lemma parse_suffix_Some: "parse_suffix_spec ds n = Some res \<Longrightarrow> \<exists>k. u64_digits ds k"
  by (auto simp: parse_suffix_spec_def u64_digits_iff [symmetric] split: if_splits option.splits)

lemma from_to_meaning:
  assumes "\<not> b < a" "a < n"
  shows "spec_meaning (SpecRange \<lparr>range_start = a, range_end = min b (n - 1)\<rparr>) n
    (wanted (FromTo a b) n)"
proof (rule range_meaning)
  have "n \<noteq> 0" using assms by auto
  then have "unat (min b (n - 1)) = min (unat b) (unat n - 1)" "0 < unat n"
    by (simp_all add: unat_min_u64 unat_minus_one_u64 unat_gt_0)
  then show "min b (n - 1) < n" "a \<le> min b (n - 1)"
    "wanted (FromTo a b) n = {i. unat a \<le> i \<and> i \<le> unat (min b (n - 1))}"
    using assms by (auto simp: word_less_nat_alt word_le_nat_alt)
qed

lemma strip_minus_none: "u64_digits ds a \<Longrightarrow> strip_prefix_of ''-'' (ds @ xs) = None"
  using u64_digits_no_minus [of ds a] u64_digits_ne [of ds a]
  by (cases ds) (auto simp: strip_prefix_of_None)

lemma split_once_digits:
  "u64_digits ds a \<Longrightarrow> split_once (CHR ''-'') (ds @ CHR ''-'' # xs) = Some (ds, xs)"
  by (simp add: split_once_Some u64_digits_no_minus)

lemma parse_grammar:
  "spec_grammar s sp \<Longrightarrow>
     \<exists>res. parse_one_spec s n = Some res \<and> spec_meaning res n (wanted sp n)"
proof (induction rule: spec_grammar.induct)
  case (last_n ds k)
  then show ?case
    using parse_suffix_meaning by (simp add: parse_one_spec_def del: wanted.simps)
next
  case (from_on ds a)
  then have "parse_one_spec (ds @ ''-'') n = Some (open_ended_spec a n)"
    using u64_digits_iff [of ds a]
    by (simp add: parse_one_spec_def strip_minus_none split_once_digits u64_digits_ne)
  then show ?case using open_ended_meaning by blast
next
  case (from_to ds a es b)
  then have p: "parse_one_spec (ds @ ''-'' @ es) n =
      (if b < a then Some SpecUnsatisfiable
       else if n = 0 \<or> a \<ge> n then Some SpecUnsatisfiable
       else Some (SpecRange \<lparr>range_start = a, range_end = min b (n - 1)\<rparr>))"
    using u64_digits_iff [of ds a] u64_digits_iff [of es b]
    by (simp add: parse_one_spec_def strip_minus_none split_once_digits u64_digits_ne)
  show ?case
  proof (cases "b < a \<or> n = 0 \<or> a \<ge> n")
    case True
    then have "wanted (FromTo a b) n = {}" by (auto simp: word_less_nat_alt word_le_nat_alt)
    with p True show ?thesis by auto
  next
    case False
    with p from_to_meaning [of b a n] show ?thesis by (auto simp del: wanted.simps)
  qed
qed

lemma parse_Some_grammar: "parse_one_spec s n = Some res \<Longrightarrow> \<exists>sp. spec_grammar s sp"
proof (cases "strip_prefix_of ''-'' s")
  case (Some ds)
  moreover assume "parse_one_spec s n = Some res"
  ultimately obtain k where "s = ''-'' @ ds" "u64_digits ds k"
    by (auto simp: parse_one_spec_def dest: parse_suffix_Some)
  then show ?thesis by (metis spec_grammar.last_n)
next
  case None
  moreover assume "parse_one_spec s n = Some res"
  ultimately have p: "(case split_once (CHR ''-'') s of None \<Rightarrow> False
      | Some (ds, es) \<Rightarrow> \<exists>a. u64_digits ds a \<and> (es = [] \<or> (\<exists>b. u64_digits es b)))"
    unfolding u64_digits_iff [symmetric]
    by (simp add: parse_one_spec_def split: option.splits prod.splits if_splits)
  then obtain ds es a where s: "split_once (CHR ''-'') s = Some (ds, es)"
    and a: "u64_digits ds a"
    and es: "es = [] \<or> (\<exists>b. u64_digits es b)"
    by (auto split: option.splits)
  from s have "s = ds @ ''-'' @ es" by (simp add: split_once_Some)
  then show ?thesis
    using a es from_on [of ds a] from_to [of ds a es] by auto
qed

lemma parse_one_spec_iff:
  "parse_one_spec s n = Some res \<longleftrightarrow>
     (\<exists>sp. spec_grammar s sp \<and> spec_meaning res n (wanted sp n))"
proof
  assume "parse_one_spec s n = Some res"
  moreover then obtain sp where "spec_grammar s sp" using parse_Some_grammar by blast
  ultimately show "\<exists>sp. spec_grammar s sp \<and> spec_meaning res n (wanted sp n)"
    using parse_grammar [of s sp n] by auto
next
  assume "\<exists>sp. spec_grammar s sp \<and> spec_meaning res n (wanted sp n)"
  then show "parse_one_spec s n = Some res"
    using parse_grammar spec_meaning_inj by (metis (full_types))
qed

section \<open>What the planning loop computes\<close>

definition parsed_specs :: "string list \<Rightarrow> u64 \<Rightarrow> spec_result option list" where
  "parsed_specs ss n = map (\<lambda>s. parse_one_spec s n) (filter (\<lambda>s. s \<noteq> []) (map trim ss))"

fun satisfied :: "spec_result option list \<Rightarrow> byte_range list" where
  "satisfied [] = []"
| "satisfied (Some (SpecRange r) # ps) = r # satisfied ps"
| "satisfied (p # ps) = satisfied ps"

lemma plan_loop_eq:
  "plan_loop ss n acc saw =
     (if None \<in> set (parsed_specs ss n) then None
      else Some (acc @ satisfied (parsed_specs ss n), saw \<or> parsed_specs ss n \<noteq> []))"
proof (induction ss arbitrary: acc saw)
  case Nil
  then show ?case by (simp add: parsed_specs_def)
next
  case (Cons raw rest)
  have step: "parsed_specs (raw # rest) n =
      (if trim raw = [] then parsed_specs rest n
       else parse_one_spec (trim raw) n # parsed_specs rest n)"
    by (simp add: parsed_specs_def)
  show ?case
    by (cases rule: spec_cases [where raw = raw and n = n])
       (simp_all add: plan_loop_step step Cons del: plan_loop.simps)
qed

lemma satisfied_meaning:
  "list_all2 (\<lambda>p W. \<exists>res. p = Some res \<and> spec_meaning res n W) ps Ws \<Longrightarrow>
     map range_bytes (satisfied ps) = filter (\<lambda>W. W \<noteq> {}) Ws \<and>
     (\<forall>r \<in> set (satisfied ps). range_ok n r)"
proof (induction rule: list_all2_induct)
  case Nil
  then show ?case by simp
next
  case (Cons p ps W Ws)
  then obtain res where p: "p = Some res" "spec_meaning res n W" by blast
  show ?case
  proof (cases res)
    case SpecUnsatisfiable
    with Cons p show ?thesis by simp
  next
    case (SpecRange r)
    with p have "W \<noteq> {}"
      by (auto simp: range_ok_def range_bytes_def word_le_nat_alt)
    with SpecRange Cons p show ?thesis by simp
  qed
qed

text \<open>Set \<open>A\<close> lies strictly before set \<open>B\<close>.\<close>

definition before :: "nat set \<Rightarrow> nat set \<Rightarrow> bool" where
  "before A B \<longleftrightarrow> (\<forall>a \<in> A. \<forall>b \<in> B. a < b)"

lemma range_bytes_ne: "range_ok n r \<Longrightarrow> range_bytes r \<noteq> {}"
  by (auto simp: range_ok_def range_bytes_def word_le_nat_alt)

lemma before_Icc: "a \<le> b \<Longrightarrow> c \<le> d \<Longrightarrow> before {a..b} {c..d} \<longleftrightarrow> b < c"
  unfolding before_def by (meson atLeastAtMost_iff le_less_trans less_le_trans order_refl)

lemma before_range_bytes:
  "range_ok n a \<Longrightarrow> range_ok n b \<Longrightarrow>
     before (range_bytes a) (range_bytes b) \<longleftrightarrow> range_end a < range_start b"
  unfolding range_bytes_def
  by (subst before_Icc) (auto simp: range_ok_def word_le_nat_alt word_less_nat_alt)

lemma ascending_iff_before:
  "\<forall>r \<in> set rs. range_ok n r \<Longrightarrow>
     is_ascending_non_overlapping rs \<longleftrightarrow> sorted_wrt before (map range_bytes rs)"
proof (induction rs rule: is_ascending_non_overlapping.induct)
  case (1 a b rs)
  have ab: "before (range_bytes a) (range_bytes b) \<longleftrightarrow> range_end a < range_start b"
    using "1.prems" before_range_bytes [of n a b] by simp
  have b: "range_bytes b \<noteq> {}" using "1.prems" range_bytes_ne by auto
  have "before (range_bytes a) X"
    if "before (range_bytes a) (range_bytes b)" "before (range_bytes b) X" for X
    using that b unfolding before_def by (metis all_not_in_conv less_trans)
  with 1 ab show ?case by auto
qed auto

lemma card_range_bytes: "range_ok n r \<Longrightarrow> card (range_bytes r) = unat (range_len r)"
  by (simp add: range_len_ok range_bytes_def) (auto simp: range_ok_def word_le_nat_alt)

lemma range_bytes_subset: "range_ok n r \<Longrightarrow> range_bytes r \<subseteq> {..<unat n}"
  by (auto simp: range_bytes_def range_ok_def word_less_nat_alt)

lemma card_Union_before:
  "sorted_wrt before Ws \<Longrightarrow> \<forall>W \<in> set Ws. finite W \<Longrightarrow>
     card (\<Union> (set Ws)) = sum_list (map card Ws)"
proof (induction Ws)
  case Nil
  then show ?case by simp
next
  case (Cons W Ws)
  then have "W \<inter> \<Union> (set Ws) = {}" by (fastforce simp: before_def)
  with Cons show ?case by (simp add: card_Un_disjoint)
qed

lemma total_len_bounded:
  assumes ok: "\<forall>r \<in> set rs. range_ok n r" and asc: "is_ascending_non_overlapping rs"
  shows "sum_list (map (\<lambda>r. unat (range_len r)) rs) \<le> unat n"
proof -
  have "sum_list (map (\<lambda>r. unat (range_len r)) rs) = sum_list (map card (map range_bytes rs))"
    using ok card_range_bytes [of n]
    by (auto simp: comp_def intro!: arg_cong [where f = sum_list])
  also have "\<dots> = card (\<Union> (set (map range_bytes rs)))"
    using ok asc by (subst card_Union_before) (auto simp: ascending_iff_before range_bytes_def)
  also have "\<dots> \<le> card {..<unat n}"
    using ok range_bytes_subset by (intro card_mono) (auto simp: Ball_def)
  finally show ?thesis by simp
qed

section \<open>The planner's contract\<close>

locale range_planner =
  fixes plan :: "string \<Rightarrow> u64 \<Rightarrow> range_policy \<Rightarrow> range_outcome"
  assumes single_ok: "plan h n pol = Single r \<Longrightarrow> range_ok n r"
    and multi_ok: "plan h n pol = Multi rs \<Longrightarrow> r \<in> set rs \<Longrightarrow> range_ok n r"
    and multi_ascending: "plan h n pol = Multi rs \<Longrightarrow> is_ascending_non_overlapping rs"
    and multi_allowed:
      "plan h n pol = Multi rs \<Longrightarrow> allow_multi pol \<and> 2 \<le> length rs \<and> length rs \<le> max_parts pol"
begin

lemma multi_total:
  "plan h n pol = Multi rs \<Longrightarrow> sum_list (map (\<lambda>r. unat (range_len r)) rs) \<le> unat n"
  by (rule total_len_bounded) (auto dest: multi_ok multi_ascending)

lemma empty_resource: "plan h 0 pol = Full \<or> plan h 0 pol = Unsatisfiable"
proof (cases "plan h 0 pol")
  case (Single r)
  then show ?thesis using single_ok [of h 0 pol r] by (simp add: range_ok_def)
next
  case (Multi rs)
  then show ?thesis
    using multi_allowed [OF Multi] multi_ok [OF Multi, of "hd rs"]
    by (cases rs) (auto simp: range_ok_def)
qed auto

end

lemma satisfied_ok: "\<forall>r \<in> set (satisfied (parsed_specs ss n)). range_ok n r"
proof (induction ss)
  case Nil
  then show ?case by (simp add: parsed_specs_def)
next
  case (Cons raw rest)
  show ?case
    by (cases rule: spec_cases [where raw = raw and n = n])
       (use Cons parse_one_spec_ok in \<open>auto simp: parsed_specs_def\<close>)
qed

lemma plan_ranges_eq:
  "h = ''bytes='' @ s \<Longrightarrow> plan_ranges h n pol =
     (let ps = parsed_specs (split_on (CHR '','') s) n; rs = satisfied ps in
      if None \<in> set ps \<or> ps = [] then Full
      else if rs = [] then Unsatisfiable
      else if length rs = 1 then Single (rs ! 0)
      else if \<not> allow_multi pol \<or> length rs > max_parts pol \<or>
        \<not> is_ascending_non_overlapping rs then Full
      else Multi rs)"
  by (simp add: plan_ranges_def plan_loop_eq Let_def)

lemma plan_ranges_prefix: "plan_ranges h n pol \<noteq> Full \<Longrightarrow> \<exists>s. h = ''bytes='' @ s"
  by (cases "strip_prefix_of ''bytes='' h") (auto simp: plan_ranges_def)

interpretation plan: range_planner plan_ranges
proof
  fix h n pol r rs
  show "range_ok n r" if p: "plan_ranges h n pol = Single r"
  proof -
    obtain s where h: "h = ''bytes='' @ s" using plan_ranges_prefix [of h n pol] p by auto
    show ?thesis
      using satisfied_ok [of "split_on (CHR '','') s" n] p
      unfolding plan_ranges_eq [OF h]
      by (cases "satisfied (parsed_specs (split_on (CHR '','') s) n)")
         (auto simp: Let_def split: if_splits)
  qed
  assume p: "plan_ranges h n pol = Multi rs"
  then obtain s where h: "h = ''bytes='' @ s" using plan_ranges_prefix [of h n pol] by auto
  have rs: "rs = satisfied (parsed_specs (split_on (CHR '','') s) n)"
    "rs \<noteq> []" "length rs \<noteq> 1" "allow_multi pol" "length rs \<le> max_parts pol"
    "is_ascending_non_overlapping rs"
    using p unfolding plan_ranges_eq [OF h] by (auto simp: Let_def split: if_splits)
  then show "is_ascending_non_overlapping rs"
    "allow_multi pol \<and> 2 \<le> length rs \<and> length rs \<le> max_parts pol"
    by (auto simp: numeral_2_eq_2 Suc_le_eq neq_Nil_conv)
  show "r \<in> set rs \<Longrightarrow> range_ok n r"
    using rs(1) satisfied_ok by auto
qed

section \<open>Printed headers\<close>

fun spec_text :: "range_spec \<Rightarrow> string" where
  "spec_text (FromTo a b) = dec_u64 a @ ''-'' @ dec_u64 b"
| "spec_text (FromOn a) = dec_u64 a @ ''-''"
| "spec_text (LastN k) = ''-'' @ dec_u64 k"

definition range_header_text :: "range_spec list \<Rightarrow> string" where
  "range_header_text specs = ''bytes='' @ join_with '','' (map spec_text specs)"

lemma spec_text_grammar: "spec_grammar (spec_text sp) sp"
  using last_n [OF u64_digits_dec] from_on [OF u64_digits_dec] from_to [OF u64_digits_dec u64_digits_dec]
  by (cases sp) simp_all

lemma spec_text_ne [simp]: "spec_text sp \<noteq> []"
  by (cases sp) auto

lemma spec_text_chars: "c \<in> set (spec_text sp) \<Longrightarrow> is_ascii_digit c \<or> c = CHR ''-''"
  by (cases sp) (auto dest: dec_u64_digits)

lemma trim_spec_text: "trim (spec_text sp) = spec_text sp"
proof (rule trim_graphic)
  have "ascii_graphic c" if "c \<in> set (spec_text sp)" for c
    using spec_text_chars [OF that] is_ascii_digit_graphic by (auto simp: ascii_graphic_def)
  then show "ascii_graphic (hd (spec_text sp))" "ascii_graphic (last (spec_text sp))" by simp_all
qed simp

lemma split_printed:
  "specs \<noteq> [] \<Longrightarrow> split_on (CHR '','') (join_with '','' (map spec_text specs)) = map spec_text specs"
  by (rule split_on_join) (auto dest!: spec_text_chars simp: is_ascii_digit_def)

lemma parsed_printed: "parsed_specs (map spec_text specs) n = map (\<lambda>sp. parse_one_spec (spec_text sp) n) specs"
  by (simp add: parsed_specs_def comp_def trim_spec_text)

lemma printed_meaning:
  "list_all2 (\<lambda>p W. \<exists>res. p = Some res \<and> spec_meaning res n W)
     (parsed_specs (map spec_text specs) n) (map (\<lambda>sp. wanted sp n) specs)"
  unfolding parsed_printed
  using parse_grammar [OF spec_text_grammar] by (auto simp: list.rel_map intro!: list.rel_refl)

definition wanted_sets :: "range_spec list \<Rightarrow> u64 \<Rightarrow> nat set list" where
  "wanted_sets specs n = filter (\<lambda>W. W \<noteq> {}) (map (\<lambda>sp. wanted sp n) specs)"

lemma list_all2_not_None:
  "list_all2 (\<lambda>p W. \<exists>res. p = Some res \<and> Q res W) ps Ws \<Longrightarrow> None \<notin> set ps"
  by (induction rule: list_all2_induct) auto

lemma wanted_finite: "finite (wanted sp n)"
  by (cases sp) auto

text \<open>
  C13: A \<^verbatim>\<open>Range\<close> header that lists any byte-range specs, printed in decimal, is planned by
  their RFC meaning: with \<open>Ws\<close> the non-empty sets of positions the specs select (in order), no set
  gives 416; one set is served as exactly that set; several are served as exactly those sets when
  the policy allows it, they number at most \<open>max_parts\<close>, and each lies before the next; in every
  other case the whole resource is served.
\<close>

theorem plan_ranges_printed:
  fixes specs :: "range_spec list" and n :: u64 and pol :: range_policy
  assumes "specs \<noteq> []"
  defines "Ws \<equiv> wanted_sets specs n"
  shows "case plan_ranges (range_header_text specs) n pol of
      Unsatisfiable \<Rightarrow> Ws = []
    | Single r \<Rightarrow> Ws = [range_bytes r]
    | Multi rs \<Rightarrow> Ws = map range_bytes rs \<and> 2 \<le> length Ws \<and> allow_multi pol \<and>
        length Ws \<le> max_parts pol \<and> sorted_wrt before Ws
    | Full \<Rightarrow> 2 \<le> length Ws \<and>
        \<not> (allow_multi pol \<and> length Ws \<le> max_parts pol \<and> sorted_wrt before Ws)"
proof -
  let ?ps = "parsed_specs (map spec_text specs) n"
  have ps: "None \<notin> set ?ps" "?ps \<noteq> []"
    using list_all2_not_None [OF printed_meaning] assms(1) by (auto simp: parsed_printed)
  have Ws: "Ws = map range_bytes (satisfied ?ps)" and ok: "\<forall>r \<in> set (satisfied ?ps). range_ok n r"
    using satisfied_meaning [OF printed_meaning [of n specs]] by (simp_all add: Ws_def wanted_sets_def)
  have "plan_ranges (range_header_text specs) n pol =
     (let rs = satisfied ?ps in
      if rs = [] then Unsatisfiable
      else if length rs = 1 then Single (rs ! 0)
      else if \<not> allow_multi pol \<or> length rs > max_parts pol \<or>
        \<not> is_ascending_non_overlapping rs then Full
      else Multi rs)"
    using ps by (simp add: plan_ranges_eq [OF range_header_text_def] split_printed assms(1) Let_def)
  moreover have "xs \<noteq> [] \<and> length xs \<noteq> 1 \<longleftrightarrow> 2 \<le> length xs" for xs :: "byte_range list"
    by (cases xs; cases "tl xs") auto
  ultimately show ?thesis
    unfolding Ws ascending_iff_before [OF ok, symmetric]
    by (cases "satisfied ?ps" rule: list.exhaust)
       (auto simp: Let_def length_Suc_conv not_le numeral_2_eq_2 Suc_le_eq neq_Nil_conv)
qed

lemma plan_example:
  "plan_ranges (range_header_text [FromTo 0 0, LastN 1]) 10000 \<lparr>allow_multi = True, max_parts = 50\<rparr> =
     Multi [\<lparr>range_start = 0, range_end = 0\<rparr>, \<lparr>range_start = 9999, range_end = 9999\<rparr>]"
  by (simp add: plan_ranges_def range_header_text_def parse_one_spec_def parse_suffix_spec_def
      is_all_ascii_digits_def word_le_nat_alt std_simps)

theorem plan_ranges_printed_witness:
  "wanted_sets [FromTo 0 0, LastN 1] 10000 = [{0}, {9999}]"
  using plan_ranges_printed [of "[FromTo 0 0, LastN 1]" 10000 "\<lparr>allow_multi = True, max_parts = 50\<rparr>"]
  by (simp add: plan_example range_bytes_def)

text \<open>
  C24: Whatever the header, a planned single range lies within the resource; planned multiple
  ranges lie within it, are strictly ascending and disjoint, number between two and \<open>max_parts\<close>,
  and together never exceed the size of the resource, so a multi-range request cannot amplify.
\<close>

theorem plan_ranges_bounds:
  "case plan_ranges h n pol of
     Single r \<Rightarrow> range_ok n r \<and> unat (range_len r) \<le> unat n
   | Multi rs \<Rightarrow> (\<forall>r \<in> set rs. range_ok n r) \<and> sorted_wrt before (map range_bytes rs) \<and>
       allow_multi pol \<and> 2 \<le> length rs \<and> length rs \<le> max_parts pol \<and>
       sum_list (map (\<lambda>r. unat (range_len r)) rs) \<le> unat n
   | _ \<Rightarrow> True"
proof (cases "plan_ranges h n pol")
  case (Single r)
  then have "range_ok n r" by (rule plan.single_ok)
  with Single show ?thesis
    using total_len_bounded [of "[r]" n] by simp
next
  case (Multi rs)
  then have "\<forall>r \<in> set rs. range_ok n r" by (blast dest: plan.multi_ok)
  with Multi show ?thesis
    using plan.multi_allowed [OF Multi] plan.multi_total [OF Multi] plan.multi_ascending [OF Multi]
    by (simp add: ascending_iff_before)
qed auto

theorem plan_ranges_bounds_witness:
  "range_ok 10000 \<lparr>range_start = 9500, range_end = 9999\<rparr>"
proof -
  have "plan_ranges ''bytes=-500'' 10000 \<lparr>allow_multi = True, max_parts = 50\<rparr>
    = Single \<lparr>range_start = 9500, range_end = 9999\<rparr>"
    by (simp add: plan_ranges_def parse_one_spec_def parse_suffix_spec_def
        is_all_ascii_digits_def std_simps)
  then show ?thesis
    using plan_ranges_bounds [where h = "''bytes=-500''" and n = 10000
        and pol = "\<lparr>allow_multi = True, max_parts = 50\<rparr>"]
    by simp
qed

section \<open>The multipart body\<close>

definition part_bytes :: "bytes \<Rightarrow> byte_range \<Rightarrow> bytes" where
  "part_bytes content r = slice content (unat (range_start r)) (unat (range_len r))"

definition multipart_body :: "bytes \<Rightarrow> multipart_part list \<Rightarrow> bytes \<Rightarrow> bytes" where
  "multipart_body content parts terminator =
     concat (map (\<lambda>p. part_header p @ part_bytes content (part_range p)) parts) @ terminator"

lemma length_part_bytes:
  "range_ok (of_nat (length content)) r \<Longrightarrow> length content < 2 ^ 64 \<Longrightarrow>
     length (part_bytes content r) = unat (range_len r)"
  unfolding part_bytes_def
  by (rule length_slice, subst range_len_ok [of "of_nat (length content)"])
     (auto simp: range_ok_def word_less_nat_alt word_le_nat_alt unat_of_nat_u64)

definition framed :: "nat \<Rightarrow> byte_range list \<Rightarrow> string \<Rightarrow> u64 \<Rightarrow> string \<Rightarrow> multipart_part list" where
  "framed i rs ct n b =
     map (\<lambda>(j, r). \<lparr>part_range = r, part_header = multipart_header j r ct n b\<rparr>) (enumerate i rs)"

lemma multipart_loop_eq:
  "multipart_loop i rs ct n b parts cl =
     (parts @ framed i rs ct n b,
      cl + sum_list (map (\<lambda>p. of_nat (length (part_header p)) + range_len (part_range p))
        (framed i rs ct n b)))"
  by (induction i rs ct n b parts cl rule: multipart_loop.induct)
     (simp_all add: framed_def Let_def add.assoc)

lemma multipart_parts_eq:
  "multipart_parts rs ct n b =
     (let parts = framed 0 rs ct n b; term = crlf @ ''--'' @ b @ ''--'' @ crlf in
      (parts, term,
       sum_list (map (\<lambda>p. of_nat (length (part_header p)) + range_len (part_range p)) parts)
       + of_nat (length term)))"
  by (simp add: multipart_parts_def multipart_loop_eq Let_def)

lemma framed_ranges: "map part_range (framed i rs ct n b) = rs"
  by (simp add: framed_def comp_def case_prod_unfold)

lemma sum_parts_length:
  "(\<And>p. p \<in> set parts \<Longrightarrow> of_nat (length (f p)) = (g p :: u64)) \<Longrightarrow>
     sum_list (map g parts) = of_nat (length (concat (map f parts)))"
  by (induction parts) simp_all

lemma multipart_length_wrapped:
  assumes "\<forall>r \<in> set rs. range_ok (of_nat (length content)) r" and "length content < 2 ^ 64"
    and "multipart_parts rs ct (of_nat (length content)) b = (parts, terminator, content_length)"
  shows "content_length = of_nat (length (multipart_body content parts terminator))"
proof -
  have parts: "parts = framed 0 rs ct (of_nat (length content)) b"
    and cl: "content_length = sum_list (map (\<lambda>p. of_nat (length (part_header p)) + range_len (part_range p)) parts)
        + of_nat (length terminator)"
    using assms(3) by (auto simp: multipart_parts_eq Let_def)
  have "part_range p \<in> set rs" if "p \<in> set parts" for p
    using that framed_ranges [of 0 rs ct "of_nat (length content)" b] unfolding parts
    by (metis in_set_conv_nth length_map nth_map nth_mem)
  then have "of_nat (length (part_header p @ part_bytes content (part_range p))) =
      of_nat (length (part_header p)) + range_len (part_range p)" if "p \<in> set parts" for p
    using that assms(1,2) by (simp add: length_part_bytes)
  then have "sum_list (map (\<lambda>p. of_nat (length (part_header p)) + range_len (part_range p)) parts)
      = (of_nat (length (concat (map (\<lambda>p. part_header p @ part_bytes content (part_range p)) parts))) :: u64)"
    by (rule sum_parts_length)
  then show ?thesis by (simp add: cl multipart_body_def)
qed

text \<open>
  For ranges within the file, the \<^verbatim>\<open>Content-Length\<close> announced for a
  \<^verbatim>\<open>multipart/byteranges\<close> response is the number of bytes of the body that is streamed (part
  headers, file slices and closing delimiter), up to the wrap-around of the 64-bit sum.
\<close>

theorem multipart_content_length:
  assumes "\<forall>r \<in> set rs. range_ok (of_nat (length content)) r" and "length content < 2 ^ 64"
    and "multipart_parts rs ct (of_nat (length content)) b = (parts, terminator, content_length)"
  shows "content_length = of_nat (length (multipart_body content parts terminator)) \<and>
    (length (multipart_body content parts terminator) < 2 ^ 64 \<longrightarrow>
      unat content_length = length (multipart_body content parts terminator))"
  using multipart_length_wrapped [OF assms] by (simp add: unat_of_nat_u64)

theorem multipart_content_length_witness:
  "snd (snd (multipart_parts [\<lparr>range_start = 0, range_end = 4\<rparr>] ''text/plain'' 8 ''B'')) =
     of_nat (length (multipart_body ''abcdefgh''
       (fst (multipart_parts [\<lparr>range_start = 0, range_end = 4\<rparr>] ''text/plain'' 8 ''B''))
       (fst (snd (multipart_parts [\<lparr>range_start = 0, range_end = 4\<rparr>] ''text/plain'' 8 ''B'')))))"
  using multipart_content_length [of "[\<lparr>range_start = 0, range_end = 4\<rparr>]" "''abcdefgh''" "''text/plain''" "''B''"]
  by (simp add: range_ok_def split: prod.splits)

end
