(* ===== verification/Validators.thy ===== *)
theory Validators
  imports Std_Num
begin

text \<open>
  \<^verbatim>\<open>envoy-files-core/src/validators.rs\<close>: entity tags, dates and conditional requests.
  The crates \<^verbatim>\<open>headers\<close>, \<^verbatim>\<open>http\<close> and \<^verbatim>\<open>httpdate\<close> are a record of functions
  (\<open>headers_crate\<close>); decoded headers \<open>'h\<close> and entity tags \<open>'t\<close> are opaque. What the
  code relies on is \<open>headers_contract\<close>: a header holding one strong entity tag decodes and compares
  by that tag.
\<close>

type_synonym i64 = "64 word"
type_synonym u32 = "32 word"

section \<open>The crates\<close>

datatype header_kind = IfMatch | IfUnmodifiedSince | IfNoneMatch | IfModifiedSince | IfRange

text \<open>
  A \<^verbatim>\<open>SystemTime\<close> is its offset from the epoch in seconds. \<open>hc_fmt_http_date\<close> is
  \<^verbatim>\<open>httpdate::fmt_http_date\<close>, \<open>None\<close> where it panics. \<open>hc_value_ok\<close> tells the byte strings
  \<^verbatim>\<open>HeaderValue\<close> accepts.
\<close>

record ('h, 't) headers_crate =
  hc_value_ok :: "bytes \<Rightarrow> bool"
  hc_str_ok :: "string \<Rightarrow> bool"
  hc_decode :: "header_kind \<Rightarrow> string \<Rightarrow> 'h option"
  hc_etag_from_str :: "string \<Rightarrow> 't option"
  hc_if_match_passes :: "'h \<Rightarrow> 't \<Rightarrow> bool"
  hc_if_none_match_passes :: "'h \<Rightarrow> 't \<Rightarrow> bool"
  hc_if_unmodified_since_passes :: "'h \<Rightarrow> int \<Rightarrow> bool"
  hc_if_modified_since_is_modified :: "'h \<Rightarrow> int \<Rightarrow> bool"
  hc_if_range_is_modified :: "'h \<Rightarrow> 't option \<Rightarrow> int option \<Rightarrow> bool"
  hc_fmt_http_date :: "int \<Rightarrow> string option"

section \<open>The code\<close>

record validators =
  val_etag :: string
  val_last_modified_unix :: i64

definition make_etag :: "u64 \<Rightarrow> i64 \<Rightarrow> u32 \<Rightarrow> string" where
  "make_etag sz mtime_unix mtime_nanos =
     [CHR 0x22] @ hex_u64 sz @ ''-'' @ hex_u64 mtime_unix @ ''.'' @
     to_radix 16 (unat mtime_nanos) @ [CHR 0x22]"

definition system_time :: "i64 \<Rightarrow> int" where
  "system_time unix =
     (if sint unix \<ge> 0 then 0 + int (unat unix) else 0 - int (nat (- sint unix)))"

definition format_http_date :: "('h, 't) headers_crate \<Rightarrow> i64 \<Rightarrow> string option" where
  "format_http_date hc unix = hc_fmt_http_date hc (system_time unix)"

record conditional_headers =
  ch_if_none_match :: "string option"
  ch_if_modified_since :: "string option"
  ch_if_match :: "string option"
  ch_if_unmodified_since :: "string option"
  ch_if_range :: "string option"

datatype condition = Proceed | NotModified | PreconditionFailed

definition decode :: "('h, 't) headers_crate \<Rightarrow> header_kind \<Rightarrow> string \<Rightarrow> 'h option" where
  "decode hc kind raw = (if hc_str_ok hc raw then hc_decode hc kind raw else None)"

definition resource_etag :: "('h, 't) headers_crate \<Rightarrow> validators \<Rightarrow> 't option" where
  "resource_etag hc v = hc_etag_from_str hc (val_etag v)"

definition evaluate_conditionals ::
  "('h, 't) headers_crate \<Rightarrow> conditional_headers \<Rightarrow> validators \<Rightarrow> condition" where
  "evaluate_conditionals hc headers v =
     (let etag = resource_etag hc v;
          last_modified = system_time (val_last_modified_unix v);
          failed =
            (case ch_if_match headers of
               Some raw \<Rightarrow>
                 (case (decode hc IfMatch raw, etag) of
                    (Some if_match, Some tag) \<Rightarrow> \<not> hc_if_match_passes hc if_match tag
                  | _ \<Rightarrow> False)
             | None \<Rightarrow>
                 (case ch_if_unmodified_since headers of
                    Some raw \<Rightarrow>
                      (case decode hc IfUnmodifiedSince raw of
                         Some d \<Rightarrow> \<not> hc_if_unmodified_since_passes hc d last_modified
                       | None \<Rightarrow> False)
                  | None \<Rightarrow> False)) in
      if failed then PreconditionFailed
      else
        let not_modified =
            (case ch_if_none_match headers of
               Some raw \<Rightarrow>
                 (case (decode hc IfNoneMatch raw, etag) of
                    (Some if_none_match, Some tag) \<Rightarrow> \<not> hc_if_none_match_passes hc if_none_match tag
                  | _ \<Rightarrow> False)
             | None \<Rightarrow>
                 (case ch_if_modified_since headers of
                    Some raw \<Rightarrow>
                      (case decode hc IfModifiedSince raw of
                         Some d \<Rightarrow> \<not> hc_if_modified_since_is_modified hc d last_modified
                       | None \<Rightarrow> False)
                  | None \<Rightarrow> False)) in
        if not_modified then NotModified else Proceed)"

definition if_range_matches :: "('h, 't) headers_crate \<Rightarrow> string \<Rightarrow> validators \<Rightarrow> bool" where
  "if_range_matches hc if_range v =
     (case decode hc IfRange if_range of
        None \<Rightarrow> False
      | Some d \<Rightarrow>
          \<not> hc_if_range_is_modified hc d (resource_etag hc v)
              (Some (system_time (val_last_modified_unix v))))"

section \<open>Entity tags\<close>

lemma system_time_sint: "system_time unix = sint unix"
proof (cases "sint unix \<ge> 0")
  case True
  then have "uint unix = sint unix"
    using sint_lt [of unix] by (simp add: uint_sint take_bit_int_eq_self)
  with True show ?thesis by (simp add: system_time_def)
qed (simp add: system_time_def)

text \<open>The strong entity tags of RFC 9110: a double-quoted string of visible characters.\<close>

definition strong_tag :: "string \<Rightarrow> bool" where
  "strong_tag s \<longleftrightarrow>
     (\<exists>body. s = [CHR 0x22] @ body @ [CHR 0x22] \<and> (\<forall>c \<in> set body. ascii_graphic c \<and> c \<noteq> CHR 0x22))"

lemma hex_text_lower_hex: "c \<in> set (to_radix 16 n) \<Longrightarrow> is_lower_hex c"
  by (rule to_radix_digits [of 16]) (auto simp: is_lower_hex_digit_char)

lemma make_etag_strong: "strong_tag (make_etag sz secs nanos)"
proof -
  have "ascii_graphic c \<and> c \<noteq> CHR 0x22" if "is_lower_hex c" for c
    using that is_lower_hex_graphic [OF that] by (auto simp: is_lower_hex_def is_ascii_digit_def)
  then show ?thesis
    unfolding strong_tag_def make_etag_def
    by (intro exI [of _ "hex_u64 sz @ ''-'' @ hex_u64 secs @ ''.'' @ to_radix 16 (unat nanos)"])
       (auto simp: ascii_graphic_def dest!: hex_u64_digits hex_text_lower_hex)
qed

lemma separated_inj:
  "(c :: char) \<notin> set a \<Longrightarrow> c \<notin> set b \<Longrightarrow> a @ c # x = b @ c # y \<longleftrightarrow> a = b \<and> x = y"
proof -
  assume a: "c \<notin> set a" and b: "c \<notin> set b"
  have "split_once c (a @ c # x) = Some (a, x)" using a by (simp add: split_once_Some)
  moreover have "split_once c (b @ c # y) = Some (b, y)" using b by (simp add: split_once_Some)
  ultimately show ?thesis by (cases "a = b") auto
qed

lemma make_etag_inj:
  "make_etag s m n = make_etag s' m' n' \<longleftrightarrow> s = s' \<and> m = m' \<and> n = n'"
proof
  assume eq: "make_etag s m n = make_etag s' m' n'"
  have nd: "CHR ''-'' \<notin> set (hex_u64 w)" "CHR ''.'' \<notin> set (hex_u64 w)" for w
    by (auto simp: is_lower_hex_def is_ascii_digit_def dest: hex_u64_digits)
  have "hex_u64 s = hex_u64 s' \<and> hex_u64 m = hex_u64 m' \<and>
      to_radix 16 (unat n) = to_radix 16 (unat n')"
    using eq nd by (simp add: make_etag_def separated_inj)
  then show "s = s' \<and> m = m' \<and> n = n'"
    by (simp add: hex_u64_inj to_radix_inj word_unat_eq_iff)
qed simp

section \<open>What the crates promise\<close>

definition headers_contract :: "('h, 't) headers_crate \<Rightarrow> bool" where
  "headers_contract hc \<longleftrightarrow>
     (\<forall>a. strong_tag a \<longrightarrow>
        hc_str_ok hc a \<and> (\<exists>t. hc_etag_from_str hc a = Some t) \<and>
        (\<exists>h. hc_decode hc IfMatch a = Some h \<and>
           (\<forall>b t. strong_tag b \<and> hc_etag_from_str hc b = Some t \<longrightarrow> hc_if_match_passes hc h t = (a = b))) \<and>
        (\<exists>h. hc_decode hc IfNoneMatch a = Some h \<and>
           (\<forall>b t. strong_tag b \<and> hc_etag_from_str hc b = Some t \<longrightarrow> hc_if_none_match_passes hc h t = (a \<noteq> b))) \<and>
        (\<exists>h. hc_decode hc IfRange a = Some h \<and>
           (\<forall>b t d. strong_tag b \<and> hc_etag_from_str hc b = Some t \<longrightarrow>
              hc_if_range_is_modified hc h (Some t) d = (a \<noteq> b))))"

text \<open>Crates for closed examples: headers and tags are their text, dates are not understood.\<close>

definition sample_crate :: "(string, string) headers_crate" where
  "sample_crate =
     \<lparr>hc_value_ok = list_all (\<lambda>c. (32 \<le> (of_char c :: nat) \<and> of_char c \<noteq> (127 :: nat)) \<or> c = CHR 0x09),
      hc_str_ok = list_all (\<lambda>c. (32 \<le> (of_char c :: nat) \<and> (of_char c :: nat) < 127) \<or> c = CHR 0x09),
      hc_decode = (\<lambda>kind s. Some s),
      hc_etag_from_str = Some,
      hc_if_match_passes = (\<lambda>h t. h = t \<or> h = ''*''),
      hc_if_none_match_passes = (\<lambda>h t. \<not> (h = t \<or> h = ''*'')),
      hc_if_unmodified_since_passes = (\<lambda>h d. True),
      hc_if_modified_since_is_modified = (\<lambda>h d. True),
      hc_if_range_is_modified = (\<lambda>h t d. t \<noteq> Some h),
      hc_fmt_http_date = (\<lambda>d. if d < 0 then None else Some (to_radix 10 (nat d)))\<rparr>"

lemma strong_tag_not_star: "strong_tag a \<Longrightarrow> a \<noteq> ''*''"
  by (auto simp: strong_tag_def)

lemma sample_contract: "headers_contract sample_crate"
  unfolding headers_contract_def
proof (intro allI impI conjI)
  fix a assume a: "strong_tag a"
  then obtain body where "a = [CHR 0x22] @ body @ [CHR 0x22]" "list_all ascii_graphic body"
    by (auto simp: strong_tag_def list_all_iff)
  moreover have "ascii_graphic c \<Longrightarrow> 32 \<le> (of_char c :: nat) \<and> (of_char c :: nat) < 127" for c
    by (simp add: ascii_graphic_def)
  ultimately show "hc_str_ok sample_crate a"
    by (simp add: sample_crate_def list_all_iff)
  show "\<exists>t. hc_etag_from_str sample_crate a = Some t" by (simp add: sample_crate_def)
  show "\<exists>h. hc_decode sample_crate IfMatch a = Some h \<and>
     (\<forall>b t. strong_tag b \<and> hc_etag_from_str sample_crate b = Some t \<longrightarrow> hc_if_match_passes sample_crate h t = (a = b))"
    using strong_tag_not_star [OF a] by (simp add: sample_crate_def)
  show "\<exists>h. hc_decode sample_crate IfNoneMatch a = Some h \<and>
     (\<forall>b t. strong_tag b \<and> hc_etag_from_str sample_crate b = Some t \<longrightarrow> hc_if_none_match_passes sample_crate h t = (a \<noteq> b))"
    using strong_tag_not_star [OF a] by (simp add: sample_crate_def)
  show "\<exists>h. hc_decode sample_crate IfRange a = Some h \<and>
     (\<forall>b t d. strong_tag b \<and> hc_etag_from_str sample_crate b = Some t \<longrightarrow> hc_if_range_is_modified sample_crate h (Some t) d = (a \<noteq> b))"
    by (auto simp: sample_crate_def)
qed

section \<open>Properties\<close>

abbreviation no_conditionals :: conditional_headers where
  "no_conditionals \<equiv> \<lparr>ch_if_none_match = None, ch_if_modified_since = None, ch_if_match = None,
     ch_if_unmodified_since = None, ch_if_range = None\<rparr>"

abbreviation validators_of :: "u64 \<Rightarrow> i64 \<Rightarrow> u32 \<Rightarrow> validators" where
  "validators_of sz secs nanos \<equiv>
     \<lparr>val_etag = make_etag sz secs nanos, val_last_modified_unix = secs\<rparr>"

text \<open>
  C28: Entity tags tell versions apart: a client that sends back the tag of one version of a file, when
  the file has another version (size, seconds or nanoseconds of its modification time), has it
  match exactly when the versions are the same, in If-None-Match (304), If-Match (else 412) and
  If-Range alike.
\<close>

theorem etag_revalidation:
  assumes "headers_contract hc"
    and "tag = make_etag sz secs nanos" and "now = validators_of sz' secs' nanos'"
  shows "(evaluate_conditionals hc (no_conditionals\<lparr>ch_if_none_match := Some tag\<rparr>) now =
       (if (sz, secs, nanos) = (sz', secs', nanos') then NotModified else Proceed)) \<and>
    (evaluate_conditionals hc (no_conditionals\<lparr>ch_if_match := Some tag\<rparr>) now =
       (if (sz, secs, nanos) = (sz', secs', nanos') then Proceed else PreconditionFailed)) \<and>
    (if_range_matches hc tag now \<longleftrightarrow> (sz, secs, nanos) = (sz', secs', nanos'))"
proof -
  have tag: "strong_tag tag" "strong_tag (make_etag sz' secs' nanos')"
    by (simp_all add: assms(2) make_etag_strong)
  obtain t where t: "hc_etag_from_str hc (make_etag sz' secs' nanos') = Some t"
    using assms(1) tag(2) unfolding headers_contract_def by blast
  have ok: "hc_str_ok hc tag" using assms(1) tag unfolding headers_contract_def by blast
  obtain m where m: "hc_decode hc IfMatch tag = Some m"
      "hc_if_match_passes hc m t \<longleftrightarrow> tag = make_etag sz' secs' nanos'"
    using assms(1) tag t unfolding headers_contract_def by blast
  obtain n where n: "hc_decode hc IfNoneMatch tag = Some n"
      "hc_if_none_match_passes hc n t \<longleftrightarrow> tag \<noteq> make_etag sz' secs' nanos'"
    using assms(1) tag t unfolding headers_contract_def by blast
  have "\<exists>h. hc_decode hc IfRange tag = Some h \<and>
      (\<forall>b t d. strong_tag b \<and> hc_etag_from_str hc b = Some t \<longrightarrow> hc_if_range_is_modified hc h (Some t) d = (tag \<noteq> b))"
    using assms(1) [unfolded headers_contract_def, THEN spec, THEN mp, OF tag(1)] by (elim conjE)
  then obtain r where r: "hc_decode hc IfRange tag = Some r"
      "hc_if_range_is_modified hc r (Some t) d \<longleftrightarrow> tag \<noteq> make_etag sz' secs' nanos'" for d
    using tag(2) t by blast
  have same: "tag = make_etag sz' secs' nanos' \<longleftrightarrow> (sz, secs, nanos) = (sz', secs', nanos')"
    by (simp add: assms(2) make_etag_inj)
  show ?thesis
    by (simp add: assms(3) evaluate_conditionals_def if_range_matches_def decode_def
        resource_etag_def ok m n r t same) blast
qed

theorem etag_revalidation_witness:
  "evaluate_conditionals sample_crate (no_conditionals\<lparr>ch_if_none_match := Some (make_etag 10 5 0)\<rparr>)
     (validators_of 10 5 1) = Proceed"
  using etag_revalidation [OF sample_contract refl refl, of 10 5 0 10 5 1] by simp

end
