(* ===== verification/Response_Plan.thy ===== *)
theory Response_Plan
  imports Ranges Validators "HOL-Library.Monad_Syntax"
begin

text \<open>
  \<^verbatim>\<open>envoy-files-core/src/response_plan.rs\<close>: the response to one request against one file.
  A header is its name and value as bytes. The function is partial where the code panics: on a value
  \<^verbatim>\<open>HeaderValue::from_bytes\<close> refuses and on a date \<^verbatim>\<open>httpdate\<close> cannot format.
\<close>

section \<open>The code\<close>

type_synonym header = "string \<times> bytes"

definition header_value :: "('h, 't) headers_crate \<Rightarrow> bytes \<Rightarrow> bytes option" where
  "header_value hc bs = (if hc_value_ok hc bs then Some bs else None)"

record file_meta =
  fm_size :: u64
  fm_mtime_unix :: i64
  fm_mtime_nanos :: u32
  fm_is_dir :: bool

datatype body_plan =
    EmptyBody
  | WholeBody u64
  | SegmentsBody "byte_range list"
  | MultipartBody "multipart_part list" bytes u64

record request_facts =
  rf_method_head :: bool
  rf_conditionals :: conditional_headers
  rf_range_header :: "string option"
  rf_content_type :: string
  rf_etag_enabled :: bool
  rf_last_modified_enabled :: bool
  rf_range_policy :: range_policy
  rf_boundary :: string
  rf_content_encoding :: "string option"
  rf_add_vary :: bool
  rf_cache_control :: "string option"

record response_plan =
  plan_status :: nat
  plan_headers :: "header list"
  plan_body :: body_plan

definition push_validator_headers ::
  "('h, 't) headers_crate \<Rightarrow> header list \<Rightarrow> request_facts \<Rightarrow> validators \<Rightarrow> header list option"
where
  "push_validator_headers hc headers facts v =
     do {
       headers \<leftarrow>
         (if rf_etag_enabled facts then
            do { e \<leftarrow> header_value hc (val_etag v); Some (headers @ [(''etag'', e)]) }
          else Some headers);
       (if rf_last_modified_enabled facts then
          do { date \<leftarrow> format_http_date hc (val_last_modified_unix v);
               d \<leftarrow> header_value hc date;
               Some (headers @ [(''last-modified'', d)]) }
        else Some headers)
     }"

definition push_encoding_headers ::
  "('h, 't) headers_crate \<Rightarrow> header list \<Rightarrow> request_facts \<Rightarrow> header list option"
where
  "push_encoding_headers hc headers facts =
     (let headers =
          (case rf_content_encoding facts of
             Some enc \<Rightarrow> headers @ [(''content-encoding'', enc)]
           | None \<Rightarrow> headers);
          headers =
          (if rf_content_encoding facts \<noteq> None \<or> rf_add_vary facts
           then headers @ [(''vary'', ''Accept-Encoding'')] else headers) in
      case rf_cache_control facts of
        Some cc \<Rightarrow> do { v \<leftarrow> header_value hc cc; Some (headers @ [(''cache-control'', v)]) }
      | None \<Rightarrow> Some headers)"

definition effective_conditionals :: "request_facts \<Rightarrow> conditional_headers" where
  "effective_conditionals facts =
     \<lparr>ch_if_none_match =
        (if rf_etag_enabled facts then ch_if_none_match (rf_conditionals facts) else None),
      ch_if_modified_since =
        (if rf_last_modified_enabled facts then ch_if_modified_since (rf_conditionals facts) else None),
      ch_if_match =
        (if rf_etag_enabled facts then ch_if_match (rf_conditionals facts) else None),
      ch_if_unmodified_since =
        (if rf_last_modified_enabled facts then ch_if_unmodified_since (rf_conditionals facts) else None),
      ch_if_range = ch_if_range (rf_conditionals facts)\<rparr>"

definition meta_validators :: "file_meta \<Rightarrow> validators" where
  "meta_validators meta =
     \<lparr>val_etag = make_etag (fm_size meta) (fm_mtime_unix meta) (fm_mtime_nanos meta),
      val_last_modified_unix = fm_mtime_unix meta\<rparr>"

definition single_range_plan ::
  "('h, 't) headers_crate \<Rightarrow> request_facts \<Rightarrow> file_meta \<Rightarrow> byte_range \<Rightarrow> response_plan option" where
  "single_range_plan hc facts meta r =
     do {
       ct \<leftarrow> header_value hc (rf_content_type facts);
       headers \<leftarrow> push_validator_headers hc [(''content-type'', ct), (''accept-ranges'', ''bytes'')]
         facts (meta_validators meta);
       headers \<leftarrow> push_encoding_headers hc headers facts;
       cr \<leftarrow> header_value hc (content_range r (fm_size meta));
       Some \<lparr>plan_status = STATUS_PARTIAL_CONTENT,
         plan_headers = headers @ [(''content-range'', cr), (''content-length'', dec_u64 (range_len r))],
         plan_body = (if rf_method_head facts then EmptyBody else SegmentsBody [r])\<rparr>
     }"

definition multi_range_plan ::
  "('h, 't) headers_crate \<Rightarrow> request_facts \<Rightarrow> file_meta \<Rightarrow> byte_range list \<Rightarrow> response_plan option" where
  "multi_range_plan hc facts meta ranges =
     (let (parts, terminator, content_length) =
        multipart_parts ranges (rf_content_type facts) (fm_size meta) (rf_boundary facts) in
      do {
        headers \<leftarrow> push_validator_headers hc [(''accept-ranges'', ''bytes'')] facts (meta_validators meta);
        headers \<leftarrow> push_encoding_headers hc headers facts;
        ct \<leftarrow> header_value hc (''multipart/byteranges; boundary='' @ rf_boundary facts);
        Some \<lparr>plan_status = STATUS_PARTIAL_CONTENT,
          plan_headers = headers @ [(''content-type'', ct), (''content-length'', dec_u64 content_length)],
          plan_body = (if rf_method_head facts then EmptyBody
            else MultipartBody parts terminator content_length)\<rparr>
      })"

definition whole_plan ::
  "('h, 't) headers_crate \<Rightarrow> request_facts \<Rightarrow> file_meta \<Rightarrow> response_plan option" where
  "whole_plan hc facts meta =
     do {
       ct \<leftarrow> header_value hc (rf_content_type facts);
       headers \<leftarrow> push_validator_headers hc [(''content-type'', ct), (''accept-ranges'', ''bytes'')]
         facts (meta_validators meta);
       headers \<leftarrow> push_encoding_headers hc headers facts;
       Some \<lparr>plan_status = STATUS_OK,
         plan_headers = headers @ [(''content-length'', dec_u64 (fm_size meta))],
         plan_body = (if rf_method_head facts then EmptyBody else WholeBody (fm_size meta))\<rparr>
     }"

definition unsatisfiable_plan ::
  "('h, 't) headers_crate \<Rightarrow> file_meta \<Rightarrow> response_plan option" where
  "unsatisfiable_plan hc meta =
     do {
       cr \<leftarrow> header_value hc (content_range_unsatisfied (fm_size meta));
       Some \<lparr>plan_status = STATUS_RANGE_NOT_SATISFIABLE, plan_headers = [(''content-range'', cr)],
         plan_body = EmptyBody\<rparr>
     }"

definition plan_response ::
  "('h, 't) headers_crate \<Rightarrow> request_facts \<Rightarrow> file_meta \<Rightarrow> response_plan option" where
  "plan_response hc facts meta =
     (let v = meta_validators meta in
      case evaluate_conditionals hc (effective_conditionals facts) v of
        PreconditionFailed \<Rightarrow>
          Some \<lparr>plan_status = STATUS_PRECONDITION_FAILED, plan_headers = [], plan_body = EmptyBody\<rparr>
      | NotModified \<Rightarrow>
          do {
            headers \<leftarrow> push_validator_headers hc [] facts v;
            Some \<lparr>plan_status = STATUS_NOT_MODIFIED, plan_headers = headers, plan_body = EmptyBody\<rparr>
          }
      | Proceed \<Rightarrow>
          (case rf_range_header facts of
             None \<Rightarrow> whole_plan hc facts meta
           | Some range_header \<Rightarrow>
               let if_range_ok =
                 (case ch_if_range (rf_conditionals facts) of
                    Some if_range_value \<Rightarrow> if_range_matches hc if_range_value v
                  | None \<Rightarrow> True) in
               if if_range_ok then
                 (case plan_ranges range_header (fm_size meta) (rf_range_policy facts) of
                    Unsatisfiable \<Rightarrow> unsatisfiable_plan hc meta
                  | Single r \<Rightarrow> single_range_plan hc facts meta r
                  | Multi ranges \<Rightarrow> multi_range_plan hc facts meta ranges
                  | Full \<Rightarrow> whole_plan hc facts meta)
               else whole_plan hc facts meta))"

section \<open>What a plan sends\<close>

text \<open>The bytes of the body, given the content of the file.\<close>

fun body_bytes :: "bytes \<Rightarrow> body_plan \<Rightarrow> bytes" where
  "body_bytes content EmptyBody = []"
| "body_bytes content (WholeBody len) = slice content 0 (unat len)"
| "body_bytes content (SegmentsBody rs) = concat (map (part_bytes content) rs)"
| "body_bytes content (MultipartBody parts terminator _) = multipart_body content parts terminator"

definition header_of :: "string \<Rightarrow> response_plan \<Rightarrow> bytes option" where
  "header_of name plan = map_of (plan_headers plan) name"

text \<open>The range part of the decision, once the conditions hold.\<close>

definition effective_ranges ::
  "('h, 't) headers_crate \<Rightarrow> request_facts \<Rightarrow> file_meta \<Rightarrow> range_outcome" where
  "effective_ranges hc facts meta =
     (case rf_range_header facts of
        None \<Rightarrow> Full
      | Some h \<Rightarrow>
          if (case ch_if_range (rf_conditionals facts) of
                Some ir \<Rightarrow> if_range_matches hc ir (meta_validators meta) | None \<Rightarrow> True)
          then plan_ranges h (fm_size meta) (rf_range_policy facts) else Full)"

lemma plan_response_eq:
  "plan_response hc facts meta =
     (case evaluate_conditionals hc (effective_conditionals facts) (meta_validators meta) of
        PreconditionFailed \<Rightarrow>
          Some \<lparr>plan_status = STATUS_PRECONDITION_FAILED, plan_headers = [], plan_body = EmptyBody\<rparr>
      | NotModified \<Rightarrow>
          map_option (\<lambda>h. \<lparr>plan_status = STATUS_NOT_MODIFIED, plan_headers = h, plan_body = EmptyBody\<rparr>)
            (push_validator_headers hc [] facts (meta_validators meta))
      | Proceed \<Rightarrow>
          (case effective_ranges hc facts meta of
             Unsatisfiable \<Rightarrow> unsatisfiable_plan hc meta
           | Single r \<Rightarrow> single_range_plan hc facts meta r
           | Multi rs \<Rightarrow> multi_range_plan hc facts meta rs
           | Full \<Rightarrow> whole_plan hc facts meta))"
  by (auto simp: plan_response_def effective_ranges_def Let_def bind_map_option comp_def
      map_conv_bind_option split: condition.splits option.splits)

lemma effective_ranges_ok:
  "effective_ranges hc facts meta = Single r \<Longrightarrow> range_ok (fm_size meta) r"
  "effective_ranges hc facts meta = Multi rs \<Longrightarrow> r \<in> set rs \<Longrightarrow> range_ok (fm_size meta) r"
  by (auto simp: effective_ranges_def split: option.splits if_splits
      dest: plan.single_ok plan.multi_ok)

text \<open>The headers the two helpers add, and that they add nothing else.\<close>

definition adds_no_framing :: "header list \<Rightarrow> bool" where
  "adds_no_framing xs \<longleftrightarrow> map_of xs ''content-length'' = None \<and>
     map_of xs ''content-range'' = None \<and> map_of xs ''content-type'' = None"

lemma push_validator_headers_SomeD:
  "push_validator_headers hc h facts v = Some h' \<Longrightarrow> \<exists>x. h' = h @ x \<and> adds_no_framing x"
  by (fastforce simp: push_validator_headers_def adds_no_framing_def bind_eq_Some_conv split: if_splits)

lemma push_encoding_headers_SomeD:
  "push_encoding_headers hc h facts = Some h' \<Longrightarrow> \<exists>x. h' = h @ x \<and> adds_no_framing x"
  by (fastforce simp: push_encoding_headers_def adds_no_framing_def Let_def bind_eq_Some_conv
      split: if_splits option.splits)

lemmas plan_headers_SomeD = push_validator_headers_SomeD push_encoding_headers_SomeD

text \<open>The three successful plans, in terms of headers and bodies.\<close>

lemma whole_planD:
  assumes "whole_plan hc facts meta = Some plan"
  shows "plan_status plan = STATUS_OK"
    and "header_of ''content-length'' plan = Some (dec_u64 (fm_size meta))"
    and "plan_body plan = (if rf_method_head facts then EmptyBody else WholeBody (fm_size meta))"
    and "header_of ''content-range'' plan = None"
  using assms
  by (auto simp: whole_plan_def bind_eq_Some_conv header_of_def adds_no_framing_def map_of_append map_add_def
      dest!: plan_headers_SomeD)

lemma single_range_planD:
  assumes "single_range_plan hc facts meta r = Some plan"
  shows "plan_status plan = STATUS_PARTIAL_CONTENT"
    and "header_of ''content-length'' plan = Some (dec_u64 (range_len r))"
    and "plan_body plan = (if rf_method_head facts then EmptyBody else SegmentsBody [r])"
    and "header_of ''content-range'' plan = Some (content_range r (fm_size meta))"
  using assms
  by (auto simp: single_range_plan_def bind_eq_Some_conv header_of_def adds_no_framing_def map_of_append
      map_add_def header_value_def dest!: plan_headers_SomeD split: if_splits)

lemma multi_range_planD:
  assumes "multi_range_plan hc facts meta rs = Some plan"
    and "multipart_parts rs (rf_content_type facts) (fm_size meta) (rf_boundary facts) = (parts, tm, cl)"
  shows "plan_status plan = STATUS_PARTIAL_CONTENT"
    and "header_of ''content-length'' plan = Some (dec_u64 cl)"
    and "plan_body plan = (if rf_method_head facts then EmptyBody else MultipartBody parts tm cl)"
  using assms
  by (auto simp: multi_range_plan_def bind_eq_Some_conv header_of_def adds_no_framing_def map_of_append
      map_add_def header_value_def dest!: plan_headers_SomeD split: if_splits)

lemma error_plan_status:
  "unsatisfiable_plan hc meta = Some plan \<Longrightarrow>
     plan_status plan = STATUS_RANGE_NOT_SATISFIABLE \<and> plan_body plan = EmptyBody \<and>
     header_of ''content-range'' plan = Some (content_range_unsatisfied (fm_size meta))"
  by (auto simp: unsatisfiable_plan_def bind_eq_Some_conv header_of_def header_value_def split: if_splits)

section \<open>Properties\<close>

text \<open>
  C14: The response to a GET: 200 with exactly the content of the file, 206 with exactly the planned
  ranges of it (and a matching \<^verbatim>\<open>Content-Range\<close> when there is one), or no body at all.
\<close>

theorem plan_response_body:
  assumes "plan_response hc facts meta = Some plan" and "\<not> rf_method_head facts"
    and "fm_size meta = of_nat (length content)" and "length content < 2 ^ 64"
  shows "case (evaluate_conditionals hc (effective_conditionals facts) (meta_validators meta),
      effective_ranges hc facts meta) of
    (PreconditionFailed, _) \<Rightarrow> plan_status plan = STATUS_PRECONDITION_FAILED \<and> body_bytes content (plan_body plan) = []
  | (NotModified, _) \<Rightarrow> plan_status plan = STATUS_NOT_MODIFIED \<and> body_bytes content (plan_body plan) = []
  | (Proceed, Unsatisfiable) \<Rightarrow> plan_status plan = STATUS_RANGE_NOT_SATISFIABLE \<and>
      body_bytes content (plan_body plan) = [] \<and>
      header_of ''content-range'' plan = Some (content_range_unsatisfied (fm_size meta))
  | (Proceed, Single r) \<Rightarrow> plan_status plan = STATUS_PARTIAL_CONTENT \<and>
      body_bytes content (plan_body plan) = part_bytes content r \<and>
      header_of ''content-range'' plan = Some (content_range r (fm_size meta))
  | (Proceed, Multi rs) \<Rightarrow> plan_status plan = STATUS_PARTIAL_CONTENT \<and>
      (let (parts, tm, _) = multipart_parts rs (rf_content_type facts) (fm_size meta) (rf_boundary facts) in
       body_bytes content (plan_body plan) = multipart_body content parts tm)
  | (Proceed, Full) \<Rightarrow> plan_status plan = STATUS_OK \<and> body_bytes content (plan_body plan) = content"
proof (cases "evaluate_conditionals hc (effective_conditionals facts) (meta_validators meta)")
  case Proceed
  have whole: "body_bytes content (WholeBody (fm_size meta)) = content"
    using assms(3,4) by (simp add: unat_of_nat_u64)
  show ?thesis
  proof (cases "effective_ranges hc facts meta")
    case (Multi rs)
    obtain parts tm cl where
      mp: "multipart_parts rs (rf_content_type facts) (fm_size meta) (rf_boundary facts) = (parts, tm, cl)"
      by (cases "multipart_parts rs (rf_content_type facts) (fm_size meta) (rf_boundary facts)")
    have p: "multi_range_plan hc facts meta rs = Some plan"
      using assms(1) Proceed Multi by (simp add: plan_response_eq)
    show ?thesis using Proceed Multi assms(2) mp multi_range_planD [OF p mp] by simp
  qed (use assms(1,2) Proceed whole in \<open>auto simp: plan_response_eq whole_planD single_range_planD
      dest: error_plan_status\<close>)
qed (use assms(1) in \<open>auto simp: plan_response_eq\<close>)

text \<open>The announced length, for the three plans with a body.\<close>

lemma planned_content_length:
  assumes "plan_response hc facts meta = Some plan" and "\<not> rf_method_head facts"
    and "fm_size meta = of_nat (length content)" and "length content < 2 ^ 64"
    and "plan_status plan \<in> {STATUS_OK, STATUS_PARTIAL_CONTENT}"
    and "length (body_bytes content (plan_body plan)) < 2 ^ 64"
  shows "\<exists>n. header_of ''content-length'' plan = Some (dec_u64 n) \<and>
    unat n = length (body_bytes content (plan_body plan))"
proof -
  have proceed: "evaluate_conditionals hc (effective_conditionals facts) (meta_validators meta) = Proceed"
    using assms(1,5) by (auto simp: plan_response_eq split: condition.splits)
  show ?thesis
  proof (cases "effective_ranges hc facts meta")
    case Full
    then have p: "whole_plan hc facts meta = Some plan"
      using assms(1) proceed by (simp add: plan_response_eq)
    show ?thesis using whole_planD [OF p] assms(2-4) by (simp add: dec_u64_inj unat_of_nat_u64)
  next
    case (Single r)
    then have p: "single_range_plan hc facts meta r = Some plan"
      using assms(1) proceed by (simp add: plan_response_eq)
    have "range_ok (of_nat (length content)) r" using effective_ranges_ok(1) [OF Single] assms(3) by simp
    then show ?thesis
      using single_range_planD [OF p] assms(2,4) by (simp add: length_part_bytes dec_u64_inj)
  next
    case (Multi rs)
    then have p: "multi_range_plan hc facts meta rs = Some plan"
      using assms(1) proceed by (simp add: plan_response_eq)
    obtain parts tm cl where
      mp: "multipart_parts rs (rf_content_type facts) (fm_size meta) (rf_boundary facts) = (parts, tm, cl)"
      by (cases "multipart_parts rs (rf_content_type facts) (fm_size meta) (rf_boundary facts)")
    note d = multi_range_planD [OF p mp]
    have ok: "\<forall>r \<in> set rs. range_ok (of_nat (length content)) r"
      using effective_ranges_ok(2) [OF Multi] assms(3) by simp
    have "cl = of_nat (length (multipart_body content parts tm))"
      using multipart_length_wrapped [OF ok assms(4)] mp assms(3) by simp
    moreover have "body_bytes content (plan_body plan) = multipart_body content parts tm"
      using d(3) assms(2) by simp
    ultimately show ?thesis using d(2) assms(6) by (simp add: dec_u64_inj unat_of_nat_u64)
  next
    case Unsatisfiable
    then show ?thesis using assms(1,5) proceed by (auto simp: plan_response_eq dest: error_plan_status)
  qed
qed

text \<open>Only a 200 or 206 to a GET has a body.\<close>

lemma plan_with_body:
  assumes "plan_response hc facts meta = Some plan" and "plan_body plan \<noteq> EmptyBody"
  shows "\<not> rf_method_head facts \<and> plan_status plan \<in> {STATUS_OK, STATUS_PARTIAL_CONTENT}"
  using assms
  by (fastforce simp: plan_response_eq whole_plan_def single_range_plan_def multi_range_plan_def
      unsatisfiable_plan_def bind_eq_Some_conv split: condition.splits range_outcome.splits prod.splits if_splits)

text \<open>
  The announced \<^verbatim>\<open>Content-Length\<close> of a 200 or 206 is the length of the body, for bodies
  below 16 EiB.
\<close>

theorem plan_content_length:
  assumes "plan_response hc facts meta = Some plan" and "\<not> rf_method_head facts"
    and "fm_size meta = of_nat (length content)" and "length content < 2 ^ 64"
    and "plan_status plan \<in> {STATUS_OK, STATUS_PARTIAL_CONTENT}"
    and "length (body_bytes content (plan_body plan)) < 2 ^ 64"
  shows "\<exists>n. header_of ''content-length'' plan = Some (dec_u64 n) \<and>
    unat n = length (body_bytes content (plan_body plan))"
  using assms by (rule planned_content_length)

text \<open>
  C36: A HEAD request gets the status and the headers of the same GET, without a body.
\<close>

theorem plan_head_like_get:
  "plan_response hc (facts\<lparr>rf_method_head := True\<rparr>) meta =
     map_option (\<lambda>plan. plan\<lparr>plan_body := EmptyBody\<rparr>)
       (plan_response hc (facts\<lparr>rf_method_head := False\<rparr>) meta)"
proof -
  have v: "push_validator_headers hc h (facts\<lparr>rf_method_head := b\<rparr>) v = push_validator_headers hc h facts v"
    and e: "push_encoding_headers hc h (facts\<lparr>rf_method_head := b\<rparr>) = push_encoding_headers hc h facts"
    and c: "effective_conditionals (facts\<lparr>rf_method_head := b\<rparr>) = effective_conditionals facts"
    and r: "effective_ranges hc (facts\<lparr>rf_method_head := b\<rparr>) meta = effective_ranges hc facts meta" for h b v
    by (simp_all add: push_validator_headers_def push_encoding_headers_def effective_conditionals_def
        effective_ranges_def split: option.split)
  show ?thesis
    unfolding plan_response_eq v c r
    by (simp add: whole_plan_def single_range_plan_def multi_range_plan_def unsatisfiable_plan_def v e
        map_option_bind option.map_comp comp_def
        split: condition.split range_outcome.split prod.split)
qed

text \<open>
  What \<^verbatim>\<open>http::HeaderValue\<close> and \<^verbatim>\<open>httpdate\<close> promise: visible ASCII and spaces make a
  header value, and a date that can be formatted is such text.
\<close>

definition visible_text :: "string \<Rightarrow> bool" where
  "visible_text s \<longleftrightarrow> (\<forall>c \<in> set s. 32 \<le> (of_char c :: nat) \<and> (of_char c :: nat) < 127)"

definition values_contract :: "('h, 't) headers_crate \<Rightarrow> bool" where
  "values_contract hc \<longleftrightarrow>
     (\<forall>s. visible_text s \<longrightarrow> hc_value_ok hc s) \<and>
     (\<forall>d s. hc_fmt_http_date hc d = Some s \<longrightarrow> visible_text s)"

lemma visible_append [simp]: "visible_text (a @ b) \<longleftrightarrow> visible_text a \<and> visible_text b"
  by (auto simp: visible_text_def)

lemma visible_dec [simp]: "visible_text (dec_u64 w)"
  by (auto simp: visible_text_def is_ascii_digit_def dest!: dec_u64_digits)

lemma visible_etag: "visible_text (make_etag sz m n)"
proof -
  have "32 \<le> (of_char c :: nat) \<and> (of_char c :: nat) < 127" if "is_lower_hex c" for c
    using is_lower_hex_graphic [OF that] by (simp add: ascii_graphic_def)
  then have "visible_text (hex_u64 w)" "visible_text (to_radix 16 k)" for w k
    unfolding visible_text_def using hex_u64_digits hex_text_lower_hex by blast+
  moreover have "visible_text [CHR 0x22]" "visible_text ''-''" "visible_text ''.''"
    by (simp_all add: visible_text_def)
  ultimately show ?thesis unfolding make_etag_def by (simp only: visible_append)
qed

lemma visible_ranges:
  "visible_text (content_range r n)" "visible_text (content_range_unsatisfied n)"
  using visible_dec [of "range_start r"] visible_dec [of "range_end r"] visible_dec [of n]
  by (auto simp: content_range_def content_range_unsatisfied_def visible_text_def)

lemma push_headers_total:
  assumes "values_contract hc" and "format_http_date hc (val_last_modified_unix v) \<noteq> None"
    and "visible_text (val_etag v)"
  shows "push_validator_headers hc h facts v \<noteq> None"
    and "(\<And>cc. rf_cache_control facts = Some cc \<Longrightarrow> hc_value_ok hc cc) \<Longrightarrow> push_encoding_headers hc h facts \<noteq> None"
  using assms
  by (auto simp: push_validator_headers_def push_encoding_headers_def header_value_def values_contract_def
      format_http_date_def Let_def split: option.splits)

lemma plan_total:
  assumes "values_contract hc" and "format_http_date hc (fm_mtime_unix meta) \<noteq> None"
    and "hc_value_ok hc (rf_content_type facts)" and "visible_text (rf_boundary facts)"
    and "case rf_cache_control facts of Some cc \<Rightarrow> hc_value_ok hc cc | None \<Rightarrow> True"
  shows "plan_response hc facts meta \<noteq> None"
proof -
  have v: "push_validator_headers hc h facts (meta_validators meta) \<noteq> None" for h
    using assms(1,2) by (intro push_headers_total(1)) (simp_all add: meta_validators_def visible_etag)
  have e: "push_encoding_headers hc h facts \<noteq> None" for h
    using assms(1,2,5)
    by (intro push_headers_total(2) [of hc "meta_validators meta"])
       (auto simp: meta_validators_def visible_etag)
  have ok: "header_value hc s = Some s" if "visible_text s" for s
    using assms(1) that by (simp add: header_value_def values_contract_def)
  have "visible_text (''multipart/byteranges; boundary='' @ rf_boundary facts)"
    using assms(4) by (auto simp: visible_text_def)
  have ct: "header_value hc (rf_content_type facts) = Some (rf_content_type facts)"
    using assms(3) by (simp add: header_value_def)
  note vals = ok [OF \<open>visible_text (''multipart/byteranges; boundary='' @ rf_boundary facts)\<close>, unfolded append.simps] ok [OF visible_ranges(1)] ok [OF visible_ranges(2)]
  have "whole_plan hc facts meta \<noteq> None" "single_range_plan hc facts meta r \<noteq> None"
    "multi_range_plan hc facts meta rs \<noteq> None" "unsatisfiable_plan hc meta \<noteq> None" for r rs
    using ct
    by (simp_all add: whole_plan_def single_range_plan_def multi_range_plan_def unsatisfiable_plan_def
        v e vals bind_eq_None_conv del: not_None_eq split: prod.split)
  then show ?thesis
    by (auto simp: plan_response_eq v simp del: not_None_eq split: condition.split range_outcome.split)
qed

lemma visible_hex016: "visible_text (hex016_u64 w)"
proof -
  have "32 \<le> (of_char c :: nat) \<and> (of_char c :: nat) < 127" if "is_lower_hex c" for c
    using is_lower_hex_graphic [OF that] by (simp add: ascii_graphic_def)
  then have "visible_text (hex_u64 w)" unfolding visible_text_def using hex_u64_digits by blast
  moreover have "visible_text (replicate n (CHR ''0''))" for n by (simp add: visible_text_def)
  ultimately show ?thesis by (simp add: hex016_u64_def)
qed

text \<open>
  C37: Planning never panics as long as the configured content type and cache control are valid header
  values and the modification time has a date: every value the library makes up is valid.
\<close>

theorem plan_response_total:
  assumes "values_contract hc" and "format_http_date hc (fm_mtime_unix meta) \<noteq> None"
    and "hc_value_ok hc (rf_content_type facts)" and "visible_text (rf_boundary facts)"
    and "case rf_cache_control facts of Some cc \<Rightarrow> hc_value_ok hc cc | None \<Rightarrow> True"
  shows "plan_response hc facts meta \<noteq> None"
  using assms by (rule plan_total)

text \<open>Sample facts for closed examples: a GET of an eight-byte file.\<close>

definition sample_facts :: "string option \<Rightarrow> request_facts" where
  "sample_facts rng =
     \<lparr>rf_method_head = False, rf_conditionals = no_conditionals, rf_range_header = rng,
      rf_content_type = ''text/plain'', rf_etag_enabled = False, rf_last_modified_enabled = False,
      rf_range_policy = \<lparr>allow_multi = True, max_parts = 50\<rparr>, rf_boundary = ''B'',
      rf_content_encoding = None, rf_add_vary = False, rf_cache_control = None\<rparr>"

definition sample_meta :: file_meta where
  "sample_meta = \<lparr>fm_size = 8, fm_mtime_unix = 7, fm_mtime_nanos = 0, fm_is_dir = False\<rparr>"

lemma sample_values: "values_contract sample_crate"
proof -
  have "visible_text (to_radix 10 n)" for n
  proof -
    have "is_ascii_digit c" if "c \<in> set (to_radix 10 n)" for c
      using that by (rule to_radix_digits [rotated 2]) (auto simp: is_ascii_digit_digit_char)
    then show ?thesis by (fastforce simp: visible_text_def is_ascii_digit_def)
  qed
  then show ?thesis
    by (auto simp: values_contract_def sample_crate_def list_all_iff visible_text_def split: if_splits)
qed

lemma sample_proceeds:
  "evaluate_conditionals sample_crate (effective_conditionals (sample_facts rng)) v = Proceed"
  by (simp add: evaluate_conditionals_def effective_conditionals_def sample_facts_def)

lemma sample_single:
  "plan_ranges ''bytes=-3'' 8 \<lparr>allow_multi = True, max_parts = 50\<rparr> =
     Single \<lparr>range_start = 5, range_end = 7\<rparr>"
  by (simp add: plan_ranges_def parse_one_spec_def parse_suffix_spec_def is_all_ascii_digits_def std_simps)

theorem plan_response_total_witness:
  "plan_response sample_crate (sample_facts (Some ''bytes=-3'')) sample_meta \<noteq> None"
proof (rule plan_response_total [OF sample_values])
  show "format_http_date sample_crate (fm_mtime_unix sample_meta) \<noteq> None"
    by (simp add: format_http_date_def sample_crate_def sample_meta_def system_time_sint)
  show "hc_value_ok sample_crate (rf_content_type (sample_facts (Some ''bytes=-3'')))"
    by (simp add: sample_crate_def sample_facts_def)
  show "visible_text (rf_boundary (sample_facts (Some ''bytes=-3'')))"
    by (simp add: sample_facts_def visible_text_def)
qed (simp add: sample_facts_def)

lemma sample_plan:
  obtains plan where "plan_response sample_crate (sample_facts (Some ''bytes=-3'')) sample_meta = Some plan"
    and "plan_status plan = STATUS_PARTIAL_CONTENT"
    and "plan_body plan = SegmentsBody [\<lparr>range_start = 5, range_end = 7\<rparr>]"
proof -
  have eff: "effective_ranges sample_crate (sample_facts (Some ''bytes=-3'')) sample_meta =
      Single \<lparr>range_start = 5, range_end = 7\<rparr>"
    using sample_single by (simp add: effective_ranges_def sample_facts_def sample_meta_def)
  have ok: "hc_value_ok sample_crate (content_range \<lparr>range_start = 5, range_end = 7\<rparr> 8)"
    using sample_values visible_ranges(1) by (simp add: values_contract_def)
  then obtain plan where p: "single_range_plan sample_crate (sample_facts (Some ''bytes=-3'')) sample_meta
      \<lparr>range_start = 5, range_end = 7\<rparr> = Some plan"
    by (simp add: single_range_plan_def push_validator_headers_def push_encoding_headers_def
        header_value_def sample_facts_def sample_meta_def) (simp add: sample_crate_def)
  then have "plan_response sample_crate (sample_facts (Some ''bytes=-3'')) sample_meta = Some plan"
    by (simp add: plan_response_eq sample_proceeds eff)
  then show ?thesis
    using that single_range_planD [OF p] by (simp add: sample_facts_def)
qed

theorem plan_response_body_witness:
  "map_option (\<lambda>plan. body_bytes ''abcdefgh'' (plan_body plan))
     (plan_response sample_crate (sample_facts (Some ''bytes=-3'')) sample_meta) = Some ''fgh''"
proof -
  obtain plan where p: "plan_response sample_crate (sample_facts (Some ''bytes=-3'')) sample_meta = Some plan"
    using sample_plan by blast
  have eff: "effective_ranges sample_crate (sample_facts (Some ''bytes=-3'')) sample_meta =
      Single \<lparr>range_start = 5, range_end = 7\<rparr>"
    using sample_single by (simp add: effective_ranges_def sample_facts_def sample_meta_def)
  have "\<not> rf_method_head (sample_facts (Some ''bytes=-3''))" "fm_size sample_meta = of_nat (length ''abcdefgh'')"
    by (simp_all add: sample_facts_def sample_meta_def)
  then have "body_bytes ''abcdefgh'' (plan_body plan) =
      part_bytes ''abcdefgh'' \<lparr>range_start = 5, range_end = 7\<rparr>"
    using plan_response_body [OF p, of "''abcdefgh''"] by (simp add: sample_proceeds eff)
  then show ?thesis using p by (simp add: part_bytes_def range_len_def slice_def)
qed

theorem plan_content_length_witness:
  "\<exists>plan n. plan_response sample_crate (sample_facts (Some ''bytes=-3'')) sample_meta = Some plan \<and>
     header_of ''content-length'' plan = Some (dec_u64 n) \<and> unat n = 3"
proof -
  obtain plan where p: "plan_response sample_crate (sample_facts (Some ''bytes=-3'')) sample_meta = Some plan"
    "plan_status plan = STATUS_PARTIAL_CONTENT"
    "plan_body plan = SegmentsBody [\<lparr>range_start = 5, range_end = 7\<rparr>]"
    using sample_plan by blast
  have "\<not> rf_method_head (sample_facts (Some ''bytes=-3''))" "fm_size sample_meta = of_nat (length ''abcdefgh'')"
    by (simp_all add: sample_facts_def sample_meta_def)
  moreover have len: "length (body_bytes ''abcdefgh'' (plan_body plan)) = 3"
    using p(3) by (simp add: part_bytes_def range_len_def slice_def)
  moreover have "plan_status plan \<in> {STATUS_OK, STATUS_PARTIAL_CONTENT}" using p(2) by simp
  moreover have "length ''abcdefgh'' < 2 ^ 64" "(3 :: nat) < 2 ^ 64" by simp_all
  ultimately have "\<exists>n. header_of ''content-length'' plan = Some (dec_u64 n) \<and> unat n = 3"
    using plan_content_length [OF p(1), of "''abcdefgh''"] unfolding len by blast
  then show ?thesis using p(1) by blast
qed

section \<open>Validators that are not enabled\<close>

text \<open>
  Tags and dates the server does not send are not compared either, in the four headers that are
  gated.
\<close>

lemma disabled_validators_ignored:
  "\<not> rf_etag_enabled facts \<Longrightarrow>
     plan_response hc (facts\<lparr>rf_conditionals := (rf_conditionals facts)\<lparr>ch_if_none_match := x, ch_if_match := y\<rparr>\<rparr>) meta =
     plan_response hc facts meta"
  "\<not> rf_last_modified_enabled facts \<Longrightarrow>
     plan_response hc (facts\<lparr>rf_conditionals :=
       (rf_conditionals facts)\<lparr>ch_if_modified_since := x, ch_if_unmodified_since := y\<rparr>\<rparr>) meta =
     plan_response hc facts meta"
  by (simp_all add: plan_response_eq effective_conditionals_def effective_ranges_def whole_plan_def
      single_range_plan_def multi_range_plan_def push_validator_headers_def push_encoding_headers_def
      split: option.split condition.split range_outcome.split)

text \<open>
  If-Range is not: with both validators disabled, a range request that carries any entity tag is
  still compared with the tag that was never sent, and answered with the whole file.
\<close>

lemma if_range_not_gated:
  "map_option plan_status (plan_response sample_crate (sample_facts (Some ''bytes=-3'')) sample_meta) = Some 206"
  "map_option plan_status (plan_response sample_crate
     ((sample_facts (Some ''bytes=-3''))\<lparr>rf_conditionals := no_conditionals\<lparr>ch_if_range := Some (make_etag 1 2 3)\<rparr>\<rparr>)
     sample_meta) = Some 200"
proof -
  show "map_option plan_status (plan_response sample_crate (sample_facts (Some ''bytes=-3'')) sample_meta) = Some 206"
    using sample_plan by fastforce
  let ?facts = "(sample_facts (Some ''bytes=-3''))\<lparr>rf_conditionals := no_conditionals\<lparr>ch_if_range := Some (make_etag 1 2 3)\<rparr>\<rparr>"
  have "\<not> if_range_matches sample_crate (make_etag 1 2 3) (meta_validators sample_meta)"
    by (simp add: if_range_matches_def decode_def resource_etag_def meta_validators_def sample_crate_def
        sample_meta_def make_etag_inj)
  then have "effective_ranges sample_crate ?facts sample_meta = Full"
    by (simp add: effective_ranges_def sample_facts_def)
  moreover have "evaluate_conditionals sample_crate (effective_conditionals ?facts) v = Proceed" for v
    by (simp add: evaluate_conditionals_def effective_conditionals_def sample_facts_def)
  moreover obtain plan where w: "whole_plan sample_crate ?facts sample_meta = Some plan"
    by (simp add: whole_plan_def push_validator_headers_def push_encoding_headers_def header_value_def
        sample_facts_def) (simp add: sample_crate_def)
  ultimately show "map_option plan_status (plan_response sample_crate ?facts sample_meta) = Some 200"
    using whole_planD(1) [OF w] by (simp add: plan_response_eq)
qed

text \<open>
  A configured \<^verbatim>\<open>cache_control\<close> that is not a header value makes every plain GET panic.
\<close>

lemma invalid_cache_control_panics:
  "rf_cache_control facts = Some cc \<Longrightarrow> \<not> hc_value_ok hc cc \<Longrightarrow> rf_range_header facts = None \<Longrightarrow>
     evaluate_conditionals hc (effective_conditionals facts) (meta_validators meta) = Proceed \<Longrightarrow>
     plan_response hc facts meta = None"
  by (simp add: plan_response_eq effective_ranges_def whole_plan_def push_encoding_headers_def
      header_value_def Let_def bind_eq_None_conv)

end
