(* ===== verification/Std_Order.thy ===== *)
theory Std_Order
  imports Prelude
begin

text \<open>
  Rust's \<^verbatim>\<open>std::cmp::Ordering\<close> and the stable sort \<^verbatim>\<open>slice::sort_by\<close>. The locale
  \<open>comparison\<close> is the contract \<^verbatim>\<open>sort_by\<close> asks of its comparator (a total preorder) with what
  the sort then promises: a permutation, in order, stable, and determined by the multiset of
  its input where the comparator separates distinct elements.
\<close>

datatype ordering = Less | Equal | Greater

text \<open>\<^verbatim>\<open>Ordering\<close> derives \<^verbatim>\<open>Ord\<close>: \<^verbatim>\<open>Less < Equal < Greater\<close>.\<close>

fun ordering_rank :: "ordering \<Rightarrow> nat" where
  "ordering_rank Less = 0"
| "ordering_rank Equal = 1"
| "ordering_rank Greater = 2"

lemma ordering_rank_inj: "ordering_rank a = ordering_rank b \<longleftrightarrow> a = b"
  by (cases a; cases b) auto

instantiation ordering :: linorder
begin

definition less_eq_ordering :: "ordering \<Rightarrow> ordering \<Rightarrow> bool" where
  "a \<le> b \<longleftrightarrow> ordering_rank a \<le> ordering_rank b"

definition less_ordering :: "ordering \<Rightarrow> ordering \<Rightarrow> bool" where
  "a < b \<longleftrightarrow> ordering_rank a < ordering_rank b"

instance
  by standard (auto simp: less_eq_ordering_def less_ordering_def ordering_rank_inj)

end

fun reverse_ordering :: "ordering \<Rightarrow> ordering" where
  "reverse_ordering Less = Greater"
| "reverse_ordering Equal = Equal"
| "reverse_ordering Greater = Less"

text \<open>\<^verbatim>\<open>Ordering::then\<close> (and \<^verbatim>\<open>then_with\<close>, which only differs in being lazy).\<close>

fun ordering_then :: "ordering \<Rightarrow> ordering \<Rightarrow> ordering" where
  "ordering_then Equal o2 = o2"
| "ordering_then o1 o2 = o1"

text \<open>\<^verbatim>\<open>Ord::cmp\<close> of a type whose order is HOL's.\<close>

definition cmp_of :: "'a::linorder \<Rightarrow> 'a \<Rightarrow> ordering" where
  "cmp_of a b = (if a < b then Less else if a = b then Equal else Greater)"

lemma cmp_of_simps [simp]:
  "cmp_of a b = Less \<longleftrightarrow> a < b"
  "cmp_of a b = Equal \<longleftrightarrow> a = b"
  "cmp_of a b = Greater \<longleftrightarrow> b < a"
  by (auto simp: cmp_of_def)

lemma reverse_cmp_of [simp]: "reverse_ordering (cmp_of a b) = cmp_of b a"
  by (auto simp: cmp_of_def)

lemma reverse_reverse_ordering [simp]: "reverse_ordering (reverse_ordering a) = a"
  by (cases a) auto

lemma reverse_ordering_iff [simp]:
  "reverse_ordering a = Less \<longleftrightarrow> a = Greater"
  "reverse_ordering a = Equal \<longleftrightarrow> a = Equal"
  "reverse_ordering a = Greater \<longleftrightarrow> a = Less"
  by (cases a; simp)+

lemma ordering_then_iff:
  "ordering_then a b = Less \<longleftrightarrow> a = Less \<or> a = Equal \<and> b = Less"
  "ordering_then a b = Equal \<longleftrightarrow> a = Equal \<and> b = Equal"
  "ordering_then a b = Greater \<longleftrightarrow> a = Greater \<or> a = Equal \<and> b = Greater"
  by (cases a; simp)+

lemma reverse_ordering_then [simp]:
  "reverse_ordering (ordering_then a b) = ordering_then (reverse_ordering a) (reverse_ordering b)"
  by (cases a) auto

section \<open>The stable sort\<close>

fun insort_by :: "('a \<Rightarrow> 'a \<Rightarrow> ordering) \<Rightarrow> 'a \<Rightarrow> 'a list \<Rightarrow> 'a list" where
  "insort_by cmp x [] = [x]"
| "insort_by cmp x (y # ys) =
     (if cmp x y \<noteq> Greater then x # y # ys else y # insort_by cmp x ys)"

definition sort_by :: "('a \<Rightarrow> 'a \<Rightarrow> ordering) \<Rightarrow> 'a list \<Rightarrow> 'a list" where
  "sort_by cmp xs = foldr (insort_by cmp) xs []"

lemma sort_by_simps [simp]:
  "sort_by cmp [] = []"
  "sort_by cmp (x # xs) = insort_by cmp x (sort_by cmp xs)"
  by (simp_all add: sort_by_def)

lemma mset_insort_by: "mset (insort_by cmp x ys) = add_mset x (mset ys)"
  by (induction ys) auto

lemma mset_sort_by [simp]: "mset (sort_by cmp xs) = mset xs"
  by (induction xs) (simp_all add: mset_insort_by)

lemma set_sort_by [simp]: "set (sort_by cmp xs) = set xs"
  by (metis mset_sort_by set_mset_mset)

lemma length_sort_by [simp]: "length (sort_by cmp xs) = length xs"
  by (metis mset_sort_by size_mset)

lemma set_insort_by: "set (insort_by cmp x ys) = insert x (set ys)"
  by (induction ys) auto

locale comparison =
  fixes cmp :: "'a \<Rightarrow> 'a \<Rightarrow> ordering"
  assumes cmp_refl: "cmp a a = Equal"
    and cmp_flip: "cmp b a = reverse_ordering (cmp a b)"
    and cmp_trans: "cmp a b \<noteq> Greater \<Longrightarrow> cmp b c \<noteq> Greater \<Longrightarrow> cmp a c \<noteq> Greater"
begin

lemma cmp_swap:
  "cmp a b = Greater \<longleftrightarrow> cmp b a = Less"
  "cmp a b = Equal \<longleftrightarrow> cmp b a = Equal"
  by (subst cmp_flip [of b a], simp)+

lemma not_Greater_iff: "cmp a b \<noteq> Greater \<longleftrightarrow> cmp a b = Less \<or> cmp a b = Equal"
  by (cases "cmp a b") auto

lemma cmp_Equal_trans:
  assumes "cmp a b = Equal" "cmp b c = Equal" shows "cmp a c = Equal"
proof -
  have "cmp c b = Equal" "cmp b a = Equal"
    using assms cmp_swap(2) [of a b] cmp_swap(2) [of b c] by simp_all
  then have "cmp a c \<noteq> Greater" "cmp c a \<noteq> Greater"
    using cmp_trans [of a b c] cmp_trans [of c b a] assms by simp_all
  then show ?thesis using cmp_swap(1) [of c a] by (cases "cmp a c") simp_all
qed

lemma insort_by_sorted:
  "sorted_wrt (\<lambda>a b. cmp a b \<noteq> Greater) ys \<Longrightarrow>
     sorted_wrt (\<lambda>a b. cmp a b \<noteq> Greater) (insort_by cmp x ys)"
proof (induction ys)
  case Nil
  then show ?case by simp
next
  case (Cons y ys)
  show ?case
  proof (cases "cmp x y = Greater")
    case True
    then have "cmp y x \<noteq> Greater" by (simp add: cmp_swap(1))
    with True Cons show ?thesis by (auto simp: set_insort_by)
  next
    case False
    moreover have "cmp x z \<noteq> Greater" if "z \<in> set ys" for z
      using that Cons.prems False cmp_trans [of x y z] by auto
    ultimately show ?thesis using Cons.prems by auto
  qed
qed

lemma sort_by_sorted: "sorted_wrt (\<lambda>a b. cmp a b \<noteq> Greater) (sort_by cmp xs)"
  by (induction xs) (simp_all add: insort_by_sorted)

lemma insort_by_stable:
  "filter (\<lambda>z. cmp k z = Equal) (insort_by cmp x ys) = filter (\<lambda>z. cmp k z = Equal) (x # ys)"
proof (induction ys)
  case Nil
  then show ?case by simp
next
  case (Cons y ys)
  show ?case
  proof (cases "cmp x y = Greater")
    case True
    then have "\<not> (cmp k x = Equal \<and> cmp k y = Equal)"
      using cmp_swap(2) [of k x] cmp_Equal_trans [of x k y] by auto
    with True Cons show ?thesis by auto
  next
    case False
    then show ?thesis by simp
  qed
qed

lemma sort_by_stable:
  "filter (\<lambda>z. cmp k z = Equal) (sort_by cmp xs) = filter (\<lambda>z. cmp k z = Equal) xs"
  by (induction xs) (simp_all add: insort_by_stable)

text \<open>Where equal means identical, the result depends on the multiset of the input only.\<close>

lemma sorted_wrt_unique:
  assumes sep: "\<And>a b. a \<in> set xs \<Longrightarrow> b \<in> set xs \<Longrightarrow> cmp a b = Equal \<Longrightarrow> a = b"
    and "sorted_wrt (\<lambda>a b. cmp a b \<noteq> Greater) xs"
    and "sorted_wrt (\<lambda>a b. cmp a b \<noteq> Greater) ys"
    and "mset xs = mset ys"
  shows "xs = ys"
  using assms
proof (induction xs arbitrary: ys)
  case Nil
  then show ?case by simp
next
  case (Cons x xs)
  then obtain y ys' where ys: "ys = y # ys'" by (cases ys) auto
  have sets: "set (x # xs) = set (y # ys')"
    using Cons.prems(4) ys by (metis set_mset_mset)
  have "cmp x y \<noteq> Greater" "cmp y x \<noteq> Greater"
    using Cons.prems(2,3) ys sets by (auto simp: cmp_refl)
  then have "cmp x y = Equal" using cmp_swap(1) [of y x] by (cases "cmp x y") simp_all
  then have "x = y" using Cons.prems(1) [of x y] sets by auto
  then show ?case using Cons ys by auto
qed

lemma sort_by_mset_unique:
  assumes "\<And>a b. a \<in> set xs \<Longrightarrow> b \<in> set xs \<Longrightarrow> cmp a b = Equal \<Longrightarrow> a = b"
    and "mset xs = mset ys"
  shows "sort_by cmp xs = sort_by cmp ys"
  using assms by (intro sorted_wrt_unique) (auto simp: sort_by_sorted)

end

text \<open>Comparators built from comparators: reversal, mapping a key, and lexicographic chaining.\<close>

interpretation cmp_of: comparison "cmp_of :: 'a::linorder \<Rightarrow> 'a \<Rightarrow> ordering"
  by unfold_locales (auto simp: not_less)

lemma comparison_key: "comparison cmp \<Longrightarrow> comparison (\<lambda>a b. cmp (f a) (f b))"
  unfolding comparison_def by blast

lemma comparison_flip: "comparison cmp \<Longrightarrow> comparison (\<lambda>a b. cmp b a)"
  unfolding comparison_def by (metis (full_types))

lemma comparison_strict_trans:
  assumes "comparison c" "c x y \<noteq> Greater" "c y z \<noteq> Greater" "c x y = Less \<or> c y z = Less"
  shows "c x z = Less"
proof (rule ccontr)
  assume "c x z \<noteq> Less"
  then have "c z x \<noteq> Greater" using comparison.cmp_swap(1) [OF assms(1)] by metis
  then have "c y x \<noteq> Greater" "c z y \<noteq> Greater"
    using comparison.cmp_trans [OF assms(1)] assms(2,3) by blast+
  then show False using comparison.cmp_swap(1) [OF assms(1)] assms(4) by metis
qed

lemma comparison_then:
  assumes c1: "comparison c1" and c2: "comparison c2"
  shows "comparison (\<lambda>a b. ordering_then (c1 a b) (c2 a b))"
proof
  fix a b c
  show "ordering_then (c1 a a) (c2 a a) = Equal"
    by (simp add: comparison.cmp_refl [OF c1] comparison.cmp_refl [OF c2])
  show "ordering_then (c1 b a) (c2 b a) = reverse_ordering (ordering_then (c1 a b) (c2 a b))"
    by (simp flip: comparison.cmp_flip [OF c1] comparison.cmp_flip [OF c2])
  assume le: "ordering_then (c1 a b) (c2 a b) \<noteq> Greater"
    "ordering_then (c1 b c) (c2 b c) \<noteq> Greater"
  then have "c1 a b \<noteq> Greater" "c1 b c \<noteq> Greater" by (auto simp: ordering_then_iff)
  then show "ordering_then (c1 a c) (c2 a c) \<noteq> Greater"
    using le comparison_strict_trans [OF c1, of a b c] comparison.cmp_trans [OF c1, of a b c]
      comparison.cmp_trans [OF c2, of a b c]
    by (cases "c1 a b"; cases "c1 b c"; cases "c1 a c") (auto simp: ordering_then_iff)
qed

end
