(* ===== verification/Std_Float.thy ===== *)
theory Std_Float
  imports Std_Num Std_Order
begin

text \<open>
  The part of Rust's binary floating point the source uses, bit-exactly. An \<^verbatim>\<open>f32\<close> is its IEEE 754
  bit pattern; \<^verbatim>\<open>f32::from_str\<close> accepts Rust's grammar and rounds the exact rational it denotes to the nearest
  pattern, ties to even; \<^verbatim>\<open>total_cmp\<close> compares patterns as the standard library does. The same
  rounding to 53 bits gives \<^verbatim>\<open>u64 as f64\<close>.
\<close>

unbundle bit_operations_syntax

type_synonym f32 = "32 word"

section \<open>Rounding\<close>

fun bit_len :: "nat \<Rightarrow> nat" where
  "bit_len n = (if n = 0 then 0 else Suc (bit_len (n div 2)))"

declare bit_len.simps [simp del]

text \<open>\<open>p / q\<close> to the nearest natural number, ties to even.\<close>

definition round_half_even :: "nat \<Rightarrow> nat \<Rightarrow> nat" where
  "round_half_even p q =
     (let d = p div q; r = p mod q in
      if 2 * r < q \<or> (2 * r = q \<and> even d) then d else d + 1)"

text \<open>\<open>p / q\<close> as a significand of at most \<open>prec\<close> bits (or the power above) and a power of two.\<close>

definition round_significand :: "nat \<Rightarrow> nat \<Rightarrow> nat \<Rightarrow> nat \<times> nat" where
  "round_significand prec p q =
     (let k = bit_len (p div q) - prec in (round_half_even p (q * 2 ^ k), k))"

section \<open>f32\<close>

definition F32_INFINITY :: f32 where "F32_INFINITY = 0x7F800000"
definition F32_NAN :: f32 where "F32_NAN = 0x7FC00000"
definition F32_ONE :: f32 where "F32_ONE = 0x3F800000"

text \<open>
  The pattern of the non-negative value \<open>p / q\<close>, counted in units of \<open>2 ^ -149\<close>: the exponent field
  and the significand add up, also for subnormal values and when rounding carries.
\<close>

definition f32_of_ratio :: "nat \<Rightarrow> nat \<Rightarrow> f32" where
  "f32_of_ratio p q =
     (let (m, k) = round_significand 24 p q; bits = k * 2 ^ 23 + m in
      if bits < 0x7F800000 then of_nat bits else F32_INFINITY)"

definition with_sign :: "bool \<Rightarrow> f32 \<Rightarrow> f32" where
  "with_sign negative w = (if negative then w + 0x80000000 else w)"

definition split_sign :: "string \<Rightarrow> bool \<times> string" where
  "split_sign s =
     (case s of
        [] \<Rightarrow> (False, [])
      | c # r \<Rightarrow> if c = CHR ''-'' then (True, r) else if c = CHR ''+'' then (False, r) else (False, s))"

text \<open>A decimal number: its digits and its decimal exponent.\<close>

definition parse_exponent :: "string \<Rightarrow> int option" where
  "parse_exponent s =
     (case s of
        [] \<Rightarrow> Some 0
      | c # r \<Rightarrow>
          if c = CHR ''e'' \<or> c = CHR ''E'' then
            (let (negative, ds) = split_sign r in
             if ds = [] \<or> \<not> list_all is_ascii_digit ds then None
             else Some (if negative then - int (of_radix 10 ds) else int (of_radix 10 ds)))
          else None)"

definition parse_number :: "string \<Rightarrow> (string \<times> int) option" where
  "parse_number s =
     (let whole = takeWhile is_ascii_digit s;
          after = dropWhile is_ascii_digit s;
          (frac, rest) =
            (case after of
               c # r \<Rightarrow>
                 if c = CHR ''.'' then (takeWhile is_ascii_digit r, dropWhile is_ascii_digit r)
                 else ([], after)
             | [] \<Rightarrow> ([], [])) in
      if whole @ frac = [] then None
      else map_option (\<lambda>e. (whole @ frac, e - int (length frac))) (parse_exponent rest))"

definition f32_from_str :: "string \<Rightarrow> f32 option" where
  "f32_from_str s =
     (let (negative, r) = split_sign s in
      case parse_number r of
        Some (ds, e) \<Rightarrow>
          Some (with_sign negative
            (if e \<ge> 0 then f32_of_ratio (of_radix 10 ds * 10 ^ nat e * 2 ^ 149) 1
             else f32_of_ratio (of_radix 10 ds * 2 ^ 149) (10 ^ nat (- e))))
      | None \<Rightarrow>
          if eq_ignore_ascii_case r ''nan'' then Some (with_sign negative F32_NAN)
          else if eq_ignore_ascii_case r ''inf'' \<or> eq_ignore_ascii_case r ''infinity''
          then Some (with_sign negative F32_INFINITY)
          else None)"

text \<open>\<^verbatim>\<open>q > 0.0\<close>: false of zeros, negative values and NaNs.\<close>

definition f32_positive :: "f32 \<Rightarrow> bool" where
  "f32_positive w \<longleftrightarrow> 0 < w \<and> w \<le> F32_INFINITY"

definition total_key :: "f32 \<Rightarrow> int" where
  "total_key w = (if sint w < 0 then sint (w XOR 0x7FFFFFFF) else sint w)"

definition total_cmp :: "f32 \<Rightarrow> f32 \<Rightarrow> ordering" where
  "total_cmp a b = cmp_of (total_key a) (total_key b)"

lemma total_cmp_comparison: "comparison total_cmp"
  using comparison_key [OF cmp_of.comparison_axioms, of total_key]
  by (simp add: total_cmp_def [abs_def])

text \<open>Among positive values the total order is the order of the bit patterns.\<close>

lemma total_key_positive: "f32_positive w \<Longrightarrow> total_key w = uint w"
proof -
  assume "f32_positive w"
  then have "uint w < 2 ^ 31"
    by (simp add: f32_positive_def F32_INFINITY_def word_le_def)
  then have "sint w = uint w"
    by (simp add: sint_uint signed_take_bit_eq_if_positive bit_iff_odd take_bit_int_eq_self)
  then show ?thesis by (simp add: total_key_def)
qed

lemma total_cmp_positive:
  assumes "f32_positive a" "f32_positive b"
  shows "total_cmp a b = cmp_of a b"
  using assms by (simp add: total_cmp_def total_key_positive cmp_of_def word_less_def word_uint_eq_iff)

lemmas std_float_eval [std_simps] =
  f32_from_str_def split_sign_def parse_number_def parse_exponent_def f32_of_ratio_def
  round_significand_def round_half_even_def bit_len.simps with_sign_def Let_def

end
