(* ===== verification/Listing.thy ===== *)
theory Listing
  imports Validators Std_Float "HOL-Library.Monad_Syntax"
begin

text \<open>
  \<^verbatim>\<open>envoy-files-core/src/listing.rs\<close>: the HTML directory listing. Parameters are
  \<^verbatim>\<open>html_escape::encode_text\<close>, \<^verbatim>\<open>percent_encoding::utf8_percent_encode\<close> (given the set of
  ASCII bytes to encode) with its set \<^verbatim>\<open>NON_ALPHANUMERIC\<close>, and \<^verbatim>\<open>str::to_lowercase\<close>, whose
  Unicode tables are not modelled. A panic of the date formatter is \<open>None\<close>.
\<close>

section \<open>The crates\<close>

record text_crates =
  tc_encode_text :: "string \<Rightarrow> string"
  tc_percent_encode :: "string \<Rightarrow> (char \<Rightarrow> bool) \<Rightarrow> string"
  tc_non_alphanumeric :: "char \<Rightarrow> bool"
  tc_to_lowercase :: "string \<Rightarrow> string"

section \<open>The code\<close>

definition PATH_SEGMENT :: "text_crates \<Rightarrow> char \<Rightarrow> bool" where
  "PATH_SEGMENT tc c \<longleftrightarrow>
     tc_non_alphanumeric tc c \<and> c \<noteq> CHR ''-'' \<and> c \<noteq> CHR ''.'' \<and> c \<noteq> CHR ''_'' \<and> c \<noteq> CHR ''~''"

record dir_entry =
  de_name :: string
  de_is_dir :: bool
  de_size :: u64
  de_mtime_unix :: i64

definition compare_entries :: "text_crates \<Rightarrow> dir_entry \<Rightarrow> dir_entry \<Rightarrow> ordering" where
  "compare_entries tc a b =
     ordering_then
       (ordering_then
         (cmp_of (de_is_dir b) (de_is_dir a))
         (cmp_of (tc_to_lowercase tc (de_name a)) (tc_to_lowercase tc (de_name b))))
       (cmp_of (de_name a) (de_name b))"

definition percent_encode_path_segment :: "text_crates \<Rightarrow> string \<Rightarrow> string" where
  "percent_encode_path_segment tc name = tc_percent_encode tc name (PATH_SEGMENT tc)"

definition UNITS :: "string list" where
  "UNITS = [''KiB'', ''MiB'', ''GiB'', ''TiB'']"

text \<open>
  The \<^verbatim>\<open>f64\<close> value is the exact quotient \<open>v / q\<close>: dividing a 53-bit significand by 1024 is exact.
\<close>

function humanize_loop :: "nat \<Rightarrow> nat \<Rightarrow> nat \<Rightarrow> nat \<times> nat" where
  "humanize_loop v q unit_index =
     (if v \<ge> 1024 * q \<and> unit_index < length UNITS - 1
      then humanize_loop v (q * 1024) (unit_index + 1)
      else (q, unit_index))"
  by pat_completeness auto
termination
  by (relation "measure (\<lambda>(v, q, i). length UNITS - i)") auto

declare humanize_loop.simps [simp del]

definition f64_of_u64 :: "u64 \<Rightarrow> nat" where
  "f64_of_u64 w = (let (m, k) = round_significand 53 (unat w) 1 in m * 2 ^ k)"

definition humanize_size :: "u64 \<Rightarrow> string" where
  "humanize_size sz =
     (if sz < 1024 then dec_u64 sz @ '' B''
      else
        let v = f64_of_u64 sz;
            (q, unit_index) = humanize_loop v 1024 0;
            tenths = round_half_even (v * 10) q in
        to_radix 10 (tenths div 10) @ ''.'' @ to_radix 10 (tenths mod 10) @ '' '' @ UNITS ! unit_index)"

abbreviation NL :: string where "NL \<equiv> [CHR 0x0A]"

definition render_row :: "text_crates \<Rightarrow> ('h, 't) headers_crate \<Rightarrow> dir_entry \<Rightarrow> string option" where
  "render_row tc hc entry =
     (let href = percent_encode_path_segment tc (de_name entry);
          display_name = tc_encode_text tc (de_name entry);
          (href, display_name) =
            (if de_is_dir entry then (href @ ''/'', display_name @ ''/'') else (href, display_name));
          size_cell = (if de_is_dir entry then [] else humanize_size (de_size entry)) in
      do {
        modified_cell \<leftarrow> format_http_date hc (de_mtime_unix entry);
        Some (''<tr><td><a href=\"'' @ href @ ''\">'' @ display_name @ ''</a></td><td>'' @ size_cell @
          ''</td><td>'' @ modified_cell @ ''</td></tr>'' @ NL)
      })"

fun render_rows :: "text_crates \<Rightarrow> ('h, 't) headers_crate \<Rightarrow> dir_entry list \<Rightarrow> string \<Rightarrow> string option" where
  "render_rows tc hc [] html = Some html"
| "render_rows tc hc (entry # rest) html =
     do { row \<leftarrow> render_row tc hc entry; render_rows tc hc rest (html @ row) }"

definition render_head :: "text_crates \<Rightarrow> string \<Rightarrow> bool \<Rightarrow> string" where
  "render_head tc url_path at_root =
     ''<!DOCTYPE html>'' @ NL @ ''<html>'' @ NL @ ''<head>'' @ NL @
     ''<meta charset=\"utf-8\">'' @ NL @
     ''<title>Index of '' @ tc_encode_text tc url_path @ ''</title>'' @ NL @
     ''</head>'' @ NL @ ''<body>'' @ NL @
     ''<h1>Index of '' @ tc_encode_text tc url_path @ ''</h1>'' @ NL @
     ''<table>'' @ NL @
     ''<tr><th>Name</th><th>Size</th><th>Last modified</th></tr>'' @ NL @
     (if \<not> at_root
      then ''<tr><td><a href=\"../\">../</a></td><td></td><td></td></tr>'' @ NL else [])"

definition render_listing ::
  "text_crates \<Rightarrow> ('h, 't) headers_crate \<Rightarrow> string \<Rightarrow> bool \<Rightarrow> dir_entry list \<Rightarrow> string option" where
  "render_listing tc hc url_path at_root entries =
     do {
       html \<leftarrow> render_rows tc hc (sort_by (compare_entries tc) entries) (render_head tc url_path at_root);
       Some (html @ ''</table>'' @ NL @ ''</body>'' @ NL @ ''</html>'' @ NL)
     }"

section \<open>Order\<close>

interpretation compare_entries: comparison "compare_entries tc" for tc
proof -
  have "comparison (\<lambda>(a :: dir_entry) b. ordering_then
      (ordering_then (cmp_of (de_is_dir b) (de_is_dir a))
        (cmp_of (tc_to_lowercase tc (de_name a)) (tc_to_lowercase tc (de_name b))))
      (cmp_of (de_name a) (de_name b)))"
    by (intro comparison_then comparison_key [of cmp_of de_name]
        comparison_key [of cmp_of "\<lambda>a. tc_to_lowercase tc (de_name a)"]
        comparison_flip [OF comparison_key [of cmp_of de_is_dir]] cmp_of.comparison_axioms)
  then show "comparison (compare_entries tc)" by (simp add: compare_entries_def [abs_def])
qed

lemma compare_entries_Equal:
  "compare_entries tc a b = Equal \<Longrightarrow> de_is_dir a = de_is_dir b \<and> de_name a = de_name b"
  by (auto simp: compare_entries_def ordering_then_iff)

text \<open>
  C35: A listing does not depend on the order in which the file system returns the entries.
\<close>

theorem render_listing_deterministic:
  assumes "distinct (map de_name entries)" and "mset entries = mset entries'"
  shows "render_listing tc hc url_path at_root entries = render_listing tc hc url_path at_root entries'"
proof -
  have "a = b" if "a \<in> set entries" "b \<in> set entries" "compare_entries tc a b = Equal" for a b
    using that assms(1) compare_entries_Equal [of tc a b] by (auto simp: distinct_map inj_on_def)
  then have "sort_by (compare_entries tc) entries = sort_by (compare_entries tc) entries'"
    using assms(2) by (rule compare_entries.sort_by_mset_unique)
  then show ?thesis by (simp add: render_listing_def)
qed

text \<open>
  Crates for closed examples: the escaping of \<^verbatim>\<open>&\<close> and the brackets, and the percent encoding of the
  set and of all bytes that are not ASCII.
\<close>

definition escape_char :: "char \<Rightarrow> string" where
  "escape_char c = (if c = CHR ''&'' then ''&amp;'' else if c = CHR ''<'' then ''&lt;''
     else if c = CHR ''>'' then ''&gt;'' else [c])"

definition upper_hex :: string where "upper_hex = ''0123456789ABCDEF''"

definition percent_byte :: "char \<Rightarrow> string" where
  "percent_byte c = [CHR ''%'', upper_hex ! (of_char c div 16), upper_hex ! (of_char c mod 16)]"

lemma percent_byte_set: "set (percent_byte c) \<subseteq> insert (CHR ''%'') (set upper_hex)"
proof -
  have "length upper_hex = 16" by (simp add: upper_hex_def)
  then have "upper_hex ! (of_char c div 16) \<in> set upper_hex" "upper_hex ! (of_char c mod 16) \<in> set upper_hex"
    using of_char_less_256 [of c] by (intro nth_mem; simp add: less_mult_imp_div_less)+
  then show ?thesis by (simp add: percent_byte_def)
qed

definition percent_encoded :: "string \<Rightarrow> (char \<Rightarrow> bool) \<Rightarrow> string" where
  "percent_encoded s P = concat (map (\<lambda>c. if P c \<or> (128 :: nat) \<le> of_char c then percent_byte c else [c]) s)"

definition not_alphanumeric :: "char \<Rightarrow> bool" where
  "not_alphanumeric c \<longleftrightarrow> \<not> (is_ascii_digit c \<or> (65 \<le> (of_char c :: nat) \<and> (of_char c :: nat) \<le> 90) \<or>
     (97 \<le> (of_char c :: nat) \<and> (of_char c :: nat) \<le> 122))"

definition sample_text_crates :: text_crates where
  "sample_text_crates =
     \<lparr>tc_encode_text = (\<lambda>s. concat (map escape_char s)), tc_percent_encode = percent_encoded,
      tc_non_alphanumeric = not_alphanumeric, tc_to_lowercase = to_ascii_lowercase\<rparr>"

theorem render_listing_deterministic_witness:
  "render_listing sample_text_crates sample_crate ''/'' True
     [\<lparr>de_name = ''b'', de_is_dir = False, de_size = 1, de_mtime_unix = 0\<rparr>,
      \<lparr>de_name = ''a'', de_is_dir = True, de_size = 0, de_mtime_unix = 0\<rparr>] =
   render_listing sample_text_crates sample_crate ''/'' True
     [\<lparr>de_name = ''a'', de_is_dir = True, de_size = 0, de_mtime_unix = 0\<rparr>,
      \<lparr>de_name = ''b'', de_is_dir = False, de_size = 1, de_mtime_unix = 0\<rparr>]"
  by (rule render_listing_deterministic) simp_all

section \<open>Markup\<close>

text \<open>
  What the crates promise of their output: escaped text has no angle brackets; percent-encoded text is made of
  percent signs, hexadecimal digits and characters outside the set, which contains brackets and quotes; a
  date is plain text.
\<close>

definition markup_free :: "string \<Rightarrow> bool" where
  "markup_free s \<longleftrightarrow> CHR ''<'' \<notin> set s \<and> CHR ''>'' \<notin> set s"

definition escapes_markup :: "text_crates \<Rightarrow> ('h, 't) headers_crate \<Rightarrow> bool" where
  "escapes_markup tc hc \<longleftrightarrow>
     (\<forall>s. markup_free (tc_encode_text tc s)) \<and>
     (\<forall>s P c. c \<in> set (tc_percent_encode tc s P) \<longrightarrow> c = CHR ''%'' \<or> c \<in> set upper_hex \<or> \<not> P c) \<and>
     tc_non_alphanumeric tc (CHR ''<'') \<and> tc_non_alphanumeric tc (CHR ''>'') \<and>
     tc_non_alphanumeric tc (CHR 0x22) \<and>
     (\<forall>d s. hc_fmt_http_date hc d = Some s \<longrightarrow> markup_free s)"

lemma markup_free_append [simp]: "markup_free (a @ b) \<longleftrightarrow> markup_free a \<and> markup_free b"
  by (auto simp: markup_free_def)

lemma count_markup_free [simp]: "markup_free s \<Longrightarrow> count_list s (CHR ''<'') = 0"
  by (simp add: markup_free_def count_list_0_iff)

lemma decimal_markup_free [simp]: "markup_free (to_radix 10 n)"
proof -
  have "is_ascii_digit c" if "c \<in> set (to_radix 10 n)" for c
    using that by (rule to_radix_digits [rotated 2]) (auto simp: is_ascii_digit_digit_char)
  moreover have "\<not> is_ascii_digit (CHR ''<'')" "\<not> is_ascii_digit (CHR ''>'')"
    by (simp_all add: is_ascii_digit_def)
  ultimately show ?thesis unfolding markup_free_def by blast
qed

lemma humanize_loop_unit: "i \<le> 3 \<Longrightarrow> snd (humanize_loop v q i) \<le> 3"
  by (induction v q i rule: humanize_loop.induct) (subst humanize_loop.simps, auto simp: UNITS_def)

lemma humanize_markup_free [simp]: "markup_free (humanize_size sz)"
proof (cases "sz < 1024")
  case True
  then show ?thesis by (simp add: humanize_size_def dec_u64_def) (simp add: markup_free_def)
next
  case False
  obtain q i where qi: "humanize_loop (f64_of_u64 sz) 1024 0 = (q, i)" by fastforce
  then have "i \<le> 3" using humanize_loop_unit [of 0 "f64_of_u64 sz" 1024] by simp
  then have "markup_free (UNITS ! i)"
    by (auto simp: UNITS_def markup_free_def le_Suc_eq numeral_eq_Suc)
  then show ?thesis
    using False qi decimal_markup_free
    by (simp add: humanize_size_def Let_def markup_free_def)
qed

lemma upper_hex_plain: "c \<in> set upper_hex \<Longrightarrow> c \<noteq> CHR ''<'' \<and> c \<noteq> CHR ''>'' \<and> c \<noteq> CHR 0x22"
  by (auto simp: upper_hex_def)

text \<open>The reference of a link can neither close its attribute nor its tag.\<close>

lemma href_plain:
  assumes "escapes_markup tc hc"
  shows "markup_free (percent_encode_path_segment tc name)" and "CHR 0x22 \<notin> set (percent_encode_path_segment tc name)"
proof -
  have "c \<noteq> CHR ''<'' \<and> c \<noteq> CHR ''>'' \<and> c \<noteq> CHR 0x22" if "c \<in> set (percent_encode_path_segment tc name)" for c
  proof -
    from that assms consider "c = CHR ''%''" | "c \<in> set upper_hex" | "\<not> PATH_SEGMENT tc c"
      unfolding escapes_markup_def percent_encode_path_segment_def by blast
    then show ?thesis
    proof cases
      case 3
      then show ?thesis using assms by (auto simp: PATH_SEGMENT_def escapes_markup_def)
    qed (use upper_hex_plain in auto)
  qed
  then show "markup_free (percent_encode_path_segment tc name)" "CHR 0x22 \<notin> set (percent_encode_path_segment tc name)"
    by (auto simp: markup_free_def)
qed

lemma row_count:
  assumes "escapes_markup tc hc" and "render_row tc hc e = Some row"
  shows "count_list row (CHR ''<'') = 10"
proof -
  have "markup_free (percent_encode_path_segment tc (de_name e))" by (rule href_plain [OF assms(1)])
  moreover have "markup_free (tc_encode_text tc (de_name e))"
    using assms(1) by (simp add: escapes_markup_def)
  moreover obtain d where d: "format_http_date hc (de_mtime_unix e) = Some d"
    using assms(2) by (auto simp: render_row_def Let_def bind_eq_Some_conv split: if_splits)
  then have "markup_free d"
    using assms(1) by (simp add: escapes_markup_def format_http_date_def)
  ultimately show ?thesis
    using assms(2) d by (auto simp: render_row_def Let_def split: if_splits)
qed

lemma rows_infix:
  "render_rows tc hc es html = Some out \<Longrightarrow> e \<in> set es \<Longrightarrow>
     \<exists>row pre post. render_row tc hc e = Some row \<and> out = pre @ row @ post"
proof (induction tc hc es html rule: render_rows.induct)
  case (2 tc hc e' rest html)
  then obtain row where row: "render_row tc hc e' = Some row" "render_rows tc hc rest (html @ row) = Some out"
    by (auto simp: bind_eq_Some_conv)
  have "\<exists>post. out = (html @ row) @ post"
    using row(2) by (induction tc hc rest "html @ row" arbitrary: html row rule: render_rows.induct)
      (auto simp: bind_eq_Some_conv, metis append.assoc)
  then show ?case using 2 row by auto
qed simp

lemma rows_count:
  "escapes_markup tc hc \<Longrightarrow> render_rows tc hc es html = Some out \<Longrightarrow>
     count_list out (CHR ''<'') = count_list html (CHR ''<'') + 10 * length es"
  by (induction tc hc es html rule: render_rows.induct)
     (auto simp: row_count bind_eq_Some_conv)

text \<open>A listing can be rendered when every entry's time has a date.\<close>

lemma render_rows_total:
  "(\<And>e. e \<in> set es \<Longrightarrow> format_http_date hc (de_mtime_unix e) \<noteq> None) \<Longrightarrow> render_rows tc hc es html \<noteq> None"
proof (induction es arbitrary: html)
  case (Cons e es)
  obtain d where "format_http_date hc (de_mtime_unix e) = Some d" using Cons.prems [of e] by auto
  then obtain row where "render_row tc hc e = Some row" by (cases "de_is_dir e") (simp_all add: render_row_def)
  then show ?case using Cons by simp
qed simp

lemma render_listing_total:
  assumes "\<And>e. e \<in> set es \<Longrightarrow> format_http_date hc (de_mtime_unix e) \<noteq> None"
  shows "render_listing tc hc url_path at_root es \<noteq> None"
proof -
  have "set (sort_by (compare_entries tc) es) = set es" by simp
  then have "render_rows tc hc (sort_by (compare_entries tc) es) html \<noteq> None" for html
    using assms by (intro render_rows_total) auto
  then show ?thesis by (simp add: render_listing_def bind_eq_None_conv del: not_None_eq)
qed

text \<open>
  C29: No markup injection: the number of tags in a listing depends only on the number of entries and
  on the parent link, whatever the names of the files and the requested path are; and every entry has its own
  link, whose reference holds no quote and no bracket, so that it ends where its attribute ends.
\<close>

theorem render_listing_markup:
  assumes "escapes_markup tc hc" and "render_listing tc hc url_path at_root entries = Some html"
  shows "count_list html (CHR ''<'') = (if at_root then 22 else 32) + 10 * length entries \<and>
    (\<forall>e \<in> set entries. \<exists>pre href name post.
       html = pre @ ''<a href=\"'' @ href @ ''\">'' @ name @ ''</a>'' @ post \<and>
       prefix (percent_encode_path_segment tc (de_name e)) href \<and> CHR 0x22 \<notin> set href \<and> markup_free href \<and>
       prefix (tc_encode_text tc (de_name e)) name \<and> markup_free name)"
proof (intro conjI ballI)
  have "markup_free (tc_encode_text tc url_path)"
    using assms(1) by (simp add: escapes_markup_def)
  then have "count_list (render_head tc url_path at_root) (CHR ''<'') = (if at_root then 19 else 29)"
    by (simp add: render_head_def)
  then show "count_list html (CHR ''<'') = (if at_root then 22 else 32) + 10 * length entries"
    using assms rows_count [OF assms(1)]
    by (auto simp: render_listing_def bind_eq_Some_conv)
next
  fix e assume "e \<in> set entries"
  then obtain rows row pre post where row: "render_row tc hc e = Some row" "rows = pre @ row @ post"
    "html = rows @ ''</table>'' @ NL @ ''</body>'' @ NL @ ''</html>'' @ NL"
    using assms(2) rows_infix [of tc hc "sort_by (compare_entries tc) entries" "render_head tc url_path at_root" _ e]
    by (fastforce simp: render_listing_def bind_eq_Some_conv)
  define slash where "slash = (if de_is_dir e then ''/'' else [])"
  let ?href = "percent_encode_path_segment tc (de_name e) @ slash" and ?name = "tc_encode_text tc (de_name e) @ slash"
  obtain tail where "row = ''<tr><td><a href=\"'' @ ?href @ ''\">'' @ ?name @ ''</a>'' @ tail"
    using row(1) by (cases "de_is_dir e") (auto simp: render_row_def slash_def bind_eq_Some_conv)
  then have "html = (pre @ ''<tr><td>'') @ ''<a href=\"'' @ ?href @ ''\">'' @ ?name @ ''</a>'' @
      (tail @ post @ ''</table>'' @ NL @ ''</body>'' @ NL @ ''</html>'' @ NL)"
    using row(2,3) by simp
  moreover have "CHR 0x22 \<notin> set slash" "markup_free slash" by (simp_all add: slash_def markup_free_def)
  moreover have "markup_free (tc_encode_text tc (de_name e))" using assms(1) by (simp add: escapes_markup_def)
  ultimately show "\<exists>pre href name post.
       html = pre @ ''<a href=\"'' @ href @ ''\">'' @ name @ ''</a>'' @ post \<and>
       prefix (percent_encode_path_segment tc (de_name e)) href \<and> CHR 0x22 \<notin> set href \<and> markup_free href \<and>
       prefix (tc_encode_text tc (de_name e)) name \<and> markup_free name"
    using href_plain [OF assms(1), of "de_name e"]
    by (intro exI [of _ "pre @ ''<tr><td>''"] exI [of _ ?href] exI [of _ ?name]
        exI [of _ "tail @ post @ ''</table>'' @ NL @ ''</body>'' @ NL @ ''</html>'' @ NL"]) simp
qed

lemma sample_escapes: "escapes_markup sample_text_crates sample_crate"
proof -
  have "markup_free (escape_char c)" for c by (simp add: escape_char_def markup_free_def)
  then have "markup_free (concat (map escape_char s))" for s
    by (induction s) (simp_all add: markup_free_def)
  moreover have "c = CHR ''%'' \<or> c \<in> set upper_hex \<or> \<not> P c" if "c \<in> set (percent_encoded s P)" for c s P
  proof -
    show ?thesis using that percent_byte_set by (fastforce simp: percent_encoded_def split: if_splits)
  qed
  moreover have "not_alphanumeric (CHR ''<'')" "not_alphanumeric (CHR ''>'')" "not_alphanumeric (CHR 0x22)"
    by (simp_all add: not_alphanumeric_def is_ascii_digit_def)
  ultimately show ?thesis
    by (auto simp: escapes_markup_def sample_text_crates_def sample_crate_def split: if_splits)
qed

theorem render_listing_markup_witness:
  "percent_encode_path_segment sample_text_crates ''<b>\"'' = ''%3Cb%3E%22'' \<and>
   (\<exists>html. render_listing sample_text_crates sample_crate ''/<x>/'' False
       [\<lparr>de_name = ''<b>\"'', de_is_dir = False, de_size = 1, de_mtime_unix = 7\<rparr>] = Some html \<and>
     count_list html (CHR ''<'') = 42)"
proof
  show "percent_encode_path_segment sample_text_crates ''<b>\"'' = ''%3Cb%3E%22''"
    by (simp add: percent_encode_path_segment_def sample_text_crates_def PATH_SEGMENT_def percent_encoded_def
        not_alphanumeric_def is_ascii_digit_def percent_byte_def upper_hex_def)
  let ?e = "\<lparr>de_name = ''<b>\"'', de_is_dir = False, de_size = 1, de_mtime_unix = 7\<rparr>"
  have "system_time 7 = 7" by (simp add: system_time_sint)
  then obtain row where "render_row sample_text_crates sample_crate ?e = Some row"
    by (simp add: render_row_def Let_def format_http_date_def sample_crate_def)
  then have "render_listing sample_text_crates sample_crate ''/<x>/'' False [?e] \<noteq> None"
    by (simp add: render_listing_def)
  then show "\<exists>html. render_listing sample_text_crates sample_crate ''/<x>/'' False [?e] = Some html \<and>
      count_list html (CHR ''<'') = 42"
    using render_listing_markup [OF sample_escapes, of "''/<x>/''" False "[?e]"] by fastforce
qed

section \<open>Sizes\<close>

lemma bit_len_bound: "n < 2 ^ k \<Longrightarrow> bit_len n \<le> k"
proof (induction k arbitrary: n)
  case 0
  then show ?case by (simp add: bit_len.simps)
next
  case (Suc k)
  have "bit_len (n div 2) \<le> k" using Suc.prems by (intro Suc.IH) simp
  then show ?case by (subst bit_len.simps) simp
qed

lemma f64_exact: "unat sz < 2 ^ 53 \<Longrightarrow> f64_of_u64 sz = unat sz"
  using bit_len_bound [of "unat sz" 53]
  by (simp add: f64_of_u64_def round_significand_def round_half_even_def Let_def)

lemma round_half_even_close: "0 < q \<Longrightarrow> 2 * \<bar>int (round_half_even p q) * int q - int p\<bar> \<le> int q"
proof -
  assume q: "0 < q"
  define d r where "d = p div q" and "r = p mod q"
  have p: "int p = int d * int q + int r"
    unfolding d_def r_def by (metis div_mult_mod_eq of_nat_add of_nat_mult)
  have r: "r < q" using q by (simp add: r_def)
  show ?thesis
  proof (cases "2 * r < q \<or> (2 * r = q \<and> even d)")
    case True
    then have "round_half_even p q = d" by (simp add: round_half_even_def Let_def d_def r_def)
    then show ?thesis using True p by auto
  next
    case False
    then have "round_half_even p q = d + 1" by (auto simp: round_half_even_def Let_def d_def r_def)
    then show ?thesis using False p r by (auto simp: algebra_simps)
  qed
qed

lemma humanize_loop_bounds:
  assumes "humanize_loop v q i = (q', j)" and "q \<le> v" and "0 < q" and "i \<le> 3"
  shows "q' = q * 1024 ^ (j - i) \<and> i \<le> j \<and> j \<le> 3 \<and> q' \<le> v \<and> (j < 3 \<longrightarrow> v < 1024 * q')"
  using assms
proof (induction v q i rule: humanize_loop.induct)
  case (1 v q i)
  show ?case
  proof (cases "v \<ge> 1024 * q \<and> i < length UNITS - 1")
    case True
    then have "humanize_loop v (q * 1024) (i + 1) = (q', j)"
      using "1.prems"(1) by (subst (asm) humanize_loop.simps) simp
    then have "q' = q * 1024 * 1024 ^ (j - (i + 1)) \<and> i + 1 \<le> j \<and> j \<le> 3 \<and> q' \<le> v \<and> (j < 3 \<longrightarrow> v < 1024 * q')"
      using True "1.prems" by (intro "1.IH") (auto simp: UNITS_def)
    moreover from this have "1024 * 1024 ^ (j - (i + 1)) = (1024 :: nat) ^ (j - i)"
      by (metis Suc_diff_Suc Suc_eq_plus1 Suc_le_lessD power_Suc)
    ultimately show ?thesis by (auto simp: mult.assoc)
  next
    case False
    then have "q' = q \<and> j = i" using "1.prems"(1) by (subst (asm) humanize_loop.simps) auto
    then show ?thesis using False "1.prems" by (auto simp: UNITS_def)
  qed
qed

text \<open>
  A size of at least 1024 bytes (and below 8 PiB, where \<^verbatim>\<open>f64\<close> is exact) is printed in the
  largest unit that does not exceed it, at most TiB, as the nearest number of tenths of it.
\<close>

theorem humanize_size_nearest:
  assumes "1024 \<le> unat sz" and "unat sz < 2 ^ 53"
  shows "\<exists>tenths j. j \<le> 3 \<and>
    humanize_size sz =
      to_radix 10 (tenths div 10) @ ''.'' @ to_radix 10 (tenths mod 10) @ '' '' @ UNITS ! j \<and>
    1024 ^ (j + 1) \<le> unat sz \<and> (j = 3 \<or> unat sz < 1024 ^ (j + 2)) \<and>
    2 * \<bar>int tenths * 1024 ^ (j + 1) - 10 * int (unat sz)\<bar> \<le> 1024 ^ (j + 1)"
proof -
  obtain q j where qj: "humanize_loop (unat sz) 1024 0 = (q, j)" by fastforce
  then have b: "q = 1024 * 1024 ^ j" "j \<le> 3" "q \<le> unat sz" "j < 3 \<longrightarrow> unat sz < 1024 * q"
    using humanize_loop_bounds [OF qj] assms(1) by auto
  define tenths where "tenths = round_half_even (unat sz * 10) q"
  have "0 < q" using b(1) by simp
  then have close: "2 * \<bar>int tenths * int q - int (unat sz * 10)\<bar> \<le> int q"
    unfolding tenths_def by (rule round_half_even_close)
  have "\<not> sz < 1024" using assms(1) by (simp add: word_less_nat_alt)
  then have "humanize_size sz =
      to_radix 10 (tenths div 10) @ ''.'' @ to_radix 10 (tenths mod 10) @ '' '' @ UNITS ! j"
    using qj assms(2) by (simp add: humanize_size_def f64_exact tenths_def Let_def)
  moreover have "1024 ^ (j + 1) \<le> unat sz" "j = 3 \<or> unat sz < 1024 ^ (j + 2)"
    using b by auto
  moreover have "2 * \<bar>int tenths * 1024 ^ (j + 1) - 10 * int (unat sz)\<bar> \<le> 1024 ^ (j + 1)"
    using close b(1) by (simp add: mult.commute)
  ultimately show ?thesis using b(2) by blast
qed

theorem humanize_size_nearest_witness:
  "\<exists>tenths j. j \<le> 3 \<and>
    humanize_size 1536 =
      to_radix 10 (tenths div 10) @ ''.'' @ to_radix 10 (tenths mod 10) @ '' '' @ UNITS ! j \<and>
    1024 ^ (j + 1) \<le> (1536 :: nat) \<and> (j = 3 \<or> (1536 :: nat) < 1024 ^ (j + 2)) \<and>
    2 * \<bar>int tenths * 1024 ^ (j + 1) - 10 * 1536\<bar> \<le> 1024 ^ (j + 1)"
  using humanize_size_nearest [of 1536] by simp

end
