(* ===== verification/Std_Path.thy ===== *)
theory Std_Path
  imports Std_String
begin

text \<open>
  The part of \<^verbatim>\<open>std::path\<close> the source uses, for Unix paths: \<^verbatim>\<open>PathBuf::join\<close>,
  \<^verbatim>\<open>Path::components\<close>, \<^verbatim>\<open>starts_with\<close> (by whole components), \<^verbatim>\<open>parent\<close>, \<^verbatim>\<open>file_name\<close>
  and \<^verbatim>\<open>extension\<close>. A path is its byte string; two paths are equal to Rust when their
  components are, so a parent is given by the normal text of its components.
\<close>

datatype component = RootDir | CurDir | ParentDir | Normal string

fun piece_component :: "string \<Rightarrow> component option" where
  "piece_component p =
     (if p = [] \<or> p = ''.'' then None
      else if p = ''..'' then Some ParentDir
      else Some (Normal p))"

definition piece_components :: "string list \<Rightarrow> component list" where
  "piece_components ps = List.map_filter piece_component ps"

text \<open>A leading \<^verbatim>\<open>.\<close> of a relative path is a component, every other one is dropped.\<close>

definition components :: "path \<Rightarrow> component list" where
  "components p =
     (case p of
        [] \<Rightarrow> []
      | c # _ \<Rightarrow>
          (if c = CHR ''/'' then [RootDir]
           else if hd (split_on (CHR ''/'') p) = ''.'' then [CurDir] else [])
          @ piece_components (split_on (CHR ''/'') p))"

definition is_absolute :: "path \<Rightarrow> bool" where
  "is_absolute p \<longleftrightarrow> p \<noteq> [] \<and> hd p = CHR ''/''"

text \<open>\<^verbatim>\<open>Path::join\<close>: an absolute argument replaces the base.\<close>

definition path_join :: "path \<Rightarrow> path \<Rightarrow> path" where
  "path_join base p =
     (if is_absolute p then p
      else if base = [] \<or> last base = CHR ''/'' then base @ p
      else base @ ''/'' @ p)"

definition path_starts_with :: "path \<Rightarrow> path \<Rightarrow> bool" where
  "path_starts_with p base \<longleftrightarrow> prefix (components base) (components p)"

fun component_text :: "component \<Rightarrow> string" where
  "component_text RootDir = []"
| "component_text CurDir = ''.''"
| "component_text ParentDir = ''..''"
| "component_text (Normal s) = s"

definition components_text :: "component list \<Rightarrow> path" where
  "components_text cs = (if cs = [RootDir] then ''/'' else join_with ''/'' (map component_text cs))"

definition path_file_name :: "path \<Rightarrow> string option" where
  "path_file_name p =
     (case rev (components p) of Normal s # _ \<Rightarrow> Some s | _ \<Rightarrow> None)"

definition path_parent :: "path \<Rightarrow> path option" where
  "path_parent p =
     (case rev (components p) of
        [] \<Rightarrow> None
      | RootDir # _ \<Rightarrow> None
      | _ # cs \<Rightarrow> Some (components_text (rev cs)))"

definition rsplit_once :: "char \<Rightarrow> string \<Rightarrow> (string \<times> string) option" where
  "rsplit_once c s = map_option (\<lambda>(a, b). (rev b, rev a)) (split_once c (rev s))"

text \<open>\<^verbatim>\<open>Path::extension\<close>: after the last dot of the file name, unless that dot leads it.\<close>

definition path_extension :: "path \<Rightarrow> string option" where
  "path_extension p =
     (case path_file_name p of
        None \<Rightarrow> None
      | Some file \<Rightarrow>
        (case rsplit_once (CHR ''.'') file of
           None \<Rightarrow> None
         | Some (stem, ext) \<Rightarrow> if stem = [] then None else Some ext))"

section \<open>Lexical facts\<close>

lemma piece_components_simps [simp]:
  "piece_components [] = []"
  "piece_components (p # ps) =
     (case piece_component p of None \<Rightarrow> piece_components ps | Some c \<Rightarrow> c # piece_components ps)"
  by (simp_all add: piece_components_def split: option.splits)

lemma piece_components_append: "piece_components (xs @ ys) = piece_components xs @ piece_components ys"
  by (induction xs) (simp_all split: option.splits del: piece_component.simps)

lemma split_on_append: "split_on c (a @ c # b) = split_on c a @ split_on c b"
proof (induction a)
  case Nil
  then show ?case by simp
next
  case (Cons x a)
  then show ?case by (cases "split_on c a") (simp_all split: list.splits)
qed

text \<open>A name that stands for itself below a directory: neither empty, nor dots, nor with a slash.\<close>

definition plain_name :: "string \<Rightarrow> bool" where
  "plain_name s \<longleftrightarrow> s \<noteq> [] \<and> s \<noteq> ''.'' \<and> s \<noteq> ''..'' \<and> CHR ''/'' \<notin> set s"

lemma piece_components_plain:
  "\<forall>s \<in> set ss. plain_name s \<Longrightarrow> piece_components ss = map Normal ss"
  by (induction ss) (auto simp: plain_name_def)

lemma plain_join_not_absolute:
  "\<forall>s \<in> set ss. plain_name s \<Longrightarrow> \<not> is_absolute (join_with ''/'' ss)"
proof (induction "''/''" ss rule: join_with.induct)
  case (2 x)
  then show ?case by (cases x) (auto simp: is_absolute_def plain_name_def)
next
  case (3 x y ys)
  then show ?case by (cases x) (auto simp: is_absolute_def plain_name_def)
qed (simp add: is_absolute_def)

lemma split_plain_join:
  "\<forall>s \<in> set ss. plain_name s \<Longrightarrow>
     piece_components (split_on (CHR ''/'') (join_with ''/'' ss)) = map Normal ss"
  by (cases "ss = []")
     (simp_all add: split_on_join piece_components_plain plain_name_def)

lemma components_absolute:
  "is_absolute p \<Longrightarrow> components p = RootDir # piece_components (split_on (CHR ''/'') p)"
  by (auto simp: components_def is_absolute_def split: list.splits)

text \<open>
  Joining plain names below an absolute directory only appends them: the path stays below it.
\<close>

lemma components_join_plain:
  assumes root: "is_absolute root" and ss: "\<forall>s \<in> set ss. plain_name s"
  shows "components (path_join root (join_with ''/'' ss)) = components root @ map Normal ss"
proof (cases "last root = CHR ''/''")
  case True
  then obtain r where r: "root = r @ [CHR ''/'']"
    using root by (metis append_butlast_last_id is_absolute_def)
  have p: "path_join root (join_with ''/'' ss) = r @ CHR ''/'' # join_with ''/'' ss"
    using plain_join_not_absolute [OF ss] True r by (simp add: path_join_def)
  have "is_absolute (r @ CHR ''/'' # join_with ''/'' ss)"
    using root r by (cases r) (auto simp: is_absolute_def)
  then show ?thesis
    unfolding p using ss root
    by (simp add: components_absolute r split_on_append piece_components_append split_plain_join
        del: split_on.simps) simp
next
  case False
  then have p: "path_join root (join_with ''/'' ss) = root @ CHR ''/'' # join_with ''/'' ss"
    using plain_join_not_absolute [OF ss] root by (auto simp: path_join_def is_absolute_def)
  have "is_absolute (root @ CHR ''/'' # join_with ''/'' ss)"
    using root by (auto simp: is_absolute_def)
  then show ?thesis
    unfolding p using ss root
    by (simp add: components_absolute split_on_append piece_components_append split_plain_join
        del: split_on.simps)
qed

lemma path_starts_with_join_plain:
  "is_absolute root \<Longrightarrow> \<forall>s \<in> set ss. plain_name s \<Longrightarrow>
     path_starts_with (path_join root (join_with ''/'' ss)) root"
  by (simp add: path_starts_with_def components_join_plain)

lemma path_starts_with_refl [simp]: "path_starts_with p p"
  by (simp add: path_starts_with_def)

end
