(* ===== verification/Request_Path.thy ===== *)
theory Request_Path
  imports Std_Path
begin

text \<open>
  \<^verbatim>\<open>envoy-files-core/src/path.rs\<close>: resolution of a request path into a safe relative path.
  \<^verbatim>\<open>percent_encoding::percent_decode(..).decode_utf8()\<close> is a parameter \<open>dec\<close>: \<open>None\<close> is invalid
  UTF-8. What the code relies on is \<open>decodes_nonempty\<close>: decoding never erases a whole segment.
\<close>

section \<open>Data\<close>

record path_policy =
  pol_serve_dotfiles :: bool
  pol_max_path_len :: nat

datatype reject_reason = BadEncoding | Traversal | Dotfile | TooLong | BadCharacter

datatype validated_path =
    PathOk (path_relative: string) (path_trailing_slash: bool)
  | Reject reject_reason

section \<open>The code\<close>

definition strip_query_and_fragment :: "string \<Rightarrow> string" where
  "strip_query_and_fragment raw_path = takeWhile (\<lambda>c. \<not> (c = CHR ''?'' \<or> c = CHR ''#'')) raw_path"

definition percent_decode_segment ::
  "(string \<Rightarrow> string option) \<Rightarrow> string \<Rightarrow> reject_reason + string" where
  "percent_decode_segment dec segment =
     (case dec segment of
        None \<Rightarrow> Inl BadEncoding
      | Some decoded \<Rightarrow> if CHR ''/'' \<in> set decoded then Inl Traversal else Inr decoded)"

definition RESERVED :: "string list" where
  "RESERVED =
     [''CON'', ''PRN'', ''AUX'', ''NUL'', ''COM1'', ''COM2'', ''COM3'', ''COM4'', ''COM5'', ''COM6'',
      ''COM7'', ''COM8'', ''COM9'', ''LPT1'', ''LPT2'', ''LPT3'', ''LPT4'', ''LPT5'', ''LPT6'',
      ''LPT7'', ''LPT8'', ''LPT9'']"

definition is_windows_reserved_name :: "string \<Rightarrow> bool" where
  "is_windows_reserved_name segment =
     (let basename = (case split_once (CHR ''.'') segment of
          Some (base, _) \<Rightarrow> base
        | None \<Rightarrow> segment) in
      list_ex (\<lambda>name. eq_ignore_ascii_case name basename) RESERVED)"

fun reject_char :: "string \<Rightarrow> reject_reason option" where
  "reject_char [] = None"
| "reject_char (c # cs) =
     (if c = CHR 0x5C then Some BadCharacter
      else if c = CHR '':'' then Some BadCharacter
      else if (of_char c :: nat) < 0x20 then Some BadCharacter
      else reject_char cs)"

definition ends_with_char :: "string \<Rightarrow> char \<Rightarrow> bool" where
  "ends_with_char s c \<longleftrightarrow> s \<noteq> [] \<and> last s = c"

definition starts_with_char :: "string \<Rightarrow> char \<Rightarrow> bool" where
  "starts_with_char s c \<longleftrightarrow> s \<noteq> [] \<and> hd s = c"

definition reject_reason_for_segment :: "string \<Rightarrow> path_policy \<Rightarrow> reject_reason option" where
  "reject_reason_for_segment segment policy =
     (case reject_char segment of
        Some reason \<Rightarrow> Some reason
      | None \<Rightarrow>
          if ends_with_char segment (CHR ''.'') \<or> ends_with_char segment (CHR '' '')
          then Some BadCharacter
          else if \<not> pol_serve_dotfiles policy \<and> starts_with_char segment (CHR ''.'')
          then Some Dotfile
          else if is_windows_reserved_name segment then Some BadCharacter
          else None)"

fun resolve_loop ::
  "(string \<Rightarrow> string option) \<Rightarrow> path_policy \<Rightarrow> string list \<Rightarrow> string list \<Rightarrow>
     reject_reason + string list"
where
  "resolve_loop dec policy [] resolved_segments = Inr resolved_segments"
| "resolve_loop dec policy (raw_segment # rest) resolved_segments =
     (if raw_segment = [] then resolve_loop dec policy rest resolved_segments
      else case percent_decode_segment dec raw_segment of
        Inl reason \<Rightarrow> Inl reason
      | Inr decoded \<Rightarrow>
          if decoded = ''.'' then resolve_loop dec policy rest resolved_segments
          else if decoded = ''..'' then Inl Traversal
          else case reject_reason_for_segment decoded policy of
            Some reason \<Rightarrow> Inl reason
          | None \<Rightarrow> resolve_loop dec policy rest (resolved_segments @ [decoded]))"

definition resolve_request_path ::
  "(string \<Rightarrow> string option) \<Rightarrow> string \<Rightarrow> path_policy \<Rightarrow> validated_path" where
  "resolve_request_path dec raw_path policy =
     (if length raw_path > pol_max_path_len policy then Reject TooLong
      else
        let path_only = strip_query_and_fragment raw_path;
            trailing_slash = ends_with_char path_only (CHR ''/'') in
        case resolve_loop dec policy (split_on (CHR ''/'') path_only) [] of
          Inl reason \<Rightarrow> Reject reason
        | Inr resolved_segments \<Rightarrow> PathOk (join_with ''/'' resolved_segments) trailing_slash)"

section \<open>Safe segments\<close>

definition decodes_nonempty :: "(string \<Rightarrow> string option) \<Rightarrow> bool" where
  "decodes_nonempty dec \<longleftrightarrow> (\<forall>s. s \<noteq> [] \<longrightarrow> dec s \<noteq> Some [])"

text \<open>What every segment of a resolved path satisfies, stated without the checking code.\<close>

definition safe_segment :: "path_policy \<Rightarrow> string \<Rightarrow> bool" where
  "safe_segment policy s \<longleftrightarrow>
     plain_name s \<and>
     (\<forall>c \<in> set s. c \<noteq> CHR 0x5C \<and> c \<noteq> CHR '':'' \<and> 0x20 \<le> (of_char c :: nat)) \<and>
     last s \<noteq> CHR ''.'' \<and> last s \<noteq> CHR '' '' \<and>
     (hd s = CHR ''.'' \<longrightarrow> pol_serve_dotfiles policy) \<and>
     \<not> is_windows_reserved_name s"

lemma reject_char_None:
  "reject_char s = None \<longleftrightarrow>
     (\<forall>c \<in> set s. c \<noteq> CHR 0x5C \<and> c \<noteq> CHR '':'' \<and> 0x20 \<le> (of_char c :: nat))"
  by (induction s) (auto simp: not_less)

lemma reject_char_cases: "reject_char s = None \<or> reject_char s = Some BadCharacter"
  by (induction s) auto

lemma safe_segment_iff:
  "safe_segment policy s \<longleftrightarrow>
     s \<noteq> [] \<and> s \<noteq> ''.'' \<and> s \<noteq> ''..'' \<and> CHR ''/'' \<notin> set s \<and> reject_reason_for_segment s policy = None"
  unfolding safe_segment_def plain_name_def reject_reason_for_segment_def
  by (auto simp: reject_char_None [symmetric] ends_with_char_def starts_with_char_def
      split: option.splits)

lemma safe_segment_plain: "safe_segment policy s \<Longrightarrow> plain_name s"
  by (simp add: safe_segment_def)

lemma reserved_nonempty: "\<not> is_windows_reserved_name []"
  by (simp add: is_windows_reserved_name_def RESERVED_def eq_ignore_ascii_case_def to_ascii_lowercase_def)

text \<open>The per-segment verdict, and the loop as its first failure or the list of its results.\<close>

definition segment_verdict ::
  "(string \<Rightarrow> string option) \<Rightarrow> path_policy \<Rightarrow> string \<Rightarrow> reject_reason + string list" where
  "segment_verdict dec policy raw =
     (if raw = [] then Inr []
      else case dec raw of
        None \<Rightarrow> Inl BadEncoding
      | Some d \<Rightarrow>
          if CHR ''/'' \<in> set d \<or> d = ''..'' then Inl Traversal
          else if d = ''.'' then Inr []
          else case reject_reason_for_segment d policy of Some e \<Rightarrow> Inl e | None \<Rightarrow> Inr [d])"

lemma resolve_loop_step:
  "resolve_loop dec policy (raw # rest) acc =
     (case segment_verdict dec policy raw of
        Inl e \<Rightarrow> Inl e
      | Inr ss \<Rightarrow> resolve_loop dec policy rest (acc @ ss))"
  by (auto simp: segment_verdict_def percent_decode_segment_def split: option.splits)

lemma resolve_loop_eq:
  "resolve_loop dec policy raws acc =
     (case collect_results (segment_verdict dec policy) raws of
        Inl e \<Rightarrow> Inl e
      | Inr sss \<Rightarrow> Inr (acc @ concat sss))"
proof (induction raws arbitrary: acc)
  case Nil
  then show ?case by simp
next
  case (Cons raw rest)
  then show ?case
    by (simp add: resolve_loop_step del: resolve_loop.simps split: sum.splits)
qed

lemma segment_verdict_safe:
  "decodes_nonempty dec \<Longrightarrow> segment_verdict dec policy raw = Inr ss \<Longrightarrow> s \<in> set ss \<Longrightarrow>
     safe_segment policy s"
  by (auto simp: segment_verdict_def safe_segment_iff decodes_nonempty_def
      split: if_splits option.splits)

lemma resolve_ok_segments:
  assumes "decodes_nonempty dec" and "resolve_request_path dec raw policy = PathOk rel ts"
  obtains segs where "rel = join_with ''/'' segs" "\<forall>s \<in> set segs. safe_segment policy s"
proof -
  obtain sss where "collect_results (segment_verdict dec policy)
        (split_on (CHR ''/'') (strip_query_and_fragment raw)) = Inr sss"
    and rel: "rel = join_with ''/'' (concat sss)"
    using assms(2)
    by (auto simp: resolve_request_path_def resolve_loop_eq Let_def split: if_splits sum.splits)
  then have "list_all2 (\<lambda>raw ss. segment_verdict dec policy raw = Inr ss)
      (split_on (CHR ''/'') (strip_query_and_fragment raw)) sss"
    by (simp add: collect_results_Inr)
  then have "\<forall>ss \<in> set sss. \<exists>raw. segment_verdict dec policy raw = Inr ss"
    by (blast dest: list_all2_sources)
  then have "\<forall>s \<in> set (concat sss). safe_segment policy s"
    using segment_verdict_safe [OF assms(1)] by fastforce
  with rel show ?thesis by (rule that)
qed

section \<open>A decoder for closed examples\<close>

text \<open>
  A concrete decoder of percent escapes below 128, used only where a theorem is applied at a
  concrete input; the theorems themselves hold for any decoder with the stated behaviour.
\<close>

definition hex_digit_value :: "char \<Rightarrow> nat option" where
  "hex_digit_value c =
     (let n = (of_char c :: nat) in
      if 48 \<le> n \<and> n \<le> 57 then Some (n - 48)
      else if 97 \<le> n \<and> n \<le> 102 then Some (n - 87)
      else if 65 \<le> n \<and> n \<le> 70 then Some (n - 55) else None)"

fun sample_decode :: "string \<Rightarrow> string option" where
  "sample_decode [] = Some []"
| "sample_decode (c # cs) =
     (if (of_char c :: nat) \<ge> 128 then None
      else if c = CHR ''%'' then
        (case cs of
           h # l # rest \<Rightarrow>
             (case (hex_digit_value h, hex_digit_value l) of
                (Some a, Some b) \<Rightarrow>
                  if a < 8 then map_option (\<lambda>r. char_of (16 * a + b) # r) (sample_decode rest)
                  else None
              | _ \<Rightarrow> map_option (\<lambda>r. c # r) (sample_decode cs))
         | _ \<Rightarrow> map_option (\<lambda>r. c # r) (sample_decode cs))
      else map_option (\<lambda>r. c # r) (sample_decode cs))"

lemma sample_decode_nonempty: "decodes_nonempty sample_decode"
  unfolding decodes_nonempty_def
proof (intro allI impI)
  fix s :: string assume "s \<noteq> []"
  then show "sample_decode s \<noteq> Some []"
    by (cases s) (auto split: list.splits option.splits)
qed

section \<open>Properties\<close>

text \<open>
  C12: A path that resolves stays under the document root: joined to an absolute root, its components
  are the root's followed by plain names, none of them \<^verbatim>\<open>..\<close>, hidden (unless dotfiles are
  served), reserved on Windows, or with a backslash, colon, control character or trailing dot
  or space.
\<close>

theorem resolved_path_contained:
  assumes "decodes_nonempty dec" and "resolve_request_path dec raw policy = PathOk rel ts"
    and "is_absolute root"
  shows "\<exists>segs. (\<forall>s \<in> set segs. safe_segment policy s) \<and>
    components (path_join root rel) = components root @ map Normal segs"
proof -
  obtain segs where "rel = join_with ''/'' segs" and safe: "\<forall>s \<in> set segs. safe_segment policy s"
    using resolve_ok_segments [OF assms(1,2)] .
  then have "components (path_join root rel) = components root @ map Normal segs"
    using components_join_plain [OF assms(3)] by (blast intro: safe_segment_plain)
  with safe show ?thesis by blast
qed

theorem resolved_path_contained_witness:
  "\<exists>segs. (\<forall>s \<in> set segs. safe_segment \<lparr>pol_serve_dotfiles = False, pol_max_path_len = 4096\<rparr> s) \<and>
    components (path_join ''/srv'' ''a b/c'') = components ''/srv'' @ map Normal segs"
proof (rule resolved_path_contained [OF sample_decode_nonempty])
  show "resolve_request_path sample_decode ''/a%20b//./c?x=1'' \<lparr>pol_serve_dotfiles = False, pol_max_path_len = 4096\<rparr>
    = PathOk ''a b/c'' False"
    by (simp add: resolve_request_path_def strip_query_and_fragment_def percent_decode_segment_def
        hex_digit_value_def reject_reason_for_segment_def ends_with_char_def starts_with_char_def
        is_windows_reserved_name_def RESERVED_def eq_ignore_ascii_case_def to_ascii_lowercase_def
        to_ascii_lower_def char_of_def bit_Suc_0_iff Let_def)
  show "is_absolute ''/srv''" by (simp add: is_absolute_def)
qed

lemma collect_results_fails:
  "\<forall>p \<in> set pre. \<exists>y. f p = Inr y \<Longrightarrow> f x = Inl e \<Longrightarrow> collect_results f (pre @ x # post) = Inl e"
  by (induction pre) auto

lemma collect_results_failed:
  "collect_results f xs = Inl e \<Longrightarrow>
     \<exists>pre x post. xs = pre @ x # post \<and> (\<forall>p \<in> set pre. \<exists>y. f p = Inr y) \<and> f x = Inl e"
proof (induction xs)
  case Nil
  then show ?case by simp
next
  case (Cons a xs)
  show ?case
  proof (cases "f a")
    case (Inl e')
    with Cons.prems have "a # xs = [] @ a # xs" "f a = Inl e" by simp_all
    then show ?thesis by (metis empty_iff empty_set)
  next
    case (Inr y)
    with Cons.prems have "collect_results f xs = Inl e" by (auto split: sum.splits)
    then obtain pre x post where "xs = pre @ x # post" "\<forall>p \<in> set pre. \<exists>y. f p = Inr y" "f x = Inl e"
      using Cons.IH by blast
    with Inr have "a # xs = (a # pre) @ x # post" "\<forall>p \<in> set (a # pre). \<exists>y. f p = Inr y" "f x = Inl e"
      by auto
    then show ?thesis by blast
  qed
qed

lemma collect_results_Inl:
  "collect_results f xs = Inl e \<longleftrightarrow>
     (\<exists>pre x post. xs = pre @ x # post \<and> (\<forall>p \<in> set pre. \<exists>y. f p = Inr y) \<and> f x = Inl e)"
proof
  assume "collect_results f xs = Inl e"
  then show "\<exists>pre x post. xs = pre @ x # post \<and> (\<forall>p \<in> set pre. \<exists>y. f p = Inr y) \<and> f x = Inl e"
    by (rule collect_results_failed)
next
  assume "\<exists>pre x post. xs = pre @ x # post \<and> (\<forall>p \<in> set pre. \<exists>y. f p = Inr y) \<and> f x = Inl e"
  then show "collect_results f xs = Inl e" by (auto simp: collect_results_fails)
qed



text \<open>
  What percent-encoding promises: decoding an encoded name gives the name back, and the
  encoded text has none of the characters that structure a path.
\<close>

definition encodes :: "(string \<Rightarrow> string option) \<Rightarrow> (string \<Rightarrow> string) \<Rightarrow> string \<Rightarrow> bool" where
  "encodes dec enc s \<longleftrightarrow>
     dec (enc s) = Some s \<and>
     CHR ''/'' \<notin> set (enc s) \<and> CHR ''?'' \<notin> set (enc s) \<and> CHR ''#'' \<notin> set (enc s)"

lemma takeWhile_stop: "(\<forall>c \<in> set p. P c) \<Longrightarrow> q = [] \<or> \<not> P (hd q) \<Longrightarrow> takeWhile P (p @ q) = p"
  by (cases q) (auto simp: takeWhile_append)

lemma verdict_encoded:
  "dec (enc s) = Some s \<Longrightarrow> enc s \<noteq> [] \<Longrightarrow> safe_segment policy s \<Longrightarrow>
     segment_verdict dec policy (enc s) = Inr [s]"
  by (simp add: segment_verdict_def safe_segment_iff)

lemma collect_map_Inr: "(\<And>x. x \<in> set xs \<Longrightarrow> f x = Inr (g x)) \<Longrightarrow> collect_results f xs = Inr (map g xs)"
  by (induction xs) simp_all

lemma resolve_encoded:
  assumes enc: "\<forall>s \<in> set segs. encodes dec enc s" and dec: "dec [] = Some []"
    and segs: "segs \<noteq> []" "\<forall>s \<in> set segs. safe_segment policy s"
    and q: "q = [] \<or> hd q = CHR ''?'' \<or> hd q = CHR ''#''"
    and raw: "raw = ''/'' @ join_with ''/'' (map enc segs) @ (if ts then ''/'' else []) @ q"
    and len: "length raw \<le> pol_max_path_len policy"
  shows "resolve_request_path dec raw policy = PathOk (join_with ''/'' segs) ts"
proof -
  let ?p = "''/'' @ join_with ''/'' (map enc segs) @ (if ts then ''/'' else [])"
  have ne: "enc s \<noteq> []" if "s \<in> set segs" for s
  proof
    assume "enc s = []"
    then have "s = []" using enc dec that by (metis encodes_def option.inject)
    then show False using segs(2) that by (auto simp: safe_segment_def plain_name_def)
  qed
  have enc_chars: "CHR ''/'' \<notin> set (enc s) \<and> CHR ''?'' \<notin> set (enc s) \<and> CHR ''#'' \<notin> set (enc s)"
    if "s \<in> set segs" for s
    using enc that by (simp add: encodes_def)
  have "\<forall>c \<in> set ?p. \<not> (c = CHR ''?'' \<or> c = CHR ''#'')"
    using set_join_with [of "''/''" "map enc segs"] enc_chars by fastforce
  then have strip: "strip_query_and_fragment raw = ?p"
    unfolding strip_query_and_fragment_def raw append_assoc [symmetric] using q
    by (intro takeWhile_stop) auto
  have split: "split_on (CHR ''/'') ?p = [] # map enc segs @ (if ts then [[]] else [])"
    using split_on_append [of "CHR ''/''" "join_with ''/'' (map enc segs)" "[]"] segs enc_chars
    by (simp add: split_on_join)
  have "collect_results (segment_verdict dec policy) (map enc segs) = Inr (map (\<lambda>e. [the (dec e)]) (map enc segs))"
    using segs enc ne by (intro collect_map_Inr) (auto simp: verdict_encoded encodes_def)
  then have collected: "collect_results (segment_verdict dec policy) (map enc segs) = Inr (map (\<lambda>s. [s]) segs)"
    using enc by (simp add: encodes_def cong: map_cong)
  have app: "collect_results f (xs @ [[]]) = Inr (ys @ [[]])"
    if "collect_results f xs = Inr ys" "f [] = Inr []" for f :: "string \<Rightarrow> reject_reason + string list" and xs ys
    using that by (induction xs arbitrary: ys) (auto split: sum.splits)
  have "collect_results (segment_verdict dec policy) (split_on (CHR ''/'') ?p)
      = Inr ([] # map (\<lambda>s. [s]) segs @ (if ts then [[]] else []))"
    unfolding split using collected app [OF collected]
    by (auto simp: segment_verdict_def)
  moreover have "ends_with_char ?p (CHR ''/'') \<longleftrightarrow> ts"
  proof (cases ts)
    case False
    have "join_with ''/'' (map enc segs) \<noteq> []" "last (join_with ''/'' (map enc segs)) \<noteq> CHR ''/''"
      using last_join_with [of "map enc segs" "CHR ''/''" "''/''"] segs ne enc_chars by auto
    with False show ?thesis by (simp add: ends_with_char_def)
  qed (simp add: ends_with_char_def)
  moreover have "concat (map (\<lambda>s. [s]) segs) = segs" by (induction segs) simp_all
  ultimately show ?thesis
    using len unfolding resolve_request_path_def strip resolve_loop_eq Let_def by simp
qed

text \<open>The encoded URL of names of which the last one is unacceptable is rejected, for the reason of that name.\<close>

lemma resolve_encoded_rejected:
  assumes enc: "\<forall>s \<in> set (segs @ [name]). encodes dec enc s" and dec: "dec [] = Some []"
    and safe: "\<forall>s \<in> set segs. safe_segment policy s" and name: "plain_name name" "\<not> safe_segment policy name"
    and raw: "raw = ''/'' @ join_with ''/'' (map enc (segs @ [name])) @ (if ts then ''/'' else [])"
    and len: "length raw \<le> pol_max_path_len policy"
  shows "\<exists>reason. reject_reason_for_segment name policy = Some reason \<and> resolve_request_path dec raw policy = Reject reason"
proof -
  have enc_chars: "CHR ''/'' \<notin> set (enc s) \<and> CHR ''?'' \<notin> set (enc s) \<and> CHR ''#'' \<notin> set (enc s)"
    if "s \<in> set (segs @ [name])" for s
    using enc that by (auto simp: encodes_def)
  have ne: "enc s \<noteq> []" if "s \<in> set (segs @ [name])" for s
  proof
    assume "enc s = []"
    then have "s = []" using enc dec that by (metis encodes_def option.inject)
    then show False using safe name that by (auto simp: safe_segment_def plain_name_def)
  qed
  have "\<not> (c = CHR ''?'' \<or> c = CHR ''#'')" if "c \<in> set raw" for c
  proof -
    have "c = CHR ''/'' \<or> c \<in> set (join_with ''/'' (map enc (segs @ [name])))"
      using that unfolding raw by (auto split: if_splits)
    then have "c = CHR ''/'' \<or> (\<exists>s \<in> set (segs @ [name]). c \<in> set (enc s))"
      using set_join_with [of "''/''" "map enc (segs @ [name])"] by auto
    then show ?thesis using enc_chars by auto
  qed
  then have strip: "strip_query_and_fragment raw = raw"
    unfolding strip_query_and_fragment_def by (simp add: takeWhile_eq_all_conv)
  have split: "split_on (CHR ''/'') raw = ([] # map enc segs) @ enc name # (if ts then [[]] else [])"
    using split_on_append [of "CHR ''/''" "join_with ''/'' (map enc (segs @ [name]))" "[]"] enc_chars
    unfolding raw by (simp add: split_on_join)
  obtain reason where reason: "reject_reason_for_segment name policy = Some reason"
    using name by (cases "reject_reason_for_segment name policy") (auto simp: safe_segment_iff plain_name_def)
  then have "segment_verdict dec policy (enc name) = Inl reason"
    using name ne [of name] enc by (auto simp: segment_verdict_def encodes_def plain_name_def)
  moreover have "\<forall>p \<in> set ([] # map enc segs). \<exists>y. segment_verdict dec policy p = Inr y"
    using enc safe ne by (auto simp: verdict_encoded encodes_def segment_verdict_def [of dec policy "[]"])
  ultimately have "collect_results (segment_verdict dec policy) (split_on (CHR ''/'') raw) = Inl reason"
    unfolding split collect_results_Inl by blast
  then show ?thesis
    using len reason unfolding resolve_request_path_def strip resolve_loop_eq Let_def by simp
qed

text \<open>
  C31: Round trip: the percent-encoded URL of safe names, with or without a trailing slash and with any
  query or fragment, resolves to exactly those names.
\<close>

theorem resolve_encoded_path:
  assumes enc: "\<forall>s \<in> set segs. encodes dec enc s" and dec: "dec [] = Some []"
    and segs: "segs \<noteq> []" "\<forall>s \<in> set segs. safe_segment policy s"
    and q: "q = [] \<or> hd q = CHR ''?'' \<or> hd q = CHR ''#''"
    and raw: "raw = ''/'' @ join_with ''/'' (map enc segs) @ (if ts then ''/'' else []) @ q"
    and len: "length raw \<le> pol_max_path_len policy"
  shows "resolve_request_path dec raw policy = PathOk (join_with ''/'' segs) ts"
  using assms by (rule resolve_encoded)

theorem resolve_encoded_path_witness:
  "resolve_request_path sample_decode ''/a%20b/c/?x=1''
     \<lparr>pol_serve_dotfiles = False, pol_max_path_len = 4096\<rparr> = PathOk ''a b/c'' True"
proof -
  let ?enc = "\<lambda>s. if s = ''a b'' then ''a%20b'' else s"
  let ?pol = "\<lparr>pol_serve_dotfiles = False, pol_max_path_len = 4096\<rparr>"
  have "\<forall>s \<in> set [''a b'', ''c'']. encodes sample_decode ?enc s"
    by (simp add: encodes_def hex_digit_value_def char_of_def bit_Suc_0_iff)
  moreover have "\<forall>s \<in> set [''a b'', ''c'']. safe_segment ?pol s"
    by (simp add: safe_segment_def plain_name_def is_windows_reserved_name_def RESERVED_def
        eq_ignore_ascii_case_def to_ascii_lowercase_def to_ascii_lower_def char_of_def bit_Suc_0_iff)
  ultimately show ?thesis
    using resolve_encoded_path [of "[''a b'', ''c'']" sample_decode ?enc ?pol "''?x=1''"
        "''/a%20b/c/?x=1''" True]
    by simp
qed

end
