(* ===== verification/Mime.thy ===== *)
theory Mime
  imports Std_Path
begin

text \<open>
  \<^verbatim>\<open>envoy-files-core/src/mime.rs\<close>: the content type of a path. The built-in table
  \<^verbatim>\<open>new_mime_guess::from_ext(..).first_raw()\<close> is a parameter \<open>guess\<close>.
\<close>

section \<open>The code\<close>

definition extract_extension :: "path \<Rightarrow> string option" where
  "extract_extension p =
     (case path_extension p of
        None \<Rightarrow> None
      | Some ext \<Rightarrow> if ext = [] then None else Some ext)"

fun override_for :: "(string \<times> string) list \<Rightarrow> string \<Rightarrow> string option" where
  "override_for [] extension = None"
| "override_for ((key, val) # rest) extension =
     (let trimmed_key = (case strip_prefix_of ''.'' key of Some k \<Rightarrow> k | None \<Rightarrow> key) in
      if eq_ignore_ascii_case trimmed_key extension then Some val
      else override_for rest extension)"

definition content_type_for ::
  "(string \<Rightarrow> string option) \<Rightarrow> path \<Rightarrow> (string \<times> string) list \<Rightarrow> string \<Rightarrow> string" where
  "content_type_for guess p overrides default_content_type =
     (case extract_extension p of
        None \<Rightarrow> default_content_type
      | Some extension \<Rightarrow>
        (case override_for overrides extension of
           Some val \<Rightarrow> val
         | None \<Rightarrow>
             let lower = to_ascii_lowercase extension in
             (case guess lower of Some t \<Rightarrow> t | None \<Rightarrow> default_content_type)))"

section \<open>Lemmas\<close>

lemma file_name_under:
  assumes "plain_name s" and "dir = [] \<or> last dir = CHR ''/''"
  shows "path_file_name (dir @ s) = Some s"
proof -
  have pieces: "piece_components (split_on (CHR ''/'') s) = [Normal s]"
    using split_plain_join [of "[s]"] assms(1) by simp
  have "\<exists>pre'. piece_components (split_on (CHR ''/'') (dir @ s)) = pre' @ [Normal s]"
  proof (cases "dir = []")
    case False
    then obtain d where "dir = d @ [CHR ''/'']"
      using assms(2) by (metis append_butlast_last_id)
    then show ?thesis by (simp add: split_on_append piece_components_append pieces)
  qed (simp add: pieces)
  moreover obtain c cs where "dir @ s = c # cs"
    using assms(1) by (cases "dir @ s") (auto simp: plain_name_def)
  ultimately obtain pre where "components (dir @ s) = pre @ [Normal s]"
    by (auto simp: components_def simp del: split_on.simps)
  then show ?thesis by (simp add: path_file_name_def)
qed

lemma rsplit_once_last:
  "c \<notin> set ext \<Longrightarrow> rsplit_once c (stem @ c # ext) = Some (stem, ext)"
proof -
  assume "c \<notin> set ext"
  then have "split_once c (rev (stem @ c # ext)) = Some (rev ext, rev stem)"
    by (simp add: split_once_Some)
  then show ?thesis by (simp add: rsplit_once_def)
qed

lemma extension_of_name:
  assumes "path_file_name p = Some (stem @ ''.'' @ ext)" and "stem \<noteq> []" and "ext \<noteq> []"
    and "CHR ''.'' \<notin> set ext"
  shows "extract_extension p = Some ext"
  using assms rsplit_once_last [of "CHR ''.''" ext stem]
  by (simp add: extract_extension_def path_extension_def)

lemma to_ascii_lowercase_cong:
  "eq_ignore_ascii_case a b \<longleftrightarrow> to_ascii_lowercase a = to_ascii_lowercase b"
  by (simp add: eq_ignore_ascii_case_def)

text \<open>The overrides are a case-insensitive table in which the first entry for an extension wins.\<close>

definition override_key :: "string \<Rightarrow> string" where
  "override_key key =
     to_ascii_lowercase (case strip_prefix_of ''.'' key of Some k \<Rightarrow> k | None \<Rightarrow> key)"

lemma override_for_map_of:
  "override_for overrides ext =
     map_of (map (\<lambda>(k, v). (override_key k, v)) overrides) (to_ascii_lowercase ext)"
  by (induction overrides ext rule: override_for.induct)
     (auto simp: override_key_def to_ascii_lowercase_cong Let_def)

section \<open>Property\<close>

text \<open>
  The content type of a file called \<^verbatim>\<open>stem.ext\<close>, in any directory, is found by its last
  extension, ignoring case: the first configured override for it (written with or without a
  leading dot), else the built-in type, else the default.
\<close>

theorem content_type_for_file:
  assumes "dir = [] \<or> last dir = CHR ''/''"
    and "stem \<noteq> []" and "ext \<noteq> []" and "CHR ''.'' \<notin> set ext"
    and "CHR ''/'' \<notin> set stem" and "CHR ''/'' \<notin> set ext"
  shows "content_type_for guess (dir @ stem @ ''.'' @ ext) overrides dflt =
    (case map_of (map (\<lambda>(k, v). (override_key k, v)) overrides) (to_ascii_lowercase ext) of
       Some v \<Rightarrow> v
     | None \<Rightarrow> (case guess (to_ascii_lowercase ext) of Some t \<Rightarrow> t | None \<Rightarrow> dflt))"
proof -
  have "stem @ ''.'' @ ext \<noteq> ''..''"
    using assms(2-4) by (cases stem; cases ext) (auto simp: Cons_eq_append_conv append_eq_Cons_conv)
  moreover have "stem @ ''.'' @ ext \<noteq> ''.''" using assms(2,3) by (cases stem) auto
  ultimately have "plain_name (stem @ ''.'' @ ext)"
    using assms(2-6) by (auto simp: plain_name_def)
  then have "path_file_name (dir @ stem @ ''.'' @ ext) = Some (stem @ ''.'' @ ext)"
    using assms(1) by (intro file_name_under) auto
  then have "extract_extension (dir @ stem @ ''.'' @ ext) = Some ext"
    using assms(2-4) by (rule extension_of_name)
  then show ?thesis
    unfolding content_type_for_def override_for_map_of Let_def by (simp split: option.splits)
qed

theorem content_type_for_file_witness:
  "content_type_for (\<lambda>e. if e = ''gz'' then Some ''application/gzip'' else None) ''d/a.tar.GZ''
     [(''.Wasm'', ''application/wasm'')] ''application/octet-stream'' = ''application/gzip''"
  using content_type_for_file [of "''d/''" "''a.tar''" "''GZ''"
      "\<lambda>e. if e = ''gz'' then Some ''application/gzip'' else None"
      "[(''.Wasm'', ''application/wasm'')]" "''application/octet-stream''"]
  by (simp add: to_ascii_lowercase_def to_ascii_lower_def override_key_def
      char_of_def bit_Suc_0_iff)

end
