(* ===== verification/Encoding.thy ===== *)
theory Encoding
  imports Std_Float
begin

text \<open>
  \<^verbatim>\<open>envoy-files-core/src/encoding.rs\<close>: negotiation of pre-compressed variants. First the
  code, then its meaning: the header grammar it accepts and the order of what it returns.
\<close>

section \<open>The code\<close>

record encoding =
  file_suffix :: string
  content_encoding :: string

definition BROTLI :: encoding where "BROTLI = \<lparr>file_suffix = ''.br'', content_encoding = ''br''\<rparr>"
definition GZIP :: encoding where "GZIP = \<lparr>file_suffix = ''.gz'', content_encoding = ''gzip''\<rparr>"
definition ZSTD :: encoding where "ZSTD = \<lparr>file_suffix = ''.zst'', content_encoding = ''zstd''\<rparr>"

record accept_encoding_entry =
  entry_name :: string
  entry_q :: f32

fun parse_params :: "string list \<Rightarrow> f32 \<Rightarrow> f32 option" where
  "parse_params [] q = Some q"
| "parse_params (param # rest) q =
     (case strip_prefix_of ''q='' (trim param) of
        None \<Rightarrow> parse_params rest q
      | Some val \<Rightarrow>
          (case f32_from_str (trim val) of None \<Rightarrow> None | Some q' \<Rightarrow> parse_params rest q'))"

definition parse_item :: "string \<Rightarrow> accept_encoding_entry option" where
  "parse_item item =
     (let parts = split_on (CHR '';'') item;
          name = trim (hd parts) in
      if name = [] then None
      else map_option (\<lambda>q. \<lparr>entry_name = name, entry_q = q\<rparr>) (parse_params (tl parts) F32_ONE))"

fun parse_items ::
  "string list \<Rightarrow> accept_encoding_entry list \<Rightarrow> accept_encoding_entry list option" where
  "parse_items [] entries = Some entries"
| "parse_items (raw_item # rest) entries =
     (let item = trim raw_item in
      if item = [] then parse_items rest entries
      else case parse_item item of
        None \<Rightarrow> None
      | Some entry \<Rightarrow> parse_items rest (entries @ [entry]))"

definition parse_accept_encoding :: "string \<Rightarrow> accept_encoding_entry list option" where
  "parse_accept_encoding header = parse_items (split_on (CHR '','') header) []"

definition acceptance_for :: "accept_encoding_entry list \<Rightarrow> string \<Rightarrow> f32 option" where
  "acceptance_for entries coding =
     (case find (\<lambda>e. eq_ignore_ascii_case (entry_name e) coding) entries of
        Some entry \<Rightarrow> Some (entry_q entry)
      | None \<Rightarrow> map_option entry_q (find (\<lambda>e. entry_name e = ''*'') entries))"

type_synonym scored = "f32 \<times> nat \<times> encoding"

definition compare_scored :: "scored \<Rightarrow> scored \<Rightarrow> ordering" where
  "compare_scored a b =
     ordering_then (total_cmp (fst b) (fst a)) (cmp_of (fst (snd a)) (fst (snd b)))"

fun score_loop :: "accept_encoding_entry list \<Rightarrow> (nat \<times> encoding) list \<Rightarrow> scored list \<Rightarrow> scored list" where
  "score_loop entries [] scored = scored"
| "score_loop entries ((server_rank, encoding) # rest) scored =
     (case acceptance_for entries (content_encoding encoding) of
        Some q \<Rightarrow>
          if f32_positive q then score_loop entries rest (scored @ [(q, server_rank, encoding)])
          else score_loop entries rest scored
      | None \<Rightarrow> score_loop entries rest scored)"

definition negotiate_precompressed :: "string option \<Rightarrow> encoding list \<Rightarrow> encoding list" where
  "negotiate_precompressed accept_encoding order =
     (case accept_encoding of
        None \<Rightarrow> []
      | Some header \<Rightarrow>
        (case parse_accept_encoding header of
           None \<Rightarrow> []
         | Some entries \<Rightarrow>
             map (\<lambda>(_, _, encoding). encoding)
               (sort_by compare_scored (score_loop entries (List.enumerate 0 order) []))))"

section \<open>Negotiation\<close>

interpretation compare_scored: comparison compare_scored
proof -
  have "comparison (\<lambda>(a :: scored) b. ordering_then (total_cmp (fst b) (fst a))
      (cmp_of (fst (snd a)) (fst (snd b))))"
    by (intro comparison_then comparison_key [of cmp_of "\<lambda>x. fst (snd x)"] cmp_of.comparison_axioms
        comparison_flip [OF comparison_key [of total_cmp fst]] total_cmp_comparison)
  then show "comparison compare_scored" by (simp add: compare_scored_def [abs_def])
qed

text \<open>The weight of an encoding for the client, where it is acceptable (a positive \<^verbatim>\<open>q\<close>).\<close>

definition weight :: "string \<Rightarrow> string \<Rightarrow> f32 option" where
  "weight header coding =
     (case parse_accept_encoding header of
        None \<Rightarrow> None
      | Some entries \<Rightarrow>
        (case acceptance_for entries coding of
           Some q \<Rightarrow> if f32_positive q then Some q else None
         | None \<Rightarrow> None))"

definition preferred :: "f32 \<Rightarrow> nat \<Rightarrow> f32 \<Rightarrow> nat \<Rightarrow> bool" where
  "preferred q i q' j \<longleftrightarrow> q' < q \<or> q = q' \<and> i < j"

definition score_one :: "accept_encoding_entry list \<Rightarrow> nat \<times> encoding \<Rightarrow> scored list" where
  "score_one entries p =
     (case acceptance_for entries (content_encoding (snd p)) of
        Some q \<Rightarrow> if f32_positive q then [(q, p)] else []
      | None \<Rightarrow> [])"

lemma score_loop_eq: "score_loop entries ps acc = acc @ concat (map (score_one entries) ps)"
  by (induction entries ps acc rule: score_loop.induct)
     (auto simp: score_one_def split: option.splits)

lemma score_ranks_sorted:
  "sorted_wrt (\<lambda>a b. fst (snd a) < fst (snd b))
     (concat (map (score_one entries) (List.enumerate n order)))"
proof (induction order arbitrary: n)
  case Nil
  then show ?case by simp
next
  case (Cons e es)
  have "n < fst (snd b)" if "b \<in> set (concat (map (score_one entries) (List.enumerate (Suc n) es)))" for b
    using that by (auto simp: score_one_def in_set_enumerate_eq split: option.splits if_splits)
  then show ?case using Cons [of "Suc n"]
    by (auto simp: sorted_wrt_append score_one_def split: option.splits)
qed

lemma distinct_of_strict: "sorted_wrt (\<lambda>a b. (f a :: nat) < f b) xs \<Longrightarrow> distinct (map f xs)"
  by (induction xs) auto

lemma set_scored:
  assumes "parse_accept_encoding header = Some entries"
  shows "(q, i, e) \<in> set (concat (map (score_one entries) (List.enumerate 0 order))) \<longleftrightarrow>
    i < length order \<and> e = order ! i \<and> weight header (content_encoding e) = Some q"
  using assms
  by (auto simp: score_one_def weight_def in_set_enumerate_eq split: option.splits if_splits)

lemma sorted_scored:
  assumes "parse_accept_encoding header = Some entries"
    and s: "s = sort_by compare_scored (concat (map (score_one entries) (List.enumerate 0 order)))"
  shows "sorted_wrt (\<lambda>(q, i, _) (q', j, _). preferred q i q' j) s"
proof -
  have dist: "distinct (map (\<lambda>x. fst (snd x)) s)"
    unfolding s using distinct_of_strict [OF score_ranks_sorted, of entries 0 order]
    by (metis mset_map mset_sort_by mset_eq_imp_distinct_iff)
  have pos: "f32_positive (fst x)" if "x \<in> set s" for x
    using that unfolding s by (auto simp: score_one_def split: option.splits if_splits)
  have "sorted_wrt (\<lambda>a b. compare_scored a b \<noteq> Greater) s"
    unfolding s by (rule compare_scored.sort_by_sorted)
  with dist pos show ?thesis
  proof (induction s)
    case Nil
    then show ?case by simp
  next
    case (Cons x xs)
    have "preferred (fst x) (fst (snd x)) (fst y) (fst (snd y))" if "y \<in> set xs" for y
    proof -
      have "compare_scored x y \<noteq> Greater" "fst (snd x) \<noteq> fst (snd y)"
        using Cons.prems that by (auto simp: rev_image_eqI)
      moreover have "total_cmp (fst y) (fst x) = cmp_of (fst y) (fst x)"
        using Cons.prems that by (intro total_cmp_positive) auto
      ultimately show ?thesis
        by (auto simp: compare_scored_def ordering_then_iff preferred_def)
    qed
    then show ?case using Cons by (auto simp: case_prod_unfold)
  qed
qed

text \<open>
  C32: What negotiation returns is exactly the server's encodings the client gives a positive weight,
  each once, the heavier first and equal weights in the server's order; nothing without a
  header or with a malformed one.
\<close>

theorem negotiate_precompressed_order:
  "\<exists>ranks. negotiate_precompressed header order = map (\<lambda>i. order ! i) ranks \<and>
     set ranks = {i. i < length order \<and>
       Option.bind header (\<lambda>h. weight h (content_encoding (order ! i))) \<noteq> None} \<and>
     sorted_wrt (\<lambda>i j. preferred
       (the (weight (the header) (content_encoding (order ! i)))) i
       (the (weight (the header) (content_encoding (order ! j)))) j) ranks"
proof (cases "Option.bind header parse_accept_encoding")
  case None
  then have "Option.bind header (\<lambda>h. weight h c) = None" for c
    by (auto simp: weight_def bind_eq_None_conv split: option.splits)
  moreover have "negotiate_precompressed header order = []"
    using None by (auto simp: negotiate_precompressed_def split: option.splits)
  ultimately show ?thesis by (intro exI [of _ "[]"]) simp
next
  case (Some entries)
  then obtain h where h: "header = Some h" "parse_accept_encoding h = Some entries"
    by (auto simp: bind_eq_Some_conv)
  define s where "s = sort_by compare_scored (concat (map (score_one entries) (List.enumerate 0 order)))"
  have mem: "(q, i, e) \<in> set s \<longleftrightarrow>
      i < length order \<and> e = order ! i \<and> weight h (content_encoding e) = Some q" for q i e
    using set_scored [OF h(2), of q i e order] by (simp add: s_def del: set_concat set_map)
  have result: "negotiate_precompressed header order = map (\<lambda>(_, _, e). e) s"
    using h by (simp add: negotiate_precompressed_def score_loop_eq s_def)
  have "sorted_wrt (\<lambda>(q, i, _) (q', j, _). preferred q i q' j) s"
    using sorted_scored [OF h(2) s_def] .
  then have "sorted_wrt (\<lambda>x y. preferred (the (weight h (content_encoding (order ! fst (snd x))))) (fst (snd x))
       (the (weight h (content_encoding (order ! fst (snd y))))) (fst (snd y))) s"
    by (rule sorted_wrt_mono_rel [rotated]) (auto simp: mem)
  then have sorted: "sorted_wrt (\<lambda>i j. preferred (the (weight h (content_encoding (order ! i)))) i
       (the (weight h (content_encoding (order ! j)))) j) (map (\<lambda>x. fst (snd x)) s)"
    by (simp add: sorted_wrt_map)
  have "map (\<lambda>(_, _, e). e) s = map (\<lambda>i. order ! i) (map (\<lambda>x. fst (snd x)) s)"
    by (auto simp: mem)
  moreover have "set (map (\<lambda>x. fst (snd x)) s) =
      {i. i < length order \<and> weight h (content_encoding (order ! i)) \<noteq> None}"
  proof (intro set_eqI iffI)
    fix i assume "i \<in> {i. i < length order \<and> weight h (content_encoding (order ! i)) \<noteq> None}"
    then obtain q where "(q, i, order ! i) \<in> set s" by (auto simp: mem)
    then show "i \<in> set (map (\<lambda>x. fst (snd x)) s)" by force
  qed (auto simp: mem)
  ultimately show ?thesis using sorted h(1) result
    by (intro exI [of _ "map (\<lambda>x. fst (snd x)) s"]) simp
qed

section \<open>The header grammar\<close>

text \<open>
  A list element as the RFC writes it: optional white space, a coding, and possibly
  \<^verbatim>\<open>;q=\<close> with a weight.
\<close>

record accept_item =
  item_before :: string
  item_coding :: string
  item_mid :: string
  item_weight :: "(string \<times> string) option"
  item_after :: string

definition ows :: "string \<Rightarrow> bool" where
  "ows s \<longleftrightarrow> set s \<subseteq> {CHR '' '', CHR 0x09}"

definition word_text :: "string \<Rightarrow> bool" where
  "word_text s \<longleftrightarrow> s \<noteq> [] \<and> (\<forall>c \<in> set s. ascii_graphic c \<and> c \<noteq> CHR '','' \<and> c \<noteq> CHR '';'')"

definition item_ok :: "accept_item \<Rightarrow> bool" where
  "item_ok it \<longleftrightarrow>
     ows (item_before it) \<and> word_text (item_coding it) \<and> ows (item_mid it) \<and> ows (item_after it) \<and>
     (case item_weight it of None \<Rightarrow> True | Some (sp, t) \<Rightarrow> ows sp \<and> word_text t)"

definition item_text :: "accept_item \<Rightarrow> string" where
  "item_text it = item_before it @ item_coding it @ item_mid it @
     (case item_weight it of None \<Rightarrow> [] | Some (sp, t) \<Rightarrow> '';'' @ sp @ ''q='' @ t) @ item_after it"

definition item_entry :: "accept_item \<Rightarrow> accept_encoding_entry option" where
  "item_entry it =
     map_option (\<lambda>q. \<lparr>entry_name = item_coding it, entry_q = q\<rparr>)
       (case item_weight it of None \<Rightarrow> Some F32_ONE | Some (_, t) \<Rightarrow> f32_from_str t)"

lemma trim_with_ows:
  assumes "\<And>c r. c \<in> {CHR '' '', CHR 0x09} \<Longrightarrow> find (\<lambda>w. w \<noteq> [] \<and> prefix w (c # r)) toks = Some [c]"
  shows "ows w \<Longrightarrow> trim_with toks (w @ s) = trim_with toks s"
proof (induction w)
  case (Cons c w)
  then have "find (\<lambda>v. v \<noteq> [] \<and> prefix v (c # w @ s)) toks = Some [c]"
    using assms by (simp add: ows_def)
  with Cons show ?case by (simp add: trim_with.simps [of toks "c # w @ s"] ows_def)
qed simp

lemma find_ows:
  assumes "c \<in> {CHR '' '', CHR 0x09}"
  shows "find (\<lambda>w. w \<noteq> [] \<and> prefix w (c # r)) white_space = Some [c]"
    and "find (\<lambda>w. w \<noteq> [] \<and> prefix w (c # r)) (map rev white_space) = Some [c]"
proof -
  consider "c = CHR '' ''" | "c = CHR 0x09" using assms by blast
  then show "find (\<lambda>w. w \<noteq> [] \<and> prefix w (c # r)) white_space = Some [c]"
    by cases (simp_all add: white_space_def)
  consider "c = CHR '' ''" | "c = CHR 0x09" using assms by blast
  then show "find (\<lambda>w. w \<noteq> [] \<and> prefix w (c # r)) (map rev white_space) = Some [c]"
    by cases (simp_all add: white_space_def)
qed

lemma trim_start_ows: "ows w \<Longrightarrow> trim_start (w @ s) = trim_start s"
  unfolding trim_start_def by (rule trim_with_ows) (rule find_ows)

lemma trim_end_ows: "ows w \<Longrightarrow> trim_end (s @ w) = trim_end s"
proof -
  assume "ows w"
  then have "ows (rev w)" by (simp add: ows_def)
  then have "trim_with (map rev white_space) (rev w @ rev s) = trim_with (map rev white_space) (rev s)"
    by (rule trim_with_ows [rotated]) (rule find_ows)
  then show ?thesis by (simp add: trim_end_def)
qed

lemma trim_ends:
  assumes "ows a" "ows b" "s \<noteq> []" "ascii_graphic (hd s)" "ascii_graphic (last s)"
  shows "trim (a @ s @ b) = s"
proof -
  have "trim_start (s @ b) = s @ b"
    using assms by (intro trim_start_of_graphic) auto
  moreover have "trim s = s" "trim_start s = s"
    using assms by (auto intro: trim_graphic trim_start_of_graphic)
  then have "trim_end s = s" by (simp add: trim_def)
  ultimately show ?thesis
    using assms by (simp add: trim_def trim_start_ows trim_end_ows)
qed

lemma trim_word: "ows a \<Longrightarrow> ows b \<Longrightarrow> word_text s \<Longrightarrow> trim (a @ s @ b) = s"
  by (rule trim_ends) (auto simp: word_text_def)

lemma ows_Nil [simp]: "ows []"
  by (simp add: ows_def)

lemma ows_no_sep: "ows s \<Longrightarrow> CHR '','' \<notin> set s \<and> CHR '';'' \<notin> set s"
  by (auto simp: ows_def)

lemma word_no_sep: "word_text s \<Longrightarrow> CHR '','' \<notin> set s \<and> CHR '';'' \<notin> set s"
  by (auto simp: word_text_def)

text \<open>The element without the white space around it, and the code's reading of it.\<close>

definition item_core :: "accept_item \<Rightarrow> string" where
  "item_core it = item_coding it @
     (case item_weight it of None \<Rightarrow> [] | Some (sp, t) \<Rightarrow> item_mid it @ '';'' @ sp @ ''q='' @ t)"

lemma trim_item: "item_ok it \<Longrightarrow> trim (item_text it) = item_core it \<and> item_core it \<noteq> []"
proof (cases "item_weight it")
  case None
  assume ok: "item_ok it"
  then have "ows (item_mid it @ item_after it)" by (simp add: item_ok_def ows_def)
  then show ?thesis
    using ok None trim_word [of "item_before it" "item_mid it @ item_after it" "item_coding it"]
    by (simp add: item_ok_def item_text_def item_core_def word_text_def)
next
  case (Some w)
  assume ok: "item_ok it"
  obtain sp t where w: "w = (sp, t)" by (cases w)
  have core: "item_core it = item_coding it @ item_mid it @ '';'' @ sp @ ''q='' @ t"
    using Some w by (simp add: item_core_def)
  have "trim (item_before it @ item_core it @ item_after it) = item_core it"
  proof (rule trim_ends)
    show "ows (item_before it)" "ows (item_after it)" using ok by (simp_all add: item_ok_def)
    show "item_core it \<noteq> []" unfolding core by simp
    show "ascii_graphic (hd (item_core it))" "ascii_graphic (last (item_core it))"
      using ok Some w unfolding core by (auto simp: item_ok_def word_text_def)
  qed
  then show ?thesis using Some w by (simp add: item_text_def core)
qed

lemma ascii_graphic_q: "ascii_graphic (CHR ''q'')"
  by (simp add: ascii_graphic_def)

lemma parse_item_core: "item_ok it \<Longrightarrow> parse_item (item_core it) = item_entry it"
proof (cases "item_weight it")
  case None
  assume "item_ok it"
  then have "word_text (item_coding it)" by (simp add: item_ok_def)
  then show ?thesis
    using None trim_word [of "[]" "[]" "item_coding it"] word_no_sep [of "item_coding it"]
    by (simp add: parse_item_def item_core_def item_entry_def split_on_no_sep word_text_def)
next
  case (Some w)
  assume ok: "item_ok it"
  obtain sp t where w: "w = (sp, t)" by (cases w)
  have ok': "word_text (item_coding it)" "ows (item_mid it)" "ows sp" "word_text t"
    using ok Some w by (simp_all add: item_ok_def)
  have "split_on (CHR '';'') (item_core it) = [item_coding it @ item_mid it, sp @ ''q='' @ t]"
    using Some w ok' word_no_sep ows_no_sep
      split_on_append_sep [of "CHR '';''" "item_coding it @ item_mid it" "sp @ ''q='' @ t"]
      split_on_no_sep [of "CHR '';''" "sp @ ''q='' @ t"]
    by (simp add: item_core_def)
  moreover have "trim (item_coding it @ item_mid it) = item_coding it" "trim t = t"
    using trim_word [of "[]"] trim_word [of "[]" "[]" t] ok' by simp_all
  moreover have "trim (sp @ ''q='' @ t) = ''q='' @ t"
    using trim_ends [of sp "[]" "''q='' @ t"] ok' by (simp add: word_text_def ascii_graphic_q)
  ultimately show ?thesis
    using Some w ok' by (simp add: parse_item_def item_entry_def word_text_def split: option.splits)
qed

lemma parse_items_texts:
  "\<forall>it \<in> set items. item_ok it \<Longrightarrow>
     parse_items (map item_text items) entries =
       (if \<forall>it \<in> set items. item_entry it \<noteq> None
        then Some (entries @ map (\<lambda>it. the (item_entry it)) items) else None)"
proof (induction items arbitrary: entries)
  case Nil
  then show ?case by simp
next
  case (Cons it items)
  then show ?case
    using trim_item [of it] parse_item_core [of it] by (auto split: option.splits)
qed

text \<open>
  C33: A header written by the RFC grammar, with any optional white space, is read as its codings and
  weights (1 where none is given), unless some weight is not a number: then nothing is.
\<close>

theorem parse_accept_encoding_printed:
  assumes "items \<noteq> []" and "\<forall>it \<in> set items. item_ok it"
  shows "parse_accept_encoding (join_with '','' (map item_text items)) =
    (if \<forall>it \<in> set items. item_entry it \<noteq> None
     then Some (map (\<lambda>it. the (item_entry it)) items) else None)"
proof -
  have "CHR '','' \<notin> set (item_text it)" if "it \<in> set items" for it
    using assms(2) that ows_no_sep word_no_sep
    by (fastforce simp: item_text_def item_ok_def split: option.splits)
  then have "split_on (CHR '','') (join_with '','' (map item_text items)) = map item_text items"
    using assms(1) by (intro split_on_join) auto
  then show ?thesis
    using parse_items_texts [OF assms(2), of "[]"] by (simp add: parse_accept_encoding_def)
qed

theorem parse_accept_encoding_printed_witness:
  "parse_accept_encoding '' gzip ; q=0.5,br'' =
     Some [\<lparr>entry_name = ''gzip'', entry_q = 0x3F000000\<rparr>, \<lparr>entry_name = ''br'', entry_q = F32_ONE\<rparr>]"
proof -
  let ?items = "[\<lparr>item_before = '' '', item_coding = ''gzip'', item_mid = '' '',
      item_weight = Some ('' '', ''0.5''), item_after = []\<rparr>,
    \<lparr>item_before = [], item_coding = ''br'', item_mid = [], item_weight = None, item_after = []\<rparr>]"
  have half: "f32_from_str ''0.5'' = Some 0x3F000000" by (simp add: std_simps)
  show ?thesis
    using parse_accept_encoding_printed [of ?items]
    by (simp add: item_ok_def item_text_def item_entry_def half ows_def word_text_def ascii_graphic_def)
qed

text \<open>
  An encoding the client lists is weighed by its first listing, so that \<^verbatim>\<open>q=0\<close> excludes it whatever
  the wildcard says; one it does not list is weighed by the first wildcard.
\<close>

theorem weight_of_listed:
  assumes parsed: "parse_accept_encoding header = Some entries"
    and split: "entries = before @ e # after"
    and first: "\<forall>x \<in> set before. \<not> eq_ignore_ascii_case (entry_name x) coding \<and> (listed \<or> entry_name x \<noteq> ''*'')"
    and hit: "if listed then eq_ignore_ascii_case (entry_name e) coding
       else entry_name e = ''*'' \<and> (\<forall>x \<in> set (e # after). \<not> eq_ignore_ascii_case (entry_name x) coding)"
  shows "weight header coding = (if f32_positive (entry_q e) then Some (entry_q e) else None)"
proof -
  have "find P (xs @ ys) = find P ys" if "\<forall>x \<in> set xs. \<not> P x"
    for P :: "accept_encoding_entry \<Rightarrow> bool" and xs ys
    using that by (induction xs) auto
  moreover have "find (\<lambda>x. eq_ignore_ascii_case (entry_name x) coding) entries = None" if "\<not> listed"
    using that first hit by (auto simp: split find_None_iff)
  ultimately have "acceptance_for entries coding = Some (entry_q e)"
    using first hit by (cases listed) (auto simp: acceptance_for_def split)
  then show ?thesis using parsed by (simp add: weight_def)
qed

theorem weight_of_listed_witness:
  "weight ''*;q=1,gzip;q=0'' ''gzip'' = None"
proof -
  let ?items = "[\<lparr>item_before = [], item_coding = ''*'', item_mid = [], item_weight = Some ([], ''1''), item_after = []\<rparr>,
    \<lparr>item_before = [], item_coding = ''gzip'', item_mid = [], item_weight = Some ([], ''0''), item_after = []\<rparr>]"
  have q: "f32_from_str ''0'' = Some 0" "f32_from_str ''1'' = Some F32_ONE"
    by (simp_all add: std_simps F32_ONE_def)
  have "split_on (CHR '','') ''*;q=1,gzip;q=0'' = map item_text ?items"
    by (simp add: item_text_def)
  then have "parse_accept_encoding ''*;q=1,gzip;q=0'' =
      Some [\<lparr>entry_name = ''*'', entry_q = F32_ONE\<rparr>, \<lparr>entry_name = ''gzip'', entry_q = 0\<rparr>]"
    using parse_items_texts [of ?items "[]"]
    by (simp add: parse_accept_encoding_def item_ok_def item_entry_def q ows_def word_text_def ascii_graphic_def
        del: parse_items.simps split_on.simps)
  then show ?thesis
    using weight_of_listed [where header = "''*;q=1,gzip;q=0''" and coding = "''gzip''" and listed = True
        and before = "[\<lparr>entry_name = ''*'', entry_q = F32_ONE\<rparr>]" and after = "[]"
        and e = "\<lparr>entry_name = ''gzip'', entry_q = 0\<rparr>"]
    by (simp add: eq_ignore_ascii_case_def to_ascii_lowercase_def to_ascii_lower_def f32_positive_def)
qed

end
