(* ===== verification/Utf8.thy ===== *)
theory Utf8
  imports Prelude
begin

text \<open>
  \<^verbatim>\<open>std::str::from_utf8\<close> and \<^verbatim>\<open>String::from_utf8_lossy\<close>: the next sequence of a byte
  string is either a whole character or a maximal invalid prefix, which the lossy decoder replaces
  by U+FFFD.
\<close>

definition continuation :: "char \<Rightarrow> bool" where
  "continuation c \<longleftrightarrow> 0x80 \<le> (of_char c :: nat) \<and> (of_char c :: nat) \<le> 0xBF"

text \<open>The second bytes that may follow a given first byte.\<close>

definition second_ok :: "nat \<Rightarrow> nat \<Rightarrow> bool" where
  "second_ok b0 b1 \<longleftrightarrow>
     (if b0 = 0xE0 then 0xA0 \<le> b1 \<and> b1 \<le> 0xBF
      else if b0 = 0xED then 0x80 \<le> b1 \<and> b1 \<le> 0x9F
      else if b0 = 0xF0 then 0x90 \<le> b1 \<and> b1 \<le> 0xBF
      else if b0 = 0xF4 then 0x80 \<le> b1 \<and> b1 \<le> 0x8F
      else 0x80 \<le> b1 \<and> b1 \<le> 0xBF)"

text \<open>The bytes that follow the first one of a character, as many as there are in place.\<close>

fun trailing :: "nat \<Rightarrow> bytes \<Rightarrow> nat" where
  "trailing 0 bs = 0"
| "trailing (Suc n) [] = 0"
| "trailing (Suc n) (c # bs) = (if continuation c then Suc (trailing n bs) else 0)"

definition sequence_width :: "nat \<Rightarrow> nat" where
  "sequence_width b0 =
     (if b0 < 0x80 then 1
      else if 0xC2 \<le> b0 \<and> b0 \<le> 0xDF then 2
      else if 0xE0 \<le> b0 \<and> b0 \<le> 0xEF then 3
      else if 0xF0 \<le> b0 \<and> b0 \<le> 0xF4 then 4 else 0)"

text \<open>\<open>(True, n)\<close>: a character of \<open>n\<close> bytes; \<open>(False, n)\<close>: \<open>n\<close> bytes to be replaced.\<close>

definition next_sequence :: "char \<Rightarrow> bytes \<Rightarrow> bool \<times> nat" where
  "next_sequence c bs =
     (let b0 = (of_char c :: nat); w = sequence_width b0 in
      if w = 0 then (False, 1)
      else if w = 1 then (True, 1)
      else case bs of
        [] \<Rightarrow> (False, 1)
      | c1 # _ \<Rightarrow>
          if second_ok b0 (of_char c1)
          then let n = 1 + trailing (w - 1) bs in (n = w, n)
          else (False, 1))"

lemma trailing_le: "trailing n bs \<le> length bs"
  by (induction n bs rule: trailing.induct) auto

lemma next_sequence_pos: "1 \<le> snd (next_sequence c bs)"
  by (auto simp: next_sequence_def Let_def split: list.splits)

function utf8_valid :: "bytes \<Rightarrow> bool" where
  "utf8_valid [] \<longleftrightarrow> True"
| "utf8_valid (c # bs) \<longleftrightarrow>
     fst (next_sequence c bs) \<and> utf8_valid (drop (snd (next_sequence c bs) - 1) bs)"
  by pat_completeness auto
termination
  by (relation "measure length") auto

definition from_utf8 :: "bytes \<Rightarrow> string option" where
  "from_utf8 bs = (if utf8_valid bs then Some bs else None)"

definition REPLACEMENT :: string where
  "REPLACEMENT = [CHR 0xEF, CHR 0xBF, CHR 0xBD]"

function from_utf8_lossy :: "bytes \<Rightarrow> string" where
  "from_utf8_lossy [] = []"
| "from_utf8_lossy (c # bs) =
     (let (ok, n) = next_sequence c bs in
      (if ok then take n (c # bs) else REPLACEMENT) @ from_utf8_lossy (drop (n - 1) bs))"
  by pat_completeness auto
termination
  by (relation "measure length") auto

lemma lossy_of_valid: "utf8_valid bs \<Longrightarrow> from_utf8_lossy bs = bs"
proof (induction bs rule: utf8_valid.induct)
  case (2 c bs)
  obtain n where n: "next_sequence c bs = (True, n)"
    using "2.prems" by (cases "next_sequence c bs") auto
  then have "1 \<le> n" using next_sequence_pos [of c bs] by simp
  then have "take n (c # bs) = c # take (n - 1) bs" by (cases n) auto
  then show ?case using 2 n by simp
qed simp

text \<open>Plain ASCII text is valid.\<close>

lemma ascii_valid: "\<forall>c \<in> set bs. (of_char c :: nat) < 0x80 \<Longrightarrow> utf8_valid bs"
  by (induction bs) (auto simp: next_sequence_def sequence_width_def)

end
