(* ===== verification/Config.thy ===== *)
theory Config
  imports Encoding Std_Path Utf8
begin

text \<open>
  \<^verbatim>\<open>envoy-files-filter/src/config.rs\<close>: the configuration and its parser. The crate
  \<^verbatim>\<open>yaml_rust2\<close> is a record of functions over opaque nodes \<open>'y\<close> (\<open>yaml_crate\<close>);
  \<^verbatim>\<open>std::fs::canonicalize\<close> and \<^verbatim>\<open>Path::is_dir\<close> are parameters. Every error message is a
  constructor of \<open>config_error\<close>.
\<close>

section \<open>The crate and the file system\<close>

datatype 'y yaml_shape =
    YBadValue | YString string | YArray "'y list" | YHash "('y \<times> 'y) list" | YOther

record 'y yaml_crate =
  yc_load :: "string \<Rightarrow> string + 'y list"
  yc_shape :: "'y \<Rightarrow> 'y yaml_shape"
  yc_index :: "'y \<Rightarrow> string \<Rightarrow> 'y"
  yc_as_str :: "'y \<Rightarrow> string option"
  yc_as_i64 :: "'y \<Rightarrow> int option"
  yc_as_bool :: "'y \<Rightarrow> bool option"

record config_fs =
  cfs_canonicalize :: "path \<Rightarrow> string + path"
  cfs_is_dir :: "path \<Rightarrow> bool"

section \<open>The code\<close>

datatype directory_mode = Index | DirListing | Deny

datatype range_support = NoRanges | SingleRange | MultiRange

record config =
  cfg_root :: path
  cfg_strip_prefix :: "string option"
  cfg_index_files :: "string list"
  cfg_directory :: directory_mode
  cfg_redirect_trailing_slash :: bool
  cfg_follow_symlinks_within_root :: bool
  cfg_serve_dotfiles :: bool
  cfg_chunk_size :: nat
  cfg_max_inflight_reads :: nat
  cfg_blocking_threads :: "nat option"
  cfg_force_blocking :: bool
  cfg_etag :: bool
  cfg_last_modified :: bool
  cfg_ranges :: range_support
  cfg_precompressed :: "encoding list"
  cfg_mime_overrides :: "(string \<times> string) list"
  cfg_default_content_type :: string
  cfg_cache_control :: "string option"

definition KNOWN_KEYS :: "string list" where
  "KNOWN_KEYS =
     [''root'', ''strip_prefix'', ''index_files'', ''directory'', ''redirect_trailing_slash'',
      ''follow_symlinks_within_root'', ''serve_dotfiles'', ''chunk_size'', ''max_inflight_reads'',
      ''blocking_threads'', ''force_blocking'', ''etag'', ''last_modified'', ''ranges'',
      ''precompressed'', ''mime_overrides'', ''default_content_type'', ''cache_control'']"

datatype config_error =
    NotUtf8 | NotYaml string | EmptyConfig | KeysMustBeStrings | UnknownKey string | NotAMap
  | MissingRoot | RootNotAccessible path string | RootNotADirectory path
  | StripPrefixEmpty | StripPrefixNotAString
  | IndexFilesEntry | IndexFilesNotAList
  | UnknownDirectoryMode string | UnknownRangesMode string
  | PrecompressedEntry | PrecompressedNotAList
  | MimeOverridesEntry | MimeOverridesNotAMap
  | MustBeBoolean string | MustBeInteger string int int

fun check_keys :: "'y yaml_crate \<Rightarrow> ('y \<times> 'y) list \<Rightarrow> config_error + unit" where
  "check_keys yc [] = Inr ()"
| "check_keys yc ((k, _) # rest) =
     (case yc_shape yc k of
        YString key \<Rightarrow> if key \<notin> set KNOWN_KEYS then Inl (UnknownKey key) else check_keys yc rest
      | _ \<Rightarrow> Inl KeysMustBeStrings)"

definition bool_or :: "'y yaml_crate \<Rightarrow> 'y \<Rightarrow> string \<Rightarrow> bool \<Rightarrow> config_error + bool" where
  "bool_or yc doc key dflt =
     (case yc_shape yc (yc_index yc doc key) of
        YBadValue \<Rightarrow> Inr dflt
      | _ \<Rightarrow> (case yc_as_bool yc (yc_index yc doc key) of
                Some b \<Rightarrow> Inr b | None \<Rightarrow> Inl (MustBeBoolean key)))"

definition int_in_range :: "'y yaml_crate \<Rightarrow> 'y \<Rightarrow> string \<Rightarrow> int \<Rightarrow> int \<Rightarrow> int \<Rightarrow> config_error + nat" where
  "int_in_range yc doc key dflt lo hi =
     (case yc_shape yc (yc_index yc doc key) of
        YBadValue \<Rightarrow> Inr (nat dflt)
      | _ \<Rightarrow> (case yc_as_i64 yc (yc_index yc doc key) of
                Some n \<Rightarrow> if lo \<le> n \<and> n \<le> hi then Inr (nat n) else Inl (MustBeInteger key lo hi)
              | None \<Rightarrow> Inl (MustBeInteger key lo hi)))"

definition parse_root :: "'y yaml_crate \<Rightarrow> config_fs \<Rightarrow> 'y \<Rightarrow> config_error + path" where
  "parse_root yc fs doc =
     (case yc_as_str yc (yc_index yc doc ''root'') of
        None \<Rightarrow> Inl MissingRoot
      | Some root \<Rightarrow>
        (case cfs_canonicalize fs root of
           Inl e \<Rightarrow> Inl (RootNotAccessible root e)
         | Inr root \<Rightarrow> if \<not> cfs_is_dir fs root then Inl (RootNotADirectory root) else Inr root))"

definition parse_strip_prefix :: "'y yaml_crate \<Rightarrow> 'y \<Rightarrow> config_error + string option" where
  "parse_strip_prefix yc doc =
     (case yc_shape yc (yc_index yc doc ''strip_prefix'') of
        YBadValue \<Rightarrow> Inr None
      | YString p \<Rightarrow>
          (let trimmed = trim_end_char (CHR ''/'') p in
           if trimmed = [] then Inl StripPrefixEmpty
           else Inr (Some (if hd trimmed = CHR ''/'' then trimmed else CHR ''/'' # trimmed)))
      | _ \<Rightarrow> Inl StripPrefixNotAString)"

definition parse_index_files :: "'y yaml_crate \<Rightarrow> 'y \<Rightarrow> config_error + string list" where
  "parse_index_files yc doc =
     (case yc_shape yc (yc_index yc doc ''index_files'') of
        YBadValue \<Rightarrow> Inr [''index.html'']
      | YArray vs \<Rightarrow>
          collect_results (\<lambda>v. case yc_as_str yc v of Some s \<Rightarrow> Inr s | None \<Rightarrow> Inl IndexFilesEntry) vs
      | _ \<Rightarrow> Inl IndexFilesNotAList)"

definition parse_directory :: "'y yaml_crate \<Rightarrow> 'y \<Rightarrow> config_error + directory_mode" where
  "parse_directory yc doc =
     (case yc_as_str yc (yc_index yc doc ''directory'') of
        None \<Rightarrow> Inr Index
      | Some s \<Rightarrow>
          if s = ''index'' then Inr Index
          else if s = ''listing'' then Inr DirListing
          else if s = ''deny'' then Inr Deny
          else Inl (UnknownDirectoryMode s))"

definition parse_ranges :: "'y yaml_crate \<Rightarrow> 'y \<Rightarrow> config_error + range_support" where
  "parse_ranges yc doc =
     (case yc_as_str yc (yc_index yc doc ''ranges'') of
        None \<Rightarrow> Inr MultiRange
      | Some s \<Rightarrow>
          if s = ''none'' then Inr NoRanges
          else if s = ''single'' then Inr SingleRange
          else if s = ''multi'' then Inr MultiRange
          else Inl (UnknownRangesMode s))"

definition parse_precompressed :: "'y yaml_crate \<Rightarrow> 'y \<Rightarrow> config_error + encoding list" where
  "parse_precompressed yc doc =
     (case yc_shape yc (yc_index yc doc ''precompressed'') of
        YBadValue \<Rightarrow> Inr [BROTLI, GZIP]
      | YArray vs \<Rightarrow>
          collect_results (\<lambda>v.
            if yc_as_str yc v = Some ''br'' then Inr BROTLI
            else if yc_as_str yc v = Some ''gzip'' then Inr GZIP
            else if yc_as_str yc v = Some ''zstd'' then Inr ZSTD
            else Inl PrecompressedEntry) vs
      | _ \<Rightarrow> Inl PrecompressedNotAList)"

definition parse_mime_overrides :: "'y yaml_crate \<Rightarrow> 'y \<Rightarrow> config_error + (string \<times> string) list" where
  "parse_mime_overrides yc doc =
     (case yc_shape yc (yc_index yc doc ''mime_overrides'') of
        YBadValue \<Rightarrow> Inr []
      | YHash kvs \<Rightarrow>
          collect_results (\<lambda>(k, v). case (yc_as_str yc k, yc_as_str yc v) of
            (Some k, Some v) \<Rightarrow> Inr (k, v) | _ \<Rightarrow> Inl MimeOverridesEntry) kvs
      | _ \<Rightarrow> Inl MimeOverridesNotAMap)"

definition parse_blocking_threads :: "'y yaml_crate \<Rightarrow> 'y \<Rightarrow> config_error + nat option" where
  "parse_blocking_threads yc doc =
     (case yc_shape yc (yc_index yc doc ''blocking_threads'') of
        YBadValue \<Rightarrow> Inr None
      | _ \<Rightarrow> (case yc_as_i64 yc (yc_index yc doc ''blocking_threads'') of
                Some n \<Rightarrow> if 1 \<le> n \<and> n \<le> 256 then Inr (Some (nat n))
                           else Inl (MustBeInteger ''blocking_threads'' 1 256)
              | None \<Rightarrow> Inl (MustBeInteger ''blocking_threads'' 1 256)))"

definition parse_config_doc :: "'y yaml_crate \<Rightarrow> config_fs \<Rightarrow> 'y \<Rightarrow> config_error + config" where
  "parse_config_doc yc fs doc =
     and_then (case yc_shape yc doc of YHash kvs \<Rightarrow> check_keys yc kvs | _ \<Rightarrow> Inl NotAMap) (\<lambda>_.
     and_then (parse_root yc fs doc) (\<lambda>root.
     and_then (parse_strip_prefix yc doc) (\<lambda>strip_prefix.
     and_then (parse_index_files yc doc) (\<lambda>index_files.
     and_then (parse_directory yc doc) (\<lambda>directory.
     and_then (parse_ranges yc doc) (\<lambda>ranges.
     and_then (parse_precompressed yc doc) (\<lambda>precompressed.
     and_then (parse_mime_overrides yc doc) (\<lambda>mime_overrides.
     and_then (int_in_range yc doc ''chunk_size'' 65536 4096 (4 * 2 ^ 20)) (\<lambda>chunk_size.
     and_then (int_in_range yc doc ''max_inflight_reads'' 2 1 8) (\<lambda>max_inflight_reads.
     and_then (parse_blocking_threads yc doc) (\<lambda>blocking_threads.
     and_then (bool_or yc doc ''redirect_trailing_slash'' True) (\<lambda>redirect_trailing_slash.
     and_then (bool_or yc doc ''follow_symlinks_within_root'' True) (\<lambda>follow_symlinks_within_root.
     and_then (bool_or yc doc ''serve_dotfiles'' False) (\<lambda>serve_dotfiles.
     and_then (bool_or yc doc ''force_blocking'' False) (\<lambda>force_blocking.
     and_then (bool_or yc doc ''etag'' True) (\<lambda>etag.
     and_then (bool_or yc doc ''last_modified'' True) (\<lambda>last_modified.
     Inr \<lparr>cfg_root = root, cfg_strip_prefix = strip_prefix, cfg_index_files = index_files,
       cfg_directory = directory, cfg_redirect_trailing_slash = redirect_trailing_slash,
       cfg_follow_symlinks_within_root = follow_symlinks_within_root,
       cfg_serve_dotfiles = serve_dotfiles, cfg_chunk_size = chunk_size,
       cfg_max_inflight_reads = max_inflight_reads, cfg_blocking_threads = blocking_threads,
       cfg_force_blocking = force_blocking, cfg_etag = etag, cfg_last_modified = last_modified,
       cfg_ranges = ranges, cfg_precompressed = precompressed, cfg_mime_overrides = mime_overrides,
       cfg_default_content_type =
         (case yc_as_str yc (yc_index yc doc ''default_content_type'') of
            Some s \<Rightarrow> s | None \<Rightarrow> ''application/octet-stream''),
       cfg_cache_control = yc_as_str yc (yc_index yc doc ''cache_control'')\<rparr>)))))))))))))))))"

definition parse_config :: "'y yaml_crate \<Rightarrow> config_fs \<Rightarrow> bytes \<Rightarrow> config_error + config" where
  "parse_config yc fs raw =
     (case from_utf8 raw of
        None \<Rightarrow> Inl NotUtf8
      | Some txt \<Rightarrow>
        (case yc_load yc txt of
           Inl e \<Rightarrow> Inl (NotYaml e)
         | Inr [] \<Rightarrow> Inl EmptyConfig
         | Inr (doc # _) \<Rightarrow> parse_config_doc yc fs doc))"

section \<open>What an accepted configuration is\<close>

text \<open>
  The properties the rest of the program relies on: a positive, bounded chunk size and read window,
  and a mount prefix with a leading slash, none at the end, and something between.
\<close>

definition prefix_ok :: "string \<Rightarrow> bool" where
  "prefix_ok p \<longleftrightarrow> 2 \<le> length p \<and> hd p = CHR ''/'' \<and> last p \<noteq> CHR ''/''"

definition config_ok :: "config \<Rightarrow> bool" where
  "config_ok c \<longleftrightarrow>
     4096 \<le> cfg_chunk_size c \<and> cfg_chunk_size c \<le> 4194304 \<and>
     1 \<le> cfg_max_inflight_reads c \<and> cfg_max_inflight_reads c \<le> 8 \<and>
     (case cfg_blocking_threads c of Some n \<Rightarrow> 1 \<le> n \<and> n \<le> 256 | None \<Rightarrow> True) \<and>
     (case cfg_strip_prefix c of Some p \<Rightarrow> prefix_ok p | None \<Rightarrow> True) \<and>
     set (cfg_precompressed c) \<subseteq> {BROTLI, GZIP, ZSTD}"

lemma int_in_range_bounds:
  "int_in_range yc doc key d lo hi = Inr n \<Longrightarrow> lo \<le> d \<Longrightarrow> d \<le> hi \<Longrightarrow> 0 \<le> lo \<Longrightarrow> lo \<le> int n \<and> int n \<le> hi"
  by (auto simp: int_in_range_def split: yaml_shape.splits option.splits if_splits)

lemma parse_strip_prefix_ok:
  assumes "parse_strip_prefix yc doc = Inr (Some p)"
  shows "prefix_ok p"
proof -
  obtain s where s: "yc_shape yc (yc_index yc doc ''strip_prefix'') = YString s"
    using assms by (cases "yc_shape yc (yc_index yc doc ''strip_prefix'')") (auto simp: parse_strip_prefix_def)
  then have ne: "trim_end_char (CHR ''/'') s \<noteq> []"
    using assms by (auto simp: parse_strip_prefix_def Let_def)
  then have p: "p = (let t = trim_end_char (CHR ''/'') s in if hd t = CHR ''/'' then t else CHR ''/'' # t)"
    using assms s by (simp add: parse_strip_prefix_def Let_def split: if_splits)
  have "last (trim_end_char (CHR ''/'') s) \<noteq> CHR ''/''" using ne by (rule last_trim_end_char)
  with ne show ?thesis
    unfolding p by (cases "trim_end_char (CHR ''/'') s") (auto simp: prefix_ok_def Let_def Suc_le_eq)
qed

lemma parse_precompressed_ok:
  "parse_precompressed yc doc = Inr es \<Longrightarrow> set es \<subseteq> {BROTLI, GZIP, ZSTD}"
  by (auto simp: parse_precompressed_def collect_results_Inr split: yaml_shape.splits
      dest!: list_all2_sources split: if_splits)

lemma parse_blocking_threads_ok:
  "parse_blocking_threads yc doc = Inr (Some n) \<Longrightarrow> 1 \<le> n \<and> n \<le> 256"
  by (auto simp: parse_blocking_threads_def split: yaml_shape.splits option.splits if_splits)

lemma check_keys_ok:
  "check_keys yc kvs = Inr () \<longleftrightarrow> (\<forall>(k, v) \<in> set kvs. \<exists>key. yc_shape yc k = YString key \<and> key \<in> set KNOWN_KEYS)"
  by (induction yc kvs rule: check_keys.induct) (auto split: yaml_shape.splits)

lemma accepted_config:
  assumes "parse_config yc fs raw = Inr c"
  shows "config_ok c \<and> cfs_is_dir fs (cfg_root c) \<and> utf8_valid raw \<and>
    (\<exists>doc kvs. yc_shape yc doc = YHash kvs \<and>
      (\<forall>(k, v) \<in> set kvs. \<exists>key. yc_shape yc k = YString key \<and> key \<in> set KNOWN_KEYS))"
proof -
  obtain doc where raw: "utf8_valid raw" and doc: "parse_config_doc yc fs doc = Inr c"
    using assms by (auto simp: parse_config_def from_utf8_def split: if_splits sum.splits list.splits)
  obtain kvs root sp pre chunk window threads where
    parts: "yc_shape yc doc = YHash kvs" "check_keys yc kvs = Inr ()" "parse_root yc fs doc = Inr root"
      "parse_strip_prefix yc doc = Inr sp" "parse_precompressed yc doc = Inr pre"
      "int_in_range yc doc ''chunk_size'' 65536 4096 (4 * 2 ^ 20) = Inr chunk"
      "int_in_range yc doc ''max_inflight_reads'' 2 1 8 = Inr window"
      "parse_blocking_threads yc doc = Inr threads"
    and c: "cfg_root c = root" "cfg_strip_prefix c = sp" "cfg_precompressed c = pre"
      "cfg_chunk_size c = chunk" "cfg_max_inflight_reads c = window" "cfg_blocking_threads c = threads"
    using doc unfolding parse_config_doc_def and_then_Inr
    by (auto split: yaml_shape.splits)
  have "4096 \<le> chunk \<and> chunk \<le> 4194304" "1 \<le> window \<and> window \<le> 8"
    using int_in_range_bounds [OF parts(6)] int_in_range_bounds [OF parts(7)] by auto
  moreover have "cfs_is_dir fs root"
    using parts(3) by (auto simp: parse_root_def split: option.splits sum.splits if_splits)
  ultimately show ?thesis
    using raw parts c parse_precompressed_ok [OF parts(5)] parse_strip_prefix_ok [of yc doc]
      parse_blocking_threads_ok [of yc doc] check_keys_ok [of yc kvs]
    by (auto simp: config_ok_def split: option.splits)
qed

text \<open>What a key of the document says of a setting: absent, the default; else its value.\<close>

definition says_number :: "'y yaml_crate \<Rightarrow> 'y \<Rightarrow> string \<Rightarrow> nat \<Rightarrow> nat \<Rightarrow> bool" where
  "says_number yc doc key dflt n \<longleftrightarrow>
     (if yc_shape yc (yc_index yc doc key) = YBadValue then n = dflt
      else yc_as_i64 yc (yc_index yc doc key) = Some (int n))"

definition says_flag :: "'y yaml_crate \<Rightarrow> 'y \<Rightarrow> string \<Rightarrow> bool \<Rightarrow> bool \<Rightarrow> bool" where
  "says_flag yc doc key dflt b \<longleftrightarrow>
     (if yc_shape yc (yc_index yc doc key) = YBadValue then b = dflt
      else yc_as_bool yc (yc_index yc doc key) = Some b)"

lemma int_in_range_says: "int_in_range yc doc key d lo hi = Inr n \<Longrightarrow> 0 \<le> lo \<Longrightarrow> says_number yc doc key (nat d) n"
  by (auto simp: int_in_range_def says_number_def split: yaml_shape.splits option.splits if_splits)

lemma bool_or_says: "bool_or yc doc key d = Inr b \<Longrightarrow> says_flag yc doc key d b"
  by (auto simp: bool_or_def says_flag_def split: yaml_shape.splits option.splits)

lemma parse_root_says:
  "parse_root yc fs doc = Inr root \<Longrightarrow>
     \<exists>r. yc_as_str yc (yc_index yc doc ''root'') = Some r \<and> cfs_canonicalize fs r = Inr root \<and> cfs_is_dir fs root"
  by (auto simp: parse_root_def split: option.splits sum.splits if_splits)

lemma parsed_document:
  assumes "parse_config_doc yc fs doc = Inr c"
  shows "\<exists>kvs. yc_shape yc doc = YHash kvs \<and>
      (\<forall>(k, v) \<in> set kvs. \<exists>key. yc_shape yc k = YString key \<and> key \<in> set KNOWN_KEYS)"
    and "parse_root yc fs doc = Inr (cfg_root c)"
    and "int_in_range yc doc ''chunk_size'' 65536 4096 (4 * 2 ^ 20) = Inr (cfg_chunk_size c)"
    and "int_in_range yc doc ''max_inflight_reads'' 2 1 8 = Inr (cfg_max_inflight_reads c)"
    and "bool_or yc doc ''redirect_trailing_slash'' True = Inr (cfg_redirect_trailing_slash c)"
    and "bool_or yc doc ''follow_symlinks_within_root'' True = Inr (cfg_follow_symlinks_within_root c)"
    and "bool_or yc doc ''serve_dotfiles'' False = Inr (cfg_serve_dotfiles c)"
    and "bool_or yc doc ''force_blocking'' False = Inr (cfg_force_blocking c)"
    and "bool_or yc doc ''etag'' True = Inr (cfg_etag c)"
    and "bool_or yc doc ''last_modified'' True = Inr (cfg_last_modified c)"
  using assms unfolding parse_config_doc_def and_then_Inr
  by (auto simp: check_keys_ok split: yaml_shape.splits)


text \<open>
  A YAML crate for closed examples: every text is the document with the two keys
  \<^verbatim>\<open>root\<close> and \<^verbatim>\<open>strip_prefix\<close>.
\<close>

definition sample_yaml :: "string \<Rightarrow> string yaml_crate" where
  "sample_yaml p =
     \<lparr>yc_load = (\<lambda>s. Inr [s]),
      yc_shape = (\<lambda>y. if y = ''doc'' then YHash [(''root'', ''/srv''), (''strip_prefix'', p)]
        else if y = [] then YBadValue else YString y),
      yc_index = (\<lambda>y key. if key = ''root'' then ''/srv'' else if key = ''strip_prefix'' then p else []),
      yc_as_str = (\<lambda>y. if y = [] then None else Some y),
      yc_as_i64 = (\<lambda>y. None), yc_as_bool = (\<lambda>y. None)\<rparr>"

definition sample_fs :: config_fs where
  "sample_fs = \<lparr>cfs_canonicalize = Inr, cfs_is_dir = (\<lambda>p. p = ''/srv'')\<rparr>"

definition default_config :: "path \<Rightarrow> string option \<Rightarrow> config" where
  "default_config root p =
     \<lparr>cfg_root = root, cfg_strip_prefix = p, cfg_index_files = [''index.html''],
      cfg_directory = Index, cfg_redirect_trailing_slash = True,
      cfg_follow_symlinks_within_root = True, cfg_serve_dotfiles = False, cfg_chunk_size = 65536,
      cfg_max_inflight_reads = 2, cfg_blocking_threads = None, cfg_force_blocking = False,
      cfg_etag = True, cfg_last_modified = True, cfg_ranges = MultiRange,
      cfg_precompressed = [BROTLI, GZIP], cfg_mime_overrides = [],
      cfg_default_content_type = ''application/octet-stream'', cfg_cache_control = None\<rparr>"

lemma sample_parse:
  "parse_config (sample_yaml ''static/'') sample_fs ''doc'' = Inr (default_config ''/srv'' (Some ''/static''))"
proof -
  have "utf8_valid ''doc''" by (rule ascii_valid) simp
  then show ?thesis
    by (simp add: parse_config_def from_utf8_def sample_yaml_def parse_config_doc_def KNOWN_KEYS_def
        parse_root_def sample_fs_def parse_strip_prefix_def trim_end_char_def parse_index_files_def
        parse_directory_def parse_ranges_def parse_precompressed_def parse_mime_overrides_def
        int_in_range_def parse_blocking_threads_def bool_or_def default_config_def)
qed


text \<open>
  Defaults: a document in which every optional key is absent gives the documented defaults, whatever
  the crate and the file system are.
\<close>

theorem parse_config_defaults:
  assumes "yc_shape yc doc = YHash kvs" and "check_keys yc kvs = Inr ()"
    and "yc_as_str yc (yc_index yc doc ''root'') = Some root" and "cfs_canonicalize fs root = Inr root'"
    and "cfs_is_dir fs root'"
    and "\<And>key. key \<noteq> ''root'' \<Longrightarrow> yc_shape yc (yc_index yc doc key) = YBadValue"
    and "\<And>key. key \<noteq> ''root'' \<Longrightarrow> yc_as_str yc (yc_index yc doc key) = None"
  shows "parse_config_doc yc fs doc = Inr (default_config root' None)"
  using assms
  by (simp add: parse_config_doc_def parse_root_def parse_strip_prefix_def parse_index_files_def
      parse_directory_def parse_ranges_def parse_precompressed_def parse_mime_overrides_def
      int_in_range_def parse_blocking_threads_def bool_or_def default_config_def)

theorem parse_config_defaults_witness:
  "parse_config_doc (sample_yaml []) sample_fs ''doc'' = Inr (default_config ''/srv'' None)"
  by (rule parse_config_defaults [where root = "''/srv''" and kvs = "[(''root'', ''/srv''), (''strip_prefix'', [])]"])
     (simp_all add: sample_yaml_def sample_fs_def KNOWN_KEYS_def)

end
