(* ===== verification/Event_Bridge.thy ===== *)
theory Event_Bridge
  imports Prelude
begin

text \<open>
  \<^verbatim>\<open>envoy-files-filter/src/eventbridge.rs\<close>: the mailbox between the I/O threads and the worker
  thread. Every operation holds the mutex for its whole effect on \<^verbatim>\<open>Inner\<close>, so concurrent
  use is some sequence of the operations. \<open>process\<close> gives the events in the order in which it
  calls its function on them. The locale \<open>mailbox\<close> is the contract the filter relies on.
\<close>

section \<open>The code\<close>

datatype 'e bridge = Closed | Empty | OneEvent 'e | ManyEvents "'e list"

definition bridge_new :: "'e bridge" where
  "bridge_new = Empty"

fun bridge_send :: "'e bridge \<Rightarrow> 'e \<Rightarrow> 'e bridge \<times> ('e + unit)" where
  "bridge_send Closed event = (Closed, Inl event)"
| "bridge_send Empty event = (OneEvent event, Inr ())"
| "bridge_send (OneEvent first) event = (ManyEvents [first, event], Inr ())"
| "bridge_send (ManyEvents events) event = (ManyEvents (events @ [event]), Inr ())"

fun bridge_process :: "'e bridge \<Rightarrow> 'e bridge \<times> 'e list" where
  "bridge_process Closed = (Empty, [])"
| "bridge_process Empty = (Empty, [])"
| "bridge_process (OneEvent event) = (Empty, [event])"
| "bridge_process (ManyEvents events) = (Empty, events)"

definition bridge_close :: "'e bridge \<Rightarrow> 'e bridge" where
  "bridge_close b = Closed"

section \<open>The contract of a mailbox\<close>

datatype 'e mail_op = Send 'e | Drain

fun sent_events :: "'e mail_op list \<Rightarrow> 'e list" where
  "sent_events [] = []"
| "sent_events (Send e # ops) = e # sent_events ops"
| "sent_events (Drain # ops) = sent_events ops"

locale mailbox =
  fixes send :: "'m \<Rightarrow> 'e \<Rightarrow> 'm \<times> ('e + unit)"
    and drain :: "'m \<Rightarrow> 'm \<times> 'e list"
    and is_open :: "'m \<Rightarrow> bool"
    and contents :: "'m \<Rightarrow> 'e list"
  assumes send_open: "is_open m \<Longrightarrow> is_open (fst (send m e)) \<and> snd (send m e) = Inr () \<and>
      contents (fst (send m e)) = contents m @ [e]"
    and send_closed: "\<not> is_open m \<Longrightarrow> send m e = (m, Inl e)"
    and drain_open: "is_open m \<Longrightarrow> is_open (fst (drain m)) \<and> contents (fst (drain m)) = [] \<and>
      snd (drain m) = contents m"
begin

fun run :: "'e mail_op list \<Rightarrow> 'm \<Rightarrow> 'm \<times> 'e list" where
  "run [] m = (m, [])"
| "run (Send e # ops) m = run ops (fst (send m e))"
| "run (Drain # ops) m =
     (let (m', out) = run ops (fst (drain m)) in (m', snd (drain m) @ out))"

lemma run_fifo:
  "is_open m \<Longrightarrow> is_open (fst (run ops m)) \<and>
     snd (run ops m) @ contents (fst (run ops m)) = contents m @ sent_events ops"
proof (induction ops arbitrary: m)
  case Nil
  then show ?case by simp
next
  case (Cons x ops)
  then show ?case
    using send_open [of m] drain_open [of m]
    by (cases x) (fastforce simp: case_prod_unfold Let_def)+
qed

lemma closed_send_rejected: "\<not> is_open m \<Longrightarrow> snd (send m e) = Inl e \<and> fst (send m e) = m"
  by (simp add: send_closed)

end

fun bridge_contents :: "'e bridge \<Rightarrow> 'e list" where
  "bridge_contents (OneEvent e) = [e]"
| "bridge_contents (ManyEvents es) = es"
| "bridge_contents _ = []"

definition bridge_open :: "'e bridge \<Rightarrow> bool" where
  "bridge_open b \<longleftrightarrow> b \<noteq> Closed"

interpretation bridge: mailbox bridge_send bridge_process bridge_open bridge_contents
proof
  fix m :: "'e bridge" and e
  show "bridge_open m \<Longrightarrow> bridge_open (fst (bridge_send m e)) \<and> snd (bridge_send m e) = Inr () \<and>
      bridge_contents (fst (bridge_send m e)) = bridge_contents m @ [e]"
    by (cases m) (simp_all add: bridge_open_def)
  show "\<not> bridge_open m \<Longrightarrow> bridge_send m e = (m, Inl e)"
    by (cases m) (simp_all add: bridge_open_def)
  show "bridge_open m \<Longrightarrow> bridge_open (fst (bridge_process m)) \<and> bridge_contents (fst (bridge_process m)) = [] \<and>
      snd (bridge_process m) = bridge_contents m"
    by (cases m) (simp_all add: bridge_open_def)
qed

section \<open>Properties\<close>

text \<open>A run of the mailbox, written out over the code's operations.\<close>

fun bridge_run :: "'e mail_op list \<Rightarrow> 'e bridge \<Rightarrow> 'e bridge \<times> 'e list" where
  "bridge_run [] m = (m, [])"
| "bridge_run (Send e # ops) m = bridge_run ops (fst (bridge_send m e))"
| "bridge_run (Drain # ops) m =
     (let (m', out) = bridge_run ops (fst (bridge_process m)) in (m', snd (bridge_process m) @ out))"

lemma bridge_run_eq: "bridge_run ops m = bridge.run ops m"
  by (induction ops m rule: bridge_run.induct) simp_all

text \<open>
  C18: However sends from the I/O threads and drains on the worker interleave, the drained events, followed
  by those still in the mailbox, are the sent events in their order: none is lost, repeated or
  overtaken.
\<close>

theorem bridge_fifo:
  "snd (bridge_run ops bridge_new) @ bridge_contents (fst (bridge_run ops bridge_new)) = sent_events ops"
  using bridge.run_fifo [of bridge_new ops] by (simp add: bridge_run_eq bridge_new_def bridge_open_def)

text \<open>A closed bridge hands every event back to its sender, until the worker drains it.\<close>

lemma bridge_closed_rejects:
  "snd (bridge_send (bridge_close b) e) = Inl e \<and> fst (bridge_send (bridge_close b) e) = bridge_close b"
  using bridge.closed_send_rejected [of "bridge_close b" e] by (simp add: bridge_open_def bridge_close_def)

text \<open>
  The fence does not survive a drain: \<^verbatim>\<open>process\<close> replaces every state, also \<^verbatim>\<open>Closed\<close>, by
  \<^verbatim>\<open>Empty\<close>, after which sends are accepted again.
\<close>

lemma process_reopens_closed_bridge:
  "snd (bridge_send (fst (bridge_process (bridge_close b))) e) = Inr ()"
  by (simp add: bridge_close_def)

end
