(* ===== verification/Io_Error.thy ===== *)
theory Io_Error
  imports Prelude
begin

text \<open>
  \<^verbatim>\<open>envoy-files-core/src/error.rs\<close> and the error type of \<^verbatim>\<open>envoy-files-io/src/lib.rs\<close>: I/O
  errors and their HTTP status. Of \<^verbatim>\<open>std::io::ErrorKind\<close> the variants the source names are
  constructors; every other one is \<open>UnnamedKind\<close>.
\<close>

datatype error_kind =
    NotFound | PermissionDenied | NotADirectory | IsADirectory | Other | UnnamedKind nat

text \<open>The \<^verbatim>\<open>target_os\<close> the library is compiled for, and its \<^verbatim>\<open>ELOOP\<close>.\<close>

datatype target_os = Linux | Macos | OtherOs

definition ELOOP :: "target_os \<Rightarrow> int" where
  "ELOOP os = (case os of Linux \<Rightarrow> 40 | Macos \<Rightarrow> 62 | OtherOs \<Rightarrow> - 1)"

record io_error =
  err_kind :: error_kind
  err_raw_os_error :: "int option"

definition status_for_io_error :: "target_os \<Rightarrow> error_kind \<Rightarrow> int option \<Rightarrow> nat" where
  "status_for_io_error os kind raw_os_error =
     (case kind of
        NotFound \<Rightarrow> STATUS_NOT_FOUND
      | PermissionDenied \<Rightarrow> STATUS_FORBIDDEN
      | NotADirectory \<Rightarrow> STATUS_NOT_FOUND
      | IsADirectory \<Rightarrow> STATUS_FORBIDDEN
      | _ \<Rightarrow>
          (case raw_os_error of
             Some errno \<Rightarrow>
               if errno = ELOOP os then STATUS_FORBIDDEN else STATUS_INTERNAL_SERVER_ERROR
           | None \<Rightarrow> STATUS_INTERNAL_SERVER_ERROR))"

text \<open>Whatever the error, the client is told one of three things.\<close>

lemma status_for_io_error_range:
  "status_for_io_error os kind raw \<in>
     {STATUS_NOT_FOUND, STATUS_FORBIDDEN, STATUS_INTERNAL_SERVER_ERROR}"
  by (auto simp: status_for_io_error_def split: error_kind.splits option.splits)

lemma status_not_found_iff:
  "status_for_io_error os kind raw = STATUS_NOT_FOUND \<longleftrightarrow> kind = NotFound \<or> kind = NotADirectory"
  by (auto simp: status_for_io_error_def split: error_kind.splits option.splits)

end
