(* ===== verification/Io_Engine.thy ===== *)
theory Io_Engine
  imports Io_Error Std_Path Validators
begin

text \<open>
  \<^verbatim>\<open>envoy-files-io/src/lib.rs\<close> and \<^verbatim>\<open>engine.rs\<close>: the I/O engine. The operating system
  is a record of functions (\<open>os_calls\<close>) that do not change during one operation; an open
  file is opaque. The engine's state is its command queue, the spawned tasks, the table of open files and the
  cache of canonical directories. A callback is the tag of its request.
\<close>

section \<open>Data\<close>

record file_stat =
  st_size :: u64
  st_mtime_unix :: i64
  st_mtime_nanos :: u32
  st_is_dir :: bool

record dir_entry_info =
  di_name :: string
  di_is_dir :: bool
  di_size :: u64
  di_mtime_unix :: i64

record open_request =
  or_path :: path
  or_containment_root :: "path option"
  or_deny_symlinks :: bool
  or_prefetch_len :: nat

type_synonym file_handle = u64

text \<open>A \<^verbatim>\<open>SystemTime\<close> is its whole seconds from the epoch and the nanoseconds above them.\<close>

record os_metadata =
  md_len :: u64
  md_is_dir :: bool
  md_modified :: "io_error + int \<times> u32"

text \<open>An entry of a directory: its name where it is UTF-8, and its metadata.\<close>

record raw_entry =
  re_name :: "string option"
  re_metadata :: "io_error + os_metadata"

datatype target_family = Unix | Windows

record 'f os_calls =
  os_family :: target_family
  os_libc_eloop :: int
  os_libc_emlink :: int
  os_open_nofollow :: "path \<Rightarrow> io_error + 'f"
  os_open :: "path \<Rightarrow> io_error + 'f"
  os_is_symlink :: "path \<Rightarrow> io_error + bool"
  os_metadata_of :: "'f \<Rightarrow> io_error + os_metadata"
  os_canonicalize :: "path \<Rightarrow> io_error + path"
  os_pread :: "'f \<Rightarrow> nat \<Rightarrow> u64 \<Rightarrow> nat \<Rightarrow> io_error + bytes"
  os_read_dir :: "path \<Rightarrow> io_error + (io_error + raw_entry) list"
  os_blocking_panics :: "path \<Rightarrow> bool"

section \<open>Single operations\<close>

definition permission_denied :: io_error where
  "permission_denied = \<lparr>err_kind = PermissionDenied, err_raw_os_error = None\<rparr>"

definition other_error :: io_error where
  "other_error = \<lparr>err_kind = Other, err_raw_os_error = None\<rparr>"

definition handle_gone :: io_error where
  "handle_gone = \<lparr>err_kind = NotFound, err_raw_os_error = None\<rparr>"

text \<open>The file, and whether the final component of the path is a symbolic link.\<close>

definition open_final_unix :: "'f os_calls \<Rightarrow> open_request \<Rightarrow> io_error + 'f \<times> bool" where
  "open_final_unix os request =
     (case os_open_nofollow os (or_path request) of
        Inr file \<Rightarrow> Inr (file, False)
      | Inl err \<Rightarrow>
          if (err_raw_os_error err = Some (os_libc_eloop os) \<or> err_raw_os_error err = Some (os_libc_emlink os)) \<and>
             \<not> or_deny_symlinks request
          then map_sum id (\<lambda>file. (file, True)) (os_open os (or_path request))
          else Inl err)"

definition open_final_windows :: "'f os_calls \<Rightarrow> open_request \<Rightarrow> io_error + 'f \<times> bool" where
  "open_final_windows os request =
     and_then (os_open os (or_path request)) (\<lambda>file.
     and_then (if or_containment_root request \<noteq> None then os_is_symlink os (or_path request) else Inr False)
       (\<lambda>is_symlink.
          if is_symlink \<and> or_deny_symlinks request then Inl permission_denied
          else Inr (file, is_symlink)))"

definition open_final :: "'f os_calls \<Rightarrow> open_request \<Rightarrow> io_error + 'f \<times> bool" where
  "open_final os request =
     (case os_family os of
        Unix \<Rightarrow> open_final_unix os request
      | Windows \<Rightarrow> open_final_windows os request)"

type_synonym canon_cache = "(path \<times> path) list"

definition CANON_CACHE_MAX :: nat where "CANON_CACHE_MAX = 4096"

definition parent_cached_canonicalize ::
  "'f os_calls \<Rightarrow> path \<Rightarrow> canon_cache \<Rightarrow> (io_error + path) \<times> canon_cache" where
  "parent_cached_canonicalize os p cache =
     (case (path_parent p, path_file_name p) of
        (Some parent, Some name) \<Rightarrow>
          (case map_of cache parent of
             Some canon_parent \<Rightarrow> (Inr (path_join canon_parent name), cache)
           | None \<Rightarrow>
             (case os_canonicalize os parent of
                Inl e \<Rightarrow> (Inl e, cache)
              | Inr canon_parent \<Rightarrow>
                  let cache' = (if length cache \<ge> CANON_CACHE_MAX then [] else cache) in
                  (Inr (path_join canon_parent name), AList.update parent canon_parent cache')))
      | _ \<Rightarrow> (os_canonicalize os p, cache))"

text \<open>\<open>os_pread file i\<close> is the answer to the \<open>i\<close>-th call for the file: answers may be short.\<close>

function fill_loop ::
  "(nat \<Rightarrow> u64 \<Rightarrow> nat \<Rightarrow> io_error + bytes) \<Rightarrow> nat \<Rightarrow> u64 \<Rightarrow> nat \<Rightarrow> bytes \<Rightarrow> io_error + bytes"
where
  "fill_loop pread i off len buf =
     (if length buf < len then
        (case pread i (off + of_nat (length buf)) (len - length buf) of
           Inl e \<Rightarrow> Inl e
         | Inr chunk \<Rightarrow>
             if chunk = [] then Inr buf else fill_loop pread (i + 1) off len (buf @ chunk))
      else Inr buf)"
  by pat_completeness auto
termination
  by (relation "measure (\<lambda>(pread, i, off, len, buf). len - length buf)") (auto simp: neq_Nil_conv)

declare fill_loop.simps [simp del]

definition read_at :: "'f os_calls \<Rightarrow> 'f option \<Rightarrow> u64 \<Rightarrow> nat \<Rightarrow> io_error + bytes" where
  "read_at os file off len =
     (case file of
        None \<Rightarrow> Inl handle_gone
      | Some file \<Rightarrow>
        (case os_pread os file 0 off len of
           Inl e \<Rightarrow> Inl e
         | Inr buf \<Rightarrow>
             if length buf = len \<or> length buf = 0 then Inr buf
             else fill_loop (os_pread os file) 1 off len buf))"

definition mtime_parts :: "io_error + int \<times> u32 \<Rightarrow> i64 \<times> u32" where
  "mtime_parts modified =
     (case modified of
        Inr (secs, nanos) \<Rightarrow> if 0 \<le> secs then (of_int secs, nanos) else (0, 0)
      | Inl _ \<Rightarrow> (0, 0))"

definition stat_from_metadata :: "os_metadata \<Rightarrow> file_stat" where
  "stat_from_metadata md =
     (let (mtime_unix, mtime_nanos) = mtime_parts (md_modified md) in
      \<lparr>st_size = md_len md, st_mtime_unix = mtime_unix, st_mtime_nanos = mtime_nanos,
       st_is_dir = md_is_dir md\<rparr>)"

fun read_dir_loop :: "(io_error + raw_entry) list \<Rightarrow> dir_entry_info list \<Rightarrow> io_error + dir_entry_info list" where
  "read_dir_loop [] entries = Inr entries"
| "read_dir_loop (Inl e # rest) entries = Inl e"
| "read_dir_loop (Inr r # rest) entries =
     (case (re_name r, re_metadata r) of
        (Some name, Inr md) \<Rightarrow>
          read_dir_loop rest (entries @
            [\<lparr>di_name = name, di_is_dir = md_is_dir md, di_size = md_len md,
              di_mtime_unix = fst (mtime_parts (md_modified md))\<rparr>])
      | _ \<Rightarrow> read_dir_loop rest entries)"

definition read_dir :: "'f os_calls \<Rightarrow> path \<Rightarrow> io_error + dir_entry_info list" where
  "read_dir os p = and_then (os_read_dir os p) (\<lambda>raw. read_dir_loop raw [])"

type_synonym 'f file_table = "(u64 \<times> 'f) list"

type_synonym open_result = "io_error + file_handle \<times> file_stat \<times> bytes"

definition check_containment ::
  "'f os_calls \<Rightarrow> open_request \<Rightarrow> bool \<Rightarrow> canon_cache \<Rightarrow> (io_error + unit) \<times> canon_cache" where
  "check_containment os request final_is_symlink cache =
     (case or_containment_root request of
        None \<Rightarrow> (Inr (), cache)
      | Some root \<Rightarrow>
          let (canonical, cache') =
            (if final_is_symlink then (os_canonicalize os (or_path request), cache)
             else parent_cached_canonicalize os (or_path request) cache) in
          (and_then canonical (\<lambda>c. if \<not> path_starts_with c root then Inl permission_denied else Inr ()),
           cache'))"

definition open_stat ::
  "'f os_calls \<Rightarrow> u64 \<Rightarrow> open_request \<Rightarrow> 'f file_table \<Rightarrow> canon_cache \<Rightarrow>
     open_result \<times> 'f file_table \<times> canon_cache"
where
  "open_stat os hid request files cache =
     (case open_final os request of
        Inl e \<Rightarrow> (Inl e, files, cache)
      | Inr (file, final_is_symlink) \<Rightarrow>
        (case os_metadata_of os file of
           Inl e \<Rightarrow> (Inl e, files, cache)
         | Inr metadata \<Rightarrow>
           (case check_containment os request final_is_symlink cache of
              (Inl e, cache') \<Rightarrow> (Inl e, files, cache')
            | (Inr _, cache') \<Rightarrow>
              let stat = stat_from_metadata metadata;
                  want = (if st_is_dir stat then 0
                          else min (or_prefetch_len request) (unat (st_size stat)));
                  prefetch =
                    (if want > 0 then
                       (case read_at os (Some file) 0 want of Inr bs \<Rightarrow> bs | Inl _ \<Rightarrow> [])
                     else []) in
              if \<not> st_is_dir stat \<and> of_nat (length prefetch) = st_size stat
              then (Inr (0, stat, prefetch), files, cache')
              else (Inr (hid, stat, prefetch), AList.update hid file files, cache'))))"

section \<open>The reactor\<close>

datatype 'k command =
    OpenCommand u64 open_request 'k
  | ReadCommand u64 u64 nat 'k
  | ReadDirCommand path 'k
  | CloseCommand u64
  | ShutdownCommand

datatype ('f, 'k) task =
    OpenTask u64 open_request 'k
  | ReadTask "'f option" u64 nat 'k
  | ReadDirTask path 'k

datatype completion =
    OpenDone open_result
  | ReadDone "io_error + bytes"
  | ReadDirDone "io_error + dir_entry_info list"

record ('f, 'k) engine =
  eng_next_id :: u64
  eng_commands :: "'k command list"
  eng_tasks :: "('f, 'k) task list"
  eng_files :: "'f file_table"
  eng_cache :: canon_cache
  eng_running :: bool

definition engine_new :: "('f, 'k) engine" where
  "engine_new = \<lparr>eng_next_id = 1, eng_commands = [], eng_tasks = [], eng_files = [], eng_cache = [],
     eng_running = True\<rparr>"

text \<open>A send on the channel fails, and drops the command, once the receiver is gone.\<close>

definition try_send :: "'k command \<Rightarrow> ('f, 'k) engine \<Rightarrow> ('f, 'k) engine" where
  "try_send c eng = (if eng_running eng then eng\<lparr>eng_commands := eng_commands eng @ [c]\<rparr> else eng)"

definition engine_open_stat :: "open_request \<Rightarrow> 'k \<Rightarrow> ('f, 'k) engine \<Rightarrow> ('f, 'k) engine" where
  "engine_open_stat request k eng =
     try_send (OpenCommand (eng_next_id eng) request k) (eng\<lparr>eng_next_id := eng_next_id eng + 1\<rparr>)"

definition engine_read :: "file_handle \<Rightarrow> u64 \<Rightarrow> nat \<Rightarrow> 'k \<Rightarrow> ('f, 'k) engine \<Rightarrow> ('f, 'k) engine" where
  "engine_read h off len k eng = try_send (ReadCommand h off len k) eng"

definition engine_read_dir :: "path \<Rightarrow> 'k \<Rightarrow> ('f, 'k) engine \<Rightarrow> ('f, 'k) engine" where
  "engine_read_dir p k eng = try_send (ReadDirCommand p k) eng"

text \<open>The last clone of a handle is dropped.\<close>

definition drop_handle :: "file_handle \<Rightarrow> ('f, 'k) engine \<Rightarrow> ('f, 'k) engine" where
  "drop_handle h eng = (if h \<noteq> 0 then try_send (CloseCommand h) eng else eng)"

definition engine_shutdown :: "('f, 'k) engine \<Rightarrow> ('f, 'k) engine" where
  "engine_shutdown eng = try_send ShutdownCommand eng"

text \<open>One turn of the reactor loop: the next command is taken and a task spawned for it.\<close>

definition run_reactor :: "('f, 'k) engine \<Rightarrow> ('f, 'k) engine" where
  "run_reactor eng =
     (if \<not> eng_running eng then eng
      else case eng_commands eng of
        [] \<Rightarrow> eng
      | c # rest \<Rightarrow>
          let eng = eng\<lparr>eng_commands := rest\<rparr> in
          (case c of
             ShutdownCommand \<Rightarrow>
               eng\<lparr>eng_running := False, eng_commands := [], eng_tasks := [], eng_files := [], eng_cache := []\<rparr>
           | CloseCommand h \<Rightarrow> eng\<lparr>eng_files := AList.delete h (eng_files eng)\<rparr>
           | OpenCommand h request k \<Rightarrow> eng\<lparr>eng_tasks := eng_tasks eng @ [OpenTask h request k]\<rparr>
           | ReadCommand h off len k \<Rightarrow>
               eng\<lparr>eng_tasks := eng_tasks eng @ [ReadTask (map_of (eng_files eng) h) off len k]\<rparr>
           | ReadDirCommand p k \<Rightarrow> eng\<lparr>eng_tasks := eng_tasks eng @ [ReadDirTask p k]\<rparr>))"

text \<open>A spawned task runs to its end and calls back; tasks finish in any order.\<close>

definition run_task ::
  "'f os_calls \<Rightarrow> nat \<Rightarrow> ('f, 'k) engine \<Rightarrow> ('f, 'k) engine \<times> ('k \<times> completion) list" where
  "run_task os j eng =
     (if j < length (eng_tasks eng) then
        let eng' = eng\<lparr>eng_tasks := take j (eng_tasks eng) @ drop (Suc j) (eng_tasks eng)\<rparr> in
        (case eng_tasks eng ! j of
           OpenTask h request k \<Rightarrow>
             let (res, files, cache) = open_stat os h request (eng_files eng) (eng_cache eng) in
             (eng'\<lparr>eng_files := files, eng_cache := cache\<rparr>, [(k, OpenDone res)])
         | ReadTask file off len k \<Rightarrow> (eng', [(k, ReadDone (read_at os file off len))])
         | ReadDirTask p k \<Rightarrow>
             (eng', [(k, ReadDirDone
               (if os_blocking_panics os p then Inl other_error else read_dir os p))]))
      else (eng, []))"

section \<open>Canonical paths and the cache\<close>

text \<open>
  The uncached location of a path whose final component is not a link, and what the operating
  system promises about it: opening without following links proves just that.
\<close>

definition direct_canonicalize :: "'f os_calls \<Rightarrow> path \<Rightarrow> io_error + path" where
  "direct_canonicalize os p =
     (case (path_parent p, path_file_name p) of
        (Some parent, Some name) \<Rightarrow> and_then (os_canonicalize os parent) (\<lambda>c. Inr (path_join c name))
      | _ \<Rightarrow> os_canonicalize os p)"

definition cache_ok :: "'f os_calls \<Rightarrow> canon_cache \<Rightarrow> bool" where
  "cache_ok os cache \<longleftrightarrow>
     distinct (map fst cache) \<and> length cache \<le> CANON_CACHE_MAX \<and>
     (\<forall>(p, c) \<in> set cache. os_canonicalize os p = Inr c)"

locale path_cache =
  fixes canon :: "path \<Rightarrow> 'c \<Rightarrow> (io_error + path) \<times> 'c"
    and direct :: "path \<Rightarrow> io_error + path"
    and valid :: "'c \<Rightarrow> bool"
  assumes canon_direct: "valid c \<Longrightarrow> fst (canon p c) = direct p"
    and canon_valid: "valid c \<Longrightarrow> valid (snd (canon p c))"
begin

fun canon_all :: "path list \<Rightarrow> 'c \<Rightarrow> (io_error + path) list \<times> 'c" where
  "canon_all [] c = ([], c)"
| "canon_all (p # ps) c =
     (let (r, c') = canon p c; (rs, c'') = canon_all ps c' in (r # rs, c''))"

lemma canon_all_transparent:
  "valid c \<Longrightarrow> fst (canon_all ps c) = map direct ps \<and> valid (snd (canon_all ps c))"
proof (induction ps arbitrary: c)
  case (Cons p ps)
  have "valid (snd (canon p c))" using Cons.prems by (rule canon_valid)
  from Cons.IH [OF this] canon_direct [OF Cons.prems, of p] show ?case
    by (cases "canon p c") (auto simp: case_prod_unfold)
qed simp

end

lemma update_fresh: "k \<notin> fst ` set al \<Longrightarrow> AList.update k v al = al @ [(k, v)]"
  by (induction al) auto

lemma cache_ok_update:
  assumes "cache_ok os cache" and "map_of cache p = None" and "os_canonicalize os p = Inr c"
    and "length cache < CANON_CACHE_MAX"
  shows "cache_ok os (AList.update p c cache)"
  using assms by (auto simp: cache_ok_def map_of_eq_None_iff update_fresh)

lemma cache_ok_Nil: "cache_ok os []"
  by (simp add: cache_ok_def)

interpretation canon: path_cache "parent_cached_canonicalize os" "direct_canonicalize os" "cache_ok os"
  for os :: "'f os_calls"
proof
  fix cache p
  assume ok: "cache_ok os cache"
  have hit: "os_canonicalize os parent = Inr c" if "map_of cache parent = Some c" for parent c
    using ok map_of_SomeD [OF that] by (auto simp: cache_ok_def)
  show "fst (parent_cached_canonicalize os p cache) = direct_canonicalize os p"
    by (auto simp: parent_cached_canonicalize_def direct_canonicalize_def hit Let_def
        split: option.split sum.split)
  have "cache_ok os (AList.update parent c (if length cache \<ge> CANON_CACHE_MAX then [] else cache))"
    if "map_of cache parent = None" "os_canonicalize os parent = Inr c" for parent c
    using that ok cache_ok_update [of os cache parent c] cache_ok_update [of os "[]" parent c]
    by (auto simp: cache_ok_Nil CANON_CACHE_MAX_def not_le)
  then show "cache_ok os (snd (parent_cached_canonicalize os p cache))"
    using ok by (auto simp: parent_cached_canonicalize_def Let_def split: option.split sum.split)
qed

text \<open>The operating system's promise: a path opened without following a link has its own name.\<close>

definition nofollow_contract :: "'f os_calls \<Rightarrow> bool" where
  "nofollow_contract os \<longleftrightarrow>
     (\<forall>p fl. os_open_nofollow os p = Inr fl \<longrightarrow> direct_canonicalize os p = os_canonicalize os p) \<and>
     (\<forall>p. os_is_symlink os p = Inr False \<longrightarrow> direct_canonicalize os p = os_canonicalize os p)"

lemma open_final_not_symlink:
  assumes "nofollow_contract os" and "open_final os request = Inr (fl, False)"
    and "or_containment_root request \<noteq> None"
  shows "direct_canonicalize os (or_path request) = os_canonicalize os (or_path request)"
  using assms
  by (cases "os_open os (or_path request)")
     (auto simp: open_final_def open_final_unix_def open_final_windows_def nofollow_contract_def and_then_Inr
      split: target_family.splits sum.splits if_splits)

lemma check_containment_ok:
  assumes "nofollow_contract os" and "cache_ok os cache" and "or_containment_root request = Some root"
    and "open_final os request = Inr (fl, sl)" and "check_containment os request sl cache = (Inr (), cache')"
  shows "\<exists>c. os_canonicalize os (or_path request) = Inr c \<and> path_starts_with c root"
proof -
  let ?p = "or_path request"
  define canonical where
    "canonical = (if sl then os_canonicalize os ?p else fst (parent_cached_canonicalize os ?p cache))"
  have "canonical = os_canonicalize os ?p"
    using open_final_not_symlink [of os request fl] assms canon.canon_direct [OF assms(2), of ?p]
    by (auto simp: canonical_def)
  moreover have "and_then canonical (\<lambda>c. if \<not> path_starts_with c root then Inl permission_denied else Inr ()) = Inr ()"
    using assms(3,5) by (auto simp: check_containment_def canonical_def case_prod_unfold Let_def split: if_splits)
  ultimately show ?thesis by (auto simp: and_then_Inr split: if_splits)
qed

lemma open_stat_under_root:
  assumes "nofollow_contract os" and "cache_ok os cache" and "or_containment_root request = Some root"
    and "open_stat os hid request files cache = (Inr (h, stat, prefetch), files', cache')"
  shows "\<exists>c. os_canonicalize os (or_path request) = Inr c \<and> path_starts_with c root"
proof -
  obtain fl sl where o: "open_final os request = Inr (fl, sl)"
    using assms(4) by (auto simp: open_stat_def split: sum.splits prod.splits)
  then obtain cache'' where "check_containment os request sl cache = (Inr (), cache'')"
    using assms(4) by (auto simp: open_stat_def split: sum.splits prod.splits)
  then show ?thesis by (rule check_containment_ok [OF assms(1-3) o])
qed

text \<open>
  A file handed out by an open under a containment root really lies under that root: its canonical
  path, links resolved, starts with the root, whether or not the cache of canonical parents was used.
\<close>

theorem open_stat_contained:
  assumes "nofollow_contract os" and "cache_ok os cache" and "or_containment_root request = Some root"
    and "open_stat os hid request files cache = (Inr (h, stat, prefetch), files', cache')"
  shows "\<exists>c. os_canonicalize os (or_path request) = Inr c \<and> path_starts_with c root"
  using assms by (rule open_stat_under_root)

section \<open>Reads\<close>

text \<open>
  What a positional read promises for a file with a given content: some bytes from the offset on, as
  many as asked for at most, and none only at the end of the file.
\<close>

definition reads_content :: "(nat \<Rightarrow> u64 \<Rightarrow> nat \<Rightarrow> io_error + bytes) \<Rightarrow> bytes \<Rightarrow> bool" where
  "reads_content pread content \<longleftrightarrow>
     (\<forall>i off n bs. pread i off n = Inr bs \<longrightarrow>
        prefix bs (slice content (unat off) n) \<and> (bs = [] \<longrightarrow> slice content (unat off) n = []))"

lemma fill_loop_exact:
  assumes "reads_content pread content" and "prefix buf (slice content (unat off) len)"
    and "unat off + len < 2 ^ 64" and "fill_loop pread i off len buf = Inr bs"
  shows "bs = slice content (unat off) len"
  using assms
proof (induction pread i off len buf rule: fill_loop.induct)
  case (1 pread i off len buf)
  let ?at = "off + of_nat (length buf)"
  show ?case
  proof (cases "length buf < len")
    case False
    then have "bs = buf" using "1.prems"(4) by (simp add: fill_loop.simps [of pread i])
    moreover have "length (slice content (unat off) len) \<le> length buf"
      using False length_slice_le [of content "unat off" len] by simp
    ultimately show ?thesis using "1.prems"(2) by (metis append_Nil2 append_eq_conv_conj prefixE take_all)
  next
    case True
    have at: "unat ?at = unat off + length buf"
      using "1.prems"(3) True by (subst unat_plus_u64) (simp_all add: unat_of_nat_u64)
    have split: "slice content (unat off) len =
        slice content (unat off) (length buf) @ slice content (unat ?at) (len - length buf)"
      using slice_append [of content "unat off" "length buf" "len - length buf"] True by (simp add: at)
    have buf: "buf = slice content (unat off) (length buf)"
      using "1.prems"(2) True unfolding slice_def by (metis append_eq_conv_conj min.absorb1 nat_less_le prefixE take_take)
    obtain m where m: "pread i ?at (len - length buf) = Inr m"
      using "1.prems"(4) True by (cases "pread i ?at (len - length buf)") (auto simp: fill_loop.simps [of pread i])
    have pm: "prefix m (slice content (unat ?at) (len - length buf))"
      "m = [] \<longrightarrow> slice content (unat ?at) (len - length buf) = []"
      using "1.prems"(1) m unfolding reads_content_def by blast+
    show ?thesis
    proof (cases "m = []")
      case True
      then have "bs = buf" using "1.prems"(4) m \<open>length buf < len\<close> by (simp add: fill_loop.simps [of pread i])
      then show ?thesis using True pm(2) split buf by simp
    next
      case False
      have "prefix (buf @ m) (slice content (unat off) len)"
        using pm(1) by (subst split, subst (1) buf) simp
      moreover have "fill_loop pread (i + 1) off len (buf @ m) = Inr bs"
        using "1.prems"(4) m \<open>length buf < len\<close> False by (simp add: fill_loop.simps [of pread i])
      ultimately show ?thesis
        using "1.IH" [OF \<open>length buf < len\<close> m False "1.prems"(1)] "1.prems"(3) by simp
    qed
  qed
qed

lemma read_at_slice:
  assumes "reads_content (os_pread os fl) content" and "unat off + len < 2 ^ 64"
    and "read_at os (Some fl) off len = Inr bs"
  shows "bs = slice content (unat off) len"
proof -
  obtain buf where buf: "os_pread os fl 0 off len = Inr buf"
    using assms(3) by (auto simp: read_at_def split: sum.splits)
  then have p: "prefix buf (slice content (unat off) len)" "buf = [] \<longrightarrow> slice content (unat off) len = []"
    using assms(1) unfolding reads_content_def by blast+
  consider "length buf = len" | "buf = []" | "fill_loop (os_pread os fl) 1 off len buf = Inr bs"
    using assms(3) buf by (auto simp: read_at_def split: if_splits)
  then show ?thesis
  proof cases
    case 1
    then have "bs = buf" using assms(3) buf by (simp add: read_at_def)
    then show ?thesis
      using p(1) 1 length_slice_le [of content "unat off" len]
      by (metis append_Nil2 append_eq_conv_conj prefixE take_all)
  next
    case 2
    then show ?thesis using assms(3) buf p(2) by (simp add: read_at_def split: if_splits)
  next
    case 3
    then show ?thesis using fill_loop_exact [OF assms(1) p(1) assms(2)] by blast
  qed
qed

text \<open>
  C23: However short the reads of the operating system are, a chunk that is delivered without error is
  exactly that range of the file, cut only by its end.
\<close>

theorem read_at_exact:
  assumes "reads_content (os_pread os fl) content" and "unat off + len < 2 ^ 64"
    and "read_at os (Some fl) off len = Inr bs"
  shows "bs = slice content (unat off) len"
  using assms by (rule read_at_slice)

lemma map_of_update_hit: "map_of (AList.update k v al) k = Some v"
  by (simp add: update_conv')

lemma opened_handle:
  assumes "open_stat os hid request files cache = (Inr (h, stat, prefetch), files', cache')"
    and "open_final os request = Inr (fl, sl)" and "hid \<noteq> 0"
    and "reads_content (os_pread os fl) content" and "length content < 2 ^ 64"
    and "st_size stat = of_nat (length content)"
  shows "(h = 0 \<longleftrightarrow> \<not> st_is_dir stat \<and> prefetch = content) \<and>
    (h \<noteq> 0 \<longrightarrow> h = hid \<and> map_of files' h = Some fl) \<and>
    (prefetch = [] \<or> prefetch = take (or_prefetch_len request) content \<and> \<not> st_is_dir stat)"
proof -
  obtain md cache'' where md: "os_metadata_of os fl = Inr md"
      "check_containment os request sl cache = (Inr (), cache'')"
    using assms(1,2) by (auto simp: open_stat_def split: sum.splits prod.splits)
  define S where "S = stat_from_metadata md"
  define want where "want = (if st_is_dir S then 0 else min (or_prefetch_len request) (unat (st_size S)))"
  define pre where "pre = (if want > 0 then (case read_at os (Some fl) 0 want of Inr bs \<Rightarrow> bs | Inl _ \<Rightarrow> []) else [])"
  have res: "open_stat os hid request files cache =
      (if \<not> st_is_dir S \<and> of_nat (length pre) = st_size S
       then (Inr (0, S, pre), files, cache'') else (Inr (hid, S, pre), AList.update hid fl files, cache''))"
    using assms(2) md by (simp add: open_stat_def Let_def pre_def want_def S_def)
  have S: "stat = S" and prefetch: "prefetch = pre"
    using assms(1) unfolding res by (simp_all split: if_splits)
  have want: "want = (if st_is_dir stat then 0 else min (or_prefetch_len request) (length content))"
    using assms(5,6) by (simp add: want_def S unat_of_nat_u64)
  have "want \<le> length content" by (simp add: want)
  then have "want < 2 ^ 64" using assms(5) by (rule le_less_trans)
  then have exact: "bs = slice content 0 want" if "read_at os (Some fl) 0 want = Inr bs" for bs
    using read_at_slice [OF assms(4) _ that] by simp
  have pre: "pre = [] \<or> pre = take want content \<and> 0 < want"
    using exact by (auto simp: pre_def slice_def split: sum.splits)
  then have len: "length pre < 2 ^ 64" using assms(5) by auto
  have whole: "of_nat (length pre) = st_size stat \<longleftrightarrow> pre = content"
  proof -
    have "of_nat (length pre) = st_size stat \<longleftrightarrow> length pre = length content"
      unfolding assms(6) using len assms(5) by (metis unat_of_nat_u64)
    also have "\<dots> \<longleftrightarrow> pre = content" using pre by auto
    finally show ?thesis .
  qed
  have "pre = [] \<or> pre = take (or_prefetch_len request) content \<and> \<not> st_is_dir stat"
    using pre by (auto simp: want min_def split: if_splits)
  then show ?thesis
    using assms(1,3) whole unfolding res prefetch S by (auto simp: map_of_update_hit split: if_splits)
qed

text \<open>
  The handle of a successful open is inert (id 0, nothing left open) exactly when the prefetch is the
  whole of a regular file; otherwise it is the request's own, and the file stays registered under it. The prefetch is
  the beginning of the file as far as asked, or empty.
\<close>

theorem open_stat_handle:
  assumes "open_stat os hid request files cache = (Inr (h, stat, prefetch), files', cache')"
    and "open_final os request = Inr (fl, sl)" and "hid \<noteq> 0"
    and "reads_content (os_pread os fl) content" and "length content < 2 ^ 64"
    and "st_size stat = of_nat (length content)"
  shows "(h = 0 \<longleftrightarrow> \<not> st_is_dir stat \<and> prefetch = content) \<and>
    (h \<noteq> 0 \<longrightarrow> h = hid \<and> map_of files' h = Some fl) \<and>
    (prefetch = [] \<or> prefetch = take (or_prefetch_len request) content \<and> \<not> st_is_dir stat)"
  using assms by (rule opened_handle)

section \<open>Runs of the engine\<close>

datatype 'k engine_op =
    SubmitOpen open_request 'k
  | SubmitRead file_handle u64 nat 'k
  | SubmitReadDir path 'k
  | DropHandle file_handle
  | Shutdown
  | React
  | FinishTask nat

definition engine_step ::
  "'f os_calls \<Rightarrow> 'k engine_op \<Rightarrow> ('f, 'k) engine \<Rightarrow> ('f, 'k) engine \<times> ('k \<times> completion) list" where
  "engine_step os op eng =
     (case op of
        SubmitOpen request k \<Rightarrow> (engine_open_stat request k eng, [])
      | SubmitRead h off len k \<Rightarrow> (engine_read h off len k eng, [])
      | SubmitReadDir p k \<Rightarrow> (engine_read_dir p k eng, [])
      | DropHandle h \<Rightarrow> (drop_handle h eng, [])
      | Shutdown \<Rightarrow> (engine_shutdown eng, [])
      | React \<Rightarrow> (run_reactor eng, [])
      | FinishTask j \<Rightarrow> run_task os j eng)"

fun engine_run ::
  "'f os_calls \<Rightarrow> 'k engine_op list \<Rightarrow> ('f, 'k) engine \<Rightarrow> ('f, 'k) engine \<times> ('k \<times> completion) list" where
  "engine_run os [] eng = (eng, [])"
| "engine_run os (op # ops) eng =
     (let (eng', done1) = engine_step os op eng; (eng'', done2) = engine_run os ops eng' in
      (eng'', done1 @ done2))"

fun submitted_tag :: "'k engine_op \<Rightarrow> 'k list" where
  "submitted_tag (SubmitOpen _ k) = [k]"
| "submitted_tag (SubmitRead _ _ _ k) = [k]"
| "submitted_tag (SubmitReadDir _ k) = [k]"
| "submitted_tag _ = []"

fun command_tag :: "'k command \<Rightarrow> 'k list" where
  "command_tag (OpenCommand _ _ k) = [k]"
| "command_tag (ReadCommand _ _ _ k) = [k]"
| "command_tag (ReadDirCommand _ k) = [k]"
| "command_tag _ = []"

fun task_tag :: "('f, 'k) task \<Rightarrow> 'k" where
  "task_tag (OpenTask _ _ k) = k"
| "task_tag (ReadTask _ _ _ k) = k"
| "task_tag (ReadDirTask _ k) = k"

definition outstanding :: "('f, 'k) engine \<Rightarrow> 'k multiset" where
  "outstanding eng = mset (concat (map command_tag (eng_commands eng))) + mset (map task_tag (eng_tasks eng))"

lemma outstanding_try_send:
  "outstanding (try_send c eng) = outstanding eng + (if eng_running eng then mset (command_tag c) else {#})"
  by (simp add: outstanding_def try_send_def)

lemma mset_remove_nth: "j < length xs \<Longrightarrow> mset xs = add_mset (xs ! j) (mset (take j xs @ drop (Suc j) xs))"
  by (metis Cons_nth_drop_Suc append_take_drop_id mset.simps(2) mset_append union_mset_add_mset_right)

lemma run_task_tags:
  "outstanding eng = outstanding (fst (run_task os j eng)) + mset (map fst (snd (run_task os j eng)))"
proof (cases "j < length (eng_tasks eng)")
  case True
  have "mset (map task_tag (eng_tasks eng)) =
      add_mset (task_tag (eng_tasks eng ! j))
        (mset (map task_tag (take j (eng_tasks eng) @ drop (Suc j) (eng_tasks eng))))"
    using mset_remove_nth [of j "map task_tag (eng_tasks eng)"] True
    by (simp add: take_map drop_map)
  then show ?thesis
    using True by (cases "eng_tasks eng ! j") (auto simp: run_task_def outstanding_def Let_def split: prod.split)
qed (simp add: run_task_def)

text \<open>One step keeps count: what was outstanding or is submitted, less what is called back, is dropped at most by a stop.\<close>

lemma engine_step_tags:
  assumes "engine_step os op eng = (eng', out)"
  shows "outstanding eng' + mset (map fst out) \<subseteq># outstanding eng + mset (submitted_tag op) \<and>
    (eng_running eng' \<longrightarrow> eng_running eng \<and>
       outstanding eng' + mset (map fst out) = outstanding eng + mset (submitted_tag op))"
proof (cases op)
  case (FinishTask j)
  then have "outstanding eng = outstanding eng' + mset (map fst out)" "eng_running eng' = eng_running eng"
    using assms run_task_tags [of eng os j]
    by (auto simp: engine_step_def run_task_def Let_def split: if_splits task.splits prod.splits)
  with FinishTask show ?thesis by simp
next
  case React
  then show ?thesis
    using assms
    by (auto simp: engine_step_def run_reactor_def Let_def outstanding_def split: if_splits list.splits command.splits)
qed (use assms in \<open>auto simp: engine_step_def engine_open_stat_def engine_read_def engine_read_dir_def
      drop_handle_def engine_shutdown_def outstanding_try_send\<close>,
     auto simp: outstanding_def try_send_def split: if_splits)

lemma subset_mset_chain:
  "o1 + m1 \<subseteq># o0 + s \<Longrightarrow> o2 + m2 \<subseteq># o1 + t \<Longrightarrow> o2 + (m1 + m2) \<subseteq># o0 + (s + t)"
proof -
  assume a: "o1 + m1 \<subseteq># o0 + s" and b: "o2 + m2 \<subseteq># o1 + t"
  have "o2 + m2 + m1 \<subseteq># o1 + t + m1" using b by (rule subset_mset.add_right_mono)
  also have "o1 + t + m1 = o1 + m1 + t" by (simp add: ac_simps)
  also have "\<dots> \<subseteq># o0 + s + t" using a by (rule subset_mset.add_right_mono)
  finally show ?thesis by (simp add: ac_simps)
qed

lemma mset_sum_chain:
  "o1 + m1 = o0 + s \<Longrightarrow> o2 + m2 = o1 + t \<Longrightarrow> o2 + (m1 + m2) = o0 + (s + (t :: 'a multiset))"
  by (metis add.assoc add.commute)

text \<open>
  C22: No callback is lost or called twice: while the engine runs, the requests submitted are those called
  back and those still queued or running, counted with multiplicity; a shutdown only ever drops some.
\<close>

theorem engine_callbacks_once:
  assumes "engine_run os ops engine_new = (eng, out)"
  shows "outstanding eng + mset (map fst out) \<subseteq># mset (concat (map submitted_tag ops)) \<and>
    (eng_running eng \<longrightarrow> outstanding eng + mset (map fst out) = mset (concat (map submitted_tag ops)))"
proof -
  have "outstanding eng' + mset (map fst out) \<subseteq># outstanding eng + mset (concat (map submitted_tag ops)) \<and>
      (eng_running eng' \<longrightarrow> eng_running eng \<and>
        outstanding eng' + mset (map fst out) = outstanding eng + mset (concat (map submitted_tag ops)))"
    if "engine_run os ops eng = (eng', out)" for ops eng eng' out
    using that
  proof (induction ops arbitrary: eng out)
    case (Cons op ops)
    obtain eng1 out1 out2 where e: "engine_step os op eng = (eng1, out1)" "engine_run os ops eng1 = (eng', out2)"
        "out = out1 @ out2"
      using Cons.prems by (auto simp: Let_def split: prod.splits)
    show ?case
      using engine_step_tags [OF e(1)] Cons.IH [OF e(2)] unfolding e(3)
      by (auto intro: subset_mset_chain mset_sum_chain)
  qed simp
  from this [OF assms] show ?thesis by (simp add: outstanding_def engine_new_def)
qed

section \<open>Closed examples\<close>

text \<open>
  An operating system with one file, whose reads return at most two bytes, and canonical paths
  that are the paths.
\<close>

definition sample_pread :: "nat \<Rightarrow> u64 \<Rightarrow> nat \<Rightarrow> io_error + bytes" where
  "sample_pread i off n = Inr (slice ''hello'' (unat off) (min n 2))"

definition sample_os :: "unit os_calls" where
  "sample_os =
     \<lparr>os_family = Unix, os_libc_eloop = 40, os_libc_emlink = 31,
      os_open_nofollow = (\<lambda>p. if p = ''/srv/a'' then Inr () else Inl handle_gone),
      os_open = (\<lambda>p. Inl handle_gone), os_is_symlink = (\<lambda>p. Inr True),
      os_metadata_of = (\<lambda>_. Inr \<lparr>md_len = 5, md_is_dir = False, md_modified = Inr (7, 0)\<rparr>),
      os_canonicalize = Inr, os_pread = (\<lambda>_. sample_pread),
      os_read_dir = (\<lambda>_. Inr []), os_blocking_panics = (\<lambda>_. False)\<rparr>"

definition sample_request :: "nat \<Rightarrow> open_request" where
  "sample_request n = \<lparr>or_path = ''/srv/a'', or_containment_root = Some ''/srv'',
     or_deny_symlinks = True, or_prefetch_len = n\<rparr>"

lemma sample_reads: "reads_content sample_pread ''hello''"
  unfolding reads_content_def
proof (intro allI impI)
  fix i off n bs
  assume "sample_pread i off n = Inr bs"
  then have bs: "bs = take 2 (slice ''hello'' (unat off) n)"
    by (simp only: sample_pread_def sum.inject slice_def take_take min.commute)
  show "prefix bs (slice ''hello'' (unat off) n) \<and> (bs = [] \<longrightarrow> slice ''hello'' (unat off) n = [])"
    unfolding bs by (simp only: take_is_prefix take_eq_Nil) simp
qed

lemma sample_parent: "path_parent ''/srv/a'' = Some ''/srv''" "path_file_name ''/srv/a'' = Some ''a''"
  by (simp_all add: path_parent_def path_file_name_def components_def components_text_def)

lemma sample_nofollow: "nofollow_contract sample_os"
  by (auto simp: nofollow_contract_def sample_os_def direct_canonicalize_def sample_parent path_join_def is_absolute_def
      split: if_splits)

lemma sample_canonical:
  "parent_cached_canonicalize sample_os ''/srv/a'' [] = (Inr ''/srv/a'', [(''/srv'', ''/srv'')])"
  by (simp add: parent_cached_canonicalize_def sample_parent sample_os_def path_join_def is_absolute_def CANON_CACHE_MAX_def)

lemma sample_read: "read_at sample_os (Some ()) 0 5 = Inr ''hello''"
  by (simp add: read_at_def sample_os_def sample_pread_def slice_def fill_loop.simps)

lemma sample_under_root: "path_starts_with ''/srv/a'' ''/srv''"
  by (simp add: path_starts_with_def components_def)

lemma sample_open:
  "open_stat sample_os 9 (sample_request 8) [] [] =
     (Inr (0, \<lparr>st_size = 5, st_mtime_unix = 7, st_mtime_nanos = 0, st_is_dir = False\<rparr>, ''hello''), [],
      [(''/srv'', ''/srv'')])"
proof -
  have "open_final sample_os (sample_request 8) = Inr ((), False)"
    by (simp add: open_final_def open_final_unix_def sample_os_def sample_request_def)
  moreover have "os_metadata_of sample_os () = Inr \<lparr>md_len = 5, md_is_dir = False, md_modified = Inr (7, 0)\<rparr>"
    by (simp add: sample_os_def)
  moreover have "check_containment sample_os (sample_request 8) False [] = (Inr (), [(''/srv'', ''/srv'')])"
    by (simp add: check_containment_def sample_request_def sample_canonical sample_under_root)
  ultimately show ?thesis
    by (simp add: open_stat_def stat_from_metadata_def mtime_parts_def sample_request_def sample_read)
qed

theorem open_stat_contained_witness:
  "\<exists>c. os_canonicalize sample_os ''/srv/a'' = Inr c \<and> path_starts_with c ''/srv''"
  using open_stat_contained [OF sample_nofollow cache_ok_Nil _ sample_open, of "''/srv''"]
  by (simp add: sample_request_def)

theorem read_at_exact_witness:
  "''ello'' = slice ''hello'' 1 4"
proof -
  have "read_at sample_os (Some ()) 1 4 = Inr ''ello''"
    by (simp add: read_at_def sample_os_def sample_pread_def slice_def fill_loop.simps)
  then show ?thesis
    using read_at_exact [of sample_os "()" "''hello''" 1 4] sample_reads by (simp add: sample_os_def)
qed

theorem open_stat_handle_witness:
  "fst (open_stat sample_os 9 (sample_request 8) [] []) \<noteq> Inl other_error \<and> ''hello'' = take 8 ''hello''"
proof -
  have "open_final sample_os (sample_request 8) = Inr ((), False)"
    by (simp add: open_final_def open_final_unix_def sample_os_def sample_request_def)
  moreover have "reads_content (os_pread sample_os ()) ''hello''" using sample_reads by (simp add: sample_os_def)
  ultimately show ?thesis
    using open_stat_handle [OF sample_open, of "()" False "''hello''"] sample_open
    by (simp add: sample_request_def)
qed

theorem engine_callbacks_once_witness:
  "mset (map fst (snd (engine_run sample_os [SubmitReadDir ''/srv'' ''k'', React, FinishTask 0] engine_new)))
     = mset [''k'']"
proof -
  let ?ops = "[SubmitReadDir ''/srv'' ''k'', React, FinishTask 0]"
  obtain eng out where run: "engine_run sample_os ?ops engine_new = (eng, out)" by fastforce
  have "outstanding eng = {#}" "eng_running eng"
    using run by (auto simp: engine_step_def engine_read_dir_def try_send_def engine_new_def run_reactor_def
        run_task_def outstanding_def)
  then show ?thesis
    using engine_callbacks_once [OF run] unfolding run by simp
qed

end
