(* ===== verification/Stream_Filter.thy ===== *)
theory Stream_Filter
  imports Response_Plan Listing Request_Path Mime Config Event_Bridge Io_Engine
begin

text \<open>
  \<^verbatim>\<open>envoy-files-filter/src/filter.rs\<close>: the per-stream filter. Its state is the configuration, the
  event bridge, the two once-cells and the phase; what it does to Envoy and to the I/O engine is appended to
  the trace \<open>fl_out\<close>. A handler is \<open>None\<close> where the code panics or does not return. During a
  \<^verbatim>\<open>send_response_data\<close> Envoy may call the watermark hooks re-entrantly: which ones it calls, given the
  trace so far, is the parameter \<open>react\<close>. Dropping the last clone of a file handle is the output
  \<open>DropFile\<close>.
\<close>

section \<open>Data\<close>

record ('h, 't) crates =
  cr_headers :: "('h, 't) headers_crate"
  cr_text :: text_crates
  cr_percent_decode :: "string \<Rightarrow> string option"
  cr_mime_guess :: "string \<Rightarrow> string option"
  cr_method_from_bytes :: "bytes \<Rightarrow> string option"
  cr_target_os :: target_os

record open_ctx =
  ctx_encoding :: "string option"
  ctx_content_type :: string
  ctx_add_vary :: bool

datatype io_event =
    Opened file_handle file_stat open_ctx bytes
  | OpenError io_error
  | ReadEvent nat "io_error + bytes"
  | DirEvent "io_error + dir_entry_info list"

record candidate =
  cand_fs_path :: path
  cand_encoding :: "string option"
  cand_content_type :: string
  cand_add_vary :: bool

datatype chunk = Inline bytes | FileChunk u64 nat

record streaming =
  sm_handle :: file_handle
  sm_chunks :: "chunk list"
  sm_ready :: "(nat \<times> bytes) list"
  sm_next_send :: nat
  sm_issue_cursor :: nat
  sm_inflight :: nat
  sm_watermark_depth :: nat

datatype phase =
    Idle
  | ResolvingFile "candidate list"
  | ResolvingIndex path "(path \<times> string) list"
  | Streaming streaming
  | Done

record request_data =
  rd_method_head :: bool
  rd_if_none_match :: "string option"
  rd_if_modified_since :: "string option"
  rd_if_match :: "string option"
  rd_if_unmodified_since :: "string option"
  rd_if_range :: "string option"
  rd_range_header :: "string option"
  rd_relative :: string
  rd_trailing_slash :: bool

text \<open>What the filter asks of Envoy and of the engine.\<close>

datatype action =
    SendResponse nat "header list" "bytes option"
  | SendHeaders "header list" bool
  | SendData bytes bool
  | OpenFile open_request open_ctx
  | ReadFile file_handle u64 nat nat
  | ReadDirectory path
  | DropFile file_handle
  | Commit
  | LogReadError nat io_error

datatype watermark = AboveHigh | BelowLow

record stream_filter =
  fl_config :: config
  fl_bridge :: "io_event bridge"
  fl_waker :: bool
  fl_request :: "request_data option"
  fl_phase :: phase
  fl_out :: "action list"

datatype resolver = FileResolver bool | IndexResolver

section \<open>State\<close>

definition filter_new :: "config \<Rightarrow> stream_filter" where
  "filter_new c = \<lparr>fl_config = c, fl_bridge = bridge_new, fl_waker = False, fl_request = None,
     fl_phase = Idle, fl_out = []\<rparr>"

definition emit :: "action list \<Rightarrow> stream_filter \<Rightarrow> stream_filter" where
  "emit acts fl = fl\<lparr>fl_out := fl_out fl @ acts\<rparr>"

fun dropped_with :: "phase \<Rightarrow> action list" where
  "dropped_with (Streaming s) = [DropFile (sm_handle s)]"
| "dropped_with _ = []"

definition set_phase :: "phase \<Rightarrow> stream_filter \<Rightarrow> stream_filter" where
  "set_phase p fl = emit (dropped_with (fl_phase fl)) (fl\<lparr>fl_phase := p\<rparr>)"

definition current_resolver :: "stream_filter \<Rightarrow> resolver option" where
  "current_resolver fl =
     (case fl_phase fl of
        ResolvingFile pending \<Rightarrow> Some (FileResolver (pending = []))
      | ResolvingIndex _ _ \<Rightarrow> Some IndexResolver
      | _ \<Rightarrow> None)"

text \<open>\<^verbatim>\<open>Waker::deliver\<close>, on an I/O thread: the event is dropped when the bridge is closed.\<close>

fun dropped_with_event :: "io_event \<Rightarrow> action list" where
  "dropped_with_event (Opened h _ _ _) = [DropFile h]"
| "dropped_with_event _ = []"

definition deliver :: "io_event \<Rightarrow> stream_filter \<Rightarrow> stream_filter" where
  "deliver event fl =
     (case bridge_send (fl_bridge fl) event of
        (b, Inr _) \<Rightarrow> emit [Commit] (fl\<lparr>fl_bridge := b\<rparr>)
      | (b, Inl event) \<Rightarrow> emit (dropped_with_event event) (fl\<lparr>fl_bridge := b\<rparr>))"

definition respond_status :: "nat \<Rightarrow> stream_filter \<Rightarrow> stream_filter" where
  "respond_status status fl = emit [SendResponse status [] None] (set_phase Done fl)"

definition url_for :: "config \<Rightarrow> string \<Rightarrow> string" where
  "url_for c relative =
     (let p = (case cfg_strip_prefix c of Some p \<Rightarrow> p | None \<Rightarrow> []) in
      if relative = [] then p @ ''/'' else p @ ''/'' @ relative)"

section \<open>Request headers\<close>

record raw_request_headers =
  raw_method :: "string option"
  raw_path :: "string option"
  raw_accept_encoding :: "string option"
  raw_if_none_match :: "string option"
  raw_if_modified_since :: "string option"
  raw_if_match :: "string option"
  raw_if_unmodified_since :: "string option"
  raw_if_range :: "string option"
  raw_range :: "string option"

definition raw_empty :: raw_request_headers where
  "raw_empty = \<lparr>raw_method = None, raw_path = None, raw_accept_encoding = None,
     raw_if_none_match = None, raw_if_modified_since = None, raw_if_match = None,
     raw_if_unmodified_since = None, raw_if_range = None, raw_range = None\<rparr>"

text \<open>A slot is filled by the first occurrence that is not empty.\<close>

definition fill_slot :: "bytes \<Rightarrow> string option \<Rightarrow> string option" where
  "fill_slot val slot = (if slot = None \<and> val \<noteq> [] then Some (from_utf8_lossy val) else slot)"

definition collect_header ::
  "('h, 't) crates \<Rightarrow> bytes \<times> bytes \<Rightarrow> raw_request_headers \<Rightarrow> raw_request_headers" where
  "collect_header cr kv raw =
     (let (key, val) = kv in
      if key = '':method'' then
        (if raw_method raw = None then raw\<lparr>raw_method := cr_method_from_bytes cr val\<rparr> else raw)
      else if key = '':path'' then raw\<lparr>raw_path := fill_slot val (raw_path raw)\<rparr>
      else if key = ''accept-encoding'' then raw\<lparr>raw_accept_encoding := fill_slot val (raw_accept_encoding raw)\<rparr>
      else if key = ''if-none-match'' then raw\<lparr>raw_if_none_match := fill_slot val (raw_if_none_match raw)\<rparr>
      else if key = ''if-modified-since'' then raw\<lparr>raw_if_modified_since := fill_slot val (raw_if_modified_since raw)\<rparr>
      else if key = ''if-match'' then raw\<lparr>raw_if_match := fill_slot val (raw_if_match raw)\<rparr>
      else if key = ''if-unmodified-since'' then raw\<lparr>raw_if_unmodified_since := fill_slot val (raw_if_unmodified_since raw)\<rparr>
      else if key = ''if-range'' then raw\<lparr>raw_if_range := fill_slot val (raw_if_range raw)\<rparr>
      else if key = ''range'' then raw\<lparr>raw_range := fill_slot val (raw_range raw)\<rparr>
      else raw)"

definition collect_headers :: "('h, 't) crates \<Rightarrow> (bytes \<times> bytes) list \<Rightarrow> raw_request_headers" where
  "collect_headers cr kvs = fold (collect_header cr) kvs raw_empty"

definition strip_mount_prefix :: "string \<Rightarrow> string \<Rightarrow> string option" where
  "strip_mount_prefix raw p =
     (case strip_prefix_of p raw of
        None \<Rightarrow> None
      | Some rest \<Rightarrow>
        (case rest of
           [] \<Rightarrow> Some ''/''
         | c # _ \<Rightarrow>
             if c = CHR ''/'' then Some rest
             else if c = CHR ''?'' \<or> c = CHR ''#'' then Some (''/'' @ rest)
             else None))"

definition reject_status :: "reject_reason \<Rightarrow> nat" where
  "reject_status reason =
     (case reason of
        TooLong \<Rightarrow> STATUS_URI_TOO_LONG
      | BadEncoding \<Rightarrow> STATUS_BAD_REQUEST
      | BadCharacter \<Rightarrow> STATUS_BAD_REQUEST
      | Traversal \<Rightarrow> STATUS_NOT_FOUND
      | Dotfile \<Rightarrow> STATUS_NOT_FOUND)"

section \<open>Opening candidates\<close>

definition build_file_candidates ::
  "('h, 't) crates \<Rightarrow> config \<Rightarrow> string \<Rightarrow> bool \<Rightarrow> string option \<Rightarrow> candidate list" where
  "build_file_candidates cr c relative trailing_slash accept_encoding =
     (let content_type = content_type_for (cr_mime_guess cr) relative (cfg_mime_overrides c)
            (cfg_default_content_type c);
          candidates =
            (if \<not> trailing_slash \<and> accept_encoding \<noteq> None then
               map (\<lambda>enc. \<lparr>cand_fs_path = path_join (cfg_root c) (relative @ file_suffix enc),
                   cand_encoding = Some (content_encoding enc), cand_content_type = content_type,
                   cand_add_vary = True\<rparr>)
                 (negotiate_precompressed accept_encoding (cfg_precompressed c))
             else []);
          add_vary = (candidates \<noteq> []) in
      candidates @
        [\<lparr>cand_fs_path = path_join (cfg_root c) relative, cand_encoding = None,
          cand_content_type = content_type, cand_add_vary = add_vary\<rparr>])"

definition submit_open :: "path \<Rightarrow> open_ctx \<Rightarrow> stream_filter \<Rightarrow> stream_filter option" where
  "submit_open fs_path ctx fl =
     (if \<not> fl_waker fl then None
      else
        let prefetch_len =
          (case fl_request fl of
             Some req \<Rightarrow>
               if \<not> rd_method_head req \<and> rd_range_header req = None then cfg_chunk_size (fl_config fl) else 0
           | None \<Rightarrow> 0) in
        Some (emit [OpenFile \<lparr>or_path = fs_path, or_containment_root = Some (cfg_root (fl_config fl)),
            or_deny_symlinks = \<not> cfg_follow_symlinks_within_root (fl_config fl),
            or_prefetch_len = prefetch_len\<rparr> ctx] fl))"

text \<open>The event an open delivers, from the callback's closure and the engine's result.\<close>

definition open_event :: "open_ctx \<Rightarrow> open_result \<Rightarrow> io_event" where
  "open_event ctx result =
     (case result of
        Inr (h, stat, prefetch) \<Rightarrow> Opened h stat ctx prefetch
      | Inl err \<Rightarrow> OpenError err)"

definition open_next_candidate :: "stream_filter \<Rightarrow> (stream_filter \<times> bool) option" where
  "open_next_candidate fl =
     (case fl_phase fl of
        ResolvingFile [] \<Rightarrow> Some (respond_status STATUS_NOT_FOUND fl, True)
      | ResolvingFile (cand # pending) \<Rightarrow>
          do {
            fl \<leftarrow> submit_open (cand_fs_path cand)
              \<lparr>ctx_encoding = cand_encoding cand, ctx_content_type = cand_content_type cand,
               ctx_add_vary = cand_add_vary cand\<rparr> (fl\<lparr>fl_phase := ResolvingFile pending\<rparr>);
            Some (fl, False)
          }
      | _ \<Rightarrow> Some (fl, False))"

definition directory_fallback :: "path \<Rightarrow> stream_filter \<Rightarrow> (stream_filter \<times> bool) option" where
  "directory_fallback dir_fs fl =
     (case cfg_directory (fl_config fl) of
        DirListing \<Rightarrow> if \<not> fl_waker fl then None else Some (emit [ReadDirectory dir_fs] fl, False)
      | _ \<Rightarrow> Some (respond_status STATUS_NOT_FOUND fl, True))"

definition open_next_index :: "stream_filter \<Rightarrow> (stream_filter \<times> bool) option" where
  "open_next_index fl =
     (case fl_phase fl of
        ResolvingIndex dir_fs [] \<Rightarrow> directory_fallback dir_fs fl
      | ResolvingIndex dir_fs ((fs_path, content_type) # pending) \<Rightarrow>
          do {
            fl \<leftarrow> submit_open fs_path
              \<lparr>ctx_encoding = None, ctx_content_type = content_type, ctx_add_vary = False\<rparr>
              (fl\<lparr>fl_phase := ResolvingIndex dir_fs pending\<rparr>);
            Some (fl, False)
          }
      | _ \<Rightarrow> Some (fl, False))"

definition handle_open_error ::
  "('h, 't) crates \<Rightarrow> io_error \<Rightarrow> stream_filter \<Rightarrow> (stream_filter \<times> bool) option" where
  "handle_open_error cr err fl =
     (case current_resolver fl of
        Some (FileResolver False) \<Rightarrow> open_next_candidate fl
      | Some (FileResolver True) \<Rightarrow>
          Some (respond_status
            (status_for_io_error (cr_target_os cr) (err_kind err) (err_raw_os_error err)) fl, True)
      | Some IndexResolver \<Rightarrow> open_next_index fl
      | None \<Rightarrow> Some (fl, False))"

definition advance_after_open_miss :: "stream_filter \<Rightarrow> (stream_filter \<times> bool) option" where
  "advance_after_open_miss fl =
     (case current_resolver fl of
        Some (FileResolver _) \<Rightarrow> open_next_candidate fl
      | Some IndexResolver \<Rightarrow> open_next_index fl
      | None \<Rightarrow> Some (fl, False))"

definition handle_directory :: "('h, 't) crates \<Rightarrow> stream_filter \<Rightarrow> (stream_filter \<times> bool) option" where
  "handle_directory cr fl =
     (case fl_request fl of
        None \<Rightarrow> None
      | Some request \<Rightarrow>
          let relative = rd_relative request; c = fl_config fl in
          if \<not> rd_trailing_slash request \<and> cfg_redirect_trailing_slash c then
            Some (emit [SendResponse STATUS_MOVED_PERMANENTLY
                [(''location'', url_for c relative @ ''/'')] None] (set_phase Done fl), True)
          else if cfg_directory c = Deny then Some (respond_status STATUS_FORBIDDEN fl, True)
          else
            let dir_fs = path_join (cfg_root c) relative;
                pending = map (\<lambda>name. (path_join dir_fs name,
                    content_type_for (cr_mime_guess cr) name (cfg_mime_overrides c)
                      (cfg_default_content_type c))) (cfg_index_files c) in
            if pending = [] then directory_fallback dir_fs fl
            else open_next_index (set_phase (ResolvingIndex dir_fs pending) fl))"

definition handle_dir ::
  "('h, 't) crates \<Rightarrow> io_error + dir_entry_info list \<Rightarrow> stream_filter \<Rightarrow> (stream_filter \<times> bool) option" where
  "handle_dir cr result fl =
     (case result of
        Inl err \<Rightarrow>
          Some (respond_status
            (status_for_io_error (cr_target_os cr) (err_kind err) (err_raw_os_error err)) fl, True)
      | Inr entries \<Rightarrow>
        (case fl_request fl of
           None \<Rightarrow> None
         | Some request \<Rightarrow>
             let relative = rd_relative request;
                 dir_entries = map (\<lambda>e. \<lparr>de_name = di_name e, de_is_dir = di_is_dir e,
                     de_size = di_size e, de_mtime_unix = di_mtime_unix e\<rparr>) entries in
             do {
               html \<leftarrow> render_listing (cr_text cr) (cr_headers cr) (url_for (fl_config fl) relative)
                 (relative = []) dir_entries;
               Some (emit [SendResponse STATUS_OK
                   [(''content-type'', ''text/html; charset=utf-8'')] (Some html)]
                 (set_phase Done fl), True)
             }))"

section \<open>Streaming\<close>

text \<open>The loop does not end when the chunk size is zero; that is the value \<open>None\<close>.\<close>

partial_function (option) file_chunks_loop ::
  "u64 \<Rightarrow> u64 \<Rightarrow> u64 \<Rightarrow> chunk list \<Rightarrow> chunk list option"
where
  "file_chunks_loop chunk_size offset end_pos chunks =
     (if offset < end_pos then
        file_chunks_loop chunk_size (offset + min (end_pos - offset) chunk_size) end_pos
          (chunks @ [FileChunk offset (unat (min (end_pos - offset) chunk_size))])
      else Some chunks)"

definition file_chunks :: "config \<Rightarrow> u64 \<Rightarrow> u64 \<Rightarrow> chunk list option" where
  "file_chunks c start len = file_chunks_loop (of_nat (cfg_chunk_size c)) start (start + len) []"

fun segment_chunks :: "config \<Rightarrow> byte_range list \<Rightarrow> chunk list \<Rightarrow> chunk list option" where
  "segment_chunks c [] chunks = Some chunks"
| "segment_chunks c (r # rest) chunks =
     do { cs \<leftarrow> file_chunks c (range_start r) (range_len r); segment_chunks c rest (chunks @ cs) }"

fun part_chunks :: "config \<Rightarrow> multipart_part list \<Rightarrow> chunk list \<Rightarrow> chunk list option" where
  "part_chunks c [] chunks = Some chunks"
| "part_chunks c (part # rest) chunks =
     do {
       cs \<leftarrow> file_chunks c (range_start (part_range part)) (range_len (part_range part));
       part_chunks c rest (chunks @ [Inline (part_header part)] @ cs)
     }"

fun body_chunks :: "config \<Rightarrow> body_plan \<Rightarrow> chunk list option" where
  "body_chunks c EmptyBody = None"
| "body_chunks c (WholeBody len) = file_chunks c 0 len"
| "body_chunks c (SegmentsBody ranges) = segment_chunks c ranges []"
| "body_chunks c (MultipartBody parts terminator _) =
     do { cs \<leftarrow> part_chunks c parts []; Some (cs @ [Inline terminator]) }"

fun seed_inline :: "nat \<Rightarrow> chunk list \<Rightarrow> (nat \<times> bytes) list \<Rightarrow> (nat \<times> bytes) list" where
  "seed_inline i [] ready = ready"
| "seed_inline i (Inline bs # rest) ready = seed_inline (Suc i) rest (AList.update i bs ready)"
| "seed_inline i (FileChunk _ _ # rest) ready = seed_inline (Suc i) rest ready"

definition seed_prefetch :: "chunk list \<Rightarrow> bytes \<Rightarrow> (nat \<times> bytes) list \<Rightarrow> (nat \<times> bytes) list" where
  "seed_prefetch chunks prefetch ready =
     (case chunks of
        FileChunk off len # _ \<Rightarrow>
          if off = 0 \<and> length prefetch = len then AList.update 0 prefetch ready else ready
      | _ \<Rightarrow> ready)"

definition begin_streaming ::
  "header list \<Rightarrow> file_handle \<Rightarrow> chunk list \<Rightarrow> bytes \<Rightarrow> stream_filter \<Rightarrow> stream_filter \<times> bool" where
  "begin_streaming headers h chunks prefetch fl =
     (if chunks = [] then (emit [SendHeaders headers True, DropFile h] (set_phase Done fl), True)
      else
        let ready = seed_prefetch chunks prefetch (seed_inline 0 chunks []) in
        (emit [SendHeaders headers False]
          (set_phase (Streaming \<lparr>sm_handle = h, sm_chunks = chunks, sm_ready = ready, sm_next_send = 0,
             sm_issue_cursor = 0, sm_inflight = 0, sm_watermark_depth = 0\<rparr>) fl), False))"

definition execute_plan ::
  "response_plan \<Rightarrow> file_handle \<Rightarrow> bytes \<Rightarrow> stream_filter \<Rightarrow> (stream_filter \<times> bool) option" where
  "execute_plan plan h prefetch fl =
     (let headers = ('':status'', to_radix 10 (plan_status plan)) # plan_headers plan in
      if plan_body plan = EmptyBody then
        Some (emit [SendHeaders headers True, DropFile h] (set_phase Done fl), True)
      else
        let prefetch = (case plan_body plan of WholeBody _ \<Rightarrow> prefetch | _ \<Rightarrow> []) in
        do {
          chunks \<leftarrow> body_chunks (fl_config fl) (plan_body plan);
          Some (begin_streaming headers h chunks prefetch fl)
        })"

definition request_facts_of :: "config \<Rightarrow> request_data \<Rightarrow> file_stat \<Rightarrow> open_ctx \<Rightarrow> request_facts" where
  "request_facts_of c request stat ctx =
     \<lparr>rf_method_head = rd_method_head request,
      rf_conditionals =
        \<lparr>ch_if_none_match = rd_if_none_match request, ch_if_modified_since = rd_if_modified_since request,
         ch_if_match = rd_if_match request, ch_if_unmodified_since = rd_if_unmodified_since request,
         ch_if_range = rd_if_range request\<rparr>,
      rf_range_header = (if cfg_ranges c = NoRanges then None else rd_range_header request),
      rf_content_type = ctx_content_type ctx,
      rf_etag_enabled = cfg_etag c,
      rf_last_modified_enabled = cfg_last_modified c,
      rf_range_policy = \<lparr>allow_multi = (cfg_ranges c = MultiRange), max_parts = 50\<rparr>,
      rf_boundary = ''envoyfilesboundary'' @ hex016_u64 (st_size stat) @ hex016_u64 (st_mtime_unix stat),
      rf_content_encoding = ctx_encoding ctx,
      rf_add_vary = ctx_add_vary ctx,
      rf_cache_control = cfg_cache_control c\<rparr>"

definition file_meta_of :: "file_stat \<Rightarrow> file_meta" where
  "file_meta_of stat =
     \<lparr>fm_size = st_size stat, fm_mtime_unix = st_mtime_unix stat, fm_mtime_nanos = st_mtime_nanos stat,
      fm_is_dir = False\<rparr>"

definition serve_file ::
  "('h, 't) crates \<Rightarrow> file_handle \<Rightarrow> file_stat \<Rightarrow> open_ctx \<Rightarrow> bytes \<Rightarrow> stream_filter \<Rightarrow>
     (stream_filter \<times> bool) option"
where
  "serve_file cr h stat ctx prefetch fl =
     (case fl_request fl of
        None \<Rightarrow> None
      | Some request \<Rightarrow>
          do {
            plan \<leftarrow> plan_response (cr_headers cr) (request_facts_of (fl_config fl) request stat ctx)
              (file_meta_of stat);
            execute_plan plan h prefetch fl
          })"

definition handle_opened ::
  "('h, 't) crates \<Rightarrow> file_handle \<Rightarrow> file_stat \<Rightarrow> open_ctx \<Rightarrow> bytes \<Rightarrow> stream_filter \<Rightarrow>
     (stream_filter \<times> bool) option"
where
  "handle_opened cr h stat ctx prefetch fl =
     (if st_is_dir stat then
        do {
          (fl, ended) \<leftarrow>
            (if ctx_encoding ctx \<noteq> None then advance_after_open_miss fl else handle_directory cr fl);
          Some (emit [DropFile h] fl, ended)
        }
      else serve_file cr h stat ctx prefetch fl)"

definition handle_read ::
  "nat \<Rightarrow> io_error + bytes \<Rightarrow> stream_filter \<Rightarrow> stream_filter \<times> bool" where
  "handle_read seq result fl =
     (case fl_phase fl of
        Streaming s \<Rightarrow>
          let s = s\<lparr>sm_inflight := sm_inflight s - 1\<rparr> in
          (case result of
             Inr data \<Rightarrow>
               (fl\<lparr>fl_phase := Streaming (s\<lparr>sm_ready := AList.update seq data (sm_ready s)\<rparr>)\<rparr>, False)
           | Inl err \<Rightarrow>
               (emit [SendData [] True]
                 (set_phase Done (emit [LogReadError seq err] (fl\<lparr>fl_phase := Streaming s\<rparr>))), True))
      | _ \<Rightarrow> (fl, False))"

definition handle_event ::
  "('h, 't) crates \<Rightarrow> io_event \<Rightarrow> stream_filter \<Rightarrow> (stream_filter \<times> bool) option" where
  "handle_event cr event fl =
     (case event of
        Opened h stat ctx prefetch \<Rightarrow> handle_opened cr h stat ctx prefetch fl
      | OpenError err \<Rightarrow> handle_open_error cr err fl
      | ReadEvent seq result \<Rightarrow> Some (handle_read seq result fl)
      | DirEvent result \<Rightarrow> handle_dir cr result fl)"

section \<open>Watermarks\<close>

definition on_above_high_watermark :: "stream_filter \<Rightarrow> stream_filter" where
  "on_above_high_watermark fl =
     (case fl_phase fl of
        Streaming s \<Rightarrow>
          fl\<lparr>fl_phase := Streaming (s\<lparr>sm_watermark_depth := sm_watermark_depth s + 1\<rparr>)\<rparr>
      | _ \<Rightarrow> fl)"

definition on_below_low_watermark :: "stream_filter \<Rightarrow> stream_filter" where
  "on_below_low_watermark fl =
     (case fl_phase fl of
        Streaming s \<Rightarrow>
          let depth = sm_watermark_depth s - 1;
              fl = fl\<lparr>fl_phase := Streaming (s\<lparr>sm_watermark_depth := depth\<rparr>)\<rparr> in
          if depth = 0 \<and> fl_waker fl then emit [Commit] fl else fl
      | _ \<Rightarrow> fl)"

definition on_watermark :: "watermark \<Rightarrow> stream_filter \<Rightarrow> stream_filter" where
  "on_watermark w fl =
     (case w of AboveHigh \<Rightarrow> on_above_high_watermark fl | BelowLow \<Rightarrow> on_below_low_watermark fl)"

text \<open>\<^verbatim>\<open>send_response_data\<close> before the end of the stream, with the hooks Envoy calls in it.\<close>

definition send_data :: "(action list \<Rightarrow> watermark list) \<Rightarrow> bytes \<Rightarrow> stream_filter \<Rightarrow> stream_filter" where
  "send_data react bs fl =
     (let fl = emit [SendData bs False] fl in fold on_watermark (react (fl_out fl)) fl)"

fun ready_of :: "phase \<Rightarrow> (nat \<times> bytes) list" where
  "ready_of (Streaming s) = sm_ready s"
| "ready_of _ = []"

lemma on_watermark_ready [simp]: "ready_of (fl_phase (on_watermark w fl)) = ready_of (fl_phase fl)"
  by (cases "fl_phase fl")
     (auto simp: on_watermark_def on_above_high_watermark_def on_below_low_watermark_def emit_def Let_def
       split: watermark.split)

lemma fold_watermark_ready: "ready_of (fl_phase (fold on_watermark ws fl)) = ready_of (fl_phase fl)"
  by (induction ws arbitrary: fl) simp_all

lemma send_data_ready: "ready_of (fl_phase (send_data react bs fl)) = ready_of (fl_phase fl)"
  by (simp add: send_data_def Let_def fold_watermark_ready) (simp add: emit_def)

section \<open>The pump\<close>

datatype flush_result = Returned stream_filter | Broke stream_filter

function flush_loop ::
  "(action list \<Rightarrow> watermark list) \<Rightarrow> stream_filter \<Rightarrow> flush_result"
where
  "flush_loop react fl =
     (case fl_phase fl of
        Streaming s \<Rightarrow>
          if sm_watermark_depth s = 0 then
            (let last_index = usize_sub (length (sm_chunks s)) 1 in
             case map_of (sm_ready s) (sm_next_send s) of
               Some bs \<Rightarrow>
                 let end_stream = (sm_next_send s = last_index);
                     fl = fl\<lparr>fl_phase := Streaming (s\<lparr>sm_ready := AList.delete (sm_next_send s) (sm_ready s),
                       sm_next_send := sm_next_send s + 1\<rparr>)\<rparr> in
                 if end_stream then Returned (emit [SendData bs True] (set_phase Done fl))
                 else flush_loop react (send_data react bs fl)
             | None \<Rightarrow> Broke fl)
          else Returned fl
      | _ \<Rightarrow> Returned fl)"
  by pat_completeness auto
termination
  by (relation "measure (\<lambda>(react, fl). length (ready_of (fl_phase fl)))")
     (auto simp: send_data_ready delete_present_shorter)

declare flush_loop.simps [simp del]

type_synonym read_request = "nat \<times> u64 \<times> nat \<times> file_handle"

function issue_loop :: "nat \<Rightarrow> streaming \<Rightarrow> read_request list \<Rightarrow> streaming \<times> read_request list" where
  "issue_loop max_inflight s requests =
     (if sm_inflight s < max_inflight \<and> sm_issue_cursor s < length (sm_chunks s) then
        let index = sm_issue_cursor s; s = s\<lparr>sm_issue_cursor := index + 1\<rparr> in
        if map_of (sm_ready s) index \<noteq> None then issue_loop max_inflight s requests
        else case sm_chunks s ! index of
          FileChunk off len \<Rightarrow>
            issue_loop max_inflight (s\<lparr>sm_inflight := sm_inflight s + 1\<rparr>)
              (requests @ [(index, off, len, sm_handle s)])
        | Inline _ \<Rightarrow> issue_loop max_inflight s requests
      else (s, requests))"
  by pat_completeness auto
termination
  by (relation "measure (\<lambda>(m, s, r). length (sm_chunks s) - sm_issue_cursor s)") auto

declare issue_loop.simps [simp del]

definition pump :: "(action list \<Rightarrow> watermark list) \<Rightarrow> stream_filter \<Rightarrow> stream_filter option" where
  "pump react fl =
     (case flush_loop react fl of
        Returned fl \<Rightarrow> Some fl
      | Broke fl \<Rightarrow>
          if \<not> fl_waker fl then None
          else case fl_phase fl of
            Streaming s \<Rightarrow>
              let (s, requests) = issue_loop (cfg_max_inflight_reads (fl_config fl)) s [] in
              Some (emit (map (\<lambda>(index, off, len, h). ReadFile h off len index) requests)
                (fl\<lparr>fl_phase := Streaming s\<rparr>))
          | _ \<Rightarrow> Some fl)"

section \<open>The callbacks\<close>

definition on_request_headers ::
  "('h, 't) crates \<Rightarrow> (bytes \<times> bytes) list \<Rightarrow> stream_filter \<Rightarrow> stream_filter option" where
  "on_request_headers cr kvs fl =
     (let raw = collect_headers cr kvs;
          c = fl_config fl;
          method_head = (raw_method raw = Some ''HEAD'') in
      if \<not> method_head \<and> raw_method raw \<noteq> Some ''GET'' then
        Some (emit [SendResponse STATUS_METHOD_NOT_ALLOWED [(''allow'', ''GET, HEAD'')] None] (set_phase Done fl))
      else
        let raw_p = (case raw_path raw of Some p \<Rightarrow> p | None \<Rightarrow> []);
            stripped = (case cfg_strip_prefix c of
              Some p \<Rightarrow> strip_mount_prefix raw_p p | None \<Rightarrow> Some raw_p) in
        case stripped of
          None \<Rightarrow> Some (respond_status STATUS_NOT_FOUND fl)
        | Some raw_p \<Rightarrow>
          (case resolve_request_path (cr_percent_decode cr) raw_p
                  \<lparr>pol_serve_dotfiles = cfg_serve_dotfiles c, pol_max_path_len = 4096\<rparr> of
             Reject reason \<Rightarrow> Some (respond_status (reject_status reason) fl)
           | PathOk relative trailing_slash \<Rightarrow>
               let request =
                   \<lparr>rd_method_head = method_head, rd_if_none_match = raw_if_none_match raw,
                    rd_if_modified_since = raw_if_modified_since raw, rd_if_match = raw_if_match raw,
                    rd_if_unmodified_since = raw_if_unmodified_since raw, rd_if_range = raw_if_range raw,
                    rd_range_header = raw_range raw, rd_relative = relative,
                    rd_trailing_slash = trailing_slash\<rparr>;
                   fl = fl\<lparr>fl_request := (case fl_request fl of None \<Rightarrow> Some request | Some r \<Rightarrow> Some r),
                     fl_waker := True\<rparr>;
                   pending = build_file_candidates cr c relative trailing_slash (raw_accept_encoding raw) in
               map_option fst (open_next_candidate (set_phase (ResolvingFile pending) fl))))"

fun handle_events ::
  "('h, 't) crates \<Rightarrow> io_event list \<Rightarrow> stream_filter \<Rightarrow> (stream_filter \<times> bool) option" where
  "handle_events cr [] fl = Some (fl, False)"
| "handle_events cr (event # rest) fl =
     (case handle_event cr event fl of
        None \<Rightarrow> None
      | Some (fl, True) \<Rightarrow> Some (emit (concat (map dropped_with_event rest)) fl, True)
      | Some (fl, False) \<Rightarrow> handle_events cr rest fl)"

definition on_scheduled ::
  "('h, 't) crates \<Rightarrow> (action list \<Rightarrow> watermark list) \<Rightarrow> stream_filter \<Rightarrow> stream_filter option" where
  "on_scheduled cr react fl =
     (let (b, events) = bridge_process (fl_bridge fl) in
      do {
        (fl, ended) \<leftarrow> handle_events cr events (fl\<lparr>fl_bridge := b\<rparr>);
        if ended then Some fl
        else case fl_phase fl of Streaming _ \<Rightarrow> pump react fl | _ \<Rightarrow> Some fl
      })"

definition on_stream_complete :: "stream_filter \<Rightarrow> stream_filter" where
  "on_stream_complete fl =
     emit (concat (map dropped_with_event (bridge_contents (fl_bridge fl))))
       (fl\<lparr>fl_bridge := bridge_close (fl_bridge fl)\<rparr>)"

end
