(* ===== verification/Stream_Body.thy ===== *)
theory Stream_Body
  imports Stream_Filter
begin

text \<open>
  The body of a response as the filter streams it: the cutting of a plan into chunks, and the
  invariant of the streaming state under reads, flushes, watermarks and the issue of new reads.
\<close>

section \<open>Chunks\<close>

fun chunk_bytes :: "bytes \<Rightarrow> chunk \<Rightarrow> bytes" where
  "chunk_bytes content (Inline bs) = bs"
| "chunk_bytes content (FileChunk off len) = slice content (unat off) len"

text \<open>A file chunk is a non-empty piece of the file, no longer than the chunk size.\<close>

fun chunk_ok :: "config \<Rightarrow> bytes \<Rightarrow> chunk \<Rightarrow> bool" where
  "chunk_ok c content (Inline bs) \<longleftrightarrow> True"
| "chunk_ok c content (FileChunk off len) \<longleftrightarrow>
     0 < len \<and> len \<le> cfg_chunk_size c \<and> unat off + len \<le> length content"

definition chunks_of :: "bytes \<Rightarrow> chunk list \<Rightarrow> bytes" where
  "chunks_of content cs = concat (map (chunk_bytes content) cs)"

lemma chunks_of_simps [simp]:
  "chunks_of content [] = []"
  "chunks_of content (ch # cs) = chunk_bytes content ch @ chunks_of content cs"
  "chunks_of content (cs @ ds) = chunks_of content cs @ chunks_of content ds"
  by (simp_all add: chunks_of_def)

declare file_chunks_loop.simps [simp del]

lemma file_chunks_loop_ok:
  assumes "0 < k" and "unat k = cfg_chunk_size c" and "off \<le> e" and "unat e \<le> length content"
  shows "\<exists>cs. file_chunks_loop k off e acc = Some (acc @ cs) \<and>
    chunks_of content cs = slice content (unat off) (unat e - unat off) \<and>
    list_all (chunk_ok c content) cs \<and> (cs = [] \<longleftrightarrow> off = e)"
  using assms(3)
proof (induction "unat e - unat off" arbitrary: off acc rule: less_induct)
  case less
  show ?case
  proof (cases "off < e")
    case False
    then have "off = e" using less.prems by simp
    then show ?thesis by (subst file_chunks_loop.simps) auto
  next
    case True
    define w where "w = min (e - off) k"
    have lt: "unat off < unat e" using True by (simp add: word_less_nat_alt)
    have wid: "unat w = min (unat e - unat off) (unat k)"
      using less.prems by (simp add: w_def unat_min_u64 unat_diff_u64)
    have k: "0 < unat k" using assms(1) by (simp add: word_less_nat_alt)
    have "unat off + unat w < 2 ^ 64"
      using wid lt unat_u64_less [of e] by linarith
    then have next_off: "unat (off + w) = unat off + unat w" by (rule unat_plus_u64)
    have le: "off + w \<le> e" using wid lt by (simp add: word_le_nat_alt next_off)
    have "unat e - unat (off + w) < unat e - unat off"
      using lt wid k by (simp add: next_off)
    from less.hyps [OF this le, of "acc @ [FileChunk off (unat w)]"] obtain cs where
      cs: "file_chunks_loop k (off + w) e (acc @ [FileChunk off (unat w)]) =
          Some ((acc @ [FileChunk off (unat w)]) @ cs)"
        "chunks_of content cs = slice content (unat (off + w)) (unat e - unat (off + w))"
        "list_all (chunk_ok c content) cs"
      by blast
    have "file_chunks_loop k off e acc = Some (acc @ FileChunk off (unat w) # cs)"
      using cs(1) True by (subst file_chunks_loop.simps) (simp add: w_def)
    moreover have "chunks_of content (FileChunk off (unat w) # cs) =
        slice content (unat off) (unat e - unat off)"
      using slice_append [of content "unat off" "unat w" "unat e - unat (off + w)"] cs(2) lt wid
      by (simp add: next_off)
    moreover have "chunk_ok c content (FileChunk off (unat w))"
      using wid k lt assms(2,4) by auto
    ultimately show ?thesis
      using cs(3) True by (intro exI [of _ "FileChunk off (unat w) # cs"]) auto
  qed
qed

text \<open>What the chunks of a range are; in particular the cutting always ends for an accepted configuration.\<close>

lemma file_chunks_ok:
  assumes "config_ok c" and "unat start + unat len \<le> length content" and "length content < 2 ^ 64"
  shows "\<exists>cs. file_chunks c start len = Some cs \<and>
    chunks_of content cs = slice content (unat start) (unat len) \<and>
    list_all (chunk_ok c content) cs \<and> (cs = [] \<longleftrightarrow> len = 0)"
proof -
  have e: "unat (start + len) = unat start + unat len"
    using assms(2,3) by (intro unat_plus_u64) linarith
  have size: "0 < cfg_chunk_size c" "cfg_chunk_size c < 2 ^ 64"
    using assms(1) by (auto simp: config_ok_def)
  then have k: "unat (of_nat (cfg_chunk_size c) :: u64) = cfg_chunk_size c"
    by (simp add: unat_of_nat_u64)
  then have "0 < (of_nat (cfg_chunk_size c) :: u64)"
    using size by (simp add: word_less_nat_alt)
  from file_chunks_loop_ok [OF this k, of start "start + len" content "[]"]
  show ?thesis using assms(2) e by (simp add: file_chunks_def word_le_nat_alt)
qed

lemma range_chunks_ok:
  assumes "config_ok c" and "range_ok (of_nat (length content)) r" and "length content < 2 ^ 64"
  shows "\<exists>cs. file_chunks c (range_start r) (range_len r) = Some cs \<and>
    chunks_of content cs = part_bytes content r \<and> list_all (chunk_ok c content) cs \<and> cs \<noteq> []"
proof -
  have len: "unat (range_len r) = unat (range_end r) - unat (range_start r) + 1"
    using assms(2) by (rule range_len_ok)
  have ends: "unat (range_end r) < length content" "unat (range_start r) \<le> unat (range_end r)"
    using assms(2,3) by (simp_all add: range_ok_def word_less_nat_alt word_le_nat_alt unat_of_nat_u64)
  have "range_len r \<noteq> 0" using len by (metis add_is_0 one_neq_zero unat_0)
  then show ?thesis
    using file_chunks_ok [OF assms(1) _ assms(3), of "range_start r" "range_len r"] len ends
    by (auto simp: part_bytes_def)
qed

lemma segment_chunks_ok:
  assumes "config_ok c" and "length content < 2 ^ 64"
    and "\<forall>r \<in> set rs. range_ok (of_nat (length content)) r"
  shows "\<exists>cs. segment_chunks c rs acc = Some (acc @ cs) \<and>
    chunks_of content cs = concat (map (part_bytes content) rs) \<and> list_all (chunk_ok c content) cs"
  using assms(3)
proof (induction rs arbitrary: acc)
  case (Cons r rs)
  then obtain cs where cs: "file_chunks c (range_start r) (range_len r) = Some cs"
      "chunks_of content cs = part_bytes content r" "list_all (chunk_ok c content) cs"
    using range_chunks_ok [OF assms(1) _ assms(2), of r] by auto
  from Cons.IH [of "acc @ cs"] Cons.prems obtain ds where
    "segment_chunks c rs (acc @ cs) = Some ((acc @ cs) @ ds)"
    "chunks_of content ds = concat (map (part_bytes content) rs)" "list_all (chunk_ok c content) ds"
    by auto
  then show ?case using cs by (intro exI [of _ "cs @ ds"]) simp
qed simp

lemma part_chunks_ok:
  assumes "config_ok c" and "length content < 2 ^ 64"
    and "\<forall>p \<in> set parts. range_ok (of_nat (length content)) (part_range p)"
  shows "\<exists>cs. part_chunks c parts acc = Some (acc @ cs) \<and>
    chunks_of content cs = concat (map (\<lambda>p. part_header p @ part_bytes content (part_range p)) parts) \<and>
    list_all (chunk_ok c content) cs"
  using assms(3)
proof (induction parts arbitrary: acc)
  case (Cons p parts)
  then obtain cs where cs: "file_chunks c (range_start (part_range p)) (range_len (part_range p)) = Some cs"
      "chunks_of content cs = part_bytes content (part_range p)" "list_all (chunk_ok c content) cs"
    using range_chunks_ok [OF assms(1) _ assms(2), of "part_range p"] by auto
  from Cons.IH [of "acc @ [Inline (part_header p)] @ cs"] Cons.prems obtain ds where
    "part_chunks c parts (acc @ [Inline (part_header p)] @ cs) = Some ((acc @ [Inline (part_header p)] @ cs) @ ds)"
    "chunks_of content ds = concat (map (\<lambda>p. part_header p @ part_bytes content (part_range p)) parts)"
    "list_all (chunk_ok c content) ds"
    by auto
  then show ?case using cs by (intro exI [of _ "Inline (part_header p) # cs @ ds"]) simp
qed simp

text \<open>The bodies a plan for a file of this size can have.\<close>

fun body_ok :: "bytes \<Rightarrow> body_plan \<Rightarrow> bool" where
  "body_ok content EmptyBody \<longleftrightarrow> True"
| "body_ok content (WholeBody len) \<longleftrightarrow> unat len = length content"
| "body_ok content (SegmentsBody rs) \<longleftrightarrow> (\<forall>r \<in> set rs. range_ok (of_nat (length content)) r)"
| "body_ok content (MultipartBody parts _ _) \<longleftrightarrow>
     (\<forall>p \<in> set parts. range_ok (of_nat (length content)) (part_range p))"

lemma plan_body_ok:
  assumes "plan_response hc facts meta = Some plan"
    and "fm_size meta = of_nat (length content)" and "length content < 2 ^ 64"
  shows "body_ok content (plan_body plan)"
proof (cases "evaluate_conditionals hc (effective_conditionals facts) (meta_validators meta)")
  case Proceed
  show ?thesis
  proof (cases "effective_ranges hc facts meta")
    case Full
    then show ?thesis
      using assms Proceed by (auto simp: plan_response_eq unat_of_nat_u64 dest: whole_planD(3))
  next
    case (Single r)
    then show ?thesis
      using assms Proceed effective_ranges_ok(1) [OF Single]
      by (auto simp: plan_response_eq dest: single_range_planD(3))
  next
    case (Multi rs)
    obtain parts tm cl where
      mp: "multipart_parts rs (rf_content_type facts) (fm_size meta) (rf_boundary facts) = (parts, tm, cl)"
      by (cases "multipart_parts rs (rf_content_type facts) (fm_size meta) (rf_boundary facts)")
    then have "parts = framed 0 rs (rf_content_type facts) (fm_size meta) (rf_boundary facts)"
      by (simp add: multipart_parts_eq Let_def)
    then have "part_range ` set parts = set rs"
      using framed_ranges by (metis set_map)
    then have "\<forall>p \<in> set parts. range_ok (of_nat (length content)) (part_range p)"
      using effective_ranges_ok(2) [OF Multi] assms(2) by (metis imageI)
    then show ?thesis
      using assms(1) Proceed Multi multi_range_planD(3) [OF _ mp, of hc plan]
      by (auto simp: plan_response_eq)
  next
    case Unsatisfiable
    then show ?thesis using assms Proceed by (auto simp: plan_response_eq dest: error_plan_status)
  qed
qed (use assms in \<open>auto simp: plan_response_eq\<close>)

lemma body_chunks_ok:
  assumes "config_ok c" and "plan_response hc facts meta = Some plan"
    and "fm_size meta = of_nat (length content)" and "length content < 2 ^ 64"
    and "plan_body plan \<noteq> EmptyBody"
  shows "\<exists>cs. body_chunks c (plan_body plan) = Some cs \<and>
    chunks_of content cs = body_bytes content (plan_body plan) \<and> list_all (chunk_ok c content) cs"
proof -
  have "body_ok content (plan_body plan)" using assms(2-4) by (rule plan_body_ok)
  then show ?thesis
  proof (cases "plan_body plan")
    case (WholeBody len)
    then show ?thesis
      using file_chunks_ok [OF assms(1) _ assms(4), of 0 len] \<open>body_ok content (plan_body plan)\<close> by auto
  next
    case (SegmentsBody rs)
    then show ?thesis
      using segment_chunks_ok [OF assms(1,4), of rs "[]"] \<open>body_ok content (plan_body plan)\<close> by auto
  next
    case (MultipartBody parts tm cl)
    then obtain cs where "part_chunks c parts [] = Some cs"
        "chunks_of content cs = concat (map (\<lambda>p. part_header p @ part_bytes content (part_range p)) parts)"
        "list_all (chunk_ok c content) cs"
      using part_chunks_ok [OF assms(1,4), of parts "[]"] \<open>body_ok content (plan_body plan)\<close> by auto
    then show ?thesis using MultipartBody by (simp add: multipart_body_def)
  qed (use assms(5) in simp)
qed

text \<open>
  C25: Every planned body is cut, in a finite number of steps, into chunks whose bytes in order are the body,
  and whose file chunks are non-empty pieces of the file no longer than the configured chunk size.
\<close>

theorem body_chunks_exact:
  assumes "config_ok c" and "plan_response hc facts meta = Some plan"
    and "fm_size meta = of_nat (length content)" and "length content < 2 ^ 64"
    and "plan_body plan \<noteq> EmptyBody"
  shows "\<exists>cs. body_chunks c (plan_body plan) = Some cs \<and>
    chunks_of content cs = body_bytes content (plan_body plan) \<and> list_all (chunk_ok c content) cs"
  using assms by (rule body_chunks_ok)

theorem body_chunks_exact_witness:
  "\<exists>plan cs. plan_response sample_crate (sample_facts (Some ''bytes=-3'')) sample_meta = Some plan \<and>
     body_chunks (default_config ''/srv'' None) (plan_body plan) = Some cs \<and> chunks_of ''abcdefgh'' cs = ''fgh''"
proof -
  obtain plan where p: "plan_response sample_crate (sample_facts (Some ''bytes=-3'')) sample_meta = Some plan"
    "plan_body plan = SegmentsBody [\<lparr>range_start = 5, range_end = 7\<rparr>]"
    using sample_plan by blast
  have "config_ok (default_config ''/srv'' None)" by (simp add: config_ok_def default_config_def)
  moreover have "fm_size sample_meta = of_nat (length ''abcdefgh'')" by (simp add: sample_meta_def)
  ultimately show ?thesis
    using body_chunks_exact [OF _ p(1), of "default_config ''/srv'' None" "''abcdefgh''"] p
    by (auto simp: part_bytes_def range_len_def slice_def)
qed

end
