(* ===== verification/Stream_Invariant.thy ===== *)
theory Stream_Invariant
  imports Stream_Body
begin

text \<open>
  The invariant of the streaming state and its preservation by every operation on it: a read that
  completes, a chunk that is sent, a watermark, the issue of new reads, and the pump as a whole.
\<close>

section \<open>The invariant\<close>

text \<open>
  \<open>content\<close> is the file, \<open>w\<close> the read window, \<open>R\<close> the reads issued and not yet handled, \<open>D\<close>
  the body bytes sent so far.
\<close>

definition stream_ok :: "bytes \<Rightarrow> nat \<Rightarrow> nat list \<Rightarrow> bytes \<Rightarrow> streaming \<Rightarrow> bool" where
  "stream_ok content w R D s \<longleftrightarrow>
     sm_next_send s < length (sm_chunks s) \<and> sm_issue_cursor s \<le> length (sm_chunks s) \<and>
     D = chunks_of content (take (sm_next_send s) (sm_chunks s)) \<and>
     (\<forall>i bs. map_of (sm_ready s) i = Some bs \<longrightarrow>
        i < length (sm_chunks s) \<and> bs = chunk_bytes content (sm_chunks s ! i)) \<and>
     distinct R \<and> sm_inflight s = length R \<and> sm_inflight s \<le> w \<and>
     (\<forall>i \<in> set R. i < sm_issue_cursor s) \<and>
     (\<forall>i. sm_next_send s \<le> i \<and> i < sm_issue_cursor s \<longrightarrow> map_of (sm_ready s) i \<noteq> None \<or> i \<in> set R) \<and>
     (\<forall>i bs. sm_next_send s \<le> i \<and> i < length (sm_chunks s) \<and> sm_chunks s ! i = Inline bs \<longrightarrow>
        map_of (sm_ready s) i \<noteq> None)"

text \<open>Nothing more can be done without a completion: flushed, and the window full or all reads issued.\<close>

definition pumped :: "nat \<Rightarrow> streaming \<Rightarrow> bool" where
  "pumped w s \<longleftrightarrow> map_of (sm_ready s) (sm_next_send s) = None \<and>
     (sm_inflight s = w \<or> sm_issue_cursor s = length (sm_chunks s))"

lemma map_of_update: "map_of (AList.update k v al) i = (if i = k then Some v else map_of al i)"
  by (simp add: update_conv')

lemma map_of_delete: "map_of (AList.delete k al) i = (if i = k then None else map_of al i)"
  by (simp add: delete_conv')

lemma stream_ok_read:
  assumes "stream_ok content w R D s" and "seq \<in> set R"
  shows "stream_ok content w (remove1 seq R) D
    (s\<lparr>sm_inflight := sm_inflight s - 1,
       sm_ready := AList.update seq (chunk_bytes content (sm_chunks s ! seq)) (sm_ready s)\<rparr>)"
proof -
  have "seq < length (sm_chunks s)" using assms by (auto simp: stream_ok_def)
  then show ?thesis
    using assms by (auto simp: stream_ok_def map_of_update length_remove1)
qed

lemma stream_ok_send:
  assumes "stream_ok content w R D s" and "map_of (sm_ready s) (sm_next_send s) = Some bs"
    and "sm_next_send s \<noteq> length (sm_chunks s) - 1"
  shows "stream_ok content w R (D @ bs)
    (s\<lparr>sm_ready := AList.delete (sm_next_send s) (sm_ready s), sm_next_send := sm_next_send s + 1\<rparr>)"
  using assms by (auto simp: stream_ok_def map_of_delete take_Suc_conv_app_nth)

lemma stream_ok_last:
  assumes "stream_ok content w R D s" and "map_of (sm_ready s) (sm_next_send s) = Some bs"
    and "sm_next_send s = length (sm_chunks s) - 1"
  shows "D @ bs = chunks_of content (sm_chunks s)"
proof -
  have n: "Suc (sm_next_send s) = length (sm_chunks s)" and lt: "sm_next_send s < length (sm_chunks s)"
    using assms(1,3) by (auto simp: stream_ok_def)
  have "D @ bs = chunks_of content (take (Suc (sm_next_send s)) (sm_chunks s))"
    using assms(1,2) lt by (simp add: stream_ok_def take_Suc_conv_app_nth)
  then show ?thesis by (simp add: n)
qed

lemma stream_ok_depth [simp]: "stream_ok content w R D (s\<lparr>sm_watermark_depth := d\<rparr>) = stream_ok content w R D s"
  by (simp add: stream_ok_def)

lemma stream_ok_not_stalled:
  assumes "stream_ok content w [] D s" and "pumped w s" and "0 < w"
  shows False
proof -
  have cursor: "sm_issue_cursor s = length (sm_chunks s)"
    using assms by (auto simp: stream_ok_def pumped_def)
  have next_ok: "sm_next_send s < length (sm_chunks s)" using assms(1) by (simp add: stream_ok_def)
  have "map_of (sm_ready s) (sm_next_send s) \<noteq> None"
    using assms(1) cursor next_ok by (auto simp: stream_ok_def)
  then show False using assms(2) by (simp add: pumped_def)
qed

section \<open>Issuing reads\<close>

text \<open>A request of the issue loop is the read of its chunk.\<close>

definition request_ok :: "streaming \<Rightarrow> read_request \<Rightarrow> bool" where
  "request_ok s r \<longleftrightarrow> (case r of (i, off, len, h) \<Rightarrow>
     i < length (sm_chunks s) \<and> sm_chunks s ! i = FileChunk off len \<and> h = sm_handle s)"

lemma issue_loop_ok:
  assumes "issue_loop w s acc = (s', reqs)" and "stream_ok content w (R @ map fst acc) D s"
    and "list_all (request_ok s) acc"
  shows "stream_ok content w (R @ map fst reqs) D s' \<and> list_all (request_ok s') reqs \<and>
    (sm_inflight s' = w \<or> sm_issue_cursor s' = length (sm_chunks s')) \<and>
    sm_chunks s' = sm_chunks s \<and> sm_handle s' = sm_handle s \<and> sm_ready s' = sm_ready s \<and>
    sm_next_send s' = sm_next_send s \<and> sm_watermark_depth s' = sm_watermark_depth s"
  using assms
proof (induction w s acc rule: issue_loop.induct)
  case (1 w s acc)
  show ?case
  proof (cases "sm_inflight s < w \<and> sm_issue_cursor s < length (sm_chunks s)")
    case False
    then have "s' = s" "reqs = acc" using "1.prems"(1) unfolding issue_loop.simps [of w s acc] if_not_P [OF False] by simp_all
    then show ?thesis using "1.prems"(2,3) False by (auto simp: stream_ok_def)
  next
    case True
    let ?i = "sm_issue_cursor s"
    let ?s = "s\<lparr>sm_issue_cursor := ?i + 1\<rparr>"
    have R_small: "\<forall>i \<in> set (R @ map fst acc). i < ?i" using "1.prems"(2) by (simp add: stream_ok_def)
    show ?thesis
    proof (cases "map_of (sm_ready s) ?i")
      case (Some bs)
      have "stream_ok content w (R @ map fst acc) D ?s"
        using "1.prems"(2) True Some unfolding stream_ok_def
        by (auto simp: less_Suc_eq Suc_le_eq)
      moreover have "issue_loop w ?s acc = (s', reqs)"
        using "1.prems"(1) True Some by (simp add: issue_loop.simps [of w s] Let_def)
      moreover have "list_all (request_ok ?s) acc" using "1.prems"(3) by (simp add: request_ok_def list_all_iff)
      ultimately show ?thesis using "1.IH"(1) [OF True refl refl] Some by auto
    next
      case None
      show ?thesis
      proof (cases "sm_chunks s ! ?i")
        case (Inline bs)
        then have "?i < sm_next_send s" using "1.prems"(2) None True by (fastforce simp: stream_ok_def not_less [symmetric])
        then have "stream_ok content w (R @ map fst acc) D ?s"
          using "1.prems"(2) True unfolding stream_ok_def by (auto simp: less_Suc_eq Suc_le_eq)
        moreover have "issue_loop w ?s acc = (s', reqs)"
          using "1.prems"(1) True None Inline by (simp add: issue_loop.simps [of w s] Let_def)
        moreover have "list_all (request_ok ?s) acc" using "1.prems"(3) by (simp add: request_ok_def list_all_iff)
        ultimately show ?thesis using "1.IH"(2) [OF True refl refl] None Inline by auto
      next
        case (FileChunk off len)
        let ?t = "?s\<lparr>sm_inflight := sm_inflight s + 1\<rparr>" and ?r = "(?i, off, len, sm_handle s)"
        have "stream_ok content w (R @ map fst (acc @ [?r])) D ?t"
          using "1.prems"(2) True R_small unfolding stream_ok_def
          by (auto simp: less_Suc_eq Suc_le_eq)
        moreover have "issue_loop w ?t (acc @ [?r]) = (s', reqs)"
          using "1.prems"(1) True None FileChunk by (simp add: issue_loop.simps [of w s] Let_def)
        moreover have "list_all (request_ok ?t) (acc @ [?r])"
          using "1.prems"(3) True FileChunk by (simp add: request_ok_def list_all_iff)
        ultimately show ?thesis using "1.IH"(3) [OF True refl refl] None FileChunk by auto
      qed
    qed
  qed
qed

section \<open>Traces\<close>

fun action_data :: "action \<Rightarrow> bytes" where
  "action_data (SendData bs _) = bs"
| "action_data _ = []"

fun action_read :: "action \<Rightarrow> nat list" where
  "action_read (ReadFile _ _ _ seq) = [seq]"
| "action_read _ = []"

definition data_of :: "action list \<Rightarrow> bytes" where
  "data_of acts = concat (map action_data acts)"

definition reads_of :: "action list \<Rightarrow> nat list" where
  "reads_of acts = concat (map action_read acts)"

fun ends_stream :: "action \<Rightarrow> bool" where
  "ends_stream (SendResponse _ _ _) = True"
| "ends_stream (SendHeaders _ e) = e"
| "ends_stream (SendData _ e) = e"
| "ends_stream _ = False"

text \<open>What a flush may do: send data that does not end the stream, and commit.\<close>

fun flush_action :: "action \<Rightarrow> bool" where
  "flush_action (SendData _ e) \<longleftrightarrow> \<not> e"
| "flush_action Commit \<longleftrightarrow> True"
| "flush_action _ \<longleftrightarrow> False"

lemma data_of_simps [simp]:
  "data_of [] = []" "data_of (a # acts) = action_data a @ data_of acts"
  "data_of (acts @ acts') = data_of acts @ data_of acts'"
  by (simp_all add: data_of_def)

lemma reads_of_simps [simp]:
  "reads_of [] = []" "reads_of (a # acts) = action_read a @ reads_of acts"
  "reads_of (acts @ acts') = reads_of acts @ reads_of acts'"
  by (simp_all add: reads_of_def)

lemma flush_actions_no_reads: "list_all flush_action acts \<Longrightarrow> reads_of acts = []"
proof (induction acts)
  case (Cons a acts)
  then show ?case by (cases a) auto
qed simp

text \<open>The fields of the filter that streaming leaves alone.\<close>

definition same_frame :: "stream_filter \<Rightarrow> stream_filter \<Rightarrow> bool" where
  "same_frame fl fl' \<longleftrightarrow> fl_config fl' = fl_config fl \<and> fl_bridge fl' = fl_bridge fl \<and>
     fl_waker fl' = fl_waker fl \<and> fl_request fl' = fl_request fl"

lemma same_frame_refl [simp]: "same_frame fl fl"
  by (simp add: same_frame_def)

lemma same_frame_trans: "same_frame a b \<Longrightarrow> same_frame b c \<Longrightarrow> same_frame a c"
  by (simp add: same_frame_def)

section \<open>Watermarks\<close>

lemma on_watermark_streaming:
  assumes "fl_phase fl = Streaming s"
  shows "\<exists>d acts. fl_phase (on_watermark k fl) = Streaming (s\<lparr>sm_watermark_depth := d\<rparr>) \<and>
    fl_out (on_watermark k fl) = fl_out fl @ acts \<and> set acts \<subseteq> {Commit} \<and>
    (d = 0 \<and> fl_waker fl \<longrightarrow> Commit \<in> set acts) \<and> same_frame fl (on_watermark k fl)"
  using assms
  by (cases k) (auto simp: on_watermark_def on_above_high_watermark_def on_below_low_watermark_def emit_def
      same_frame_def Let_def)

lemma fold_watermark_streaming:
  assumes "fl_phase fl = Streaming s"
  shows "\<exists>d acts. fl_phase (fold on_watermark ks fl) = Streaming (s\<lparr>sm_watermark_depth := d\<rparr>) \<and>
    fl_out (fold on_watermark ks fl) = fl_out fl @ acts \<and> set acts \<subseteq> {Commit} \<and>
    same_frame fl (fold on_watermark ks fl)"
  using assms
proof (induction ks arbitrary: fl s)
  case Nil
  then show ?case by (intro exI [of _ "sm_watermark_depth s"] exI [of _ "[]"]) simp
next
  case (Cons k ks)
  obtain d acts where w: "fl_phase (on_watermark k fl) = Streaming (s\<lparr>sm_watermark_depth := d\<rparr>)"
      "fl_out (on_watermark k fl) = fl_out fl @ acts" "set acts \<subseteq> {Commit}" "same_frame fl (on_watermark k fl)"
    using on_watermark_streaming [OF Cons.prems, of k] by blast
  from Cons.IH [OF w(1)] obtain d' acts' where
    "fl_phase (fold on_watermark ks (on_watermark k fl)) = Streaming (s\<lparr>sm_watermark_depth := d'\<rparr>)"
    "fl_out (fold on_watermark ks (on_watermark k fl)) = fl_out (on_watermark k fl) @ acts'" "set acts' \<subseteq> {Commit}"
    "same_frame (on_watermark k fl) (fold on_watermark ks (on_watermark k fl))"
    by auto
  then show ?case
    using w same_frame_trans by (intro exI [of _ d'] exI [of _ "acts @ acts'"]) auto
qed

lemma send_data_streaming:
  assumes "fl_phase fl = Streaming s"
  shows "\<exists>d acts. fl_phase (send_data react bs fl) = Streaming (s\<lparr>sm_watermark_depth := d\<rparr>) \<and>
    fl_out (send_data react bs fl) = fl_out fl @ SendData bs False # acts \<and> set acts \<subseteq> {Commit} \<and>
    same_frame fl (send_data react bs fl)"
proof -
  have "fl_phase (emit [SendData bs False] fl) = Streaming s" using assms by (simp add: emit_def)
  from fold_watermark_streaming [OF this, of "react (fl_out (emit [SendData bs False] fl))"]
  show ?thesis by (auto simp: send_data_def Let_def emit_def same_frame_def)
qed

lemma commits_flush: "set acts \<subseteq> {Commit} \<Longrightarrow> list_all flush_action acts \<and> data_of acts = []"
  by (induction acts) auto

section \<open>The flush loop\<close>

definition still_streaming ::
  "bytes \<Rightarrow> nat \<Rightarrow> nat list \<Rightarrow> streaming \<Rightarrow> stream_filter \<Rightarrow> streaming \<Rightarrow> bool" where
  "still_streaming content w R s fl' s' \<longleftrightarrow>
     fl_phase fl' = Streaming s' \<and> stream_ok content w R (data_of (fl_out fl')) s' \<and>
     sm_chunks s' = sm_chunks s \<and> sm_handle s' = sm_handle s"

text \<open>One turn of the loop that is not the last sends the next chunk; Envoy may answer with watermarks.\<close>

lemma flush_sends:
  assumes "stream_ok content w R (data_of (fl_out fl)) s" and "map_of (sm_ready s) (sm_next_send s) = Some bs"
    and "sm_next_send s \<noteq> length (sm_chunks s) - 1"
    and "s1 = s\<lparr>sm_ready := AList.delete (sm_next_send s) (sm_ready s), sm_next_send := sm_next_send s + 1\<rparr>"
    and "fl1 = send_data react bs (fl\<lparr>fl_phase := Streaming s1\<rparr>)"
  obtains d acts where "fl_phase fl1 = Streaming (s1\<lparr>sm_watermark_depth := d\<rparr>)"
    and "fl_out fl1 = fl_out fl @ acts" and "list_all flush_action acts" and "same_frame fl fl1"
    and "stream_ok content w R (data_of (fl_out fl1)) (s1\<lparr>sm_watermark_depth := d\<rparr>)"
proof -
  obtain d acts where sent: "fl_phase fl1 = Streaming (s1\<lparr>sm_watermark_depth := d\<rparr>)"
      "fl_out fl1 = fl_out fl @ SendData bs False # acts" "set acts \<subseteq> {Commit}" "same_frame fl fl1"
    using send_data_streaming [of "fl\<lparr>fl_phase := Streaming s1\<rparr>" s1 react bs] assms(5) by (auto simp: same_frame_def)
  have "stream_ok content w R (data_of (fl_out fl) @ bs) s1"
    unfolding assms(4) using assms(1-3) by (rule stream_ok_send)
  then have "stream_ok content w R (data_of (fl_out fl1)) (s1\<lparr>sm_watermark_depth := d\<rparr>)"
    using sent(2,3) commits_flush [of acts] by simp
  with sent commits_flush [of acts] that [of d "SendData bs False # acts"] show ?thesis by simp
qed

lemma flush_loop_ok:
  assumes "fl_phase fl = Streaming s" and "stream_ok content w R (data_of (fl_out fl)) s"
  shows "case flush_loop react fl of
      Broke fl' \<Rightarrow> \<exists>s' acts. still_streaming content w R s fl' s' \<and> same_frame fl fl' \<and>
        fl_out fl' = fl_out fl @ acts \<and> list_all flush_action acts \<and>
        sm_watermark_depth s' = 0 \<and> map_of (sm_ready s') (sm_next_send s') = None
    | Returned fl' \<Rightarrow> same_frame fl fl' \<and>
        ((\<exists>s' acts. still_streaming content w R s fl' s' \<and> sm_watermark_depth s' \<noteq> 0 \<and>
            fl_out fl' = fl_out fl @ acts \<and> list_all flush_action acts) \<or>
         (\<exists>acts bs. fl_phase fl' = Done \<and> data_of (fl_out fl') = chunks_of content (sm_chunks s) \<and>
            fl_out fl' = fl_out fl @ acts @ [DropFile (sm_handle s), SendData bs True] \<and>
            list_all flush_action acts))"
  using assms
proof (induction react fl arbitrary: s rule: flush_loop.induct)
  case (1 react fl)
  note phase = "1.prems"(1) and ok = "1.prems"(2)
  show ?case
  proof (cases "sm_watermark_depth s = 0")
    case False
    then have "flush_loop react fl = Returned fl" using phase by (simp add: flush_loop.simps [of react fl])
    then show ?thesis using phase ok False by (auto simp: still_streaming_def)
  next
    case depth: True
    show ?thesis
    proof (cases "map_of (sm_ready s) (sm_next_send s)")
      case None
      then have "flush_loop react fl = Broke fl" using phase depth by (simp add: flush_loop.simps [of react fl])
      then show ?thesis using phase ok depth None by (auto simp: still_streaming_def)
    next
      case (Some bs)
      let ?s = "s\<lparr>sm_ready := AList.delete (sm_next_send s) (sm_ready s), sm_next_send := sm_next_send s + 1\<rparr>"
      let ?fl = "fl\<lparr>fl_phase := Streaming ?s\<rparr>"
      have ne: "1 \<le> length (sm_chunks s)" using ok by (auto simp: stream_ok_def)
      show ?thesis
      proof (cases "sm_next_send s = length (sm_chunks s) - 1")
        case True
        then have "flush_loop react fl = Returned (emit [SendData bs True] (set_phase Done ?fl))"
          using phase depth Some ne by (simp add: flush_loop.simps [of react fl] Let_def)
        moreover have "data_of (fl_out fl) @ bs = chunks_of content (sm_chunks s)"
          using ok Some True by (rule stream_ok_last)
        ultimately show ?thesis by (simp add: emit_def set_phase_def same_frame_def)
      next
        case False
        obtain d acts where sent: "fl_phase (send_data react bs ?fl) = Streaming (?s\<lparr>sm_watermark_depth := d\<rparr>)"
            "fl_out (send_data react bs ?fl) = fl_out fl @ acts" "list_all flush_action acts"
            "same_frame fl (send_data react bs ?fl)"
            "stream_ok content w R (data_of (fl_out (send_data react bs ?fl))) (?s\<lparr>sm_watermark_depth := d\<rparr>)"
          by (rule flush_sends [OF ok Some False refl refl])
        have "flush_loop react fl = flush_loop react (send_data react bs ?fl)"
          using phase depth Some False ne by (subst flush_loop.simps) (simp add: Let_def)
        then show ?thesis
          using "1.IH" [OF phase depth refl Some refl refl _ sent(1,5)] False ne sent(2-4)
          by (fastforce simp: still_streaming_def same_frame_def split: flush_result.splits)
      qed
    qed
  qed
qed

section \<open>The pump\<close>

definition read_action :: "read_request \<Rightarrow> action" where
  "read_action r = (case r of (index, off, len, h) \<Rightarrow> ReadFile h off len index)"

lemma reads_of_requests: "reads_of (map read_action reqs) = map fst reqs \<and> data_of (map read_action reqs) = []"
  by (induction reqs) (auto simp: read_action_def)

text \<open>
  A pump sends the next bytes of the body in order and either ends the stream with the whole body,
  or goes on streaming with at most \<open>w\<close> reads outstanding; unless it is held by a watermark there is
  then nothing left to do before the next completion.
\<close>

lemma pump_ok:
  assumes "fl_phase fl = Streaming s" and "stream_ok content w R (data_of (fl_out fl)) s"
    and "fl_waker fl" and "w = cfg_max_inflight_reads (fl_config fl)"
  shows "\<exists>fl'. pump react fl = Some fl' \<and> same_frame fl fl' \<and>
    ((\<exists>s' acts reqs. still_streaming content w (R @ map fst reqs) s fl' s' \<and>
        fl_out fl' = fl_out fl @ acts @ map read_action reqs \<and> list_all flush_action acts \<and>
        list_all (request_ok s) reqs \<and> (sm_watermark_depth s' = 0 \<longrightarrow> pumped w s')) \<or>
     (\<exists>acts bs. fl_phase fl' = Done \<and> data_of (fl_out fl') = chunks_of content (sm_chunks s) \<and>
        fl_out fl' = fl_out fl @ acts @ [DropFile (sm_handle s), SendData bs True] \<and>
        list_all flush_action acts))"
proof (cases "flush_loop react fl")
  case (Returned fl')
  then have "pump react fl = Some fl'" by (simp add: pump_def)
  then show ?thesis
    using flush_loop_ok [OF assms(1,2), of react] Returned
    by (fastforce intro: exI [of _ "[]"])
next
  case (Broke fl1)
  from flush_loop_ok [OF assms(1,2), of react] obtain s1 acts where
    b: "still_streaming content w R s fl1 s1" "same_frame fl fl1" "fl_out fl1 = fl_out fl @ acts"
      "list_all flush_action acts" "sm_watermark_depth s1 = 0" "map_of (sm_ready s1) (sm_next_send s1) = None"
    using Broke by auto
  obtain s' reqs where iss: "issue_loop w s1 [] = (s', reqs)" by fastforce
  have phase: "fl_phase fl1 = Streaming s1" and ok1: "stream_ok content w (R @ map fst []) (data_of (fl_out fl1)) s1"
    using b(1) by (simp_all add: still_streaming_def)
  note i = issue_loop_ok [OF iss ok1, simplified]
  have same: "request_ok s' = request_ok s"
    using i b(1) by (auto simp: request_ok_def still_streaming_def fun_eq_iff)
  let ?fl' = "emit (map read_action reqs) (fl1\<lparr>fl_phase := Streaming s'\<rparr>)"
  have act: "(\<lambda>(index, off, len, h). ReadFile h off len index) = read_action"
    by (simp add: read_action_def fun_eq_iff)
  have "pump react fl = Some ?fl'"
    using Broke b(2) assms(3,4) iss phase by (simp add: pump_def same_frame_def act)
  moreover have "same_frame fl ?fl'" using b(2) by (simp add: same_frame_def emit_def)
  moreover have "still_streaming content w (R @ map fst reqs) s ?fl' s'"
    using i b(1) reads_of_requests [of reqs] by (simp add: still_streaming_def emit_def)
  moreover have "pumped w s'" using i b(6) unfolding pumped_def by auto
  ultimately show ?thesis
    using b(3,4) i same by (intro exI [of _ ?fl']) (fastforce simp: emit_def)
qed

end
