(* ===== verification/Stream_System.thy ===== *)
theory Stream_System
  imports Stream_Invariant
begin

text \<open>
  The life of one stream: the filter, the requests it has at the I/O engine, and the callbacks Envoy
  makes, as a step relation in which completions arrive in any order and Envoy's calls interleave
  freely with them. The engine answers as \<open>Io_Engine\<close> proves: an open gives the size and a
  prefix of some content, a read exactly the requested slice of it, and any request may fail.
\<close>

section \<open>The system\<close>

datatype request = ROpen open_request open_ctx | RRead file_handle u64 nat nat | RDir path

fun action_request :: "action \<Rightarrow> request list" where
  "action_request (OpenFile req ctx) = [ROpen req ctx]"
| "action_request (ReadFile h off len seq) = [RRead h off len seq]"
| "action_request (ReadDirectory p) = [RDir p]"
| "action_request _ = []"

definition requests_of :: "action list \<Rightarrow> request list" where
  "requests_of acts = concat (map action_request acts)"

definition commits_of :: "action list \<Rightarrow> nat" where
  "commits_of acts = length (filter (\<lambda>a. a = Commit) acts)"

record sys =
  sy_filter :: stream_filter
  sy_content :: bytes
  sy_pending :: "request list"
  sy_scheduled :: nat
  sy_alive :: bool

definition sys_init :: "config \<Rightarrow> sys" where
  "sys_init c = \<lparr>sy_filter = filter_new c, sy_content = [], sy_pending = [], sy_scheduled = 0,
     sy_alive = True\<rparr>"

text \<open>The filter has moved on to \<open>fl\<close>; its new actions reach the engine and the scheduler.\<close>

definition absorb :: "stream_filter \<Rightarrow> sys \<Rightarrow> sys" where
  "absorb fl sy =
     (let acts = drop (length (fl_out (sy_filter sy))) (fl_out fl) in
      sy\<lparr>sy_filter := fl, sy_pending := sy_pending sy @ requests_of acts,
        sy_scheduled := sy_scheduled sy + commits_of acts\<rparr>)"

inductive engine_answer :: "bytes \<Rightarrow> request \<Rightarrow> bytes \<Rightarrow> io_event \<Rightarrow> bool" where
  open_fails: "engine_answer content (ROpen req ctx) content (open_event ctx (Inl err))"
| open_directory: "st_is_dir stat \<Longrightarrow>
    engine_answer content (ROpen req ctx) content (open_event ctx (Inr (h, stat, [])))"
| open_file: "\<not> st_is_dir stat \<Longrightarrow> st_size stat = of_nat (length content') \<Longrightarrow> length content' < 2 ^ 64 \<Longrightarrow>
    prefetch = [] \<or> prefetch = take (or_prefetch_len req) content' \<Longrightarrow>
    engine_answer content (ROpen req ctx) content' (open_event ctx (Inr (h, stat, prefetch)))"
| read_succeeds: "engine_answer content (RRead h off len seq) content
    (ReadEvent seq (Inr (slice content (unat off) len)))"
| read_fails: "engine_answer content (RRead h off len seq) content (ReadEvent seq (Inl err))"
| listed: "engine_answer content (RDir p) content (DirEvent result)"

inductive sys_step :: "('h, 't) crates \<Rightarrow> sys \<Rightarrow> sys \<Rightarrow> bool" for cr where
  headers: "sy_alive sy \<Longrightarrow> fl_phase (sy_filter sy) = Idle \<Longrightarrow>
    on_request_headers cr kvs (sy_filter sy) = Some fl \<Longrightarrow> sys_step cr sy (absorb fl sy)"
| answered: "sy_pending sy = rs1 @ r # rs2 \<Longrightarrow> engine_answer (sy_content sy) r content' event \<Longrightarrow>
    sys_step cr sy (absorb (deliver event (sy_filter sy))
      (sy\<lparr>sy_pending := rs1 @ rs2, sy_content := content'\<rparr>))"
| scheduled: "sy_alive sy \<Longrightarrow> sy_scheduled sy = Suc n \<Longrightarrow>
    on_scheduled cr react (sy_filter sy) = Some fl \<Longrightarrow>
    sys_step cr sy (absorb fl (sy\<lparr>sy_scheduled := n\<rparr>))"
| watermark: "sy_alive sy \<Longrightarrow> sys_step cr sy (absorb (on_watermark k (sy_filter sy)) sy)"
| complete: "sy_alive sy \<Longrightarrow>
    sys_step cr sy ((absorb (on_stream_complete (sy_filter sy)) sy)\<lparr>sy_alive := False\<rparr>)"

inductive sys_reach :: "('h, 't) crates \<Rightarrow> config \<Rightarrow> sys \<Rightarrow> bool" for cr c where
  start: "sys_reach cr c (sys_init c)"
| step: "sys_reach cr c sy \<Longrightarrow> sys_step cr sy sy' \<Longrightarrow> sys_reach cr c sy'"

inductive_cases engine_answer_openE: "engine_answer content (ROpen req ctx) content' event"
inductive_cases engine_answer_readE: "engine_answer content (RRead h off len seq) content' event"
inductive_cases engine_answer_dirE: "engine_answer content (RDir p) content' event"

section \<open>Kinds of actions\<close>

lemma requests_of_simps [simp]:
  "requests_of [] = []" "requests_of (a # acts) = action_request a @ requests_of acts"
  "requests_of (acts @ acts') = requests_of acts @ requests_of acts'"
  by (simp_all add: requests_of_def)

lemma commits_of_simps [simp]:
  "commits_of [] = 0" "commits_of (a # acts) = (if a = Commit then 1 else 0) + commits_of acts"
  "commits_of (acts @ acts') = commits_of acts + commits_of acts'"
  by (simp_all add: commits_of_def)

text \<open>Resolving: requests and dropped handles only. Neutral: neither requests nor anything sent.\<close>

fun resolving_action :: "action \<Rightarrow> bool" where
  "resolving_action (OpenFile _ _) \<longleftrightarrow> True"
| "resolving_action (ReadDirectory _) \<longleftrightarrow> True"
| "resolving_action (DropFile _) \<longleftrightarrow> True"
| "resolving_action Commit \<longleftrightarrow> True"
| "resolving_action _ \<longleftrightarrow> False"

fun neutral_action :: "action \<Rightarrow> bool" where
  "neutral_action (DropFile _) \<longleftrightarrow> True"
| "neutral_action Commit \<longleftrightarrow> True"
| "neutral_action _ \<longleftrightarrow> False"

fun response_action :: "action \<Rightarrow> bool" where
  "response_action (SendResponse _ _ _) \<longleftrightarrow> True"
| "response_action (SendHeaders _ e) \<longleftrightarrow> e"
| "response_action (DropFile _) \<longleftrightarrow> True"
| "response_action _ \<longleftrightarrow> False"

fun starts_stream :: "action \<Rightarrow> bool" where
  "starts_stream (SendHeaders _ e) \<longleftrightarrow> \<not> e"
| "starts_stream _ \<longleftrightarrow> False"

fun is_log :: "action \<Rightarrow> bool" where
  "is_log (LogReadError _ _) \<longleftrightarrow> True"
| "is_log _ \<longleftrightarrow> False"

definition ends :: "action list \<Rightarrow> nat" where
  "ends acts = length (filter ends_stream acts)"

definition starts :: "action list \<Rightarrow> nat" where
  "starts acts = length (filter starts_stream acts)"

definition logs :: "action list \<Rightarrow> nat" where
  "logs acts = length (filter is_log acts)"

lemma count_actions_simps [simp]:
  "ends [] = 0" "ends (a # acts) = (if ends_stream a then 1 else 0) + ends acts"
  "ends (acts @ acts') = ends acts + ends acts'"
  "starts [] = 0" "starts (a # acts) = (if starts_stream a then 1 else 0) + starts acts"
  "starts (acts @ acts') = starts acts + starts acts'"
  "logs [] = 0" "logs (a # acts) = (if is_log a then 1 else 0) + logs acts"
  "logs (acts @ acts') = logs acts + logs acts'"
  by (simp_all add: ends_def starts_def logs_def)

lemma action_kinds:
  "list_all resolving_action acts \<Longrightarrow> data_of acts = [] \<and> ends acts = 0 \<and> starts acts = 0 \<and> logs acts = 0"
  "list_all neutral_action acts \<Longrightarrow>
     data_of acts = [] \<and> ends acts = 0 \<and> starts acts = 0 \<and> logs acts = 0 \<and> requests_of acts = []"
  "list_all response_action acts \<Longrightarrow>
     data_of acts = [] \<and> starts acts = 0 \<and> logs acts = 0 \<and> requests_of acts = [] \<and> commits_of acts = 0"
  "list_all flush_action acts \<Longrightarrow> ends acts = 0 \<and> starts acts = 0 \<and> logs acts = 0 \<and> requests_of acts = []"
proof (induction acts)
  case (Cons a acts)
  { case 1 then show ?case using Cons by (cases a) auto }
  { case 2 then show ?case using Cons by (cases a) auto }
  { case 3 then show ?case using Cons by (cases a) auto }
  { case 4 then show ?case using Cons by (cases a) auto }
qed auto

text \<open>What Envoy is told of the response: the headers, the data, or a whole response at once.\<close>

fun to_envoy :: "action \<Rightarrow> bool" where
  "to_envoy (SendResponse _ _ _) \<longleftrightarrow> True"
| "to_envoy (SendHeaders _ _) \<longleftrightarrow> True"
| "to_envoy (SendData _ _) \<longleftrightarrow> True"
| "to_envoy _ \<longleftrightarrow> False"

definition wire :: "action list \<Rightarrow> action list" where
  "wire acts = filter to_envoy acts"

lemma wire_simps [simp]:
  "wire [] = []" "wire (a # acts) = (if to_envoy a then a # wire acts else wire acts)"
  "wire (acts @ acts') = wire acts @ wire acts'"
  by (simp_all add: wire_def)

text \<open>A response without a streamed body, and pieces of a body that do not end it.\<close>

fun whole_answer :: "action \<Rightarrow> bool" where
  "whole_answer (SendResponse _ _ _) \<longleftrightarrow> True"
| "whole_answer (SendHeaders _ e) \<longleftrightarrow> e"
| "whole_answer _ \<longleftrightarrow> False"

definition pieces :: "bytes list \<Rightarrow> action list" where
  "pieces bss = map (\<lambda>bs. SendData bs False) bss"

lemma pieces_simps [simp]: "pieces [] = []" "pieces (bs # bss) = SendData bs False # pieces bss"
  "pieces (bss @ bss') = pieces bss @ pieces bss'"
  by (simp_all add: pieces_def)

lemma action_wire:
  "list_all resolving_action acts \<Longrightarrow> wire acts = []"
  "list_all neutral_action acts \<Longrightarrow> wire acts = []"
  "list_all response_action acts \<Longrightarrow> ends acts = 0 \<Longrightarrow> wire acts = []"
  "list_all response_action acts \<Longrightarrow> ends acts = 1 \<Longrightarrow> \<exists>a. wire acts = [a] \<and> whole_answer a"
  "list_all flush_action acts \<Longrightarrow> \<exists>bss. wire acts = pieces bss \<and> concat bss = data_of acts"
proof (induction acts)
  case (Cons a acts)
  { case 1 then show ?case using Cons by (cases a) auto }
  { case 2 then show ?case using Cons by (cases a) auto }
  { case 3 then show ?case using Cons by (cases a) auto }
  { case 4 then show ?case using Cons by (cases a) (auto split: if_splits) }
  { case 5
    then obtain bss where "wire acts = pieces bss" "concat bss = data_of acts" using Cons by auto
    with 5 show ?case
      by (cases a) (auto intro: exI [of _ bss] exI [of _ "b # bss" for b]) }
qed (simp_all, rule exI [of _ "[]"], simp)

lemma dropped_events_neutral: "list_all neutral_action (concat (map dropped_with_event evs))"
proof (induction evs)
  case (Cons e evs)
  then show ?case by (cases e) auto
qed simp

section \<open>Resolution\<close>

text \<open>
  What a handler does while a file is being looked for: it asks for exactly one more thing, or answers
  and is done.
\<close>

fun resolving :: "phase \<Rightarrow> bool" where
  "resolving (ResolvingFile _) \<longleftrightarrow> True"
| "resolving (ResolvingIndex _ _) \<longleftrightarrow> True"
| "resolving _ \<longleftrightarrow> False"

fun resolution_request :: "request \<Rightarrow> bool" where
  "resolution_request (RRead _ _ _ _) \<longleftrightarrow> False"
| "resolution_request _ \<longleftrightarrow> True"

definition resolution_step :: "stream_filter \<Rightarrow> stream_filter \<Rightarrow> bool \<Rightarrow> bool" where
  "resolution_step fl fl' ended \<longleftrightarrow> same_frame fl fl' \<and>
     (\<exists>acts. fl_out fl' = fl_out fl @ acts \<and>
       (if ended then fl_phase fl' = Done \<and> list_all response_action acts \<and> ends acts = 1
        else resolving (fl_phase fl') \<and> list_all resolving_action acts \<and>
          length (requests_of acts) = 1 \<and> list_all resolution_request (requests_of acts) \<and> commits_of acts = 0))"

lemma dropped_with_resolving [simp]: "resolving p \<Longrightarrow> dropped_with p = []"
  by (cases p) auto

lemma respond_status_step: "resolving (fl_phase fl) \<Longrightarrow> resolution_step fl (respond_status st fl) True"
  by (simp add: resolution_step_def respond_status_def set_phase_def emit_def same_frame_def)

lemma open_next_candidate_step:
  assumes "fl_phase fl = ResolvingFile ps" and "open_next_candidate fl = Some (fl', e)"
  shows "resolution_step fl fl' e"
proof (cases ps)
  case Nil
  then have "fl' = respond_status STATUS_NOT_FOUND fl" "e"
    using assms by (auto simp: open_next_candidate_def)
  then show ?thesis using respond_status_step [of fl] assms(1) by simp
next
  case (Cons p ps')
  then show ?thesis
    using assms by (auto simp: open_next_candidate_def submit_open_def Let_def resolution_step_def emit_def
        same_frame_def bind_eq_Some_conv split: if_splits)
qed

lemma directory_fallback_step:
  assumes "resolving (fl_phase fl)" and "directory_fallback dir fl = Some (fl', e)"
  shows "resolution_step fl fl' e"
proof (cases "cfg_directory (fl_config fl) = DirListing")
  case True
  then show ?thesis
    using assms by (auto simp: directory_fallback_def resolution_step_def emit_def same_frame_def split: if_splits)
next
  case False
  then have "fl' = respond_status STATUS_NOT_FOUND fl" "e"
    using assms(2) by (auto simp: directory_fallback_def split: directory_mode.splits)
  then show ?thesis using respond_status_step [OF assms(1)] by simp
qed

lemma open_next_index_step:
  assumes "fl_phase fl = ResolvingIndex dir ps" and "open_next_index fl = Some (fl', e)"
  shows "resolution_step fl fl' e"
proof (cases ps)
  case Nil
  then show ?thesis using assms directory_fallback_step [of fl dir] by (simp add: open_next_index_def)
next
  case (Cons p ps')
  then show ?thesis
    using assms by (cases p) (auto simp: open_next_index_def submit_open_def Let_def resolution_step_def emit_def
        same_frame_def bind_eq_Some_conv split: if_splits)
qed

lemma advance_step:
  assumes "resolving (fl_phase fl)" and "advance_after_open_miss fl = Some (fl', e)"
  shows "resolution_step fl fl' e"
  using assms open_next_candidate_step [of fl] open_next_index_step [of fl]
  by (cases "fl_phase fl") (auto simp: advance_after_open_miss_def current_resolver_def)

lemma handle_open_error_step:
  assumes "resolving (fl_phase fl)" and "handle_open_error cr err fl = Some (fl', e)"
  shows "resolution_step fl fl' e"
  using assms open_next_candidate_step [of fl] open_next_index_step [of fl] respond_status_step [of fl]
  by (cases "fl_phase fl") (auto simp: handle_open_error_def current_resolver_def split: if_splits bool.splits)

lemma handle_directory_step:
  assumes "resolving (fl_phase fl)" and "handle_directory cr fl = Some (fl', e)"
  shows "resolution_step fl fl' e"
proof -
  obtain request where req: "fl_request fl = Some request"
    using assms(2) by (auto simp: handle_directory_def split: option.splits)
  define c where "c = fl_config fl"
  define dir where "dir = path_join (cfg_root c) (rd_relative request)"
  define ps where "ps = map (\<lambda>name. (path_join dir name, content_type_for (cr_mime_guess cr) name
      (cfg_mime_overrides c) (cfg_default_content_type c))) (cfg_index_files c)"
  define loc where "loc = emit [SendResponse STATUS_MOVED_PERMANENTLY
      [(''location'', url_for c (rd_relative request) @ ''/'')] None] (set_phase Done fl)"
  have eq: "handle_directory cr fl =
      (if \<not> rd_trailing_slash request \<and> cfg_redirect_trailing_slash c then Some (loc, True)
       else if cfg_directory c = Deny then Some (respond_status STATUS_FORBIDDEN fl, True)
       else if ps = [] then directory_fallback dir fl
       else open_next_index (set_phase (ResolvingIndex dir ps) fl))"
    unfolding handle_directory_def req option.case Let_def c_def ps_def dir_def loc_def by (rule refl)
  note res = assms(2) [unfolded eq]
  show ?thesis
  proof (cases "\<not> rd_trailing_slash request \<and> cfg_redirect_trailing_slash c")
    case True
    then have "fl' = loc" "e" using res by simp_all
    then show ?thesis
      using assms(1) by (simp add: loc_def resolution_step_def emit_def set_phase_def same_frame_def)
  next
    case no_redirect: False
    show ?thesis
    proof (cases "cfg_directory c = Deny")
      case True
      then have "fl' = respond_status STATUS_FORBIDDEN fl" "e" using res no_redirect by simp_all
      then show ?thesis using respond_status_step [OF assms(1)] by simp
    next
      case no_deny: False
      show ?thesis
      proof (cases "ps = []")
        case True
        then have "directory_fallback dir fl = Some (fl', e)" using res no_redirect no_deny by simp
        then show ?thesis by (rule directory_fallback_step [OF assms(1)])
      next
        case False
        let ?fl = "set_phase (ResolvingIndex dir ps) fl"
        have "open_next_index ?fl = Some (fl', e)" using res no_redirect no_deny False by simp
        then have "resolution_step ?fl fl' e"
          by (rule open_next_index_step [rotated]) (simp add: set_phase_def emit_def)
        then show ?thesis
          using assms(1) by (simp add: resolution_step_def set_phase_def emit_def same_frame_def)
      qed
    qed
  qed
qed

lemma handle_dir_step:
  assumes "resolving (fl_phase fl)" and "handle_dir cr result fl = Some (fl', e)"
  shows "resolution_step fl fl' e \<and> e"
  using assms respond_status_step [OF assms(1)]
  by (auto simp: handle_dir_def Let_def bind_eq_Some_conv resolution_step_def emit_def set_phase_def same_frame_def
      split: sum.splits option.splits)

section \<open>Serving\<close>

text \<open>
  The headers of the planned response to this request have been sent, and its body is to follow: the
  plan is that of the request, the configuration and the opened file's metadata.
\<close>

definition started :: "('h, 't) crates \<Rightarrow> bytes \<Rightarrow> stream_filter \<Rightarrow> body_plan \<Rightarrow> bool" where
  "started cr content fl body \<longleftrightarrow>
     (\<exists>request stat ctx plan. fl_request fl = Some request \<and>
        plan_response (cr_headers cr) (request_facts_of (fl_config fl) request stat ctx) (file_meta_of stat) = Some plan \<and>
        st_size stat = of_nat (length content) \<and> length content < 2 ^ 64 \<and>
        body = plan_body plan \<and> body \<noteq> EmptyBody \<and>
        SendHeaders (('':status'', to_radix 10 (plan_status plan)) # plan_headers plan) False \<in> set (fl_out fl))"

lemma started_mono:
  "started cr content fl body \<Longrightarrow> fl_config fl' = fl_config fl \<Longrightarrow> fl_request fl' = fl_request fl \<Longrightarrow>
     fl_out fl' = fl_out fl @ acts \<Longrightarrow> started cr content fl' body"
  by (auto simp: started_def)

lemma map_of_seed_inline:
  "map_of (seed_inline k cs al) i =
     (if k \<le> i \<and> i < k + length cs
      then (case cs ! (i - k) of Inline bs \<Rightarrow> Some bs | FileChunk _ _ \<Rightarrow> map_of al i) else map_of al i)"
proof (induction k cs al rule: seed_inline.induct)
  case (1 k al)
  then show ?case by auto
next
  case (2 k bs cs al)
  then show ?case by (auto simp: map_of_update nth_Cons' not_le less_Suc_eq split: chunk.splits)
next
  case (3 k off len cs al)
  then show ?case by (auto simp: nth_Cons' not_le less_Suc_eq split: chunk.splits)
qed

text \<open>A response that has just begun streaming satisfies the invariant: nothing is sent, nothing is issued.\<close>

lemma begin_streaming_ok:
  assumes "cs \<noteq> []" and "prefetch = [] \<or> prefetch = take n content \<or> \<not> (\<exists>len. hd cs = FileChunk 0 len)"
    and "list_all (chunk_ok c content) cs"
  shows "stream_ok content w [] []
    \<lparr>sm_handle = h, sm_chunks = cs, sm_ready = seed_prefetch cs prefetch (seed_inline 0 cs []), sm_next_send = 0,
     sm_issue_cursor = 0, sm_inflight = 0, sm_watermark_depth = 0\<rparr>"
proof -
  have inline: "map_of (seed_inline 0 cs []) i =
      (if i < length cs then (case cs ! i of Inline bs \<Rightarrow> Some bs | FileChunk _ _ \<Rightarrow> None) else None)" for i
    by (simp add: map_of_seed_inline split: chunk.split)
  define ready where "ready = seed_prefetch cs prefetch (seed_inline 0 cs [])"
  have ready: "map_of ready i = map_of (seed_inline 0 cs []) i \<or>
      (i = 0 \<and> (\<exists>len. cs ! 0 = FileChunk 0 len \<and> length prefetch = len \<and> map_of ready 0 = Some prefetch))" for i
    by (cases cs) (auto simp: ready_def seed_prefetch_def map_of_update split: chunk.split)
  have first: "prefetch = slice content 0 len" if "cs ! 0 = FileChunk 0 len" "length prefetch = len" for len
  proof -
    have "hd cs = FileChunk 0 len" using that(1) assms(1) by (simp add: hd_conv_nth)
    moreover have "0 < len" using assms(1,3) \<open>hd cs = FileChunk 0 len\<close> by (cases cs) auto
    ultimately have "prefetch = take n content" using assms(2) that(2) by auto
    then show ?thesis using that(2) by (auto simp: slice_def min_def)
  qed
  have "\<forall>i bs. map_of ready i = Some bs \<longrightarrow> i < length cs \<and> bs = chunk_bytes content (cs ! i)"
  proof (intro allI impI)
    fix i bs assume m: "map_of ready i = Some bs"
    show "i < length cs \<and> bs = chunk_bytes content (cs ! i)"
    proof (cases "map_of ready i = map_of (seed_inline 0 cs []) i")
      case True
      then show ?thesis using m by (auto simp: inline split: if_splits chunk.splits)
    next
      case False
      then obtain len where "i = 0" "cs ! 0 = FileChunk 0 len" "length prefetch = len" "map_of ready 0 = Some prefetch"
        using ready by blast
      then show ?thesis using m first assms(1) by auto
    qed
  qed
  moreover have "map_of ready i \<noteq> None" if "i < length cs" "cs ! i = Inline bs" for i bs
    using ready [of i] that by (auto simp: inline)
  ultimately show ?thesis
    using assms(1) by (auto simp: stream_ok_def ready_def)
qed

lemma execute_plan_step:
  assumes "resolving (fl_phase fl)" and "config_ok (fl_config fl)"
    and plan: "plan_response (cr_headers cr) (request_facts_of (fl_config fl) request stat ctx) (file_meta_of stat) = Some plan"
    and request: "fl_request fl = Some request"
    and size: "st_size stat = of_nat (length content)" "length content < 2 ^ 64"
    and pre: "prefetch = [] \<or> prefetch = take n content"
    and ex: "execute_plan plan h prefetch fl = Some (fl', e)"
  shows "same_frame fl fl' \<and> (\<exists>acts. fl_out fl' = fl_out fl @ acts \<and> requests_of acts = [] \<and> commits_of acts = 0 \<and>
    (if e then fl_phase fl' = Done \<and> list_all response_action acts \<and> ends acts = 1
     else \<exists>s. fl_phase fl' = Streaming s \<and> stream_ok content w [] [] s \<and> started cr content fl' (plan_body plan) \<and>
       chunks_of content (sm_chunks s) = body_bytes content (plan_body plan) \<and>
       data_of acts = [] \<and> ends acts = 0 \<and> starts acts = 1 \<and> logs acts = 0 \<and>
       (\<exists>hs. wire acts = [SendHeaders hs False])))"
proof (cases "plan_body plan = EmptyBody")
  case True
  then show ?thesis
    using ex assms(1) by (auto simp: execute_plan_def emit_def set_phase_def same_frame_def)
next
  case False
  have "fm_size (file_meta_of stat) = of_nat (length content)" using size(1) by (simp add: file_meta_of_def)
  from body_chunks_ok [OF assms(2) plan this size(2) False] obtain cs where
    cs: "body_chunks (fl_config fl) (plan_body plan) = Some cs"
      "chunks_of content cs = body_bytes content (plan_body plan)" "list_all (chunk_ok (fl_config fl) content) cs"
    by blast
  define pf where "pf = (case plan_body plan of WholeBody _ \<Rightarrow> prefetch | _ \<Rightarrow> [])"
  define hs where "hs = ('':status'', to_radix 10 (plan_status plan)) # plan_headers plan"
  have b: "begin_streaming hs h cs pf fl = (fl', e)"
    using ex False cs(1) by (simp add: execute_plan_def pf_def hs_def Let_def)
  have pf: "pf = [] \<or> pf = take n content" using pre by (auto simp: pf_def split: body_plan.split)
  show ?thesis
  proof (cases "cs = []")
    case True
    then show ?thesis
      using b assms(1) by (auto simp: begin_streaming_def emit_def set_phase_def same_frame_def)
  next
    case ne: False
    let ?s = "\<lparr>sm_handle = h, sm_chunks = cs, sm_ready = seed_prefetch cs pf (seed_inline 0 cs []),
        sm_next_send = 0, sm_issue_cursor = 0, sm_inflight = 0, sm_watermark_depth = 0\<rparr>"
    have "stream_ok content w [] [] ?s"
      using begin_streaming_ok [OF ne _ cs(3)] pf by blast
    moreover have fl': "fl' = emit [SendHeaders hs False] (set_phase (Streaming ?s) fl)" "\<not> e"
      using b ne by (auto simp: begin_streaming_def Let_def)
    moreover have "started cr content fl' (plan_body plan)"
      using plan size request False fl' assms(1) unfolding started_def hs_def
      by (fastforce simp: emit_def set_phase_def)
    ultimately show ?thesis
      using cs(2) assms(1) by (auto simp: emit_def set_phase_def same_frame_def)
  qed
qed

end
