(* ===== verification/Stream_Safety.thy ===== *)
theory Stream_Safety
  imports Stream_System
begin

text \<open>
  The invariant of the life of a stream, its preservation by every step of the system, and what
  follows: the integrity of the body, back-pressure, a single end, and that no stream stalls.
\<close>

section \<open>Events\<close>

fun event_ok :: "bytes \<Rightarrow> io_event \<Rightarrow> bool" where
  "event_ok content (Opened h stat ctx prefetch) \<longleftrightarrow> st_is_dir stat \<or>
     (st_size stat = of_nat (length content) \<and> length content < 2 ^ 64 \<and>
      (prefetch = [] \<or> (\<exists>n. prefetch = take n content)))"
| "event_ok content (OpenError err) \<longleftrightarrow> True"
| "event_ok content (DirEvent res) \<longleftrightarrow> True"
| "event_ok content (ReadEvent seq res) \<longleftrightarrow> False"

definition resolve_outcome ::
  "('h, 't) crates \<Rightarrow> bytes \<Rightarrow> nat \<Rightarrow> stream_filter \<Rightarrow> stream_filter \<Rightarrow> bool \<Rightarrow> bool" where
  "resolve_outcome cr content w fl fl' e \<longleftrightarrow> same_frame fl fl' \<and>
     (\<exists>acts. fl_out fl' = fl_out fl @ acts \<and>
       (if e then fl_phase fl' = Done \<and> list_all response_action acts \<and> ends acts = 1
        else (resolving (fl_phase fl') \<and> list_all resolving_action acts \<and>
            length (requests_of acts) = 1 \<and> list_all resolution_request (requests_of acts) \<and> commits_of acts = 0) \<or>
          (\<exists>s body. fl_phase fl' = Streaming s \<and> stream_ok content w [] [] s \<and> started cr content fl' body \<and>
            chunks_of content (sm_chunks s) = body_bytes content body \<and> requests_of acts = [] \<and> commits_of acts = 0 \<and>
            data_of acts = [] \<and> ends acts = 0 \<and> starts acts = 1 \<and> logs acts = 0 \<and>
            (\<exists>hs. wire acts = [SendHeaders hs False]))))"

lemma resolution_step_outcome: "resolution_step fl fl' e \<Longrightarrow> resolve_outcome cr content w fl fl' e"
  by (auto simp: resolution_step_def resolve_outcome_def)

lemma resolution_step_drop:
  "resolution_step fl fl' e \<Longrightarrow> resolution_step fl (emit [DropFile h] fl') e"
  by (auto simp: resolution_step_def emit_def same_frame_def)

lemma serve_file_outcome:
  assumes "resolving (fl_phase fl)" and "config_ok (fl_config fl)" and "event_ok content (Opened h stat ctx prefetch)"
    and "\<not> st_is_dir stat" and "serve_file cr h stat ctx prefetch fl = Some (fl', e)"
  shows "resolve_outcome cr content w fl fl' e"
proof -
  obtain request plan where req: "fl_request fl = Some request" and
    plan: "plan_response (cr_headers cr) (request_facts_of (fl_config fl) request stat ctx) (file_meta_of stat) = Some plan"
    and ex: "execute_plan plan h prefetch fl = Some (fl', e)"
    using assms(5) by (auto simp: serve_file_def bind_eq_Some_conv split: option.splits)
  have size: "st_size stat = of_nat (length content)" "length content < 2 ^ 64"
    using assms(3,4) by auto
  obtain n where "prefetch = [] \<or> prefetch = take n content" using assms(3,4) by auto
  from execute_plan_step [OF assms(1,2) plan req size this ex, of w]
  show ?thesis by (cases e) (fastforce simp: resolve_outcome_def)+
qed

lemma handle_opened_outcome:
  assumes "resolving (fl_phase fl)" and "config_ok (fl_config fl)" and "event_ok content (Opened h stat ctx prefetch)"
    and "handle_opened cr h stat ctx prefetch fl = Some (fl', e)"
  shows "resolve_outcome cr content w fl fl' e"
proof (cases "st_is_dir stat")
  case False
  then show ?thesis
    using serve_file_outcome [OF assms(1-3) False] assms(4) by (simp add: handle_opened_def)
next
  case True
  then obtain fl1 where
    "(if ctx_encoding ctx \<noteq> None then advance_after_open_miss fl else handle_directory cr fl) = Some (fl1, e)"
    "fl' = emit [DropFile h] fl1"
    using assms(4) by (auto simp: handle_opened_def bind_eq_Some_conv)
  then show ?thesis
    using advance_step [OF assms(1)] handle_directory_step [OF assms(1)]
    by (metis resolution_step_drop resolution_step_outcome)
qed

lemma resolution_event_outcome:
  assumes "resolving (fl_phase fl)" and "config_ok (fl_config fl)" and "event_ok content ev"
    and "handle_event cr ev fl = Some (fl', e)"
  shows "resolve_outcome cr content w fl fl' e"
proof (cases ev)
  case (Opened h stat ctx prefetch)
  then show ?thesis
    using handle_opened_outcome [OF assms(1,2), of content h stat ctx prefetch] assms(3,4)
    by (simp add: handle_event_def)
next
  case (OpenError err)
  then have "handle_open_error cr err fl = Some (fl', e)" using assms(4) by (simp add: handle_event_def)
  then show ?thesis by (rule resolution_step_outcome [OF handle_open_error_step [OF assms(1)]])
next
  case (DirEvent res)
  then have "handle_dir cr res fl = Some (fl', e)" using assms(4) by (simp add: handle_event_def)
  then show ?thesis by (rule resolution_step_outcome [OF handle_dir_step [OF assms(1), THEN conjunct1]])
qed (use assms(3) in simp)

section \<open>Reads\<close>

lemma dropped_events_no_commit: "commits_of (concat (map dropped_with_event evs)) = 0"
proof (induction evs)
  case (Cons e evs)
  then show ?case by (cases e) auto
qed simp

fun read_event_ok :: "bytes \<Rightarrow> chunk list \<Rightarrow> io_event \<Rightarrow> bool" where
  "read_event_ok content cs (ReadEvent seq res) \<longleftrightarrow>
     (case res of Inr bs \<Rightarrow> seq < length cs \<and> bs = chunk_bytes content (cs ! seq) | Inl _ \<Rightarrow> True)"
| "read_event_ok content cs _ \<longleftrightarrow> False"

fun read_request_ok :: "chunk list \<Rightarrow> request \<Rightarrow> bool" where
  "read_request_ok cs (RRead h off len seq) \<longleftrightarrow> seq < length cs \<and> cs ! seq = FileChunk off len"
| "read_request_ok cs _ \<longleftrightarrow> False"

fun event_seq :: "io_event \<Rightarrow> nat" where
  "event_seq (ReadEvent seq _) = seq"
| "event_seq _ = 0"

fun request_seq :: "request \<Rightarrow> nat" where
  "request_seq (RRead _ _ _ seq) = seq"
| "request_seq _ = 0"

fun is_read_event :: "io_event \<Rightarrow> bool" where
  "is_read_event (ReadEvent _ _) \<longleftrightarrow> True"
| "is_read_event _ \<longleftrightarrow> False"

fun is_read_request :: "request \<Rightarrow> bool" where
  "is_read_request (RRead _ _ _ _) \<longleftrightarrow> True"
| "is_read_request _ \<longleftrightarrow> False"

lemma read_ok_is_read:
  "list_all (read_event_ok content cs) evs \<Longrightarrow> list_all is_read_event evs"
  "list_all (read_request_ok cs) rs \<Longrightarrow> list_all is_read_request rs"
proof (induction evs)
  case (Cons e evs)
  { case 1 then show ?case using Cons by (cases e) auto }
  { case 2 then show ?case using Cons by blast }
next
  case Nil
  { case 1 show ?case by simp }
  { case 2 then show ?case
    proof (induction rs)
      case (Cons r rs)
      then show ?case by (cases r) auto
    qed simp }
qed

lemma stream_ok_perm: "stream_ok content w R D s \<Longrightarrow> mset R = mset R' \<Longrightarrow> stream_ok content w R' D s"
proof -
  assume ok: "stream_ok content w R D s" and m: "mset R = mset R'"
  have "set R = set R'" "length R = length R'" "distinct R = distinct R'"
    using m by (metis set_mset_mset, metis size_mset, metis mset_eq_imp_distinct_iff)
  then show ?thesis using ok by (simp add: stream_ok_def)
qed

text \<open>A read that failed resets the stream: the file is let go, the response cut short, and the rest of the mailbox dropped.\<close>

definition reset_by_read :: "stream_filter \<Rightarrow> stream_filter \<Rightarrow> bool" where
  "reset_by_read fl fl' \<longleftrightarrow> fl_phase fl' = Done \<and>
     (\<exists>acts. fl_out fl' = fl_out fl @ acts \<and> data_of acts = [] \<and> ends acts = 1 \<and> starts acts = 0 \<and>
        0 < logs acts \<and> requests_of acts = [] \<and> commits_of acts = 0 \<and> wire acts = [SendData [] True])"

lemma failed_read_resets:
  assumes "fl_phase fl = Streaming s"
  shows "\<exists>fl'. handle_events cr (ReadEvent seq (Inl err) # evs) fl = Some (fl', True) \<and> same_frame fl fl' \<and> reset_by_read fl fl'"
proof -
  define fl1 where "fl1 = fst (handle_read seq (Inl err) fl)"
  let ?drops = "concat (map dropped_with_event evs)"
  have fl1: "handle_event cr (ReadEvent seq (Inl err)) fl = Some (fl1, True)"
    "fl_out fl1 = fl_out fl @ [LogReadError seq err, DropFile (sm_handle s), SendData [] True]"
    "fl_phase fl1 = Done" "same_frame fl fl1"
    using assms by (simp_all add: handle_event_def fl1_def handle_read_def Let_def emit_def set_phase_def same_frame_def)
  then have "handle_events cr (ReadEvent seq (Inl err) # evs) fl = Some (emit ?drops fl1, True)" by simp
  then show ?thesis
    using fl1 action_kinds(2) [OF dropped_events_neutral, of evs] action_wire(2) [OF dropped_events_neutral, of evs]
      dropped_events_no_commit [of evs]
    by (intro exI [of _ "emit ?drops fl1"]) (simp add: emit_def same_frame_def reset_by_read_def)
qed

lemma read_events_ok:
  assumes "fl_phase fl = Streaming s" and "list_all (read_event_ok content (sm_chunks s)) evs"
    and "stream_ok content w (R @ map event_seq evs) D s"
  shows "\<exists>fl' e. handle_events cr evs fl = Some (fl', e) \<and> same_frame fl fl' \<and>
    (if e then reset_by_read fl fl'
     else \<exists>s'. fl_phase fl' = Streaming s' \<and> fl_out fl' = fl_out fl \<and> stream_ok content w R D s' \<and>
       sm_chunks s' = sm_chunks s)"
  using assms
proof (induction evs arbitrary: fl s)
  case Nil
  then show ?case by auto
next
  case (Cons ev evs)
  obtain seq res where ev: "ev = ReadEvent seq res" using Cons.prems(2) by (cases ev) auto
  show ?case
  proof (cases res)
    case (Inl err)
    then show ?thesis using failed_read_resets [OF Cons.prems(1), of cr seq err evs] by (auto simp: ev)
  next
    case (Inr bs)
    let ?s = "s\<lparr>sm_inflight := sm_inflight s - 1, sm_ready := AList.update seq bs (sm_ready s)\<rparr>"
    let ?fl = "fl\<lparr>fl_phase := Streaming ?s\<rparr>"
    have bs: "bs = chunk_bytes content (sm_chunks s ! seq)"
      using Cons.prems(2) ev Inr by simp
    have h: "handle_event cr ev fl = Some (?fl, False)"
      using Cons.prems(1) by (simp add: ev Inr handle_event_def handle_read_def Let_def)
    have perm: "stream_ok content w (seq # R @ map event_seq evs) D s"
      using Cons.prems(3) by (rule stream_ok_perm) (simp add: ev)
    have ok: "stream_ok content w (R @ map event_seq evs) D ?s"
      using stream_ok_read [OF perm, of seq] by (simp add: bs)
    from Cons.IH [of ?fl ?s] ok Cons.prems(2)
    obtain fl' e where ih: "handle_events cr evs ?fl = Some (fl', e)" "same_frame ?fl fl'"
      "if e then reset_by_read ?fl fl'
       else \<exists>s'. fl_phase fl' = Streaming s' \<and> fl_out fl' = fl_out ?fl \<and> stream_ok content w R D s' \<and>
         sm_chunks s' = sm_chunks ?s"
      by auto
    have "handle_events cr (ev # evs) fl = Some (fl', e)" using ih(1) by (simp add: h)
    moreover have "same_frame fl fl'" using ih(2) by (simp add: same_frame_def)
    moreover have "reset_by_read ?fl fl' = reset_by_read fl fl'" by (simp add: reset_by_read_def)
    ultimately show ?thesis
      using ih(3) by (intro exI [of _ fl'] exI [of _ e]) (cases e; simp)
  qed
qed

lemma read_events_done:
  "fl_phase fl = Done \<Longrightarrow> list_all is_read_event evs \<Longrightarrow> handle_events cr evs fl = Some (fl, False)"
proof (induction evs)
  case (Cons e evs)
  then show ?case by (cases e) (auto simp: handle_event_def handle_read_def)
qed simp

section \<open>The invariant\<close>

text \<open>What has been sent, whether or not the stream is still alive.\<close>

definition trace_ok :: "('h, 't) crates \<Rightarrow> bytes \<Rightarrow> stream_filter \<Rightarrow> bool" where
  "trace_ok cr content fl \<longleftrightarrow>
     (let out = fl_out fl in
      case fl_phase fl of
        Streaming s \<Rightarrow>
          \<exists>body. started cr content fl body \<and> chunks_of content (sm_chunks s) = body_bytes content body \<and>
            data_of out = chunks_of content (take (sm_next_send s) (sm_chunks s)) \<and>
            ends out = 0 \<and> starts out = 1 \<and> logs out = 0
      | Done \<Rightarrow>
          ends out = 1 \<and>
          (starts out = 0 \<and> data_of out = [] \<and> logs out = 0 \<or>
           starts out = 1 \<and> (\<exists>body. started cr content fl body \<and>
             (logs out = 0 \<and> data_of out = body_bytes content body \<or>
              0 < logs out \<and> prefix (data_of out) (body_bytes content body))))
      | _ \<Rightarrow> data_of out = [] \<and> ends out = 0 \<and> starts out = 0 \<and> logs out = 0)"

text \<open>What is outstanding, while Envoy still calls the filter.\<close>

definition live_ok :: "config \<Rightarrow> sys \<Rightarrow> bool" where
  "live_ok c sy \<longleftrightarrow>
     (let fl = sy_filter sy; evs = bridge_contents (fl_bridge fl); rs = sy_pending sy;
          w = cfg_max_inflight_reads c in
      bridge_open (fl_bridge fl) \<and> (evs \<noteq> [] \<longrightarrow> 0 < sy_scheduled sy) \<and>
      (case fl_phase fl of
         Idle \<Rightarrow> rs = [] \<and> evs = []
       | Streaming s \<Rightarrow>
           fl_waker fl \<and> list_all (read_request_ok (sm_chunks s)) rs \<and>
           list_all (read_event_ok (sy_content sy) (sm_chunks s)) evs \<and>
           stream_ok (sy_content sy) w (map request_seq rs @ map event_seq evs) (data_of (fl_out fl)) s \<and>
           (sy_scheduled sy = 0 \<and> sm_watermark_depth s = 0 \<longrightarrow> pumped w s)
       | Done \<Rightarrow> list_all is_read_event evs
       | _ \<Rightarrow>
           fl_waker fl \<and> length rs + length evs = 1 \<and> list_all resolution_request rs \<and>
           list_all (event_ok (sy_content sy)) evs))"

text \<open>Once a response has begun or is complete, only reads are outstanding.\<close>

definition settled_ok :: "sys \<Rightarrow> bool" where
  "settled_ok sy \<longleftrightarrow>
     (case fl_phase (sy_filter sy) of
        Streaming _ \<Rightarrow> list_all is_read_request (sy_pending sy)
      | Done \<Rightarrow> list_all is_read_request (sy_pending sy)
      | _ \<Rightarrow> True)"

definition sys_ok :: "('h, 't) crates \<Rightarrow> config \<Rightarrow> sys \<Rightarrow> bool" where
  "sys_ok cr c sy \<longleftrightarrow>
     fl_config (sy_filter sy) = c \<and> trace_ok cr (sy_content sy) (sy_filter sy) \<and> settled_ok sy \<and>
     (sy_alive sy \<longrightarrow> live_ok c sy)"

lemma settled_ok_alive [simp]: "settled_ok (sy\<lparr>sy_alive := b\<rparr>) = settled_ok sy"
  by (cases "fl_phase (sy_filter sy)") (simp_all add: settled_ok_def)

lemma absorb_append:
  "fl_out fl = fl_out (sy_filter sy) @ acts \<Longrightarrow>
     absorb fl sy = sy\<lparr>sy_filter := fl, sy_pending := sy_pending sy @ requests_of acts,
       sy_scheduled := sy_scheduled sy + commits_of acts\<rparr>"
  by (simp add: absorb_def)

text \<open>The trace facts survive neutral actions, and a change of the content while resolving.\<close>

lemma trace_ok_neutral:
  assumes "trace_ok cr content fl" and "fl_config fl' = fl_config fl" and "fl_request fl' = fl_request fl"
    and "fl_phase fl' = fl_phase fl" and "fl_out fl' = fl_out fl @ acts" and "list_all neutral_action acts"
  shows "trace_ok cr content fl'"
  using assms(1,4,5) action_kinds(2) [OF assms(6)] started_mono [OF _ assms(2,3,5), of cr content]
  by (cases "fl_phase fl") (auto simp: trace_ok_def Let_def)

lemma trace_ok_resolving:
  "trace_ok cr content fl \<Longrightarrow> resolving (fl_phase fl) \<or> fl_phase fl = Idle \<Longrightarrow> trace_ok cr content' fl"
  by (cases "fl_phase fl") (auto simp: trace_ok_def Let_def)

section \<open>Preservation\<close>

lemma sys_ok_init: "sys_ok cr c (sys_init c)"
  by (simp add: sys_ok_def sys_init_def filter_new_def trace_ok_def settled_ok_def live_ok_def
      bridge_new_def bridge_open_def Let_def)

lemma build_file_candidates_ne: "build_file_candidates cr c rel ts ae \<noteq> []"
  by (simp add: build_file_candidates_def Let_def)

text \<open>The request headers: an immediate answer, or the first candidate is opened.\<close>

lemma on_request_headers_step:
  assumes "fl_phase fl = Idle" and "on_request_headers cr kvs fl = Some fl'"
  shows "fl_config fl' = fl_config fl \<and> fl_bridge fl' = fl_bridge fl \<and>
    (\<exists>acts. fl_out fl' = fl_out fl @ acts \<and> commits_of acts = 0 \<and>
      ((fl_phase fl' = Done \<and> list_all response_action acts \<and> ends acts = 1) \<or>
       (resolving (fl_phase fl') \<and> fl_waker fl' \<and> list_all resolving_action acts \<and>
        length (requests_of acts) = 1 \<and> list_all resolution_request (requests_of acts))))"
proof -
  define raw where "raw = collect_headers cr kvs"
  define c where "c = fl_config fl"
  have answer: ?thesis if "fl' = emit [SendResponse st hs None] (set_phase Done fl)" for st hs
    using that assms(1) by (simp add: emit_def set_phase_def)
  define stripped where "stripped = (case cfg_strip_prefix c of
      Some p \<Rightarrow> strip_mount_prefix (case raw_path raw of Some p \<Rightarrow> p | None \<Rightarrow> []) p
    | None \<Rightarrow> Some (case raw_path raw of Some p \<Rightarrow> p | None \<Rightarrow> []))"
  note res = assms(2) [unfolded on_request_headers_def Let_def, folded raw_def c_def, folded stripped_def]
  show ?thesis
  proof (cases "raw_method raw \<noteq> Some ''HEAD'' \<and> raw_method raw \<noteq> Some ''GET''")
    case True
    then have "fl' = emit [SendResponse STATUS_METHOD_NOT_ALLOWED [(''allow'', ''GET, HEAD'')] None] (set_phase Done fl)"
      using res by simp
    then show ?thesis by (rule answer)
  next
    case known: False
    note res1 = res [unfolded if_not_P [OF known]]
    show ?thesis
    proof (cases stripped)
      case None
      then have "fl' = respond_status STATUS_NOT_FOUND fl"
        using res1 by (simp only: option.case option.inject)
      then show ?thesis unfolding respond_status_def by (rule answer)
    next
      case (Some p)
      note res2 = res1 [unfolded Some option.case]
      show ?thesis
      proof (cases "resolve_request_path (cr_percent_decode cr) p
          \<lparr>pol_serve_dotfiles = cfg_serve_dotfiles c, pol_max_path_len = 4096\<rparr>")
        case (Reject reason)
        then have "fl' = respond_status (reject_status reason) fl"
          using res2 by (simp only: validated_path.case option.inject)
        then show ?thesis unfolding respond_status_def by (rule answer)
      next
        case (PathOk rel ts)
        obtain cand rest where ps: "build_file_candidates cr c rel ts (raw_accept_encoding raw) = cand # rest"
          using build_file_candidates_ne by (meson neq_Nil_conv)
        from res2 PathOk ps obtain request where
          "map_option fst (open_next_candidate (set_phase (ResolvingFile (cand # rest))
             (fl\<lparr>fl_request := request, fl_waker := True\<rparr>))) = Some fl'"
          by (simp only: validated_path.case)
        then show ?thesis
          using assms(1) by (auto simp: open_next_candidate_def submit_open_def set_phase_def emit_def Let_def)
      qed
    qed
  qed
qed

lemma sys_ok_headers:
  assumes "sys_ok cr c sy" and "sy_alive sy" and "fl_phase (sy_filter sy) = Idle"
    and "on_request_headers cr kvs (sy_filter sy) = Some fl"
  shows "sys_ok cr c (absorb fl sy)"
proof -
  let ?fl = "sy_filter sy"
  obtain acts where frame: "fl_config fl = fl_config ?fl" "fl_bridge fl = fl_bridge ?fl"
    and acts: "fl_out fl = fl_out ?fl @ acts" "commits_of acts = 0"
    and out: "(fl_phase fl = Done \<and> list_all response_action acts \<and> ends acts = 1) \<or>
       (resolving (fl_phase fl) \<and> fl_waker fl \<and> list_all resolving_action acts \<and>
        length (requests_of acts) = 1 \<and> list_all resolution_request (requests_of acts))"
    using on_request_headers_step [OF assms(3,4)] by blast
  have idle: "data_of (fl_out ?fl) = []" "ends (fl_out ?fl) = 0" "starts (fl_out ?fl) = 0" "logs (fl_out ?fl) = 0"
    "sy_pending sy = []" "bridge_contents (fl_bridge ?fl) = []" "bridge_open (fl_bridge ?fl)" "fl_config ?fl = c"
    using assms(1-3) by (auto simp: sys_ok_def trace_ok_def live_ok_def Let_def)
  from out show ?thesis
  proof
    assume "fl_phase fl = Done \<and> list_all response_action acts \<and> ends acts = 1"
    then show ?thesis
      using action_kinds(3) [of acts] frame acts idle
      by (simp add: absorb_append sys_ok_def trace_ok_def settled_ok_def live_ok_def Let_def)
  next
    assume r: "resolving (fl_phase fl) \<and> fl_waker fl \<and> list_all resolving_action acts \<and>
        length (requests_of acts) = 1 \<and> list_all resolution_request (requests_of acts)"
    then show ?thesis
      using action_kinds(1) [of acts] frame acts idle
      by (cases "fl_phase fl")
         (simp_all add: absorb_append sys_ok_def trace_ok_def settled_ok_def live_ok_def Let_def)
  qed
qed

text \<open>A delivery leaves everything but the bridge and the trace alone.\<close>

lemma deliver_frame:
  "fl_config (deliver ev fl) = fl_config fl \<and> fl_request (deliver ev fl) = fl_request fl \<and> fl_waker (deliver ev fl) = fl_waker fl \<and>
   fl_phase (deliver ev fl) = fl_phase fl \<and>
   (\<exists>acts. fl_out (deliver ev fl) = fl_out fl @ acts \<and> list_all neutral_action acts)"
proof (cases "bridge_open (fl_bridge fl)")
  case True
  then show ?thesis
    using bridge.send_open [OF True, of ev]
    by (cases "bridge_send (fl_bridge fl) ev") (simp add: deliver_def emit_def)
next
  case False
  then show ?thesis
    using bridge.send_closed [OF False, of ev] by (cases ev) (simp_all add: deliver_def emit_def)
qed

lemma deliver_open:
  assumes "bridge_open (fl_bridge fl)"
  shows "bridge_open (fl_bridge (deliver ev fl)) \<and> fl_out (deliver ev fl) = fl_out fl @ [Commit] \<and>
    bridge_contents (fl_bridge (deliver ev fl)) = bridge_contents (fl_bridge fl) @ [ev]"
  using bridge.send_open [OF assms, of ev]
  by (cases "bridge_send (fl_bridge fl) ev") (simp add: deliver_def emit_def)

lemma answer_to_read:
  assumes "engine_answer content r content' ev" and "is_read_request r"
  shows "content' = content \<and> is_read_event ev \<and> event_seq ev = request_seq r \<and>
    (read_request_ok cs r \<longrightarrow> read_event_ok content cs ev)"
  using assms by (cases r) (auto elim!: engine_answer_readE)

lemma answer_to_resolution:
  assumes "engine_answer content r content' ev" and "resolution_request r"
  shows "event_ok content' ev"
  using assms by (cases r) (auto elim!: engine_answer_openE engine_answer_dirE simp: open_event_def)

lemma live_ok_answered:
  assumes "live_ok c sy" and "settled_ok sy" and "sy_pending sy = rs1 @ r # rs2"
    and ans: "engine_answer (sy_content sy) r content' ev"
  shows "live_ok c (absorb (deliver ev (sy_filter sy)) (sy\<lparr>sy_pending := rs1 @ rs2, sy_content := content'\<rparr>))"
proof -
  let ?fl = "sy_filter sy" and ?fl' = "deliver ev (sy_filter sy)"
  have op: "bridge_open (fl_bridge ?fl)" using assms(1) by (simp add: live_ok_def Let_def)
  note d = deliver_open [OF op, of ev] and fr = deliver_frame [of ev ?fl]
  have absorbed: "absorb ?fl' (sy\<lparr>sy_pending := rs1 @ rs2, sy_content := content'\<rparr>) =
      sy\<lparr>sy_filter := ?fl', sy_pending := rs1 @ rs2, sy_content := content', sy_scheduled := Suc (sy_scheduled sy)\<rparr>"
    using d by (simp add: absorb_def)
  have settled: "is_read_request r" if "fl_phase ?fl = Done \<or> (\<exists>s. fl_phase ?fl = Streaming s)"
    using that assms(2,3) by (auto simp: settled_ok_def)
  have search: ?thesis if "resolving (fl_phase ?fl)"
  proof -
    have "rs1 = []" "rs2 = []" "bridge_contents (fl_bridge ?fl) = []" "resolution_request r" "fl_waker ?fl"
      using assms(1,3) that by (cases "fl_phase ?fl"; auto simp: live_ok_def Let_def)+
    then show ?thesis
      using that d answer_to_resolution [OF ans] fr unfolding absorbed live_ok_def
      by (cases "fl_phase ?fl") (simp_all add: Let_def)
  qed
  show ?thesis
  proof (cases "fl_phase ?fl")
    case Idle
    then show ?thesis using assms(1,3) by (simp add: live_ok_def Let_def)
  next
    case (Streaming s)
    then have lvs: "fl_waker ?fl" "list_all (read_request_ok (sm_chunks s)) (rs1 @ r # rs2)"
        "list_all (read_event_ok (sy_content sy) (sm_chunks s)) (bridge_contents (fl_bridge ?fl))"
        "stream_ok (sy_content sy) (cfg_max_inflight_reads c)
          (map request_seq (rs1 @ r # rs2) @ map event_seq (bridge_contents (fl_bridge ?fl))) (data_of (fl_out ?fl)) s"
      using assms(1,3) by (auto simp: live_ok_def Let_def)
    note a = answer_to_read [OF ans settled, of "sm_chunks s"]
    have "stream_ok (sy_content sy) (cfg_max_inflight_reads c)
        (map request_seq (rs1 @ rs2) @ map event_seq (bridge_contents (fl_bridge ?fl) @ [ev])) (data_of (fl_out ?fl)) s"
      using lvs(4) by (rule stream_ok_perm) (use a Streaming in simp)
    then show ?thesis
      using d a lvs Streaming fr unfolding absorbed live_ok_def by (simp add: Let_def)
  next
    case Done
    then have "is_read_event ev" using answer_to_read [OF ans settled] by blast
    then show ?thesis using d assms(1) Done fr unfolding absorbed live_ok_def by (simp add: Let_def)
  qed (use search in simp_all)
qed

lemma sys_ok_answered:
  assumes "sys_ok cr c sy" and "sy_pending sy = rs1 @ r # rs2" and "engine_answer (sy_content sy) r content' ev"
  shows "sys_ok cr c (absorb (deliver ev (sy_filter sy)) (sy\<lparr>sy_pending := rs1 @ rs2, sy_content := content'\<rparr>))"
proof -
  let ?fl = "sy_filter sy" and ?fl' = "deliver ev (sy_filter sy)"
  let ?sy = "sy\<lparr>sy_pending := rs1 @ rs2, sy_content := content'\<rparr>"
  obtain acts where fr: "fl_config ?fl' = fl_config ?fl" "fl_request ?fl' = fl_request ?fl" "fl_phase ?fl' = fl_phase ?fl"
      "fl_out ?fl' = fl_out ?fl @ acts" "list_all neutral_action acts"
    using deliver_frame [of ev ?fl] by blast
  have absorbed: "absorb ?fl' ?sy = ?sy\<lparr>sy_filter := ?fl', sy_scheduled := sy_scheduled sy + commits_of acts\<rparr>"
    using fr(4) action_kinds(2) [OF fr(5)] by (simp add: absorb_def)
  have parts: "fl_config ?fl = c" "trace_ok cr (sy_content sy) ?fl" "settled_ok sy" "sy_alive sy \<longrightarrow> live_ok c sy"
    using assms(1) by (auto simp: sys_ok_def)
  have settled: "is_read_request r" "list_all is_read_request (rs1 @ rs2)"
    if "fl_phase ?fl = Done \<or> (\<exists>s. fl_phase ?fl = Streaming s)"
    using parts(3) that assms(2) by (auto simp: settled_ok_def)
  have "trace_ok cr content' ?fl"
  proof (cases "fl_phase ?fl = Done \<or> (\<exists>s. fl_phase ?fl = Streaming s)")
    case True
    then show ?thesis using parts(2) answer_to_read [OF assms(3) settled(1)] by simp
  next
    case False
    then have "resolving (fl_phase ?fl) \<or> fl_phase ?fl = Idle" by (cases "fl_phase ?fl") auto
    then show ?thesis by (rule trace_ok_resolving [OF parts(2)])
  qed
  then have trace: "trace_ok cr content' ?fl'" using fr by (rule trace_ok_neutral)
  have "settled_ok (absorb ?fl' ?sy)"
    using settled unfolding absorbed settled_ok_def by (cases "fl_phase ?fl") (auto simp: fr(3))
  then show ?thesis
    unfolding sys_ok_def using trace live_ok_answered [OF _ parts(3) assms(2,3), of c] parts(1,4) fr(1)
    by (simp add: absorbed)
qed

lemma sys_ok_watermark:
  assumes "sys_ok cr c sy" and "sy_alive sy"
  shows "sys_ok cr c (absorb (on_watermark k (sy_filter sy)) sy)"
proof (cases "\<exists>s. fl_phase (sy_filter sy) = Streaming s")
  case False
  then have "on_watermark k (sy_filter sy) = sy_filter sy"
    by (cases "fl_phase (sy_filter sy)"; cases k)
       (auto simp: on_watermark_def on_above_high_watermark_def on_below_low_watermark_def)
  then show ?thesis using assms(1) by (simp add: absorb_def)
next
  case True
  then obtain s where ph: "fl_phase (sy_filter sy) = Streaming s" by blast
  let ?fl = "sy_filter sy" and ?fl' = "on_watermark k (sy_filter sy)"
  obtain d acts where w: "fl_phase ?fl' = Streaming (s\<lparr>sm_watermark_depth := d\<rparr>)" "fl_out ?fl' = fl_out ?fl @ acts"
      "set acts \<subseteq> {Commit}" "d = 0 \<and> fl_waker ?fl \<longrightarrow> Commit \<in> set acts" "same_frame ?fl ?fl'"
    using on_watermark_streaming [OF ph, of k] by blast
  have quiet: "data_of acts = []" "requests_of acts = []" "ends acts = 0" "starts acts = 0" "logs acts = 0"
    using w(3) action_kinds(4) [of acts] commits_flush [of acts] by auto
  have woken: "d = 0 \<and> fl_waker ?fl \<longrightarrow> 0 < commits_of acts"
    using w(4) by (auto simp: commits_of_def filter_empty_conv)
  have "trace_ok cr (sy_content sy) ?fl'"
    using assms(1) ph w(1,2,5) quiet started_mono [OF _ _ _ w(2), of cr "sy_content sy"]
    by (auto simp: sys_ok_def trace_ok_def Let_def same_frame_def)
  moreover have "live_ok c (absorb ?fl' sy)"
    using assms ph w(1,2,5) quiet woken by (auto simp: sys_ok_def live_ok_def Let_def absorb_append same_frame_def)
  ultimately show ?thesis
    using assms ph w(1,2,5) quiet by (auto simp: sys_ok_def settled_ok_def absorb_append same_frame_def)
qed

lemma sys_ok_complete:
  assumes "sys_ok cr c sy"
  shows "sys_ok cr c ((absorb (on_stream_complete (sy_filter sy)) sy)\<lparr>sy_alive := False\<rparr>)"
proof -
  let ?fl = "sy_filter sy" and ?fl' = "on_stream_complete (sy_filter sy)"
  let ?acts = "concat (map dropped_with_event (bridge_contents (fl_bridge ?fl)))"
  have fr: "fl_config ?fl' = fl_config ?fl" "fl_phase ?fl' = fl_phase ?fl" "fl_out ?fl' = fl_out ?fl @ ?acts"
      "fl_request ?fl' = fl_request ?fl"
    by (simp_all add: on_stream_complete_def emit_def)
  have neutral: "list_all neutral_action ?acts" by (rule dropped_events_neutral)
  have quiet: "requests_of ?acts = []" using action_kinds(2) [OF neutral] by simp
  have "trace_ok cr (sy_content sy) ?fl'"
    using _ fr(1,4,2,3) neutral by (rule trace_ok_neutral) (use assms in \<open>simp add: sys_ok_def\<close>)
  moreover have "settled_ok (absorb ?fl' sy)"
    using assms fr(2) quiet unfolding absorb_append [OF fr(3)] sys_ok_def settled_ok_def
    by (cases "fl_phase ?fl") simp_all
  ultimately show ?thesis
    using assms fr(1) by (simp add: sys_ok_def) (simp add: absorb_append [OF fr(3)])
qed

lemma requests_of_reads:
  "list_all (request_ok s) reqs \<Longrightarrow>
     list_all (read_request_ok (sm_chunks s)) (requests_of (map read_action reqs)) \<and>
     map request_seq (requests_of (map read_action reqs)) = map fst reqs"
  by (induction reqs) (auto simp: read_action_def request_ok_def)

text \<open>
  A pump starts from a stream that keeps its invariant, whose mailbox is empty and whose response has
  begun; what the filter emitted before the pump asked for nothing.
\<close>

definition pump_ready :: "('h, 't) crates \<Rightarrow> config \<Rightarrow> sys \<Rightarrow> stream_filter \<Rightarrow> streaming \<Rightarrow> body_plan \<Rightarrow> action list \<Rightarrow> bool" where
  "pump_ready cr c sy fl s body acts \<longleftrightarrow> fl_phase fl = Streaming s \<and>
     stream_ok (sy_content sy) (cfg_max_inflight_reads c) (map request_seq (sy_pending sy)) (data_of (fl_out fl)) s \<and>
     list_all (read_request_ok (sm_chunks s)) (sy_pending sy) \<and> fl_waker fl \<and> fl_config fl = c \<and>
     bridge_open (fl_bridge fl) \<and> bridge_contents (fl_bridge fl) = [] \<and> started cr (sy_content sy) fl body \<and>
     chunks_of (sy_content sy) (sm_chunks s) = body_bytes (sy_content sy) body \<and>
     ends (fl_out fl) = 0 \<and> starts (fl_out fl) = 1 \<and> logs (fl_out fl) = 0 \<and>
     fl_out fl = fl_out (sy_filter sy) @ acts \<and> requests_of acts = []"

lemma no_replies_in_reads:
  "ends (map read_action reqs) = 0" "starts (map read_action reqs) = 0" "logs (map read_action reqs) = 0"
  by (induction reqs) (auto simp: read_action_def)

lemma pump_ended_ok:
  assumes ready: "pump_ready cr c sy fl1 s body acts0"
    and ended: "same_frame fl1 fl'" "fl_phase fl' = Done" "data_of (fl_out fl') = chunks_of (sy_content sy) (sm_chunks s)"
      "fl_out fl' = fl_out fl1 @ acts @ [DropFile (sm_handle s), SendData bs True]" "list_all flush_action acts"
  shows "sys_ok cr c (absorb fl' sy)"
proof -
  note q = action_kinds(4) [OF ended(5)] and r = ready [unfolded pump_ready_def]
  have out: "fl_out fl' = fl_out (sy_filter sy) @ acts0 @ acts @ [DropFile (sm_handle s), SendData bs True]"
    using ended(4) r by simp
  have rest: "sy_filter (absorb fl' sy) = fl'" "sy_content (absorb fl' sy) = sy_content sy"
    "sy_pending (absorb fl' sy) = sy_pending sy"
    using r q unfolding absorb_append [OF out] by simp_all
  have "started cr (sy_content sy) fl' body" using r ended(1,4) by (auto simp: same_frame_def intro: started_mono)
  then have "trace_ok cr (sy_content sy) fl'" using ended(2-4) r q by (auto simp: trace_ok_def Let_def)
  moreover have "settled_ok (absorb fl' sy)"
    using ended(2) r read_ok_is_read(2) [of "sm_chunks s"] by (simp add: settled_ok_def rest)
  moreover have "live_ok c (absorb fl' sy)"
    using ended(1,2) r by (simp add: live_ok_def Let_def rest same_frame_def)
  ultimately show ?thesis using ended(1) r by (simp add: sys_ok_def rest same_frame_def)
qed

lemma pump_streams_ok:
  assumes ready: "pump_ready cr c sy fl1 s body acts0"
    and streams: "same_frame fl1 fl'" "still_streaming (sy_content sy) (cfg_max_inflight_reads c) (map request_seq (sy_pending sy) @ map fst reqs) s fl' s'"
      "fl_out fl' = fl_out fl1 @ acts @ map read_action reqs" "list_all flush_action acts"
      "list_all (request_ok s) reqs" "sm_watermark_depth s' = 0 \<longrightarrow> pumped (cfg_max_inflight_reads c) s'"
  shows "sys_ok cr c (absorb fl' sy)"
proof -
  let ?w = "cfg_max_inflight_reads c" and ?rs = "sy_pending sy" and ?content = "sy_content sy"
  note q = action_kinds(4) [OF streams(4)] and rq = requests_of_reads [OF streams(5)] and r = ready [unfolded pump_ready_def]
  have out: "fl_out fl' = fl_out (sy_filter sy) @ acts0 @ acts @ map read_action reqs" using streams(3) r by simp
  have st: "fl_phase fl' = Streaming s'" "stream_ok ?content ?w (map request_seq ?rs @ map fst reqs) (data_of (fl_out fl')) s'"
    "sm_chunks s' = sm_chunks s"
    using streams(2) by (simp_all add: still_streaming_def)
  have rest: "sy_filter (absorb fl' sy) = fl'" "sy_content (absorb fl' sy) = ?content"
    "sy_pending (absorb fl' sy) = ?rs @ requests_of (map read_action reqs)"
    using r q unfolding absorb_append [OF out] by simp_all
  have sent: "data_of (fl_out fl') = chunks_of ?content (take (sm_next_send s') (sm_chunks s'))"
    using st(2) by (simp add: stream_ok_def)
  have "started cr ?content fl' body" using r streams(1,3) by (auto simp: same_frame_def intro: started_mono)
  moreover have "ends (fl_out fl') = 0" "starts (fl_out fl') = 1" "logs (fl_out fl') = 0"
    using streams(3) r q by (auto simp: no_replies_in_reads)
  moreover have "chunks_of ?content (sm_chunks s') = body_bytes ?content body" using r st(3) by simp
  ultimately have "trace_ok cr ?content fl'" using st(1) sent by (auto simp: trace_ok_def Let_def)
  moreover have reqs_ok: "list_all (read_request_ok (sm_chunks s')) (sy_pending (absorb fl' sy))"
    using r rq st(3) by (simp add: rest)
  then have "settled_ok (absorb fl' sy)"
    using st(1) read_ok_is_read(2) [OF reqs_ok] by (simp add: settled_ok_def rest)
  moreover have "live_ok c (absorb fl' sy)"
    using streams(1,6) r st reqs_ok rq by (simp add: live_ok_def Let_def rest same_frame_def)
  ultimately show ?thesis using streams(1) r by (simp add: sys_ok_def rest same_frame_def)
qed

lemma sys_ok_pump:
  assumes ready: "pump_ready cr c sy fl1 s body acts0" and "pump react fl1 = Some fl'"
  shows "sys_ok cr c (absorb fl' sy)"
proof -
  have "fl_phase fl1 = Streaming s" "fl_config fl1 = c" "fl_waker fl1"
    "stream_ok (sy_content sy) (cfg_max_inflight_reads c) (map request_seq (sy_pending sy)) (data_of (fl_out fl1)) s"
    using ready unfolding pump_ready_def by blast+
  then have "cfg_max_inflight_reads c = cfg_max_inflight_reads (fl_config fl1)" by simp
  from pump_ok [OF \<open>fl_phase fl1 = Streaming s\<close> \<open>stream_ok _ _ _ _ s\<close> \<open>fl_waker fl1\<close> this, of react] assms(2) show ?thesis
    using pump_streams_ok [OF ready] pump_ended_ok [OF ready] by (metis option.inject)
qed

lemma process_open:
  assumes "bridge_open b"
  obtains b' where "bridge_process b = (b', bridge_contents b)" and "bridge_open b'" and "bridge_contents b' = []"
  using bridge.drain_open [OF assms] by (metis prod.collapse)

text \<open>A resolution that ends or goes on is absorbed as it is; one that begins to stream is pumped first.\<close>

lemma sys_ok_resolved:
  assumes "fl_config (sy_filter sy) = c" and "trace_ok cr (sy_content sy) (sy_filter sy)"
    and "resolving (fl_phase (sy_filter sy))" and "sy_pending sy = []"
    and "fl_config fl0 = c" and "fl_out fl0 = fl_out (sy_filter sy)" and "fl_waker fl0"
    and "bridge_open (fl_bridge fl0)" and "bridge_contents (fl_bridge fl0) = []"
    and "resolve_outcome cr (sy_content sy) (cfg_max_inflight_reads c) fl0 fl1 e"
    and "(if e then Some fl1 else case fl_phase fl1 of Streaming _ \<Rightarrow> pump react fl1 | _ \<Rightarrow> Some fl1) = Some fl'"
  shows "sys_ok cr c (absorb fl' sy)"
proof -
  let ?fl = "sy_filter sy"
  have clean: "data_of (fl_out ?fl) = []" "ends (fl_out ?fl) = 0" "starts (fl_out ?fl) = 0" "logs (fl_out ?fl) = 0"
    using assms(2,3) by (cases "fl_phase ?fl"; simp add: trace_ok_def Let_def)+
  obtain acts where frame: "same_frame fl0 fl1" and out: "fl_out fl1 = fl_out ?fl @ acts" and
    kind: "if e then fl_phase fl1 = Done \<and> list_all response_action acts \<and> ends acts = 1
        else (resolving (fl_phase fl1) \<and> list_all resolving_action acts \<and>
            length (requests_of acts) = 1 \<and> list_all resolution_request (requests_of acts) \<and> commits_of acts = 0) \<or>
          (\<exists>s body. fl_phase fl1 = Streaming s \<and> stream_ok (sy_content sy) (cfg_max_inflight_reads c) [] [] s \<and>
            started cr (sy_content sy) fl1 body \<and>
            chunks_of (sy_content sy) (sm_chunks s) = body_bytes (sy_content sy) body \<and> requests_of acts = [] \<and>
            commits_of acts = 0 \<and> data_of acts = [] \<and> ends acts = 0 \<and> starts acts = 1 \<and> logs acts = 0 \<and>
            (\<exists>hs. wire acts = [SendHeaders hs False]))"
    using assms(6,10) by (auto simp: resolve_outcome_def)
  have fr: "fl_config fl1 = c" "bridge_open (fl_bridge fl1)" "bridge_contents (fl_bridge fl1) = []" "fl_waker fl1"
    using frame assms(5,7-9) by (simp_all add: same_frame_def)
  show ?thesis
  proof (cases e)
    case True
    then have "fl' = fl1" and fin: "fl_phase fl1 = Done" "list_all response_action acts" "ends acts = 1"
      using assms(11) kind by simp_all
    then show ?thesis
      using fr clean action_kinds(3) [OF fin(2)] assms(4)
      by (simp add: absorb_append [OF out] sys_ok_def trace_ok_def settled_ok_def live_ok_def out)
  next
    case False
    with kind consider
      (resolves) "resolving (fl_phase fl1)" "list_all resolving_action acts" "length (requests_of acts) = 1"
        "list_all resolution_request (requests_of acts)"
    | (streams) s body where "fl_phase fl1 = Streaming s"
        "stream_ok (sy_content sy) (cfg_max_inflight_reads c) [] [] s"
        "started cr (sy_content sy) fl1 body"
        "chunks_of (sy_content sy) (sm_chunks s) = body_bytes (sy_content sy) body" "requests_of acts = []"
        "data_of acts = []" "ends acts = 0" "starts acts = 1" "logs acts = 0"
      by auto
    then show ?thesis
    proof cases
      case resolves
      then have "fl' = fl1" using assms(11) False by (cases "fl_phase fl1") auto
      then show ?thesis
        using resolves fr clean action_kinds(1) [OF resolves(2)] assms(4)
        by (cases "fl_phase fl1")
           (simp_all add: absorb_append [OF out] sys_ok_def trace_ok_def settled_ok_def live_ok_def out Let_def)
    next
      case streams
      have pump: "pump react fl1 = Some fl'" using assms(11) False streams(1) by simp
      show ?thesis
        by (rule sys_ok_pump [OF _ pump, of cr c sy s body acts])
           (use streams fr clean assms(4) out in \<open>simp add: pump_ready_def\<close>)
    qed
  qed
qed

text \<open>Only the mailbox has been emptied.\<close>

definition drained :: "stream_filter \<Rightarrow> stream_filter \<Rightarrow> bool" where
  "drained fl fl' \<longleftrightarrow> fl_config fl' = fl_config fl \<and> fl_request fl' = fl_request fl \<and> fl_waker fl' = fl_waker fl \<and>
     fl_phase fl' = fl_phase fl \<and> fl_out fl' = fl_out fl \<and> bridge_open (fl_bridge fl') \<and>
     bridge_contents (fl_bridge fl') = []"

lemma callback_run:
  assumes "bridge_open (fl_bridge fl)" and "on_scheduled cr react fl = Some fl'"
  obtains fl0 fl1 e where "drained fl fl0" "handle_events cr (bridge_contents (fl_bridge fl)) fl0 = Some (fl1, e)"
    "(if e then Some fl1 else case fl_phase fl1 of Streaming _ \<Rightarrow> pump react fl1 | _ \<Rightarrow> Some fl1) = Some fl'"
proof -
  obtain b where b: "bridge_process (fl_bridge fl) = (b, bridge_contents (fl_bridge fl))" "bridge_open b" "bridge_contents b = []"
    using assms(1) by (rule process_open)
  from b(2,3) have "drained fl (fl\<lparr>fl_bridge := b\<rparr>)" by (simp add: drained_def)
  then show ?thesis
    using assms(2) b(1) that by (auto simp: on_scheduled_def bind_eq_Some_conv)
qed

text \<open>The reads in the mailbox of a live stream, taken together.\<close>

lemma mailbox_reads:
  assumes "live_ok c sy" and "fl_phase (sy_filter sy) = Streaming s" and "drained (sy_filter sy) fl0"
    and run: "handle_events cr (bridge_contents (fl_bridge (sy_filter sy))) fl0 = Some (fl1, e)"
  shows "same_frame fl0 fl1 \<and>
    (if e then reset_by_read fl0 fl1
     else \<exists>s'. fl_phase fl1 = Streaming s' \<and> fl_out fl1 = fl_out fl0 \<and> sm_chunks s' = sm_chunks s \<and>
       stream_ok (sy_content sy) (cfg_max_inflight_reads c) (map request_seq (sy_pending sy)) (data_of (fl_out (sy_filter sy))) s')"
proof -
  have "list_all (read_event_ok (sy_content sy) (sm_chunks s)) (bridge_contents (fl_bridge (sy_filter sy)))"
    "stream_ok (sy_content sy) (cfg_max_inflight_reads c)
      (map request_seq (sy_pending sy) @ map event_seq (bridge_contents (fl_bridge (sy_filter sy)))) (data_of (fl_out (sy_filter sy))) s"
    using assms(1,2) by (simp_all add: live_ok_def Let_def)
  from read_events_ok [OF _ this, of fl0 cr] run assms(2,3) show ?thesis by (auto simp: drained_def)
qed

text \<open>
  What a callback does: nothing but drain the mailbox; or treat the one answer a search waits for; or
  fail on a read; or take the reads that are there and pump.
\<close>

lemma callback_cases:
  assumes "live_ok c sy" and "fl_config (sy_filter sy) = c" and "config_ok c"
    and "on_scheduled cr react (sy_filter sy) = Some fl'"
  obtains
    (drains) "drained (sy_filter sy) fl'" "\<And>s. fl_phase (sy_filter sy) \<noteq> Streaming s"
      "fl_phase (sy_filter sy) = Done \<or> bridge_contents (fl_bridge (sy_filter sy)) = []"
  | (resolves) fl0 fl1 e ev where "resolving (fl_phase (sy_filter sy))" "fl_waker (sy_filter sy)" "sy_pending sy = []"
      "bridge_contents (fl_bridge (sy_filter sy)) = [ev]" "event_ok (sy_content sy) ev"
      "handle_event cr ev fl0 = Some (fl1, e)" "drained (sy_filter sy) fl0" "resolve_outcome cr (sy_content sy) (cfg_max_inflight_reads c) fl0 fl1 e"
      "(if e then Some fl1 else case fl_phase fl1 of Streaming _ \<Rightarrow> pump react fl1 | _ \<Rightarrow> Some fl1) = Some fl'"
  | (fails) s fl0 acts where "fl_phase (sy_filter sy) = Streaming s" "drained (sy_filter sy) fl0" "same_frame fl0 fl'"
      "fl_phase fl' = Done" "fl_out fl' = fl_out (sy_filter sy) @ acts" "data_of acts = []" "ends acts = 1" "starts acts = 0"
      "0 < logs acts" "requests_of acts = []" "commits_of acts = 0" "wire acts = [SendData [] True]"
  | (pumps) s s1 fl0 fl1 where "fl_phase (sy_filter sy) = Streaming s" "drained (sy_filter sy) fl0" "same_frame fl0 fl1"
      "fl_phase fl1 = Streaming s1" "fl_out fl1 = fl_out (sy_filter sy)" "sm_chunks s1 = sm_chunks s"
      "stream_ok (sy_content sy) (cfg_max_inflight_reads c) (map request_seq (sy_pending sy)) (data_of (fl_out fl1)) s1"
      "pump react fl1 = Some fl'"
proof -
  let ?fl = "sy_filter sy" and ?w = "cfg_max_inflight_reads c"
  define evs where "evs = bridge_contents (fl_bridge ?fl)"
  have "bridge_open (fl_bridge ?fl)" using assms(1) by (simp add: live_ok_def Let_def)
  then obtain fl0 fl1 e where dr: "drained ?fl fl0" and run: "handle_events cr evs fl0 = Some (fl1, e)" and
    res: "(if e then Some fl1 else case fl_phase fl1 of Streaming _ \<Rightarrow> pump react fl1 | _ \<Rightarrow> Some fl1) = Some fl'"
    using assms(4) unfolding evs_def by (rule callback_run)
  have fl0: "fl_config fl0 = c" "fl_phase fl0 = fl_phase ?fl" "fl_out fl0 = fl_out ?fl" using dr assms(2) by (simp_all add: drained_def)
  have search: thesis if r: "resolving (fl_phase ?fl)"
  proof (cases evs)
    case Nil
    then show thesis using drains dr run res fl0(2) r by (cases "fl_phase ?fl") (auto simp: evs_def)
  next
    case (Cons ev rest)
    have "length (sy_pending sy) + length evs = 1 \<and> fl_waker ?fl \<and> list_all (event_ok (sy_content sy)) evs"
      using assms(1) r by (cases "fl_phase ?fl") (simp_all add: live_ok_def Let_def evs_def)
    then have one: "rest = []" "sy_pending sy = []" "event_ok (sy_content sy) ev" "fl_waker ?fl" using Cons by auto
    have ev: "handle_event cr ev fl0 = Some (fl1, e)"
      using run Cons one(1) by (auto simp: emit_def split: option.splits bool.splits)
    then have "resolve_outcome cr (sy_content sy) ?w fl0 fl1 e"
      using fl0(1,2) r assms(3) one(3) by (intro resolution_event_outcome) simp_all
    then show thesis using resolves [OF r one(4,2) _ one(3) ev dr _ res] Cons one(1) by (simp add: evs_def)
  qed
  show thesis
  proof (cases "fl_phase ?fl")
    case (Streaming s)
    note reads = mailbox_reads [OF assms(1) Streaming dr run [unfolded evs_def]]
    show thesis
    proof (cases e)
      case True
      then show thesis
        using reads fails [OF Streaming dr] res fl0(3) by (auto simp: reset_by_read_def)
    next
      case False
      then show thesis
        using reads pumps [OF Streaming dr] res fl0(3) by auto
    qed
  next
    case Done
    have "list_all is_read_event evs" using assms(1) Done by (simp add: live_ok_def Let_def evs_def)
    then have "fl1 = fl0" "\<not> e" using run read_events_done [of fl0 evs cr] fl0(2) Done by auto
    then show thesis using drains dr res fl0(2) Done by simp
  next
    case Idle
    then have "evs = []" using assms(1) by (simp add: live_ok_def Let_def evs_def)
    then show thesis using drains dr run res fl0(2) Idle by (auto simp: evs_def)
  qed (use search in simp_all)
qed

lemma sys_ok_drained:
  assumes "sys_ok cr c sy" and "sy_alive sy" and "drained (sy_filter sy) fl" and "\<And>s. fl_phase (sy_filter sy) \<noteq> Streaming s"
    and "fl_phase (sy_filter sy) = Done \<or> bridge_contents (fl_bridge (sy_filter sy)) = []"
  shows "sys_ok cr c (absorb fl (sy\<lparr>sy_scheduled := n\<rparr>))"
proof -
  have "absorb fl (sy\<lparr>sy_scheduled := n\<rparr>) = sy\<lparr>sy_scheduled := n, sy_filter := fl\<rparr>"
    using assms(3) by (simp add: absorb_def drained_def)
  moreover have "trace_ok cr (sy_content sy) fl"
    by (rule trace_ok_neutral [of cr "sy_content sy" "sy_filter sy" _ "[]"])
       (use assms(1,3) in \<open>simp_all add: sys_ok_def drained_def\<close>)
  ultimately show ?thesis
    using assms by (cases "fl_phase (sy_filter sy)")
      (auto simp: sys_ok_def settled_ok_def live_ok_def drained_def Let_def)
qed

lemma sys_ok_failed:
  assumes "sys_ok cr c sy" and "sy_alive sy" and "fl_phase (sy_filter sy) = Streaming s" and "drained (sy_filter sy) fl0"
    and "same_frame fl0 fl" and "fl_phase fl = Done" and "fl_out fl = fl_out (sy_filter sy) @ acts" and "data_of acts = []"
    and "ends acts = 1" and "starts acts = 0" and "0 < logs acts" and "requests_of acts = []"
  shows "sys_ok cr c (absorb fl (sy\<lparr>sy_scheduled := n\<rparr>))"
proof -
  let ?fl = "sy_filter sy"
  have parts: "fl_config ?fl = c" "trace_ok cr (sy_content sy) ?fl" "live_ok c sy"
    using assms(1,2) by (auto simp: sys_ok_def)
  obtain body where tr: "started cr (sy_content sy) ?fl body"
      "chunks_of (sy_content sy) (sm_chunks s) = body_bytes (sy_content sy) body"
      "data_of (fl_out ?fl) = chunks_of (sy_content sy) (take (sm_next_send s) (sm_chunks s))"
      "ends (fl_out ?fl) = 0" "starts (fl_out ?fl) = 1" "logs (fl_out ?fl) = 0"
    using parts(2) assms(3) by (auto simp: trace_ok_def Let_def)
  have "prefix (data_of (fl_out fl)) (body_bytes (sy_content sy) body)"
    using assms(7,8) tr(2,3) by (metis append.right_neutral append_take_drop_id chunks_of_simps(3) data_of_simps(3) prefixI)
  moreover have "started cr (sy_content sy) fl body"
    using tr(1) assms(4,5,7) by (auto simp: same_frame_def drained_def intro: started_mono)
  ultimately have "trace_ok cr (sy_content sy) fl" using tr assms(6-11) by (auto simp: trace_ok_def Let_def)
  moreover have "list_all is_read_request (sy_pending sy)"
    using parts(3) assms(3) read_ok_is_read(2) by (simp add: live_ok_def Let_def) blast
  ultimately show ?thesis
    using assms(4-7,12) parts(1)
    by (simp add: absorb_append [OF assms(7)] absorb_def sys_ok_def settled_ok_def live_ok_def same_frame_def drained_def)
qed

lemma sys_ok_scheduled:
  assumes "sys_ok cr c sy" and "config_ok c" and "sy_alive sy" and "on_scheduled cr react (sy_filter sy) = Some fl'"
  shows "sys_ok cr c (absorb fl' (sy\<lparr>sy_scheduled := n\<rparr>))"
proof -
  let ?fl = "sy_filter sy" and ?sy = "sy\<lparr>sy_scheduled := n\<rparr>"
  have parts: "fl_config ?fl = c" "trace_ok cr (sy_content sy) ?fl" "live_ok c sy"
    using assms(1,3) by (auto simp: sys_ok_def)
  from parts(3,1) assms(2,4) show ?thesis
  proof (cases rule: callback_cases)
    case drains
    then show ?thesis using assms(1,3) by (intro sys_ok_drained) auto
  next
    case (resolves fl0 fl1 e ev)
    then show ?thesis
      using parts by (intro sys_ok_resolved [of ?sy c cr fl0 fl1 e react]) (simp_all add: drained_def)
  next
    case (fails s fl0 acts)
    then show ?thesis using assms(1,3) by (intro sys_ok_failed [of cr c sy s fl0 fl' acts])
  next
    case (pumps s s1 fl0 fl1)
    have lv: "fl_waker ?fl" "list_all (read_request_ok (sm_chunks s)) (sy_pending sy)"
      using parts(3) pumps(1) by (simp_all add: live_ok_def Let_def)
    obtain body where tr: "started cr (sy_content sy) ?fl body"
        "chunks_of (sy_content sy) (sm_chunks s) = body_bytes (sy_content sy) body"
        "ends (fl_out ?fl) = 0" "starts (fl_out ?fl) = 1" "logs (fl_out ?fl) = 0"
      using parts(2) pumps(1) by (auto simp: trace_ok_def Let_def)
    have "started cr (sy_content sy) fl1 body"
      by (rule started_mono [OF tr(1), of _ "[]"]) (use pumps in \<open>simp_all add: same_frame_def drained_def\<close>)
    then show ?thesis
      by (intro sys_ok_pump [OF _ pumps(8), of cr c ?sy s1 body "[]"])
         (use pumps lv tr parts(1) in \<open>simp add: pump_ready_def same_frame_def drained_def\<close>)
  qed
qed

section \<open>Every reachable state\<close>

lemma sys_ok_step: "sys_step cr sy sy' \<Longrightarrow> config_ok c \<Longrightarrow> sys_ok cr c sy \<Longrightarrow> sys_ok cr c sy'"
proof (induction rule: sys_step.induct)
  case (headers sy kvs fl)
  then show ?case using sys_ok_headers by blast
next
  case (answered sy rs1 r rs2 content' ev)
  then show ?case using sys_ok_answered by blast
next
  case (scheduled sy n react fl)
  then show ?case using sys_ok_scheduled by blast
next
  case (watermark sy k)
  then show ?case using sys_ok_watermark by blast
next
  case (complete sy)
  then show ?case using sys_ok_complete by blast
qed

lemma reachable_ok: "sys_reach cr c sy \<Longrightarrow> config_ok c \<Longrightarrow> sys_ok cr c sy"
  by (induction rule: sys_reach.induct) (auto intro: sys_ok_init sys_ok_step)

end
