(* ===== verification/Stream_Sample.thy ===== *)
theory Stream_Sample
  imports Stream_Safety
begin

text \<open>
  A run of the system for closed examples: a GET of a five-byte file without tags, dates or
  compression, from the request headers to the end of the response.
\<close>

definition sample_cr :: "(string, string) crates" where
  "sample_cr = \<lparr>cr_headers = sample_crate, cr_text = sample_text_crates, cr_percent_decode = Some,
     cr_mime_guess = (\<lambda>ext. if ext = ''txt'' then Some ''text/plain'' else None),
     cr_method_from_bytes = Some, cr_target_os = Linux\<rparr>"

definition sample_config :: config where
  "sample_config = (default_config ''/srv'' None)\<lparr>cfg_etag := False, cfg_last_modified := False\<rparr>"

definition sample_get :: "(bytes \<times> bytes) list" where
  "sample_get = [('':method'', ''GET''), ('':path'', ''/a'')]"

definition sample_rd :: request_data where
  "sample_rd = \<lparr>rd_method_head = False, rd_if_none_match = None, rd_if_modified_since = None, rd_if_match = None,
     rd_if_unmodified_since = None, rd_if_range = None, rd_range_header = None, rd_relative = ''a'',
     rd_trailing_slash = False\<rparr>"

definition sample_ctx :: open_ctx where
  "sample_ctx = \<lparr>ctx_encoding = None, ctx_content_type = ''application/octet-stream'', ctx_add_vary = False\<rparr>"

definition sample_stat :: file_stat where
  "sample_stat = \<lparr>st_size = 5, st_mtime_unix = 7, st_mtime_nanos = 0, st_is_dir = False\<rparr>"

definition sample_plan_headers :: "header list" where
  "sample_plan_headers = [(''content-type'', ''application/octet-stream''), (''accept-ranges'', ''bytes''),
     (''content-length'', ''5'')]"

definition sample_chunks :: "chunk list" where
  "sample_chunks = [FileChunk 0 5]"

definition sample_streaming :: "(nat \<times> bytes) list \<Rightarrow> nat \<Rightarrow> nat \<Rightarrow> streaming" where
  "sample_streaming ready cursor inflight =
     \<lparr>sm_handle = 7, sm_chunks = sample_chunks, sm_ready = ready, sm_next_send = 0, sm_issue_cursor = cursor,
      sm_inflight = inflight, sm_watermark_depth = 0\<rparr>"

definition sample_open :: action where
  "sample_open = OpenFile \<lparr>or_path = ''/srv/a'', or_containment_root = Some ''/srv'',
     or_deny_symlinks = False, or_prefetch_len = 65536\<rparr> sample_ctx"

definition sample_filter :: "phase \<Rightarrow> io_event bridge \<Rightarrow> action list \<Rightarrow> stream_filter" where
  "sample_filter p b out = \<lparr>fl_config = sample_config, fl_bridge = b, fl_waker = True,
     fl_request = Some sample_rd, fl_phase = p, fl_out = out\<rparr>"

definition sample_trace :: "action list" where
  "sample_trace = [sample_open, Commit, SendHeaders (('':status'', ''200'') # sample_plan_headers) False,
     ReadFile 7 0 5 0]"

lemma sample_ascii: "from_utf8_lossy ''/a'' = ''/a''"
  by (rule lossy_of_valid, rule ascii_valid) simp

lemma sample_headers: "collect_headers sample_cr sample_get =
    raw_empty\<lparr>raw_method := Some ''GET'', raw_path := Some ''/a''\<rparr>"
  by (simp add: collect_headers_def sample_get_def collect_header_def sample_cr_def raw_empty_def
      fill_slot_def sample_ascii del: from_utf8_lossy.simps)

lemma sample_resolve: "resolve_request_path Some ''/a'' \<lparr>pol_serve_dotfiles = False, pol_max_path_len = 4096\<rparr> =
    PathOk ''a'' False"
  by (simp add: resolve_request_path_def strip_query_and_fragment_def percent_decode_segment_def
      hex_digit_value_def reject_reason_for_segment_def ends_with_char_def starts_with_char_def
      is_windows_reserved_name_def RESERVED_def eq_ignore_ascii_case_def to_ascii_lowercase_def
      to_ascii_lower_def char_of_def bit_Suc_0_iff Let_def)

lemma sample_candidates: "build_file_candidates sample_cr sample_config ''a'' False None =
    [\<lparr>cand_fs_path = ''/srv/a'', cand_encoding = None, cand_content_type = ''application/octet-stream'',
      cand_add_vary = False\<rparr>]"
  by (simp add: build_file_candidates_def sample_config_def default_config_def content_type_for_def
      extract_extension_def sample_cr_def path_join_def is_absolute_def rsplit_once_def path_extension_def
      path_file_name_def components_def piece_components_def)

lemma sample_requested: "on_request_headers sample_cr sample_get (filter_new sample_config) =
    Some (sample_filter (ResolvingFile []) Empty [sample_open])"
proof -
  have fields: "cfg_strip_prefix sample_config = None" "cfg_serve_dotfiles sample_config = False"
    "cfg_root sample_config = ''/srv''" "cfg_follow_symlinks_within_root sample_config"
    "cfg_chunk_size sample_config = 65536" "cr_percent_decode sample_cr = Some"
    by (simp_all add: sample_config_def default_config_def sample_cr_def)
  show ?thesis
    by (simp add: on_request_headers_def sample_headers raw_empty_def filter_new_def fields sample_resolve
        sample_candidates open_next_candidate_def submit_open_def set_phase_def emit_def sample_filter_def
        bridge_new_def sample_open_def sample_ctx_def sample_rd_def)
qed

lemma sample_texts: "to_radix 10 5 = ''5''" "to_radix 10 200 = ''200''"
  by (simp_all add: to_radix.simps digit_char_def char_of_def bit_Suc_0_iff)

lemma sample_get_plan: "plan_response sample_crate (request_facts_of sample_config sample_rd sample_stat sample_ctx)
    (file_meta_of sample_stat) =
    Some \<lparr>plan_status = 200, plan_headers = sample_plan_headers, plan_body = WholeBody 5\<rparr>"
proof -
  define facts where "facts = request_facts_of sample_config sample_rd sample_stat sample_ctx"
  have facts: "rf_range_header facts = None" "rf_conditionals facts = no_conditionals" "\<not> rf_etag_enabled facts"
    "\<not> rf_last_modified_enabled facts" "rf_content_encoding facts = None" "\<not> rf_add_vary facts"
    "rf_cache_control facts = None" "rf_content_type facts = ''application/octet-stream''" "\<not> rf_method_head facts"
    by (simp_all add: facts_def request_facts_of_def sample_rd_def sample_config_def default_config_def
        sample_ctx_def)
  have "evaluate_conditionals sample_crate (effective_conditionals facts) v = Proceed" for v
    by (simp add: effective_conditionals_def facts evaluate_conditionals_def decode_def)
  moreover have "whole_plan sample_crate facts (file_meta_of sample_stat) =
      Some \<lparr>plan_status = 200, plan_headers = sample_plan_headers, plan_body = WholeBody 5\<rparr>"
    by (simp add: whole_plan_def facts push_validator_headers_def push_encoding_headers_def header_value_def
        sample_plan_headers_def file_meta_of_def sample_stat_def dec_u64_def sample_texts)
       (simp add: sample_crate_def)
  ultimately show ?thesis
    by (simp add: plan_response_eq effective_ranges_def facts_def [symmetric] facts(1))
qed

text \<open>The states of the run.\<close>

definition sample_asked :: sys where
  "sample_asked = (sys_init sample_config)\<lparr>sy_filter := sample_filter (ResolvingFile []) Empty [sample_open],
     sy_pending := [ROpen \<lparr>or_path = ''/srv/a'', or_containment_root = Some ''/srv'',
       or_deny_symlinks = False, or_prefetch_len = 65536\<rparr> sample_ctx]\<rparr>"

definition sample_opened :: sys where
  "sample_opened = (sys_init sample_config)\<lparr>sy_content := ''hello'', sy_scheduled := 1, sy_filter :=
     sample_filter (ResolvingFile []) (OneEvent (Opened 7 sample_stat sample_ctx [])) (take 2 sample_trace)\<rparr>"

definition sample_reading :: sys where
  "sample_reading = (sys_init sample_config)\<lparr>sy_content := ''hello'', sy_pending := [RRead 7 0 5 0],
     sy_filter := sample_filter (Streaming (sample_streaming [] 1 1)) Empty sample_trace\<rparr>"

definition sample_read :: sys where
  "sample_read = (sys_init sample_config)\<lparr>sy_content := ''hello'', sy_scheduled := 1, sy_filter :=
     sample_filter (Streaming (sample_streaming [] 1 1)) (OneEvent (ReadEvent 0 (Inr ''hello'')))
       (sample_trace @ [Commit])\<rparr>"

definition sample_done :: sys where
  "sample_done = (sys_init sample_config)\<lparr>sy_content := ''hello'', sy_filter :=
     sample_filter Done Empty (sample_trace @ [Commit, DropFile 7, SendData ''hello'' True])\<rparr>"

lemma sample_reach_asked: "sys_reach sample_cr sample_config sample_asked"
proof -
  have "sys_step sample_cr (sys_init sample_config)
      (absorb (sample_filter (ResolvingFile []) Empty [sample_open]) (sys_init sample_config))"
    by (rule sys_step.headers [where kvs = sample_get])
       (simp_all add: sys_init_def sample_requested, simp add: filter_new_def)
  moreover have "absorb (sample_filter (ResolvingFile []) Empty [sample_open]) (sys_init sample_config) = sample_asked"
    by (simp add: absorb_def sample_asked_def sys_init_def filter_new_def sample_filter_def sample_open_def)
  ultimately show ?thesis using sys_reach.intros by metis
qed

lemma sample_reach_opened: "sys_reach sample_cr sample_config sample_opened"
proof -
  define r where "r = ROpen \<lparr>or_path = ''/srv/a'', or_containment_root = Some ''/srv'',
       or_deny_symlinks = False, or_prefetch_len = 65536\<rparr> sample_ctx"
  have "engine_answer [] r ''hello'' (open_event sample_ctx (Inr (7, sample_stat, [])))"
    unfolding r_def by (rule open_file) (simp_all add: sample_stat_def)
  then have "sys_step sample_cr sample_asked (absorb (deliver (Opened 7 sample_stat sample_ctx []) (sy_filter sample_asked))
      (sample_asked\<lparr>sy_pending := [], sy_content := ''hello''\<rparr>))"
    using sys_step.answered [of sample_asked "[]" r "[]"]
    by (simp add: sample_asked_def r_def sys_init_def open_event_def)
  moreover have "absorb (deliver (Opened 7 sample_stat sample_ctx []) (sy_filter sample_asked))
      (sample_asked\<lparr>sy_pending := [], sy_content := ''hello''\<rparr>) = sample_opened"
    by (simp add: absorb_def sample_asked_def sample_opened_def sys_init_def sample_filter_def deliver_def emit_def
        sample_trace_def)
  ultimately show ?thesis using sample_reach_asked sys_reach.step by metis
qed

lemma sample_chunks: "file_chunks sample_config 0 5 = Some sample_chunks"
  by (simp add: file_chunks_def sample_config_def default_config_def sample_chunks_def file_chunks_loop.simps)

lemma sample_served: "on_scheduled sample_cr react (sy_filter sample_opened) = Some (sy_filter sample_reading)"
proof -
  let ?fl = "sample_filter (ResolvingFile []) Empty (take 2 sample_trace)"
  have plan: "plan_response (cr_headers sample_cr)
      (request_facts_of sample_config sample_rd sample_stat sample_ctx) (file_meta_of sample_stat) =
      Some \<lparr>plan_status = 200, plan_headers = sample_plan_headers, plan_body = WholeBody 5\<rparr>"
    using sample_get_plan by (simp add: sample_cr_def)
  have "handle_event sample_cr (Opened 7 sample_stat sample_ctx []) ?fl =
      Some (sample_filter (Streaming (sample_streaming [] 0 0)) Empty (take 3 sample_trace), False)"
    using plan sample_chunks
    by (simp add: handle_event_def handle_opened_def sample_stat_def [THEN arg_cong [of _ _ st_is_dir]] serve_file_def sample_texts
        sample_filter_def execute_plan_def begin_streaming_def seed_prefetch_def sample_trace_def
        set_phase_def emit_def sample_streaming_def sample_chunks_def)
  moreover have "pump react (sample_filter (Streaming (sample_streaming [] 0 0)) Empty (take 3 sample_trace)) =
      Some (sy_filter sample_reading)"
    by (simp add: pump_def flush_loop.simps issue_loop.simps sample_filter_def sample_streaming_def sample_chunks_def
        sample_reading_def sample_trace_def emit_def sample_config_def default_config_def)
  ultimately show ?thesis
    by (simp add: on_scheduled_def sample_opened_def sample_filter_def)
qed

lemma sample_reach_reading: "sys_reach sample_cr sample_config sample_reading"
proof -
  have "sys_step sample_cr sample_opened (absorb (sy_filter sample_reading) (sample_opened\<lparr>sy_scheduled := 0\<rparr>))"
    by (rule sys_step.scheduled [OF _ _ sample_served]) (simp_all add: sample_opened_def sys_init_def)
  moreover have "absorb (sy_filter sample_reading) (sample_opened\<lparr>sy_scheduled := 0\<rparr>) = sample_reading"
    by (simp add: absorb_def sample_opened_def sample_reading_def sys_init_def sample_filter_def sample_trace_def)
  ultimately show ?thesis using sample_reach_opened sys_reach.step by metis
qed

lemma sample_step_read: "sys_step sample_cr sample_reading
    (absorb (deliver (ReadEvent 0 (Inr ''hello'')) (sy_filter sample_reading))
      (sample_reading\<lparr>sy_pending := [], sy_content := ''hello''\<rparr>))"
proof -
  have "engine_answer ''hello'' (RRead 7 0 5 0) ''hello'' (ReadEvent 0 (Inr ''hello''))"
    using read_succeeds [of "''hello''" 7 0 5 0] by (simp add: slice_def)
  then show ?thesis
    using sys_step.answered [of sample_reading "[]" "RRead 7 0 5 0" "[]"]
    by (simp add: sample_reading_def sys_init_def)
qed

lemma sample_reach_read: "sys_reach sample_cr sample_config sample_read"
proof -
  have "absorb (deliver (ReadEvent 0 (Inr ''hello'')) (sy_filter sample_reading))
      (sample_reading\<lparr>sy_pending := [], sy_content := ''hello''\<rparr>) = sample_read"
    by (simp add: absorb_def sample_reading_def sample_read_def sys_init_def sample_filter_def deliver_def emit_def
        sample_trace_def)
  then show ?thesis using sample_step_read sample_reach_reading sys_reach.step by metis
qed

lemma sample_finished: "on_scheduled sample_cr react (sy_filter sample_read) = Some (sy_filter sample_done)"
  by (simp add: on_scheduled_def sample_read_def sample_filter_def handle_event_def handle_read_def pump_def
      flush_loop.simps sample_streaming_def sample_chunks_def sample_done_def sample_trace_def emit_def set_phase_def)

lemma sample_reach_done: "sys_reach sample_cr sample_config sample_done"
proof -
  have "sys_step sample_cr sample_read (absorb (sy_filter sample_done) (sample_read\<lparr>sy_scheduled := 0\<rparr>))"
    by (rule sys_step.scheduled [OF _ _ sample_finished]) (simp_all add: sample_read_def sys_init_def)
  moreover have "absorb (sy_filter sample_done) (sample_read\<lparr>sy_scheduled := 0\<rparr>) = sample_done"
    by (simp add: absorb_def sample_read_def sample_done_def sys_init_def sample_filter_def sample_trace_def)
  ultimately show ?thesis using sample_reach_read sys_reach.step by metis
qed

lemma sample_config_ok: "config_ok sample_config"
  by (simp add: config_ok_def sample_config_def default_config_def)

end
