(* ===== verification/Filter_Confinement.thy ===== *)
theory Filter_Confinement
  imports Stream_Sample
begin

text \<open>
  What the filter may ask of the I/O engine. A discipline says which actions are allowed under a
  configuration; if it allows everything that is no request, every confined open, and every read of a planned
  chunk, then every handler keeps to it, and so does every reachable state of a stream. The
  disciplines follow: all opens are confined to the document root, and all reads are of at most a chunk, within the
  64-bit range of offsets. A third says how much each open may prefetch.
\<close>

section \<open>Disciplines\<close>

fun asks_engine :: "action \<Rightarrow> bool" where
  "asks_engine (OpenFile _ _) \<longleftrightarrow> True"
| "asks_engine (ReadFile _ _ _ _) \<longleftrightarrow> True"
| "asks_engine _ \<longleftrightarrow> False"

fun phase_chunks :: "phase \<Rightarrow> chunk list" where
  "phase_chunks (Streaming s) = sm_chunks s"
| "phase_chunks _ = []"

definition obeys :: "(config \<Rightarrow> request_data option \<Rightarrow> action \<Rightarrow> bool) \<Rightarrow> stream_filter \<Rightarrow> bool" where
  "obeys allowed fl \<longleftrightarrow> list_all (allowed (fl_config fl) (fl_request fl)) (fl_out fl) \<and>
     (\<forall>off len h i. FileChunk off len \<in> set (phase_chunks (fl_phase fl)) \<longrightarrow>
        allowed (fl_config fl) (fl_request fl) (ReadFile h off len i)) \<and>
     (fl_waker fl \<longrightarrow> fl_request fl \<noteq> None)"

text \<open>
  A handler keeps the configuration and the discipline. A filter that can ask the engine has its request.
\<close>

definition keeps :: "(config \<Rightarrow> request_data option \<Rightarrow> action \<Rightarrow> bool) \<Rightarrow> stream_filter \<Rightarrow> stream_filter \<Rightarrow> bool" where
  "keeps allowed fl fl' \<longleftrightarrow> fl_config fl' = fl_config fl \<and> (obeys allowed fl \<longrightarrow> obeys allowed fl')"

lemma keeps_refl [simp]: "keeps allowed fl fl"
  by (simp add: keeps_def)

lemma keeps_trans: "keeps allowed a b \<Longrightarrow> keeps allowed b c \<Longrightarrow> keeps allowed a c"
  by (simp add: keeps_def)

lemma keeps_emit: "list_all (allowed (fl_config fl) (fl_request fl)) acts \<Longrightarrow> keeps allowed fl (emit acts fl)"
  by (simp add: keeps_def obeys_def emit_def)

lemma keeps_phase:
  "set (phase_chunks p) \<subseteq> set (phase_chunks (fl_phase fl)) \<Longrightarrow> keeps allowed fl (fl\<lparr>fl_phase := p\<rparr>)"
  by (auto simp: keeps_def obeys_def)

lemma keeps_bridge [simp]: "keeps allowed fl (fl\<lparr>fl_bridge := b\<rparr>)"
  by (simp add: keeps_def obeys_def)

lemma watermark_chunks [simp]: "phase_chunks (fl_phase (on_watermark w fl)) = phase_chunks (fl_phase fl)"
  by (cases "fl_phase fl")
     (auto simp: on_watermark_def on_above_high_watermark_def on_below_low_watermark_def emit_def Let_def
       split: watermark.split)

definition of_chunks :: "chunk list \<Rightarrow> read_request \<Rightarrow> bool" where
  "of_chunks chunks r = (case r of (i, off, len, h) \<Rightarrow> FileChunk off len \<in> set chunks)"

lemma issue_loop_chunks:
  "issue_loop m s reqs = (s', reqs') \<Longrightarrow> list_all (of_chunks (sm_chunks s)) reqs \<Longrightarrow>
     sm_chunks s' = sm_chunks s \<and> list_all (of_chunks (sm_chunks s)) reqs'"
proof (induction m s reqs rule: issue_loop.induct)
  case (1 m s reqs)
  let ?i = "sm_issue_cursor s" and ?s = "s\<lparr>sm_issue_cursor := sm_issue_cursor s + 1\<rparr>"
  show ?case
  proof (cases "sm_inflight s < m \<and> ?i < length (sm_chunks s)")
    case False
    then have "issue_loop m s reqs = (s, reqs)" by (subst issue_loop.simps) auto
    then show ?thesis using "1.prems" by simp
  next
    case True
    show ?thesis
    proof (cases "map_of (sm_ready ?s) ?i")
      case (Some bs)
      then have "issue_loop m s reqs = issue_loop m ?s reqs"
        using True by (subst issue_loop.simps) (simp add: Let_def)
      then show ?thesis using "1.IH"(1) [OF True refl refl] "1.prems" Some by simp
    next
      case None
      show ?thesis
      proof (cases "sm_chunks ?s ! ?i")
        case (Inline bs)
        then have "issue_loop m s reqs = issue_loop m ?s reqs"
          using True None by (subst issue_loop.simps) (simp add: Let_def)
        then show ?thesis using "1.IH"(2) [OF True refl refl _ Inline] "1.prems" None by simp
      next
        case (FileChunk off len)
        then have step: "issue_loop m s reqs = issue_loop m (?s\<lparr>sm_inflight := sm_inflight ?s + 1\<rparr>)
            (reqs @ [(?i, off, len, sm_handle ?s)])"
          using True None by (subst issue_loop.simps) (simp add: Let_def)
        have "sm_chunks s ! ?i \<in> set (sm_chunks s)" using True by simp
        then have "FileChunk off len \<in> set (sm_chunks s)" using FileChunk by simp
        then show ?thesis
          using "1.IH"(3) [OF True refl refl _ FileChunk] "1.prems" None step by (simp add: of_chunks_def)
      qed
    qed
  qed
qed

section \<open>Every handler keeps a discipline\<close>

locale discipline =
  fixes allowed :: "config \<Rightarrow> request_data option \<Rightarrow> action \<Rightarrow> bool"
  assumes others: "\<not> asks_engine a \<Longrightarrow> allowed c r a"
    and opens: "or_containment_root req = Some (cfg_root c) \<Longrightarrow>
      or_deny_symlinks req = (\<not> cfg_follow_symlinks_within_root c) \<Longrightarrow>
      or_prefetch_len req = (if \<not> rd_method_head rd \<and> rd_range_header rd = None then cfg_chunk_size c else 0) \<Longrightarrow>
      allowed c (Some rd) (OpenFile req ctx)"
    and reads: "body_chunks c body = Some chunks \<Longrightarrow> FileChunk off len \<in> set chunks \<Longrightarrow>
      allowed c r (ReadFile h off len i)"
    and requested: "allowed c None a \<Longrightarrow> allowed c (Some rd) a"
begin

lemma allowed_other [simp]:
  "allowed c r (ReadDirectory p)" "allowed c r (DropFile h)" "allowed c r Commit" "allowed c r (SendResponse st hs b)"
  "allowed c r (SendHeaders hs e)" "allowed c r (SendData bs e)" "allowed c r (LogReadError seq err)"
  by (simp_all add: others)

lemma allowed_dropped [simp]:
  "list_all (allowed c r) (dropped_with p)" "list_all (allowed c r) (concat (map dropped_with_event evs))"
proof -
  show "list_all (allowed c r) (dropped_with p)" by (cases p) auto
  show "list_all (allowed c r) (concat (map dropped_with_event evs))"
  proof (induction evs)
    case (Cons e evs)
    then show ?case by (cases e) auto
  qed simp
qed

lemma allowed_dropped_event [simp]: "list_all (allowed c r) (dropped_with_event ev)"
  by (cases ev) auto

lemma keeps_set_phase:
  "set (phase_chunks p) \<subseteq> set (phase_chunks (fl_phase fl)) \<Longrightarrow> keeps allowed fl (set_phase p fl)"
  by (auto simp: set_phase_def keeps_def obeys_def emit_def)

lemma keeps_phase_emit:
  "set (phase_chunks p) \<subseteq> set (phase_chunks (fl_phase fl)) \<Longrightarrow> list_all (allowed (fl_config fl) (fl_request fl)) acts \<Longrightarrow>
     keeps allowed fl (emit acts (set_phase p fl))"
  by (rule keeps_trans [OF keeps_set_phase keeps_emit]) (simp_all add: set_phase_def emit_def)

lemma keeps_respond: "keeps allowed fl (respond_status st fl)"
  by (simp add: respond_status_def keeps_phase_emit)

lemma keeps_submit_open: "submit_open p ctx fl = Some fl' \<Longrightarrow> keeps allowed fl fl'"
proof -
  assume s: "submit_open p ctx fl = Some fl'"
  show ?thesis
  proof (cases "fl_request fl")
    case None
    then show ?thesis using s by (auto simp: submit_open_def keeps_def obeys_def emit_def split: if_splits)
  next
    case (Some rd)
    then show ?thesis using s by (auto simp: submit_open_def Let_def opens split: if_splits intro!: keeps_emit)
  qed
qed

lemma keeps_submit_after:
  "submit_open p ctx (fl\<lparr>fl_phase := ph\<rparr>) = Some fl' \<Longrightarrow> phase_chunks ph = [] \<Longrightarrow> keeps allowed fl fl'"
  by (rule keeps_trans [OF keeps_phase keeps_submit_open]) simp_all

lemma keeps_next_candidate: "open_next_candidate fl = Some (fl', e) \<Longrightarrow> keeps allowed fl fl'"
  by (auto simp: open_next_candidate_def bind_eq_Some_conv keeps_respond
      split: phase.splits list.splits intro: keeps_submit_after)

lemma keeps_fallback: "directory_fallback d fl = Some (fl', e) \<Longrightarrow> keeps allowed fl fl'"
  by (auto simp: directory_fallback_def keeps_respond split: directory_mode.splits if_splits intro!: keeps_emit)

lemma keeps_next_index: "open_next_index fl = Some (fl', e) \<Longrightarrow> keeps allowed fl fl'"
  by (auto simp: open_next_index_def bind_eq_Some_conv split: phase.splits list.splits
      intro: keeps_submit_after dest: keeps_fallback)

lemma keeps_advance: "advance_after_open_miss fl = Some (fl', e) \<Longrightarrow> keeps allowed fl fl'"
  by (auto simp: advance_after_open_miss_def split: option.splits resolver.splits
      dest: keeps_next_candidate keeps_next_index)

lemma keeps_open_error: "handle_open_error cr err fl = Some (fl', e) \<Longrightarrow> keeps allowed fl fl'"
  by (auto simp: handle_open_error_def keeps_respond split: option.splits resolver.splits bool.splits
      dest: keeps_next_candidate keeps_next_index)

lemma keeps_after_phase: "keeps allowed (set_phase p fl) fl' \<Longrightarrow> phase_chunks p = [] \<Longrightarrow> keeps allowed fl fl'"
  by (rule keeps_trans [OF keeps_set_phase]) simp_all

lemma keeps_directory: "handle_directory cr fl = Some (fl', e) \<Longrightarrow> keeps allowed fl fl'"
  by (auto simp: handle_directory_def Let_def keeps_respond split: option.splits if_splits
      intro!: keeps_phase_emit dest!: keeps_fallback keeps_next_index intro: keeps_after_phase)

lemma keeps_dir: "handle_dir cr res fl = Some (fl', e) \<Longrightarrow> keeps allowed fl fl'"
  by (auto simp: handle_dir_def Let_def bind_eq_Some_conv keeps_respond split: sum.splits option.splits
      intro!: keeps_phase_emit)

lemma keeps_streaming:
  assumes "body_chunks (fl_config fl) body = Some chunks"
  shows "keeps allowed fl (fst (begin_streaming hs h chunks prefetch fl))"
  using reads [OF assms]
  by (auto simp: begin_streaming_def Let_def set_phase_def emit_def keeps_def obeys_def)

lemma keeps_plan: "execute_plan plan h prefetch fl = Some (fl', e) \<Longrightarrow> keeps allowed fl fl'"
proof -
  assume e: "execute_plan plan h prefetch fl = Some (fl', e)"
  show ?thesis
  proof (cases "plan_body plan = EmptyBody")
    case True
    then show ?thesis using e by (auto simp: execute_plan_def intro!: keeps_phase_emit)
  next
    case False
    with e obtain chunks hs pf where "body_chunks (fl_config fl) (plan_body plan) = Some chunks"
        "begin_streaming hs h chunks pf fl = (fl', e)"
      by (auto simp: execute_plan_def Let_def bind_eq_Some_conv)
    then show ?thesis using keeps_streaming by (metis fst_conv)
  qed
qed

lemma keeps_drop: "keeps allowed fl fl1 \<Longrightarrow> keeps allowed fl (emit [DropFile h] fl1)"
  by (rule keeps_trans [OF _ keeps_emit]) auto

lemma keeps_opened: "handle_opened cr h stat ctx prefetch fl = Some (fl', e) \<Longrightarrow> keeps allowed fl fl'"
  by (auto simp: handle_opened_def serve_file_def bind_eq_Some_conv split: if_splits option.splits
      dest!: keeps_advance keeps_directory keeps_plan intro: keeps_drop)

lemma keeps_read: "keeps allowed fl (fst (handle_read seq res fl))"
  by (auto simp: handle_read_def Let_def keeps_def obeys_def emit_def set_phase_def
      split: phase.split sum.split)

lemma keeps_event: "handle_event cr ev fl = Some (fl', e) \<Longrightarrow> keeps allowed fl fl'"
  using keeps_read [of fl]
  by (cases ev) (auto simp: handle_event_def dest: keeps_opened keeps_open_error keeps_dir, metis fst_conv)

lemma keeps_events: "handle_events cr evs fl = Some (fl', e) \<Longrightarrow> keeps allowed fl fl'"
proof (induction evs arbitrary: fl)
  case (Cons ev evs)
  then obtain fl1 e1 where ev: "handle_event cr ev fl = Some (fl1, e1)" by (auto split: option.splits)
  show ?case
  proof (cases e1)
    case True
    then show ?thesis
      using Cons.prems ev by (auto intro!: keeps_trans [OF keeps_event [OF ev] keeps_emit])
  next
    case False
    then show ?thesis using Cons ev keeps_trans [OF keeps_event [OF ev]] by auto
  qed
qed simp

lemma keeps_watermark: "keeps allowed fl (on_watermark w fl)"
  by (auto simp: on_watermark_def on_above_high_watermark_def on_below_low_watermark_def Let_def keeps_def
      obeys_def emit_def split: watermark.split phase.split)

lemma keeps_watermarks: "keeps allowed fl (fold on_watermark ws fl)"
  by (induction ws arbitrary: fl) (auto intro: keeps_trans keeps_watermark)

lemma keeps_send_data: "keeps allowed fl (send_data react bs fl)"
  unfolding send_data_def Let_def by (rule keeps_trans [OF keeps_emit keeps_watermarks]) simp

lemma keeps_flush: "keeps allowed fl (case flush_loop react fl of Returned fl' \<Rightarrow> fl' | Broke fl' \<Rightarrow> fl')"
proof (induction react fl rule: flush_loop.induct)
  case (1 react fl)
  show ?case
  proof (cases "fl_phase fl")
    case (Streaming s)
    show ?thesis
    proof (cases "sm_watermark_depth s = 0 \<and> map_of (sm_ready s) (sm_next_send s) \<noteq> None")
      case True
      then obtain bs where some: "map_of (sm_ready s) (sm_next_send s) = Some bs" by auto
      let ?fl = "fl\<lparr>fl_phase := Streaming (s\<lparr>sm_ready := AList.delete (sm_next_send s) (sm_ready s),
          sm_next_send := sm_next_send s + 1\<rparr>)\<rparr>"
      show ?thesis
      proof (cases "sm_next_send s = usize_sub (length (sm_chunks s)) 1")
        case last: True
        have "keeps allowed fl (emit [SendData bs True] (set_phase Done ?fl))"
          by (rule keeps_trans [OF keeps_phase keeps_phase_emit]) (use Streaming in simp_all)
        then show ?thesis using True some Streaming last by (simp add: flush_loop.simps [of react fl] Let_def)
      next
        case False
        have "keeps allowed fl (send_data react bs ?fl)"
          by (rule keeps_trans [OF keeps_phase keeps_send_data]) (use Streaming in simp)
        then show ?thesis
          using "1.IH" [OF Streaming _ refl some refl refl False] True some Streaming False
          by (subst flush_loop.simps) (auto simp: Let_def intro: keeps_trans)
      qed
    qed (use Streaming in \<open>auto simp: flush_loop.simps [of react fl]\<close>)
  qed (simp_all add: flush_loop.simps [of react fl])
qed

lemma keeps_issue:
  assumes "fl_phase fl = Streaming s" and "issue_loop m s [] = (s', requests)"
  shows "keeps allowed fl (emit (map (\<lambda>(index, off, len, h). ReadFile h off len index) requests)
    (fl\<lparr>fl_phase := Streaming s'\<rparr>))"
  using issue_loop_chunks [OF assms(2)] assms(1)
  by (fastforce simp: keeps_def obeys_def emit_def list_all_iff of_chunks_def)

lemma keeps_pump: "pump react fl = Some fl' \<Longrightarrow> keeps allowed fl fl'"
proof -
  assume p: "pump react fl = Some fl'"
  show ?thesis
  proof (cases "flush_loop react fl")
    case (Returned fl1)
    then show ?thesis using p keeps_flush [of fl react] by (simp add: pump_def)
  next
    case (Broke fl1)
    have "keeps allowed fl1 fl'"
      using p Broke keeps_issue [of fl1] by (auto simp: pump_def split: if_splits phase.splits prod.splits)
    then show ?thesis using Broke keeps_flush [of fl react] by (auto intro: keeps_trans)
  qed
qed

lemma keeps_scheduled: "on_scheduled cr react fl = Some fl' \<Longrightarrow> keeps allowed fl fl'"
proof -
  assume s: "on_scheduled cr react fl = Some fl'"
  obtain b evs where b: "bridge_process (fl_bridge fl) = (b, evs)" by fastforce
  obtain fl1 e where run: "handle_events cr evs (fl\<lparr>fl_bridge := b\<rparr>) = Some (fl1, e)"
    using s b by (auto simp: on_scheduled_def bind_eq_Some_conv)
  have k: "keeps allowed fl fl1" by (rule keeps_trans [OF keeps_bridge keeps_events [OF run]])
  show ?thesis
    using s b run k keeps_pump [of react fl1]
    by (auto simp: on_scheduled_def split: if_splits phase.splits intro: keeps_trans)
qed

lemma keeps_complete: "keeps allowed fl (on_stream_complete fl)"
  unfolding on_stream_complete_def by (rule keeps_trans [OF keeps_bridge keeps_emit]) simp

lemma keeps_deliver: "keeps allowed fl (deliver ev fl)"
  by (auto simp: deliver_def split: prod.split sum.split intro!: keeps_trans [OF keeps_bridge keeps_emit])

lemma keeps_begin:
  assumes "keeps allowed (set_phase p (fl\<lparr>fl_request := Some request, fl_waker := k\<rparr>)) fl'" and "phase_chunks p = []"
    and "fl_request fl = None \<or> fl_request fl = Some request"
  shows "keeps allowed fl fl'"
proof -
  have "list_all (allowed c None) acts \<Longrightarrow> list_all (allowed c (Some rd)) acts" for c rd acts
    using requested by (auto simp: list_all_iff)
  then have "keeps allowed fl (fl\<lparr>fl_request := Some request, fl_waker := k\<rparr>)"
    using assms(3) requested by (auto simp: keeps_def obeys_def)
  then show ?thesis by (rule keeps_trans [OF _ keeps_after_phase [OF assms(1,2)]])
qed

lemma keeps_headers: "on_request_headers cr kvs fl = Some fl' \<Longrightarrow> keeps allowed fl fl'"
  unfolding on_request_headers_def Let_def
  by (auto simp: keeps_respond split: if_splits option.splits validated_path.splits
      intro!: keeps_phase_emit
      dest!: keeps_next_candidate intro: keeps_begin)

lemma step_keeps: "sys_step cr sy sy' \<Longrightarrow> keeps allowed (sy_filter sy) (sy_filter sy')"
proof (induction rule: sys_step.induct)
  case (headers sy kvs fl)
  then show ?case using keeps_headers by (simp add: absorb_def Let_def)
next
  case (scheduled sy n react fl)
  then show ?case using keeps_scheduled by (simp add: absorb_def Let_def)
qed (simp_all add: absorb_def Let_def keeps_deliver keeps_watermark keeps_complete)

lemma reachable_obeys: "sys_reach cr c sy \<Longrightarrow> fl_config (sy_filter sy) = c \<and> obeys allowed (sy_filter sy)"
proof (induction rule: sys_reach.induct)
  case start
  then show ?case by (simp add: sys_init_def filter_new_def obeys_def)
next
  case (step sy sy')
  then show ?case using step_keeps [of cr sy sy'] by (simp add: keeps_def)
qed

lemma reachable_allowed: "sys_reach cr c sy \<Longrightarrow> a \<in> set (fl_out (sy_filter sy)) \<Longrightarrow>
     allowed c (fl_request (sy_filter sy)) a"
  using reachable_obeys [of cr c sy] by (auto simp: obeys_def list_all_iff)

end

section \<open>Confined opens\<close>

fun confined :: "config \<Rightarrow> action \<Rightarrow> bool" where
  "confined c (OpenFile req ctx) \<longleftrightarrow> or_containment_root req = Some (cfg_root c) \<and>
     or_deny_symlinks req = (\<not> cfg_follow_symlinks_within_root c)"
| "confined c _ \<longleftrightarrow> True"

interpretation confinement: discipline "\<lambda>c r. confined c"
proof unfold_locales
  fix a c
  assume "\<not> asks_engine a"
  then show "confined c a" by (cases a) auto
qed simp_all

lemma opened_confined:
  "sys_reach cr c sy \<Longrightarrow> OpenFile req ctx \<in> set (fl_out (sy_filter sy)) \<Longrightarrow>
     or_containment_root req = Some (cfg_root c) \<and> or_deny_symlinks req = (\<not> cfg_follow_symlinks_within_root c)"
  using confinement.reachable_allowed [of cr c sy "OpenFile req ctx"] by simp

section \<open>Bounded reads\<close>

fun bounded :: "config \<Rightarrow> action \<Rightarrow> bool" where
  "bounded c (ReadFile h off len i) \<longleftrightarrow> len \<le> cfg_chunk_size c \<and> unat off + len < 2 ^ 64"
| "bounded c _ \<longleftrightarrow> True"

fun short_chunk :: "config \<Rightarrow> chunk \<Rightarrow> bool" where
  "short_chunk c (FileChunk off len) \<longleftrightarrow> len \<le> cfg_chunk_size c \<and> unat off + len < 2 ^ 64"
| "short_chunk c (Inline bs) \<longleftrightarrow> True"

lemma file_chunks_loop_short:
  "file_chunks_loop k off e acc = Some cs \<Longrightarrow> unat k \<le> cfg_chunk_size c \<Longrightarrow> list_all (short_chunk c) acc \<Longrightarrow>
     list_all (short_chunk c) cs"
proof -
  have "unat k \<le> cfg_chunk_size c \<longrightarrow> list_all (short_chunk c) acc \<longrightarrow> list_all (short_chunk c) cs"
    if "file_chunks_loop k off e acc = Some cs"
    using that
  proof (rule file_chunks_loop.raw_induct [rotated])
    fix loop k off e acc cs
    assume IH: "\<And>k off e acc cs. loop k off e acc = Some cs \<Longrightarrow>
        unat k \<le> cfg_chunk_size c \<longrightarrow> list_all (short_chunk c) acc \<longrightarrow> list_all (short_chunk c) cs"
      and step: "(if off < e then loop k (off + min (e - off) k) e (acc @ [FileChunk off (unat (min (e - off) k))])
        else Some acc) = Some cs"
    have "unat (min (e - off) k) \<le> unat k" by (simp add: word_le_nat_alt [symmetric])
    moreover have "unat off + unat (min (e - off) k) < 2 ^ 64" if "off < e"
    proof -
      have "unat (min (e - off) k) \<le> unat (e - off)" by (simp add: word_le_nat_alt [symmetric])
      also have "\<dots> = unat e - unat off" using that by (simp add: unat_sub_if_size word_less_nat_alt)
      finally show ?thesis
        using that by (auto simp: word_less_nat_alt intro: order.strict_trans1 [OF _ unsigned_less [of e, simplified]])
    qed
    ultimately show "unat k \<le> cfg_chunk_size c \<longrightarrow> list_all (short_chunk c) acc \<longrightarrow> list_all (short_chunk c) cs"
      using step IH by (auto split: if_splits)
  qed
  then show "file_chunks_loop k off e acc = Some cs \<Longrightarrow> unat k \<le> cfg_chunk_size c \<Longrightarrow> list_all (short_chunk c) acc \<Longrightarrow>
     list_all (short_chunk c) cs" by blast
qed

lemma file_chunks_short: "file_chunks c start len = Some cs \<Longrightarrow> list_all (short_chunk c) cs"
  unfolding file_chunks_def
  by (erule file_chunks_loop_short) (simp_all add: unat_of_nat take_bit_eq_mod)

lemma segment_chunks_short:
  "segment_chunks c rs acc = Some cs \<Longrightarrow> list_all (short_chunk c) acc \<Longrightarrow> list_all (short_chunk c) cs"
  by (induction rs arbitrary: acc) (auto simp: bind_eq_Some_conv dest: file_chunks_short)

lemma part_chunks_short:
  "part_chunks c ps acc = Some cs \<Longrightarrow> list_all (short_chunk c) acc \<Longrightarrow> list_all (short_chunk c) cs"
  by (induction ps arbitrary: acc) (auto simp: bind_eq_Some_conv dest: file_chunks_short)

lemma body_chunks_short: "body_chunks c body = Some cs \<Longrightarrow> list_all (short_chunk c) cs"
  by (cases body)
     (auto simp: bind_eq_Some_conv dest: file_chunks_short segment_chunks_short part_chunks_short)

interpretation read_bound: discipline "\<lambda>c r. bounded c"
proof unfold_locales
  fix a c
  assume "\<not> asks_engine a"
  then show "bounded c a" by (cases a) auto
next
  fix c body chunks off len h i
  assume "body_chunks c body = Some chunks" and "FileChunk off len \<in> set chunks"
  then show "bounded c (ReadFile h off len i)" using body_chunks_short by (fastforce simp: list_all_iff)
qed simp

lemma read_bounded:
  "sys_reach cr c sy \<Longrightarrow> ReadFile h off len i \<in> set (fl_out (sy_filter sy)) \<Longrightarrow> len \<le> cfg_chunk_size c \<and> unat off + len < 2 ^ 64"
  using read_bound.reachable_allowed [of cr c sy "ReadFile h off len i"] by simp

section \<open>What an open prefetches\<close>

definition prefetch_of :: "config \<Rightarrow> request_data \<Rightarrow> nat" where
  "prefetch_of c rd = (if \<not> rd_method_head rd \<and> rd_range_header rd = None then cfg_chunk_size c else 0)"

fun foretold :: "config \<Rightarrow> request_data option \<Rightarrow> action \<Rightarrow> bool" where
  "foretold c r (OpenFile req ctx) \<longleftrightarrow> (\<exists>rd. r = Some rd \<and> or_prefetch_len req = prefetch_of c rd)"
| "foretold c r _ \<longleftrightarrow> True"

interpretation prefetching: discipline foretold
proof unfold_locales
  fix a c r
  assume "\<not> asks_engine a"
  then show "foretold c r a" by (cases a) auto
next
  fix a c rd
  assume "foretold c None a"
  then show "foretold c (Some rd) a" by (cases a) auto
qed (simp_all add: prefetch_of_def)

lemma opened_prefetch:
  "sys_reach cr c sy \<Longrightarrow> OpenFile req ctx \<in> set (fl_out (sy_filter sy)) \<Longrightarrow>
     \<exists>rd. fl_request (sy_filter sy) = Some rd \<and> or_prefetch_len req = prefetch_of c rd"
  using prefetching.reachable_allowed [of cr c sy "OpenFile req ctx"] by simp

end
