(* ===== verification/Stream_Liveness.thy ===== *)
theory Stream_Liveness
  imports Stream_Sample
begin

text \<open>
  Liveness of a response that streams: whatever order the engine answers in and the callbacks run
  in, as long as they run, the stream ends or Envoy holds it by a watermark.
\<close>

section \<open>Inevitability\<close>

text \<open>On every way of driving the system the goal is reached, after finitely many steps.\<close>

inductive inevitable :: "('s \<Rightarrow> 's \<Rightarrow> bool) \<Rightarrow> ('s \<Rightarrow> bool) \<Rightarrow> 's \<Rightarrow> bool" for R goal where
  now: "goal s \<Longrightarrow> inevitable R goal s"
| later: "R s s' \<Longrightarrow> (\<And>t. R s t \<Longrightarrow> inevitable R goal t) \<Longrightarrow> inevitable R goal s"

lemma inevitable_by_wf:
  assumes "wf r" and "I s"
    and "\<And>s. I s \<Longrightarrow> \<not> goal s \<Longrightarrow> \<exists>t. R s t"
    and "\<And>s t. I s \<Longrightarrow> \<not> goal s \<Longrightarrow> R s t \<Longrightarrow> goal t \<or> I t \<and> (rank t, rank s) \<in> r"
  shows "inevitable R goal s"
proof -
  have "wf (inv_image r rank)" using assms(1) by (rule wf_inv_image)
  then show ?thesis using assms(2)
  proof (induction s rule: wf_induct_rule)
    case (less s)
    show ?case
    proof (cases "goal s")
      case True
      then show ?thesis by (rule inevitable.now)
    next
      case False
      obtain t where "R s t" using assms(3) [OF less.prems False] by blast
      then show ?thesis
      proof (rule inevitable.later)
        fix t assume "R s t"
        from assms(4) [OF less.prems False this] show "inevitable R goal t"
          using less.IH [of t] inevitable.now [of goal t R] by auto
      qed
    qed
  qed
qed

lemma inevitable_by_rank:
  fixes rank :: "'s \<Rightarrow> nat \<times> nat"
  assumes "I s"
    and "\<And>s. I s \<Longrightarrow> \<not> goal s \<Longrightarrow> \<exists>t. R s t"
    and "\<And>s t. I s \<Longrightarrow> \<not> goal s \<Longrightarrow> R s t \<Longrightarrow> goal t \<or> I t \<and> (rank t, rank s) \<in> less_than <*lex*> less_than"
  shows "inevitable R goal s"
  by (rule inevitable_by_wf [where r = "less_than <*lex*> less_than" and I = I and rank = rank])
     (use assms in \<open>simp_all add: wf_lex_prod\<close>)

section \<open>Driving the system\<close>

text \<open>The engine answers a request, in any order, or Envoy runs a scheduled callback.\<close>

inductive drive_step :: "('h, 't) crates \<Rightarrow> sys \<Rightarrow> sys \<Rightarrow> bool" for cr where
  answer: "sy_pending sy = rs1 @ r # rs2 \<Longrightarrow> engine_answer (sy_content sy) r content' event \<Longrightarrow>
    drive_step cr sy (absorb (deliver event (sy_filter sy))
      (sy\<lparr>sy_pending := rs1 @ rs2, sy_content := content'\<rparr>))"
| wake: "sy_alive sy \<Longrightarrow> sy_scheduled sy = Suc n \<Longrightarrow>
    on_scheduled cr react (sy_filter sy) = Some fl \<Longrightarrow>
    drive_step cr sy (absorb fl (sy\<lparr>sy_scheduled := n\<rparr>))"

lemma drive_step_is_step: "drive_step cr sy sy' \<Longrightarrow> sys_step cr sy sy'"
  by (induction rule: drive_step.induct) (auto intro: sys_step.intros)

lemma absorb_fields: "sy_filter (absorb fl sy) = fl" "sy_alive (absorb fl sy) = sy_alive sy" "sy_content (absorb fl sy) = sy_content sy"
  by (simp_all add: absorb_def Let_def)

lemma drive_alive: "drive_step cr sy sy' \<Longrightarrow> sy_alive sy' = sy_alive sy"
  by (induction rule: drive_step.induct) (auto simp: absorb_def Let_def)

section \<open>Progress of the pump\<close>

lemma issue_loop_counts:
  "issue_loop w s acc = (s', reqs) \<Longrightarrow>
     sm_issue_cursor s + length reqs \<le> sm_issue_cursor s' + length acc \<and> sm_next_send s' = sm_next_send s \<and>
     sm_chunks s' = sm_chunks s \<and> sm_watermark_depth s' = sm_watermark_depth s"
proof (induction w s acc rule: issue_loop.induct)
  case (1 w s acc)
  show ?case
  proof (cases "sm_inflight s < w \<and> sm_issue_cursor s < length (sm_chunks s)")
    case False
    then show ?thesis using "1.prems" unfolding issue_loop.simps [of w s acc] if_not_P [OF False] by auto
  next
    case True
    show ?thesis
    proof (cases "map_of (sm_ready s) (sm_issue_cursor s)")
      case (Some bs)
      then show ?thesis
        using "1.prems" "1.IH"(1) [OF True refl refl] True by (simp add: issue_loop.simps [of w s] Let_def)
    next
      case None
      then show ?thesis
        using "1.prems" "1.IH"(2,3) [OF True refl refl] True
        by (cases "sm_chunks s ! sm_issue_cursor s") (auto simp: issue_loop.simps [of w s] Let_def)
    qed
  qed
qed

fun flush_outcome :: "flush_result \<Rightarrow> stream_filter" where
  "flush_outcome (Returned fl) = fl"
| "flush_outcome (Broke fl) = fl"

lemma flush_loop_counts:
  assumes "fl_phase fl = Streaming s" and "fl_phase (flush_outcome (flush_loop react fl)) = Streaming s'"
  shows "sm_chunks s' = sm_chunks s \<and>
    (flush_outcome (flush_loop react fl) = fl \<or> sm_next_send s < sm_next_send s')"
  using assms
proof (induction react fl arbitrary: s rule: flush_loop.induct)
  case (1 react fl)
  note phase = "1.prems"(1)
  show ?case
  proof (cases "sm_watermark_depth s = 0")
    case False
    then show ?thesis using "1.prems" by (simp add: flush_loop.simps [of react fl])
  next
    case depth: True
    show ?thesis
    proof (cases "map_of (sm_ready s) (sm_next_send s)")
      case None
      then show ?thesis using "1.prems" depth by (simp add: flush_loop.simps [of react fl])
    next
      case (Some bs)
      let ?s = "s\<lparr>sm_ready := AList.delete (sm_next_send s) (sm_ready s), sm_next_send := sm_next_send s + 1\<rparr>"
      let ?fl = "fl\<lparr>fl_phase := Streaming ?s\<rparr>"
      show ?thesis
      proof (cases "sm_next_send s = usize_sub (length (sm_chunks s)) 1")
        case True
        then have "flush_loop react fl = Returned (emit [SendData bs True] (set_phase Done ?fl))"
          using phase depth Some by (simp add: flush_loop.simps [of react fl] Let_def)
        then show ?thesis using "1.prems"(2) by (simp add: emit_def set_phase_def)
      next
        case False
        have eq: "flush_loop react fl = flush_loop react (send_data react bs ?fl)"
          using phase depth Some False by (subst flush_loop.simps) (simp add: Let_def)
        obtain d where sent: "fl_phase (send_data react bs ?fl) = Streaming (?s\<lparr>sm_watermark_depth := d\<rparr>)"
          using send_data_streaming [of ?fl ?s react bs] by auto
        have "fl_phase (flush_outcome (flush_loop react (send_data react bs ?fl))) = Streaming s'"
          using "1.prems"(2) eq by simp
        from "1.IH" [OF phase depth refl Some refl refl False sent this]
        show ?thesis using sent "1.prems"(2) eq by auto
      qed
    qed
  qed
qed

lemma pump_counts:
  assumes "fl_phase fl = Streaming s" and "pump react fl = Some fl'" and "fl_phase fl' = Streaming s'"
  shows "sm_chunks s' = sm_chunks s \<and>
    (sm_next_send s < sm_next_send s' \<or>
     sm_next_send s' = sm_next_send s \<and> sm_watermark_depth s' = sm_watermark_depth s \<and>
       (\<exists>reqs. fl_out fl' = fl_out fl @ map read_action reqs \<and>
          sm_issue_cursor s + length reqs \<le> sm_issue_cursor s'))"
proof (cases "flush_loop react fl")
  case (Returned fl1)
  then have "fl' = fl1" using assms(2) by (simp add: pump_def)
  then show ?thesis
    using flush_loop_counts [OF assms(1), of react s'] assms(1,3) Returned by (auto intro: exI [of _ "[]"])
next
  case (Broke fl1)
  have act: "(\<lambda>(index, off, len, h). ReadFile h off len index) = read_action"
    by (simp add: read_action_def fun_eq_iff)
  show ?thesis
  proof (cases "fl_phase fl1")
    case (Streaming s1)
    obtain s2 reqs where iss: "issue_loop (cfg_max_inflight_reads (fl_config fl1)) s1 [] = (s2, reqs)" by fastforce
    have "fl' = emit (map read_action reqs) (fl1\<lparr>fl_phase := Streaming s2\<rparr>)"
      using assms(2) Broke Streaming iss by (auto simp: pump_def act split: if_splits)
    then have fl': "s' = s2" "fl_out fl' = fl_out fl1 @ map read_action reqs"
      using assms(3) by (simp_all add: emit_def)
    show ?thesis
      using flush_loop_counts [OF assms(1), of react s1] issue_loop_counts [OF iss] Broke Streaming fl' assms(1)
      by auto
  qed (use assms(2,3) Broke in \<open>auto simp: pump_def split: if_splits\<close>)
qed

lemma read_events_counts:
  assumes "fl_phase fl = Streaming s" and "list_all is_read_event evs"
    and "handle_events cr evs fl = Some (fl', e)" and "fl_phase fl' = Streaming s'"
  shows "sm_chunks s' = sm_chunks s \<and> sm_next_send s' = sm_next_send s \<and>
    sm_issue_cursor s' = sm_issue_cursor s \<and> sm_watermark_depth s' = sm_watermark_depth s \<and> fl_out fl' = fl_out fl"
  using assms
proof (induction evs arbitrary: fl s)
  case (Cons ev evs)
  obtain seq res where ev: "ev = ReadEvent seq res" using Cons.prems(2) by (cases ev) auto
  show ?case
  proof (cases res)
    case (Inl err)
    have "handle_event cr ev fl = Some (fst (handle_read seq (Inl err) fl), True)"
      "fl_phase (fst (handle_read seq (Inl err) fl)) = Done"
      using Cons.prems(1) by (simp_all add: ev Inl handle_event_def handle_read_def Let_def emit_def set_phase_def)
    then have "fl_phase fl' = Done" using Cons.prems(3) by (auto simp: emit_def)
    then show ?thesis using Cons.prems(4) by simp
  next
    case (Inr bs)
    let ?s = "s\<lparr>sm_inflight := sm_inflight s - 1, sm_ready := AList.update seq bs (sm_ready s)\<rparr>"
    let ?fl = "fl\<lparr>fl_phase := Streaming ?s\<rparr>"
    have "handle_event cr ev fl = Some (?fl, False)"
      using Cons.prems(1) by (simp add: ev Inr handle_event_def handle_read_def Let_def)
    then have "handle_events cr evs ?fl = Some (fl', e)" using Cons.prems(3) by simp
    from Cons.IH [OF _ _ this Cons.prems(4), of ?s] Cons.prems(2) show ?thesis by simp
  qed
qed simp

section \<open>Every step of a live stream counts\<close>

definition stream_rank :: "sys \<Rightarrow> nat \<times> nat" where
  "stream_rank sy =
     (case fl_phase (sy_filter sy) of
        Streaming s \<Rightarrow>
          (length (sm_chunks s) - sm_next_send s,
           3 * (length (sm_chunks s) - sm_issue_cursor s) + 2 * length (sy_pending sy) + sy_scheduled sy +
             2 * sm_watermark_depth s)
      | _ \<Rightarrow> (0, 0))"

text \<open>What the invariant says of a state that streams.\<close>

lemma streaming_facts:
  assumes "sys_reach cr c sy" and "config_ok c" and "sy_alive sy" and "fl_phase (sy_filter sy) = Streaming s"
  shows "bridge_open (fl_bridge (sy_filter sy))" and "fl_waker (sy_filter sy)" and "fl_config (sy_filter sy) = c"
    and "list_all is_read_request (sy_pending sy)"
    and "list_all (read_event_ok (sy_content sy) (sm_chunks s)) (bridge_contents (fl_bridge (sy_filter sy)))"
    and "list_all is_read_event (bridge_contents (fl_bridge (sy_filter sy)))"
    and "stream_ok (sy_content sy) (cfg_max_inflight_reads c)
      (map request_seq (sy_pending sy) @ map event_seq (bridge_contents (fl_bridge (sy_filter sy))))
      (data_of (fl_out (sy_filter sy))) s"
    and "sy_pending sy = [] \<Longrightarrow> sy_scheduled sy = 0 \<Longrightarrow> sm_watermark_depth s \<noteq> 0"
proof -
  let ?fl = "sy_filter sy" and ?w = "cfg_max_inflight_reads c"
  have ok: "fl_config ?fl = c" "live_ok c sy"
    using reachable_ok [OF assms(1,2)] assms(3) by (simp_all add: sys_ok_def)
  then have lv: "bridge_open (fl_bridge ?fl)" "fl_waker ?fl"
      "bridge_contents (fl_bridge ?fl) \<noteq> [] \<longrightarrow> 0 < sy_scheduled sy"
      "list_all (read_request_ok (sm_chunks s)) (sy_pending sy)"
      "list_all (read_event_ok (sy_content sy) (sm_chunks s)) (bridge_contents (fl_bridge ?fl))"
      "stream_ok (sy_content sy) ?w (map request_seq (sy_pending sy) @ map event_seq (bridge_contents (fl_bridge ?fl)))
        (data_of (fl_out ?fl)) s"
      "sy_scheduled sy = 0 \<and> sm_watermark_depth s = 0 \<longrightarrow> pumped ?w s"
    using assms(4) by (simp_all add: live_ok_def Let_def)
  show "bridge_open (fl_bridge ?fl)" "fl_waker ?fl" "fl_config ?fl = c"
    "list_all (read_event_ok (sy_content sy) (sm_chunks s)) (bridge_contents (fl_bridge ?fl))"
    "stream_ok (sy_content sy) ?w (map request_seq (sy_pending sy) @ map event_seq (bridge_contents (fl_bridge ?fl)))
        (data_of (fl_out ?fl)) s"
    using lv ok(1) by simp_all
  show "list_all is_read_request (sy_pending sy)" using lv(4) by (rule read_ok_is_read(2))
  show "list_all is_read_event (bridge_contents (fl_bridge ?fl))" using lv(5) by (rule read_ok_is_read(1))
  show "sm_watermark_depth s \<noteq> 0" if "sy_pending sy = []" "sy_scheduled sy = 0"
  proof
    assume "sm_watermark_depth s = 0"
    then have "stream_ok (sy_content sy) ?w [] (data_of (fl_out ?fl)) s" "pumped ?w s"
      using lv that by auto
    moreover have "0 < ?w" using assms(2) by (simp add: config_ok_def)
    ultimately show False by (rule stream_ok_not_stalled)
  qed
qed

text \<open>A callback on a stream returns; the stream goes on or is done.\<close>

lemma streaming_wakes:
  assumes "sys_reach cr c sy" and "config_ok c" and "sy_alive sy" and "fl_phase (sy_filter sy) = Streaming s"
  obtains fl0 fl1 e fl' where "fl_out fl0 = fl_out (sy_filter sy)" "fl_phase fl0 = Streaming s"
    "handle_events cr (bridge_contents (fl_bridge (sy_filter sy))) fl0 = Some (fl1, e)"
    "on_scheduled cr react (sy_filter sy) = Some fl'"
    "e \<and> fl' = fl1 \<and> fl_phase fl1 = Done \<or>
     \<not> e \<and> (\<exists>s1. fl_phase fl1 = Streaming s1) \<and> pump react fl1 = Some fl' \<and>
       (fl_phase fl' = Done \<or> (\<exists>s'. fl_phase fl' = Streaming s'))"
proof -
  let ?fl = "sy_filter sy" and ?w = "cfg_max_inflight_reads c" and ?evs = "bridge_contents (fl_bridge (sy_filter sy))"
  note f = streaming_facts [OF assms]
  obtain b where b: "bridge_process (fl_bridge ?fl) = (b, ?evs)" using f(1) by (rule process_open)
  define fl0 where "fl0 = ?fl\<lparr>fl_bridge := b\<rparr>"
  have fl0: "fl_phase fl0 = Streaming s" "fl_out fl0 = fl_out ?fl" "fl_waker fl0" "fl_config fl0 = c"
    using assms(4) f(2,3) by (simp_all add: fl0_def)
  obtain fl1 e where run: "handle_events cr ?evs fl0 = Some (fl1, e)" and frame: "same_frame fl0 fl1"
    and kind: "if e then reset_by_read fl0 fl1
       else \<exists>s'. fl_phase fl1 = Streaming s' \<and> fl_out fl1 = fl_out fl0 \<and>
         stream_ok (sy_content sy) ?w (map request_seq (sy_pending sy)) (data_of (fl_out ?fl)) s' \<and>
         sm_chunks s' = sm_chunks s"
    using read_events_ok [OF fl0(1) f(5,7), of cr] by blast
  have on: "on_scheduled cr react ?fl =
      (if e then Some fl1 else case fl_phase fl1 of Streaming _ \<Rightarrow> pump react fl1 | _ \<Rightarrow> Some fl1)"
    using b run by (simp add: on_scheduled_def fl0_def)
  show ?thesis
  proof (cases e)
    case True
    then show ?thesis using that [OF fl0(2,1) run] on kind by (simp add: reset_by_read_def)
  next
    case False
    then obtain s1 where s1: "fl_phase fl1 = Streaming s1" "fl_out fl1 = fl_out ?fl"
        "stream_ok (sy_content sy) ?w (map request_seq (sy_pending sy)) (data_of (fl_out ?fl)) s1"
      using kind [unfolded if_not_P [OF False]] fl0(2) by auto
    have "fl_waker fl1" "?w = cfg_max_inflight_reads (fl_config fl1)"
      using frame fl0(3,4) by (simp_all add: same_frame_def)
    from pump_ok [OF s1(1) _ this, of "sy_content sy" "map request_seq (sy_pending sy)" react] s1(2,3)
    obtain fl' where "pump react fl1 = Some fl'" "fl_phase fl' = Done \<or> (\<exists>s'. fl_phase fl' = Streaming s')"
      by (fastforce simp: still_streaming_def)
    then show ?thesis using that [OF fl0(2,1) run] on s1(1) False by simp
  qed
qed

lemma answer_decreases:
  assumes "sys_reach cr c sy" and "config_ok c" and "sy_alive sy" and "fl_phase (sy_filter sy) = Streaming s"
    and "sy_pending sy = rs1 @ r # rs2"
  shows "fl_phase (sy_filter (absorb (deliver ev (sy_filter sy)) (sy\<lparr>sy_pending := rs1 @ rs2, sy_content := content'\<rparr>))) =
      Streaming s \<and>
    (stream_rank (absorb (deliver ev (sy_filter sy)) (sy\<lparr>sy_pending := rs1 @ rs2, sy_content := content'\<rparr>)),
     stream_rank sy) \<in> less_than <*lex*> less_than"
  using deliver_open [OF streaming_facts(1) [OF assms(1-4)], of ev] deliver_frame [of ev "sy_filter sy"] assms(4,5)
  by (simp add: stream_rank_def absorb_def)

lemma read_action_counts:
  "length (requests_of (map read_action reqs)) = length reqs \<and> commits_of (map read_action reqs) = 0"
  by (induction reqs) (auto simp: read_action_def)

text \<open>A callback that leaves the stream streaming has sent something, or has at most issued reads.\<close>

lemma wake_progress:
  assumes "sys_reach cr c sy" and "config_ok c" and "sy_alive sy" and "fl_phase (sy_filter sy) = Streaming s"
    and "on_scheduled cr react (sy_filter sy) = Some fl'" and "fl_phase fl' = Streaming s'"
  shows "sm_chunks s' = sm_chunks s \<and>
    (sm_next_send s < sm_next_send s' \<or>
     sm_next_send s' = sm_next_send s \<and> sm_watermark_depth s' = sm_watermark_depth s \<and>
       (\<exists>reqs. fl_out fl' = fl_out (sy_filter sy) @ map read_action reqs \<and>
          sm_issue_cursor s + length reqs \<le> sm_issue_cursor s'))"
proof -
  obtain fl0 fl1 e fl2 where w: "fl_out fl0 = fl_out (sy_filter sy)" "fl_phase fl0 = Streaming s"
    "handle_events cr (bridge_contents (fl_bridge (sy_filter sy))) fl0 = Some (fl1, e)"
    "on_scheduled cr react (sy_filter sy) = Some fl2"
    "e \<and> fl2 = fl1 \<and> fl_phase fl1 = Done \<or>
     \<not> e \<and> (\<exists>s1. fl_phase fl1 = Streaming s1) \<and> pump react fl1 = Some fl2 \<and>
       (fl_phase fl2 = Done \<or> (\<exists>s'. fl_phase fl2 = Streaming s'))"
    by (rule streaming_wakes [OF assms(1-4), of react])
  then obtain s1 where s1: "fl_phase fl1 = Streaming s1" "pump react fl1 = Some fl'" using assms(5,6) by auto
  have "sm_chunks s1 = sm_chunks s \<and> sm_next_send s1 = sm_next_send s \<and> sm_issue_cursor s1 = sm_issue_cursor s \<and>
      sm_watermark_depth s1 = sm_watermark_depth s \<and> fl_out fl1 = fl_out (sy_filter sy)"
    using read_events_counts [OF w(2) streaming_facts(6) [OF assms(1-4)] w(3) s1(1)] w(1) by simp
  then show ?thesis using pump_counts [OF s1 assms(6)] by simp
qed

lemma wake_decreases:
  assumes "sys_reach cr c sy" and "config_ok c" and "sy_alive sy" and "fl_phase (sy_filter sy) = Streaming s"
    and "sy_scheduled sy = Suc n" and "on_scheduled cr react (sy_filter sy) = Some fl'"
  shows "fl_phase fl' = Done \<or> (\<exists>s'. fl_phase fl' = Streaming s') \<and>
    (stream_rank (absorb fl' (sy\<lparr>sy_scheduled := n\<rparr>)), stream_rank sy) \<in> less_than <*lex*> less_than"
proof -
  have "fl_phase fl' = Done \<or> (\<exists>s'. fl_phase fl' = Streaming s')"
    by (rule streaming_wakes [OF assms(1-4), of react]) (use assms(6) in auto)
  then consider "fl_phase fl' = Done" | s' where "fl_phase fl' = Streaming s'" by blast
  then show ?thesis
  proof cases
    case 2
    have bound: "sm_next_send s < length (sm_chunks s)" "sm_issue_cursor s \<le> length (sm_chunks s)"
      using streaming_facts(7) [OF assms(1-4)] by (simp_all add: stream_ok_def)
    have "sys_reach cr c (absorb fl' (sy\<lparr>sy_scheduled := n\<rparr>))"
      using assms(1) sys_step.scheduled [OF assms(3,5,6)] by (rule sys_reach.step)
    from streaming_facts(7) [OF this assms(2), of s'] assms(3) 2
    have bound': "sm_issue_cursor s' \<le> length (sm_chunks s')" by (simp add: stream_ok_def absorb_fields)
    note p = wake_progress [OF assms(1-4,6) 2]
    then consider (sent) "sm_next_send s < sm_next_send s'"
      | (waits) reqs where "sm_next_send s' = sm_next_send s" "sm_watermark_depth s' = sm_watermark_depth s"
        "fl_out fl' = fl_out (sy_filter sy) @ map read_action reqs" "sm_issue_cursor s + length reqs \<le> sm_issue_cursor s'"
      by blast
    then show ?thesis
    proof cases
      case sent
      then show ?thesis using 2 assms(4) bound(1) p by (auto simp: stream_rank_def absorb_fields)
    next
      case waits
      note r = read_action_counts [of reqs]
      have "absorb fl' (sy\<lparr>sy_scheduled := n\<rparr>) = sy\<lparr>sy_scheduled := n, sy_filter := fl',
          sy_pending := sy_pending sy @ requests_of (map read_action reqs)\<rparr>"
        using waits(3) r by (simp add: absorb_def)
      moreover have "3 * (length (sm_chunks s) - sm_issue_cursor s') + 2 * length reqs <
          3 * (length (sm_chunks s) - sm_issue_cursor s) + 1"
        using waits(4) bound bound' p by simp
      ultimately show ?thesis using 2 assms(4,5) p waits(1,2) r by (auto simp: stream_rank_def)
    qed
  qed simp
qed

section \<open>Completion\<close>

lemma streaming_drives:
  assumes "sys_reach cr c sy" and "config_ok c" and "sy_alive sy" and "fl_phase (sy_filter sy) = Streaming s"
    and "sm_watermark_depth s = 0"
  shows "\<exists>t. drive_step cr sy t"
proof (cases "sy_scheduled sy")
  case (Suc n)
  obtain fl' where "on_scheduled cr (\<lambda>_. []) (sy_filter sy) = Some fl'"
    using streaming_wakes [OF assms(1-4)] by metis
  then show ?thesis using drive_step.wake [OF assms(3) Suc] by blast
next
  case 0
  then obtain r rs where p: "sy_pending sy = [] @ r # rs"
    using streaming_facts(8) [OF assms(1-4)] assms(5) by (cases "sy_pending sy") auto
  moreover have "is_read_request r" using streaming_facts(4) [OF assms(1-4)] p by simp
  then obtain ev where "engine_answer (sy_content sy) r (sy_content sy) ev"
    by (cases r) (auto intro: read_fails)
  ultimately show ?thesis using drive_step.answer by blast
qed

text \<open>
  The argument, for any restriction of the steps that says nothing of streams that have begun or ended.
\<close>

lemma streaming_inevitable:
  assumes "sys_reach cr c sy" and "config_ok c" and "sy_alive sy" and "fl_phase (sy_filter sy) = Streaming s"
    and free: "\<And>t. fl_phase (sy_filter t) = Done \<or> (\<exists>s. fl_phase (sy_filter t) = Streaming s) \<Longrightarrow> P t"
  shows "inevitable (\<lambda>sy t. drive_step cr sy t \<and> P t)
    (\<lambda>sy. fl_phase (sy_filter sy) = Done \<or>
       (\<exists>s. fl_phase (sy_filter sy) = Streaming s \<and> sm_watermark_depth s \<noteq> 0)) sy"
proof -
  define I where "I sy \<longleftrightarrow> sys_reach cr c sy \<and> sy_alive sy \<and> (\<exists>s. fl_phase (sy_filter sy) = Streaming s)" for sy
  have step: "fl_phase (sy_filter t) = Done \<or>
      I t \<and> (stream_rank t, stream_rank sy) \<in> less_than <*lex*> less_than"
    if i: "I sy" and d: "drive_step cr sy t" for sy t
  proof -
    obtain s where s: "fl_phase (sy_filter sy) = Streaming s" using i by (auto simp: I_def)
    have next_ok: "sys_reach cr c t" "sy_alive t"
      using i d drive_step_is_step drive_alive sys_reach.step unfolding I_def by metis+
    from d have "fl_phase (sy_filter t) = Done \<or> (\<exists>s'. fl_phase (sy_filter t) = Streaming s') \<and>
        (stream_rank t, stream_rank sy) \<in> less_than <*lex*> less_than"
    proof cases
      case (answer rs1 r rs2 content' ev)
      then show ?thesis using answer_decreases [OF _ assms(2) _ s] i unfolding I_def by blast
    next
      case (wake n react fl)
      have "sy_filter t = fl" by (simp add: wake(1) absorb_fields)
      moreover have "sys_reach cr c sy" "sy_alive sy" using i unfolding I_def by blast+
      ultimately show ?thesis using wake_decreases [OF _ assms(2) _ s wake(3,4)] unfolding wake(1) by simp
    qed
    then show ?thesis using next_ok by (auto simp: I_def)
  qed
  show ?thesis
  proof (rule inevitable_by_rank [where rank = stream_rank and I = I])
    show "I sy" using assms(1,3,4) by (auto simp: I_def)
  next
    fix sy
    assume i: "I sy" and g: "\<not> (fl_phase (sy_filter sy) = Done \<or>
        (\<exists>s. fl_phase (sy_filter sy) = Streaming s \<and> sm_watermark_depth s \<noteq> 0))"
    then obtain t where "drive_step cr sy t" using streaming_drives [OF _ assms(2)] unfolding I_def by blast
    moreover from this have "P t" using step [OF i] free by (auto simp: I_def)
    ultimately show "\<exists>t. drive_step cr sy t \<and> P t" by blast
  next
    fix sy t
    assume "I sy" and "drive_step cr sy t \<and> P t"
    then show "(fl_phase (sy_filter t) = Done \<or>
        (\<exists>s. fl_phase (sy_filter t) = Streaming s \<and> sm_watermark_depth s \<noteq> 0)) \<or>
        I t \<and> (stream_rank t, stream_rank sy) \<in> less_than <*lex*> less_than"
      using step by blast
  qed
qed

text \<open>
  C8: A response that has begun to stream is completed or held: however the engine orders and answers the
  reads, however callbacks are batched, and whatever watermarks Envoy raises while data is sent, after finitely
  many completions and callbacks the stream has ended or waits for Envoy's low watermark, and until
  then there is always something to run.
\<close>

theorem streaming_completes:
  assumes "sys_reach cr c sy" and "config_ok c" and "sy_alive sy" and "fl_phase (sy_filter sy) = Streaming s"
  shows "inevitable (drive_step cr)
    (\<lambda>sy. fl_phase (sy_filter sy) = Done \<or>
       (\<exists>s. fl_phase (sy_filter sy) = Streaming s \<and> sm_watermark_depth s \<noteq> 0)) sy"
  using streaming_inevitable [OF assms, of "\<lambda>_. True"] by simp

theorem streaming_completes_witness:
  "inevitable (drive_step sample_cr)
    (\<lambda>sy. fl_phase (sy_filter sy) = Done \<or>
       (\<exists>s. fl_phase (sy_filter sy) = Streaming s \<and> sm_watermark_depth s \<noteq> 0)) sample_reading"
  by (rule streaming_completes [OF sample_reach_reading sample_config_ok])
     (simp_all add: sample_reading_def sys_init_def sample_filter_def)

end
