(* ===== verification/Filter_Requests.thy ===== *)
theory Filter_Requests
  imports Filter_Confinement Stream_Liveness
begin

text \<open>
  What the filter makes of a request before a file is served: the mount prefix, the files it looks
  for, the redirect of directories, and the links of a listing.
\<close>

section \<open>Intake\<close>

definition intake_policy :: "config \<Rightarrow> path_policy" where
  "intake_policy c = \<lparr>pol_serve_dotfiles = cfg_serve_dotfiles c, pol_max_path_len = 4096\<rparr>"

definition request_of :: "raw_request_headers \<Rightarrow> string \<Rightarrow> bool \<Rightarrow> request_data" where
  "request_of raw rel ts =
     \<lparr>rd_method_head = (raw_method raw = Some ''HEAD''), rd_if_none_match = raw_if_none_match raw,
      rd_if_modified_since = raw_if_modified_since raw, rd_if_match = raw_if_match raw,
      rd_if_unmodified_since = raw_if_unmodified_since raw, rd_if_range = raw_if_range raw,
      rd_range_header = raw_range raw, rd_relative = rel, rd_trailing_slash = ts\<rparr>"

text \<open>The path below the mount, and the immediate answer to a request that opens nothing.\<close>

definition mounted_path :: "config \<Rightarrow> raw_request_headers \<Rightarrow> string option" where
  "mounted_path c raw =
     (let p = (case raw_path raw of Some p \<Rightarrow> p | None \<Rightarrow> []) in
      case cfg_strip_prefix c of Some m \<Rightarrow> strip_mount_prefix p m | None \<Rightarrow> Some p)"

definition intake ::
  "('h, 't) crates \<Rightarrow> config \<Rightarrow> raw_request_headers \<Rightarrow> (nat \<times> header list) + string \<times> bool" where
  "intake cr c raw =
     (if raw_method raw \<noteq> Some ''HEAD'' \<and> raw_method raw \<noteq> Some ''GET''
      then Inl (STATUS_METHOD_NOT_ALLOWED, [(''allow'', ''GET, HEAD'')])
      else case mounted_path c raw of
        None \<Rightarrow> Inl (STATUS_NOT_FOUND, [])
      | Some p \<Rightarrow>
        (case resolve_request_path (cr_percent_decode cr) p (intake_policy c) of
           Reject reason \<Rightarrow> Inl (reject_status reason, [])
         | PathOk rel ts \<Rightarrow> Inr (rel, ts)))"

lemma on_request_headers_eq:
  "on_request_headers cr kvs fl =
     (let raw = collect_headers cr kvs in
      case intake cr (fl_config fl) raw of
        Inl (st, hs) \<Rightarrow> Some (emit [SendResponse st hs None] (set_phase Done fl))
      | Inr (rel, ts) \<Rightarrow>
          map_option fst (open_next_candidate
            (set_phase (ResolvingFile (build_file_candidates cr (fl_config fl) rel ts (raw_accept_encoding raw)))
              (fl\<lparr>fl_request := (case fl_request fl of None \<Rightarrow> Some (request_of raw rel ts) | Some r \<Rightarrow> Some r),
                 fl_waker := True\<rparr>))))"
  unfolding on_request_headers_def intake_def mounted_path_def intake_policy_def request_of_def respond_status_def
  by (simp add: Let_def split: option.split validated_path.split)

section \<open>Mounts\<close>

text \<open>What can be observed of a filter, apart from its configuration.\<close>

definition observed :: "stream_filter \<Rightarrow> phase \<times> request_data option \<times> action list" where
  "observed fl = (fl_phase fl, fl_request fl, fl_out fl)"

lemma strip_mounted: "path \<noteq> [] \<Longrightarrow> hd path = CHR ''/'' \<Longrightarrow> strip_mount_prefix (m @ path) m = Some path"
  by (cases path) (auto simp: strip_mount_prefix_def strip_prefix_of_append)

text \<open>
  C19: A mount is transparent: below the mount prefix a request is resolved, and its file opened, exactly as the
  same request is at the top of a server without the prefix; a path that continues the prefix
  within a name is not found.
\<close>

theorem mounted_like_root:
  assumes "cfg_strip_prefix (fl_config fl) = Some m"
    and "collect_headers cr kvs' = (collect_headers cr kvs)\<lparr>raw_path := Some (m @ path)\<rparr>"
    and "raw_path (collect_headers cr kvs) = Some path" and "path \<noteq> []"
  shows "(hd path = CHR ''/'' \<longrightarrow>
      map_option observed (on_request_headers cr kvs' fl) =
      map_option observed (on_request_headers cr kvs
        (fl\<lparr>fl_config := (fl_config fl)\<lparr>cfg_strip_prefix := None\<rparr>\<rparr>))) \<and>
    (hd path \<notin> {CHR ''/'', CHR ''?'', CHR ''#''} \<and> raw_method (collect_headers cr kvs) \<in> {Some ''GET'', Some ''HEAD''} \<longrightarrow>
      on_request_headers cr kvs' fl = Some (respond_status STATUS_NOT_FOUND fl))"
proof (intro conjI impI)
  let ?raw = "collect_headers cr kvs" and ?c = "fl_config fl"
  let ?fl = "fl\<lparr>fl_config := ?c\<lparr>cfg_strip_prefix := None\<rparr>\<rparr>"
  have pol: "intake_policy (?c\<lparr>cfg_strip_prefix := None\<rparr>) = intake_policy ?c" by (simp add: intake_policy_def)
  assume "hd path = CHR ''/''"
  then have "mounted_path ?c (?raw\<lparr>raw_path := Some (m @ path)\<rparr>) = mounted_path (?c\<lparr>cfg_strip_prefix := None\<rparr>) ?raw"
    using strip_mounted [of path m] assms(1,3,4) by (simp add: mounted_path_def)
  then have i: "intake cr ?c (?raw\<lparr>raw_path := Some (m @ path)\<rparr>) = intake cr (?c\<lparr>cfg_strip_prefix := None\<rparr>) ?raw"
    unfolding intake_def pol by simp
  have b: "build_file_candidates cr (?c\<lparr>cfg_strip_prefix := None\<rparr>) = build_file_candidates cr ?c"
    unfolding build_file_candidates_def fun_eq_iff Let_def by simp
  have o: "map_option observed (map_option fst (open_next_candidate (set_phase (ResolvingFile ps) f))) =
      map_option observed (map_option fst (open_next_candidate (set_phase (ResolvingFile ps) g)))"
    if "fl_config f = ?c" "fl_config g = ?c\<lparr>cfg_strip_prefix := None\<rparr>" "fl_waker f = fl_waker g"
      "fl_request f = fl_request g" "fl_phase f = fl_phase g" "fl_out f = fl_out g" for ps f g
    using that
    by (cases ps) (simp_all add: open_next_candidate_def submit_open_def set_phase_def emit_def observed_def
        respond_status_def Let_def split: option.split)
  show "map_option observed (on_request_headers cr kvs' fl) = map_option observed (on_request_headers cr kvs ?fl)"
  proof (cases "intake cr (?c\<lparr>cfg_strip_prefix := None\<rparr>) ?raw")
    case (Inl a)
    then show ?thesis
      by (cases a) (simp add: on_request_headers_eq assms(2) i emit_def set_phase_def observed_def)
  next
    case (Inr b')
    then obtain rel ts where r: "intake cr (?c\<lparr>cfg_strip_prefix := None\<rparr>) ?raw = Inr (rel, ts)" by (cases b') simp
    show ?thesis
      unfolding on_request_headers_eq Let_def assms(2)
      by (simp add: i r b) (rule o; simp add: request_of_def split: option.split)
  qed
next
  assume h: "hd path \<notin> {CHR ''/'', CHR ''?'', CHR ''#''} \<and> raw_method (collect_headers cr kvs) \<in> {Some ''GET'', Some ''HEAD''}"
  then have "strip_mount_prefix (m @ path) m = None"
    using assms(4) by (cases path) (auto simp: strip_mount_prefix_def strip_prefix_of_append)
  then show "on_request_headers cr kvs' fl = Some (respond_status STATUS_NOT_FOUND fl)"
    using h assms(1,2) by (auto simp: on_request_headers_eq intake_def mounted_path_def respond_status_def)
qed

text \<open>A GET below a mount, for closed examples.\<close>

definition sample_mounted :: config where
  "sample_mounted = sample_config\<lparr>cfg_strip_prefix := Some ''/static''\<rparr>"

theorem mounted_like_root_witness:
  "map_option observed (on_request_headers sample_cr [('':method'', ''GET''), ('':path'', ''/static/a'')]
     (filter_new sample_mounted)) =
   Some (ResolvingFile [], Some sample_rd, [sample_open])"
proof -
  let ?fl = "filter_new sample_mounted"
  have "from_utf8_lossy ''/static/a'' = ''/static/a''" by (rule lossy_of_valid, rule ascii_valid) simp
  then have "collect_headers sample_cr [('':method'', ''GET''), ('':path'', ''/static/a'')] =
      (collect_headers sample_cr sample_get)\<lparr>raw_path := Some (''/static'' @ ''/a'')\<rparr>"
    by (simp add: sample_headers del: from_utf8_lossy.simps) (simp add: collect_headers_def collect_header_def sample_cr_def raw_empty_def
        fill_slot_def del: from_utf8_lossy.simps)
  moreover have "cfg_strip_prefix (fl_config ?fl) = Some ''/static''"
    and conf: "?fl\<lparr>fl_config := (fl_config ?fl)\<lparr>cfg_strip_prefix := None\<rparr>\<rparr> = filter_new sample_config"
    by (simp_all add: filter_new_def sample_mounted_def sample_config_def default_config_def)
  moreover have "raw_path (collect_headers sample_cr sample_get) = Some ''/a''" by (simp add: sample_headers)
  ultimately have "map_option observed (on_request_headers sample_cr [('':method'', ''GET''), ('':path'', ''/static/a'')] ?fl) =
      map_option observed (on_request_headers sample_cr sample_get (filter_new sample_config))"
    using mounted_like_root [where fl = ?fl and m = "''/static''" and cr = sample_cr and path = "''/a''" and
        kvs' = "[('':method'', ''GET''), ('':path'', ''/static/a'')]" and kvs = sample_get]
    by (simp only: conf) simp
  then show ?thesis by (simp add: sample_requested sample_filter_def observed_def)
qed

section \<open>The files a request looks for\<close>

text \<open>A suffix of a name: it holds no slash and makes no dots-only name.\<close>

lemma plain_suffix: "plain_name s \<Longrightarrow> enc \<in> {BROTLI, GZIP, ZSTD} \<Longrightarrow> plain_name (s @ file_suffix enc)"
  by (cases s) (auto simp: plain_name_def BROTLI_def GZIP_def ZSTD_def)

lemma plain_bare_suffix: "enc \<in> {BROTLI, GZIP, ZSTD} \<Longrightarrow> plain_name (file_suffix enc)"
  by (auto simp: plain_name_def BROTLI_def GZIP_def ZSTD_def)

lemma join_suffix: "join_with sep (ss @ [s]) @ t = join_with sep (ss @ [s @ t])"
proof (induction ss)
  case (Cons x ss)
  then show ?case by (cases ss) auto
qed simp

lemma suffixed_below_root:
  assumes "is_absolute root" and "\<forall>s \<in> set segs. plain_name s" and "enc \<in> {BROTLI, GZIP, ZSTD}"
  shows "\<exists>ss. (\<forall>s \<in> set ss. plain_name s) \<and>
    components (path_join root (join_with ''/'' segs @ file_suffix enc)) = components root @ map Normal ss"
proof (cases segs rule: rev_cases)
  case Nil
  have "components (path_join root (join_with ''/'' [file_suffix enc])) = components root @ map Normal [file_suffix enc]"
    using assms plain_bare_suffix by (intro components_join_plain) auto
  then show ?thesis using plain_bare_suffix [OF assms(3)] Nil by (intro exI [of _ "[file_suffix enc]"]) simp
next
  case (snoc ss s)
  have "\<forall>x \<in> set (ss @ [s @ file_suffix enc]). plain_name x"
    using assms(2,3) snoc plain_suffix by auto
  then show ?thesis
    using components_join_plain [OF assms(1), of "ss @ [s @ file_suffix enc]"] snoc
    by (intro exI [of _ "ss @ [s @ file_suffix enc]"]) (simp add: join_suffix)
qed

lemma negotiated_subset: "set (negotiate_precompressed ae order) \<subseteq> set order"
proof -
  have "set (concat (map (score_one entries) (List.enumerate 0 order))) \<subseteq> {(q, i, e). e \<in> set order}" for entries
    by (auto simp: score_one_def in_set_enumerate_eq split: option.splits if_splits)
  then show ?thesis
    by (fastforce simp: negotiate_precompressed_def score_loop_eq split: option.splits)
qed

lemma candidates_below_root:
  assumes "config_ok c" and "is_absolute (cfg_root c)" and "decodes_nonempty dec"
    and "resolve_request_path dec p policy = PathOk rel ts" and "cand \<in> set (build_file_candidates cr c rel ts' ae)"
  shows "\<exists>ss. (\<forall>s \<in> set ss. plain_name s) \<and> components (cand_fs_path cand) = components (cfg_root c) @ map Normal ss"
proof -
  obtain segs where rel: "rel = join_with ''/'' segs" and "\<forall>s \<in> set segs. safe_segment policy s"
    using resolve_ok_segments [OF assms(3,4)] .
  then have plain: "\<forall>s \<in> set segs. plain_name s" by (blast intro: safe_segment_plain)
  have known: "set (cfg_precompressed c) \<subseteq> {BROTLI, GZIP, ZSTD}" using assms(1) by (simp add: config_ok_def)
  from assms(5) consider "cand_fs_path cand = path_join (cfg_root c) rel"
    | enc where "enc \<in> set (negotiate_precompressed ae (cfg_precompressed c))"
        "cand_fs_path cand = path_join (cfg_root c) (rel @ file_suffix enc)"
    by (auto simp: build_file_candidates_def Let_def split: if_splits)
  then show ?thesis
  proof cases
    case 1
    then show ?thesis using components_join_plain [OF assms(2) plain] plain rel by auto
  next
    case 2
    then have "enc \<in> {BROTLI, GZIP, ZSTD}" using negotiated_subset known by blast
    then show ?thesis using suffixed_below_root [OF assms(2) plain] 2 rel by metis
  qed
qed

text \<open>
  A request path below the mount: \<open>p\<close> is what is left of \<open>path\<close> once the mount prefix is taken off
  at the end of a name.
\<close>

definition below_mount :: "config \<Rightarrow> string \<Rightarrow> string \<Rightarrow> bool" where
  "below_mount c path p \<longleftrightarrow>
     (case cfg_strip_prefix c of
        None \<Rightarrow> p = path
      | Some m \<Rightarrow> \<exists>rest. path = m @ rest \<and>
          (rest = [] \<and> p = ''/'' \<or>
           rest \<noteq> [] \<and> hd rest = CHR ''/'' \<and> p = rest \<or>
           rest \<noteq> [] \<and> hd rest \<in> {CHR ''?'', CHR ''#''} \<and> p = ''/'' @ rest))"

lemma mounted_path_below:
  "mounted_path c raw = Some p \<longleftrightarrow> below_mount c (case raw_path raw of Some p \<Rightarrow> p | None \<Rightarrow> []) p"
proof (cases "cfg_strip_prefix c")
  case (Some m)
  define path where "path = (case raw_path raw of Some p \<Rightarrow> p | None \<Rightarrow> [])"
  have "strip_mount_prefix path m = Some p \<longleftrightarrow> (\<exists>rest. path = m @ rest \<and>
      (rest = [] \<and> p = ''/'' \<or> rest \<noteq> [] \<and> hd rest = CHR ''/'' \<and> p = rest \<or>
       rest \<noteq> [] \<and> hd rest \<in> {CHR ''?'', CHR ''#''} \<and> p = ''/'' @ rest))"
  proof
    assume "strip_mount_prefix path m = Some p"
    then obtain rest where "strip_prefix_of m path = Some rest" by (auto simp: strip_mount_prefix_def split: option.splits)
    then show "\<exists>rest. path = m @ rest \<and>
      (rest = [] \<and> p = ''/'' \<or> rest \<noteq> [] \<and> hd rest = CHR ''/'' \<and> p = rest \<or>
       rest \<noteq> [] \<and> hd rest \<in> {CHR ''?'', CHR ''#''} \<and> p = ''/'' @ rest)"
      using \<open>strip_mount_prefix path m = Some p\<close> strip_prefix_of_Some [of m path rest]
      by (intro exI [of _ rest]) (auto simp: strip_mount_prefix_def split: list.splits if_splits)
  next
    assume "\<exists>rest. path = m @ rest \<and>
      (rest = [] \<and> p = ''/'' \<or> rest \<noteq> [] \<and> hd rest = CHR ''/'' \<and> p = rest \<or>
       rest \<noteq> [] \<and> hd rest \<in> {CHR ''?'', CHR ''#''} \<and> p = ''/'' @ rest)"
    then show "strip_mount_prefix path m = Some p"
      using strip_prefix_of_append [of m "[]"]
      by (auto simp: strip_mount_prefix_def strip_prefix_of_append split: list.splits simp del: strip_prefix_of_Some)
  qed
  then show ?thesis by (simp add: mounted_path_def below_mount_def Some path_def)
qed (auto simp: mounted_path_def below_mount_def)

text \<open>The two ways a request goes on: answered at once, or with the open of one file.\<close>

definition answered_with :: "nat \<Rightarrow> header list \<Rightarrow> stream_filter \<Rightarrow> stream_filter \<Rightarrow> bool" where
  "answered_with st hs fl fl' \<longleftrightarrow> fl_phase fl' = Done \<and> fl_out fl' = fl_out fl @ [SendResponse st hs None]"

definition opens_file :: "config \<Rightarrow> string \<Rightarrow> stream_filter \<Rightarrow> stream_filter \<Rightarrow> bool" where
  "opens_file c rel fl fl' \<longleftrightarrow> (\<exists>req ctx ps. fl_phase fl' = ResolvingFile ps \<and> fl_out fl' = fl_out fl @ [OpenFile req ctx] \<and>
     (or_path req = path_join (cfg_root c) rel \<or>
      (\<exists>enc \<in> set (cfg_precompressed c). or_path req = path_join (cfg_root c) (rel @ file_suffix enc))) \<and>
     (\<exists>ss. (\<forall>s \<in> set ss. plain_name s) \<and> components (or_path req) = components (cfg_root c) @ map Normal ss) \<and>
     or_containment_root req = Some (cfg_root c) \<and> or_deny_symlinks req = (\<not> cfg_follow_symlinks_within_root c))"

text \<open>
  C20: The intake of a request decides by its method, its mount and its path, and nothing else. A method other
  than GET and HEAD is answered 405, a path outside the mount 404, a path that is too long 414, one with a bad
  encoding or character 400, one that climbs or names a hidden file 404, and none of these opens anything. Every
  other request opens exactly one file, the named one or a configured variant of it, lexically below the document
  root and confined to it.
\<close>

theorem intake_opens_below_root:
  assumes "on_request_headers cr kvs fl = Some fl'" and "config_ok (fl_config fl)"
    and "is_absolute (cfg_root (fl_config fl))" and "decodes_nonempty (cr_percent_decode cr)"
    and "fl_phase fl = Idle"
    and "raw = collect_headers cr kvs" and "path = (case raw_path raw of Some p \<Rightarrow> p | None \<Rightarrow> [])"
  shows "if raw_method raw \<notin> {Some ''GET'', Some ''HEAD''}
      then answered_with 405 [(''allow'', ''GET, HEAD'')] fl fl'
    else if \<nexists>p. below_mount (fl_config fl) path p then answered_with 404 [] fl fl'
    else \<exists>p. below_mount (fl_config fl) path p \<and>
      (case resolve_request_path (cr_percent_decode cr) p
          \<lparr>pol_serve_dotfiles = cfg_serve_dotfiles (fl_config fl), pol_max_path_len = 4096\<rparr> of
         Reject TooLong \<Rightarrow> answered_with 414 [] fl fl'
       | Reject BadEncoding \<Rightarrow> answered_with 400 [] fl fl'
       | Reject BadCharacter \<Rightarrow> answered_with 400 [] fl fl'
       | Reject Traversal \<Rightarrow> answered_with 404 [] fl fl'
       | Reject Dotfile \<Rightarrow> answered_with 404 [] fl fl'
       | PathOk rel ts \<Rightarrow> opens_file (fl_config fl) rel fl fl')"
proof -
  let ?c = "fl_config fl"
  have answers: "answered_with st hs fl fl'" if "intake cr ?c raw = Inl (st, hs)" for st hs
    using assms(1,5,6) that
    by (auto simp: on_request_headers_eq answered_with_def emit_def set_phase_def)
  have opens: "opens_file ?c rel fl fl'" if b: "intake cr ?c raw = Inr (rel, ts)" for rel ts
  proof -
    obtain p where p: "resolve_request_path (cr_percent_decode cr) p (intake_policy ?c) = PathOk rel ts"
      using b by (auto simp: intake_def split: if_splits option.splits validated_path.splits)
    obtain cand rest where ps: "build_file_candidates cr ?c rel ts (raw_accept_encoding raw) = cand # rest"
      using build_file_candidates_ne by (meson neq_Nil_conv)
    obtain ss where ss: "\<forall>s \<in> set ss. plain_name s"
        "components (cand_fs_path cand) = components (cfg_root ?c) @ map Normal ss"
      using candidates_below_root [OF assms(2-4) p, of cand cr ts "raw_accept_encoding raw"] ps by auto
    have "cand \<in> set (build_file_candidates cr ?c rel ts (raw_accept_encoding raw))" by (simp add: ps)
    then have f: "cand_fs_path cand = path_join (cfg_root ?c) rel \<or>
        (\<exists>enc \<in> set (cfg_precompressed ?c). cand_fs_path cand = path_join (cfg_root ?c) (rel @ file_suffix enc))"
      using negotiated_subset by (fastforce simp: build_file_candidates_def Let_def split: if_splits)
    have "\<exists>req ctx ps. fl_phase fl' = ResolvingFile ps \<and> fl_out fl' = fl_out fl @ [OpenFile req ctx] \<and>
        or_path req = cand_fs_path cand \<and> or_containment_root req = Some (cfg_root ?c) \<and>
        or_deny_symlinks req = (\<not> cfg_follow_symlinks_within_root ?c)"
      using assms(1,5) by (auto simp: on_request_headers_eq b [unfolded assms(6)] ps [unfolded assms(6)] open_next_candidate_def submit_open_def
          set_phase_def emit_def Let_def)
    then show ?thesis unfolding opens_file_def using ss f by metis
  qed
  show ?thesis
  proof (cases "raw_method raw \<in> {Some ''GET'', Some ''HEAD''}")
    case False
    then have "intake cr ?c raw = Inl (405, [(''allow'', ''GET, HEAD'')])" by (simp add: intake_def)
    then show ?thesis using answers False by simp
  next
    case m: True
    then have i: "intake cr ?c raw = (case mounted_path ?c raw of None \<Rightarrow> Inl (STATUS_NOT_FOUND, [])
        | Some p \<Rightarrow> (case resolve_request_path (cr_percent_decode cr) p (intake_policy ?c) of
           Reject reason \<Rightarrow> Inl (reject_status reason, []) | PathOk rel ts \<Rightarrow> Inr (rel, ts)))"
      by (auto simp: intake_def)
    show ?thesis
    proof (cases "mounted_path ?c raw")
      case None
      then have "\<nexists>p. below_mount ?c path p" unfolding assms(7) mounted_path_below [symmetric] by simp
      moreover have "answered_with 404 [] fl fl'" using answers i None by simp
      ultimately show ?thesis using m by simp
    next
      case (Some p)
      then have b: "below_mount ?c path p" unfolding assms(7) mounted_path_below [symmetric] .
      show ?thesis
      proof (cases "resolve_request_path (cr_percent_decode cr) p (intake_policy ?c)")
        case (PathOk rel ts)
        then have "opens_file ?c rel fl fl'" using opens i Some by simp
        then show ?thesis using m b PathOk [unfolded intake_policy_def] by auto
      next
        case (Reject reason)
        then have "answered_with (reject_status reason) [] fl fl'" using answers i Some by simp
        then show ?thesis using m b Reject [unfolded intake_policy_def]
          by (cases reason) (auto simp: reject_status_def)
      qed
    qed
  qed
qed

theorem intake_opens_below_root_witness:
  "opens_file sample_config ''a'' (filter_new sample_config) (sample_filter (ResolvingFile []) Empty [sample_open])"
proof -
  have "config_ok (fl_config (filter_new sample_config))" "is_absolute (cfg_root (fl_config (filter_new sample_config)))"
    "decodes_nonempty (cr_percent_decode sample_cr)" "fl_phase (filter_new sample_config) = Idle"
    by (simp_all add: filter_new_def sample_config_ok) (simp_all add: sample_config_def default_config_def is_absolute_def
        sample_cr_def decodes_nonempty_def)
  moreover have "fl_config (filter_new sample_config) = sample_config" by (simp add: filter_new_def)
  moreover have "raw_method (collect_headers sample_cr sample_get) = Some ''GET''"
    "raw_path (collect_headers sample_cr sample_get) = Some ''/a''" by (simp_all add: sample_headers)
  moreover have "below_mount sample_config ''/a'' p \<longleftrightarrow> p = ''/a''" for p
    by (simp add: below_mount_def sample_config_def default_config_def)
  moreover have "resolve_request_path (cr_percent_decode sample_cr) ''/a''
      \<lparr>pol_serve_dotfiles = cfg_serve_dotfiles sample_config, pol_max_path_len = 4096\<rparr> = PathOk ''a'' False"
    using sample_resolve by (simp add: sample_cr_def sample_config_def default_config_def)
  ultimately show ?thesis
    using intake_opens_below_root [OF sample_requested, where raw = "collect_headers sample_cr sample_get" and path = "''/a''"]
    by simp
qed

end
