(* ===== verification/Filter_Directories.thy ===== *)
theory Filter_Directories
  imports Filter_Requests
begin

text \<open>Directories: the redirect, the index files, and the links of a generated listing.\<close>

section \<open>The redirect\<close>

lemma redirects:
  assumes "fl_request fl = Some rd" and "\<not> rd_trailing_slash rd" and "cfg_redirect_trailing_slash (fl_config fl)"
  shows "handle_directory cr fl = Some (emit [SendResponse STATUS_MOVED_PERMANENTLY
     [(''location'', url_for (fl_config fl) (rd_relative rd) @ ''/'')] None] (set_phase Done fl), True)"
  using assms by (simp add: handle_directory_def Let_def)

text \<open>Names that stand for themselves in a URL: they decode to themselves and hold none of its delimiters.\<close>

definition url_plain :: "(string \<Rightarrow> string option) \<Rightarrow> string \<Rightarrow> bool" where
  "url_plain dec s \<longleftrightarrow> encodes dec id s"

text \<open>
  C39: A directory below the root whose names stand for themselves in a URL is redirected to itself: the
  \<^verbatim>\<open>Location\<close> sent, requested from the same server, mounted or not, resolves to the same relative
  path, now with a trailing slash, so that it is not redirected again. The path is at most 4094 bytes long.
  The two lemmas after it show why it says no more: a name with a question mark, and the root
  itself, are redirected elsewhere.
\<close>

theorem redirect_lands:
  assumes "fl_request fl = Some rd" and "\<not> rd_trailing_slash rd" and "cfg_redirect_trailing_slash (fl_config fl)"
    and "rd_relative rd = join_with ''/'' segs" and "segs \<noteq> []"
    and "\<forall>s \<in> set segs. url_plain (cr_percent_decode cr) s \<and> safe_segment (intake_policy (fl_config fl)) s"
    and "cr_percent_decode cr [] = Some []" and "length (rd_relative rd) < 4095"
    and "loc = url_for (fl_config fl) (rd_relative rd) @ ''/''"
  shows "handle_directory cr fl =
      Some (emit [SendResponse STATUS_MOVED_PERMANENTLY [(''location'', loc)] None] (set_phase Done fl), True) \<and>
    intake cr (fl_config fl) (raw\<lparr>raw_method := Some ''GET'', raw_path := Some loc\<rparr>) = Inr (rd_relative rd, True)"
proof -
  let ?c = "fl_config fl" and ?rel = "rd_relative rd"
  have ne: "?rel \<noteq> []" using assms(4-6) by (cases segs rule: list.exhaust; cases "tl segs") (auto simp: safe_segment_def plain_name_def)
  have "resolve_request_path (cr_percent_decode cr) (''/'' @ ?rel @ ''/'') (intake_policy ?c) = PathOk ?rel True"
    using resolve_encoded [of segs "cr_percent_decode cr" id "intake_policy ?c" "[]" "''/'' @ ?rel @ ''/''" True] assms(4-8)
    by (simp add: url_plain_def intake_policy_def)
  moreover have "mounted_path ?c (raw\<lparr>raw_method := Some ''GET'', raw_path := Some loc\<rparr>) = Some (''/'' @ ?rel @ ''/'')"
    using strip_mounted [of "''/'' @ ?rel @ ''/''"] ne assms(9)
    by (simp add: mounted_path_def url_for_def split: option.split)
  ultimately show ?thesis
    using redirects [OF assms(1-3), of cr] assms(9) by (simp add: intake_def)
qed

theorem redirect_lands_witness:
  "handle_directory sample_cr (sample_filter (ResolvingFile []) Empty []) =
      Some (emit [SendResponse STATUS_MOVED_PERMANENTLY [(''location'', ''/a/'')] None]
        (set_phase Done (sample_filter (ResolvingFile []) Empty [])), True)"
proof -
  have s: "safe_segment (intake_policy sample_config) ''a''"
    by (simp add: safe_segment_def plain_name_def is_windows_reserved_name_def RESERVED_def eq_ignore_ascii_case_def
        to_ascii_lowercase_def to_ascii_lower_def char_of_def bit_Suc_0_iff)
  have c: "cfg_redirect_trailing_slash sample_config" "cfg_strip_prefix sample_config = None"
    by (simp_all add: sample_config_def default_config_def)
  show ?thesis
    using redirect_lands [of "sample_filter (ResolvingFile []) Empty []" sample_rd "[''a'']" sample_cr "''/a/''"] s c
    by (simp add: sample_filter_def sample_rd_def sample_cr_def url_plain_def encodes_def url_for_def)
qed

text \<open>
  The \<^verbatim>\<open>Location\<close> is not percent-encoded: a directory whose name holds a question mark is
  redirected to another path, and the root asked for as \<^verbatim>\<open>/.\<close> to \<^verbatim>\<open>//\<close>, which
  a client reads as a network-path reference.
\<close>

lemma redirect_not_encoded:
  assumes "fl_request fl = Some rd" and "\<not> rd_trailing_slash rd" and "cfg_redirect_trailing_slash (fl_config fl)"
    and "cfg_strip_prefix (fl_config fl) = None" and "rd_relative rd = ''a?b''"
  shows "\<exists>fl'. handle_directory cr fl = Some (fl', True) \<and>
      fl_out fl' = fl_out fl @ dropped_with (fl_phase fl) @
        [SendResponse STATUS_MOVED_PERMANENTLY [(''location'', ''/a?b/'')] None]"
    and "resolve_request_path Some ''/a?b/'' \<lparr>pol_serve_dotfiles = False, pol_max_path_len = 4096\<rparr> = PathOk ''a'' False"
  using assms sample_resolve
  by (simp_all add: redirects url_for_def emit_def set_phase_def resolve_request_path_def strip_query_and_fragment_def)

lemma root_redirects_to_double_slash:
  assumes "fl_request fl = Some rd" and "\<not> rd_trailing_slash rd" and "cfg_redirect_trailing_slash (fl_config fl)"
    and "cfg_strip_prefix (fl_config fl) = None" and "rd_relative rd = []"
  shows "\<exists>fl'. handle_directory cr fl = Some (fl', True) \<and>
    fl_out fl' = fl_out fl @ dropped_with (fl_phase fl) @
      [SendResponse STATUS_MOVED_PERMANENTLY [(''location'', ''//'')] None]"
  using assms by (simp add: redirects url_for_def emit_def set_phase_def)

lemma root_without_slash:
  "resolve_request_path Some ''/.'' \<lparr>pol_serve_dotfiles = False, pol_max_path_len = 4096\<rparr> = PathOk [] False"
  by (simp add: resolve_request_path_def strip_query_and_fragment_def percent_decode_segment_def ends_with_char_def)

text \<open>
  Asked for as \<^verbatim>\<open>/.\<close> with an encoding, the root has the hidden file \<^verbatim>\<open>.br\<close> as its variant,
  although hidden files are not served.
\<close>

lemma root_variant_is_hidden:
  assumes "cfg_root c = ''/srv''" and "BROTLI \<in> set (negotiate_precompressed (Some ae) (cfg_precompressed c))"
  shows "\<exists>cand \<in> set (build_file_candidates cr c [] False (Some ae)). cand_fs_path cand = ''/srv/.br''"
  using assms by (force simp: build_file_candidates_def Let_def BROTLI_def path_join_def is_absolute_def)

section \<open>Index files that are directories\<close>

text \<open>
  The system while the paths \<open>D\<close> are directories: an open of one of them is answered as a directory, any
  other request in any way the engine can, and Envoy runs the scheduled callbacks.
\<close>

inductive directory_step :: "('h, 't) crates \<Rightarrow> path set \<Rightarrow> sys \<Rightarrow> sys \<Rightarrow> bool" for cr D where
  answer: "sy_pending sy = rs1 @ r # rs2 \<Longrightarrow> engine_answer (sy_content sy) r content' event \<Longrightarrow>
    (\<And>req ctx. r = ROpen req ctx \<Longrightarrow> or_path req \<in> D \<Longrightarrow> \<exists>h stat. st_is_dir stat \<and> event = Opened h stat ctx []) \<Longrightarrow>
    directory_step cr D sy (absorb (deliver event (sy_filter sy))
      (sy\<lparr>sy_pending := rs1 @ rs2, sy_content := content'\<rparr>))"
| wake: "sy_alive sy \<Longrightarrow> sy_scheduled sy = Suc n \<Longrightarrow>
    on_scheduled cr react (sy_filter sy) = Some fl \<Longrightarrow>
    directory_step cr D sy (absorb fl (sy\<lparr>sy_scheduled := n\<rparr>))"

lemma directory_step_drives: "directory_step cr D sy sy' \<Longrightarrow> drive_step cr sy sy'"
  by (induction rule: directory_step.induct) (auto intro: drive_step.intros)

definition index_ctx :: "('h, 't) crates \<Rightarrow> config \<Rightarrow> string \<Rightarrow> open_ctx" where
  "index_ctx cr c name = \<lparr>ctx_encoding = None, ctx_content_type =
     content_type_for (cr_mime_guess cr) name (cfg_mime_overrides c) (cfg_default_content_type c), ctx_add_vary = False\<rparr>"

text \<open>An index file of the requested directory has been asked for.\<close>

definition index_asked :: "config \<Rightarrow> request_data \<Rightarrow> stream_filter \<Rightarrow> bool" where
  "index_asked c rd fl \<longleftrightarrow>
     fl_config fl = c \<and> fl_waker fl \<and> (\<exists>dir ps. fl_phase fl = ResolvingIndex dir ps) \<and>
     fl_request fl = Some rd \<and> (rd_trailing_slash rd \<or> \<not> cfg_redirect_trailing_slash c)"

text \<open>The path of an index file, and how often it has been asked for.\<close>

definition index_path :: "config \<Rightarrow> request_data \<Rightarrow> string \<Rightarrow> path" where
  "index_path c rd name = path_join (path_join (cfg_root c) (rd_relative rd)) name"

fun asks_for :: "path \<Rightarrow> action \<Rightarrow> bool" where
  "asks_for p (OpenFile req ctx) \<longleftrightarrow> or_path req = p"
| "asks_for p _ \<longleftrightarrow> False"

definition asked :: "path \<Rightarrow> action list \<Rightarrow> nat" where
  "asked p acts = length (filter (asks_for p) acts)"

lemma asked_simps [simp]:
  "asked p [] = 0" "asked p (a # acts) = (if asks_for p a then 1 else 0) + asked p acts"
  "asked p (acts @ acts') = asked p acts + asked p acts'"
  by (simp_all add: asked_def)

lemma directory_index_again:
  assumes "index_asked c rd fl" and "cfg_directory c \<noteq> Deny" and "cfg_index_files c = name # names"
    and "st_is_dir stat" and "ctx_encoding ctx = None"
  shows "\<exists>fl' req. handle_event cr (Opened h stat ctx prefetch) fl = Some (fl', False) \<and> index_asked c rd fl' \<and>
    or_path req = index_path c rd name \<and>
    fl_out fl' = fl_out fl @ [OpenFile req (index_ctx cr c name), DropFile h] \<and> fl_bridge fl' = fl_bridge fl"
  using assms
  by (auto simp: index_asked_def handle_event_def handle_opened_def handle_directory_def open_next_index_def
      submit_open_def set_phase_def emit_def index_ctx_def index_path_def Let_def)

text \<open>
  The states of the loop: the index file is being opened, or (\<open>answered\<close>) its answer waits to be handled.
  Nothing else is outstanding.
\<close>

definition index_loop :: "config \<Rightarrow> request_data \<Rightarrow> path \<Rightarrow> bool \<Rightarrow> sys \<Rightarrow> bool" where
  "index_loop c rd p answered sy \<longleftrightarrow> sy_alive sy \<and> index_asked c rd (sy_filter sy) \<and>
     (\<exists>req ctx. ctx_encoding ctx = None \<and>
       (if answered then sy_pending sy = [] \<and> 0 < sy_scheduled sy \<and>
          (\<exists>h stat. st_is_dir stat \<and> fl_bridge (sy_filter sy) = OneEvent (Opened h stat ctx []))
        else sy_pending sy = [ROpen req ctx] \<and> or_path req = p \<and> fl_bridge (sy_filter sy) = Empty))"

definition loop_action :: "path \<Rightarrow> action \<Rightarrow> bool" where
  "loop_action p a \<longleftrightarrow> a = Commit \<or> (\<exists>h. a = DropFile h) \<or> asks_for p a"

text \<open>One step: the loop is not left, and what the step does is accounted for.\<close>

lemma directory_answer:
  assumes "index_loop c rd p False sy" and "p \<in> D" and "directory_step cr D sy t" and "sy_alive sy"
  shows "\<exists>b acts. index_loop c rd p b t \<and> fl_out (sy_filter t) = fl_out (sy_filter sy) @ acts \<and>
    list_all (loop_action p) acts \<and>
    Suc (sy_scheduled t) = sy_scheduled sy + 2 * asked p acts + (if b then 2 else 0)"
  using assms(3)
proof cases
  case (answer rs1 r rs2 content' event)
  obtain req ctx where l: "ctx_encoding ctx = None" "sy_pending sy = [ROpen req ctx]" "or_path req = p"
      "fl_bridge (sy_filter sy) = Empty" "index_asked c rd (sy_filter sy)"
    using assms(1) by (auto simp: index_loop_def)
  then have r: "rs1 = []" "rs2 = []" "r = ROpen req ctx" using answer(2) by (auto simp: append_eq_Cons_conv)
  with answer(4) l(3) assms(2) obtain h stat where o: "st_is_dir stat" "event = Opened h stat ctx []" by blast
  have "index_loop c rd p True t"
    using l assms(4) answer(1) o r by (auto simp: index_loop_def absorb_def deliver_def emit_def index_asked_def)
  moreover have "fl_out (sy_filter t) = fl_out (sy_filter sy) @ [Commit]" "sy_scheduled t = Suc (sy_scheduled sy)"
    using l(4) answer(1) o by (auto simp: absorb_def deliver_def emit_def)
  ultimately show ?thesis by (intro exI [of _ True] exI [of _ "[Commit]"]) (simp add: loop_action_def)
next
  case (wake n react fl)
  have b: "fl_bridge (sy_filter sy) = Empty" "index_asked c rd (sy_filter sy)" using assms(1) by (auto simp: index_loop_def)
  have "(sy_filter sy)\<lparr>fl_bridge := Empty\<rparr> = sy_filter sy" using b(1) by simp
  then have "fl = sy_filter sy" using wake(4) b by (auto simp: on_scheduled_def index_asked_def)
  then have "index_loop c rd p False t" "fl_out (sy_filter t) = fl_out (sy_filter sy)" "Suc (sy_scheduled t) = sy_scheduled sy"
    using assms(1) wake by (auto simp: index_loop_def absorb_def)
  then show ?thesis by (intro exI [of _ False] exI [of _ "[]"]) simp
qed

lemma directory_handled:
  assumes "index_loop c rd p True sy" and "cfg_directory c \<noteq> Deny" and "cfg_index_files c = name # names"
    and "p = index_path c rd name" and "directory_step cr D sy t"
  shows "\<exists>acts. index_loop c rd p False t \<and> fl_out (sy_filter t) = fl_out (sy_filter sy) @ acts \<and>
    list_all (loop_action p) acts \<and> asked p acts = 1 \<and> Suc (sy_scheduled t) = sy_scheduled sy"
  using assms(5)
proof cases
  case (answer rs1 r rs2 content' event)
  then show ?thesis using assms(1) by (simp add: index_loop_def)
next
  case (wake n react fl)
  let ?fl = "sy_filter sy" and ?drained = "(sy_filter sy)\<lparr>fl_bridge := Empty\<rparr>"
  obtain h stat ctx where o: "ctx_encoding ctx = None" "st_is_dir stat" "fl_bridge ?fl = OneEvent (Opened h stat ctx [])"
      "index_asked c rd ?fl"
    using assms(1) by (auto simp: index_loop_def)
  have "index_asked c rd ?drained" using o(4) by (simp add: index_asked_def)
  from directory_index_again [OF this assms(2,3) o(2,1), of cr h "[]"] obtain fl' req where
    e: "handle_event cr (Opened h stat ctx []) ?drained = Some (fl', False)" "index_asked c rd fl'"
      "or_path req = p" "fl_out fl' = fl_out ?fl @ [OpenFile req (index_ctx cr c name), DropFile h]" "fl_bridge fl' = Empty"
    unfolding assms(4) by auto
  have b: "bridge_process (fl_bridge ?fl) = (Empty, [Opened h stat ctx []])" by (simp add: o(3))
  have "handle_events cr [Opened h stat ctx []] ?drained = Some (fl', False)" by (simp add: e(1))
  then have "on_scheduled cr react ?fl = Some fl'"
    unfolding on_scheduled_def b Let_def prod.case using e(2) by (auto simp: index_asked_def)
  then have fl: "fl = fl'" using wake(4) by simp
  have "index_loop c rd p False t"
    using assms(1) e fl wake(1) by (auto simp: index_loop_def absorb_def index_ctx_def)
  moreover have "Suc (sy_scheduled t) = sy_scheduled sy" using wake e(4) fl by (simp add: absorb_def)
  moreover have "fl_out (sy_filter t) = fl_out ?fl @ [OpenFile req (index_ctx cr c name), DropFile h]"
    using wake(1) e(4) fl by (simp add: absorb_def)
  ultimately show ?thesis
    using e(3) by (intro exI [of _ "[OpenFile req (index_ctx cr c name), DropFile h]"]) (simp add: loop_action_def)
qed

lemma directory_can_go_on:
  assumes "index_loop c rd p b sy" and "cfg_directory c \<noteq> Deny" and "cfg_index_files c = name # names"
  shows "\<exists>t. directory_step cr D sy t"
proof (cases b)
  case False
  let ?stat = "\<lparr>st_size = 0, st_mtime_unix = 0, st_mtime_nanos = 0, st_is_dir = True\<rparr>"
  obtain req ctx where p: "sy_pending sy = [] @ ROpen req ctx # []" using assms(1) False by (auto simp: index_loop_def)
  have "engine_answer (sy_content sy) (ROpen req ctx) (sy_content sy) (Opened 1 ?stat ctx [])"
    using open_directory [of ?stat "sy_content sy" req ctx 1] by (simp add: open_event_def)
  from directory_step.answer [OF p this] show ?thesis by fastforce
next
  case True
  then obtain h stat ctx n where o: "ctx_encoding ctx = None" "st_is_dir stat" "sy_scheduled sy = Suc n" "sy_alive sy"
      "fl_bridge (sy_filter sy) = OneEvent (Opened h stat ctx [])" "index_asked c rd (sy_filter sy)"
    using assms(1) by (auto simp: index_loop_def gr0_conv_Suc)
  let ?drained = "(sy_filter sy)\<lparr>fl_bridge := Empty\<rparr>"
  have "index_asked c rd ?drained" using o(6) by (simp add: index_asked_def)
  from directory_index_again [OF this assms(2,3) o(2,1), of cr h "[]"] obtain fl' where
    e: "handle_event cr (Opened h stat ctx []) ?drained = Some (fl', False)" "index_asked c rd fl'" by blast
  have b: "bridge_process (fl_bridge (sy_filter sy)) = (Empty, [Opened h stat ctx []])" by (simp add: o(5))
  have "handle_events cr [Opened h stat ctx []] ?drained = Some (fl', False)" by (simp add: e(1))
  then have "on_scheduled cr (\<lambda>_. []) (sy_filter sy) = Some fl'"
    unfolding on_scheduled_def b Let_def prod.case using e(2) by (auto simp: index_asked_def)
  from directory_step.wake [OF o(4,3) this] show ?thesis by blast
qed

text \<open>Any number of steps.\<close>

lemma directory_run:
  assumes "index_loop c rd p b sy" and "cfg_directory c \<noteq> Deny" and "cfg_index_files c = name # names"
    and "p = index_path c rd name" and "p \<in> D" and "(directory_step cr D ^^ n) sy t"
  shows "\<exists>b' acts. index_loop c rd p b' t \<and> fl_out (sy_filter t) = fl_out (sy_filter sy) @ acts \<and>
    list_all (loop_action p) acts \<and>
    n + sy_scheduled t + (if b then 2 else 0) = sy_scheduled sy + 2 * asked p acts + (if b' then 2 else 0)"
  using assms(6)
proof (induction n arbitrary: t)
  case 0
  then show ?case using assms(1) by (intro exI [of _ b] exI [of _ "[]"]) simp
next
  case (Suc n)
  then obtain u where u: "(directory_step cr D ^^ n) sy u" "directory_step cr D u t" by auto
  obtain b' acts where i: "index_loop c rd p b' u" "fl_out (sy_filter u) = fl_out (sy_filter sy) @ acts"
      "list_all (loop_action p) acts"
      "n + sy_scheduled u + (if b then 2 else 0) = sy_scheduled sy + 2 * asked p acts + (if b' then 2 else 0)"
    using Suc.IH [OF u(1)] by blast
  show ?case
  proof (cases b')
    case True
    then have "index_loop c rd p True u" using i(1) by simp
    from directory_handled [OF this assms(2-4) u(2)] obtain acts' where
      "index_loop c rd p False t" "fl_out (sy_filter t) = fl_out (sy_filter u) @ acts'"
      "list_all (loop_action p) acts'" "asked p acts' = 1" "Suc (sy_scheduled t) = sy_scheduled u" by blast
    then show ?thesis
      using i True by (intro exI [of _ False] exI [of _ "acts @ acts'"]) (auto simp del: asked_simps(1,2))
  next
    case False
    then have l: "index_loop c rd p False u" "sy_alive u" using i(1) by (simp_all add: index_loop_def)
    from directory_answer [OF l(1) assms(5) u(2) l(2)] obtain b'' acts' where
      "index_loop c rd p b'' t" "fl_out (sy_filter t) = fl_out (sy_filter u) @ acts'" "list_all (loop_action p) acts'"
      "Suc (sy_scheduled t) = sy_scheduled u + 2 * asked p acts' + (if b'' then 2 else 0)" by blast
    then show ?thesis
      using i False by (intro exI [of _ b''] exI [of _ "acts @ acts'"]) (auto simp del: asked_simps(1,2))
  qed
qed

text \<open>
  C27: An index file that is itself a directory is never given up. Once the first index file of the requested
  directory has been asked for, and while its path is a directory, every run of the system, whatever the engine
  and Envoy do, stays in the resolution of the index and can always go on; it sends nothing at all, it only opens
  that same path and drops it again; and it asks for it at least once in two steps, without end.
\<close>

theorem index_directory_livelock:
  assumes "index_loop c rd p False sy" and "cfg_directory c \<noteq> Deny" and "cfg_index_files c = name # names"
    and "p = index_path c rd name" and "p \<in> D" and "(directory_step cr D ^^ n) sy t"
  shows "(\<exists>dir ps. fl_phase (sy_filter t) = ResolvingIndex dir ps) \<and> (\<exists>u. directory_step cr D t u) \<and>
    (\<exists>acts. fl_out (sy_filter t) = fl_out (sy_filter sy) @ acts \<and>
      (\<forall>a \<in> set acts. a = Commit \<or> (\<exists>h. a = DropFile h) \<or> (\<exists>req ctx. a = OpenFile req ctx \<and> or_path req = p)) \<and>
      n \<le> 2 * asked p acts + sy_scheduled sy + 2)"
proof -
  from directory_run [OF assms] obtain b acts where
    i: "index_loop c rd p b t" "fl_out (sy_filter t) = fl_out (sy_filter sy) @ acts" "list_all (loop_action p) acts"
      "n + sy_scheduled t + (if False then 2 else 0) = sy_scheduled sy + 2 * asked p acts + (if b then 2 else 0)" by blast
  have "asks_for p a \<Longrightarrow> \<exists>req ctx. a = OpenFile req ctx \<and> or_path req = p" for a by (cases a) auto
  then have "\<forall>a \<in> set acts. a = Commit \<or> (\<exists>h. a = DropFile h) \<or> (\<exists>req ctx. a = OpenFile req ctx \<and> or_path req = p)"
    using i(3) unfolding list_all_iff loop_action_def by blast
  moreover have "n \<le> 2 * asked p acts + sy_scheduled sy + 2" using i(4) by (auto split: if_splits)
  moreover have "\<exists>dir ps. fl_phase (sy_filter t) = ResolvingIndex dir ps"
    using i(1) by (simp add: index_loop_def index_asked_def)
  ultimately show ?thesis using directory_can_go_on [OF i(1) assms(2,3)] i(2) by blast
qed

text \<open>A GET of the directory \<^verbatim>\<open>/d/\<close>, up to the open of its index file.\<close>

definition sample_dir_rd :: request_data where
  "sample_dir_rd = sample_rd\<lparr>rd_relative := ''d'', rd_trailing_slash := True\<rparr>"

definition sample_dir_filter :: "phase \<Rightarrow> io_event bridge \<Rightarrow> action list \<Rightarrow> stream_filter" where
  "sample_dir_filter p b out = (sample_filter p b out)\<lparr>fl_request := Some sample_dir_rd\<rparr>"

definition sample_dir_request :: "string \<Rightarrow> open_request" where
  "sample_dir_request p = \<lparr>or_path = p, or_containment_root = Some ''/srv'', or_deny_symlinks = False,
     or_prefetch_len = 65536\<rparr>"

definition sample_dir_opened :: io_event where
  "sample_dir_opened = Opened 1 (sample_stat\<lparr>st_is_dir := True\<rparr>) sample_ctx []"

lemma sample_dir_requested:
  "on_request_headers sample_cr [('':method'', ''GET''), ('':path'', ''/d/'')] (filter_new sample_config) =
     Some (sample_dir_filter (ResolvingFile []) Empty [OpenFile (sample_dir_request ''/srv/d'') sample_ctx])"
proof -
  have "from_utf8_lossy ''/d/'' = ''/d/''" by (rule lossy_of_valid, rule ascii_valid) simp
  then have h: "collect_headers sample_cr [('':method'', ''GET''), ('':path'', ''/d/'')] =
      raw_empty\<lparr>raw_method := Some ''GET'', raw_path := Some ''/d/''\<rparr>"
    by (simp add: collect_headers_def collect_header_def sample_cr_def raw_empty_def fill_slot_def
        del: from_utf8_lossy.simps)
  have r: "resolve_request_path Some ''/d/'' \<lparr>pol_serve_dotfiles = False, pol_max_path_len = 4096\<rparr> = PathOk ''d'' True"
    by (simp add: resolve_request_path_def strip_query_and_fragment_def percent_decode_segment_def
        hex_digit_value_def reject_reason_for_segment_def ends_with_char_def starts_with_char_def
        is_windows_reserved_name_def RESERVED_def eq_ignore_ascii_case_def to_ascii_lowercase_def
        to_ascii_lower_def char_of_def bit_Suc_0_iff Let_def)
  have b: "build_file_candidates sample_cr sample_config ''d'' True None = [\<lparr>cand_fs_path = ''/srv/d'', cand_encoding = None,
      cand_content_type = ''application/octet-stream'', cand_add_vary = False\<rparr>]"
    by (simp add: build_file_candidates_def sample_config_def default_config_def content_type_for_def
        extract_extension_def sample_cr_def path_join_def is_absolute_def rsplit_once_def path_extension_def
        path_file_name_def components_def piece_components_def)
  have fields: "cfg_strip_prefix sample_config = None" "cfg_serve_dotfiles sample_config = False"
    "cfg_root sample_config = ''/srv''" "cfg_follow_symlinks_within_root sample_config"
    "cfg_chunk_size sample_config = 65536" "cr_percent_decode sample_cr = Some"
    by (simp_all add: sample_config_def default_config_def sample_cr_def)
  show ?thesis
    by (simp add: on_request_headers_eq intake_def mounted_path_def intake_policy_def request_of_def h raw_empty_def
        filter_new_def fields r b open_next_candidate_def submit_open_def set_phase_def emit_def
        sample_dir_filter_def sample_filter_def bridge_new_def sample_dir_request_def sample_ctx_def sample_rd_def
        sample_dir_rd_def)
qed

lemma sample_dir_index:
  "\<exists>fl req. on_scheduled sample_cr (\<lambda>_. []) (sample_dir_filter (ResolvingFile []) (OneEvent sample_dir_opened) out) =
     Some fl \<and> fl_bridge fl = Empty \<and> index_asked sample_config sample_dir_rd fl \<and>
     or_path req = ''/srv/d/index.html'' \<and> fl_out fl = out @ [OpenFile req (index_ctx sample_cr sample_config ''index.html''), DropFile 1]"
proof -
  have c: "cfg_directory sample_config \<noteq> Deny" "cfg_index_files sample_config = [''index.html'']"
    by (simp_all add: sample_config_def default_config_def)
  have p: "path_join (path_join (cfg_root sample_config) ''d'') ''index.html'' = ''/srv/d/index.html''"
    by (simp add: sample_config_def default_config_def path_join_def is_absolute_def)
  show ?thesis
    by (simp add: on_scheduled_def sample_dir_filter_def sample_filter_def sample_dir_opened_def handle_event_def
        handle_opened_def sample_ctx_def handle_directory_def sample_dir_rd_def c open_next_index_def submit_open_def
        set_phase_def emit_def index_asked_def index_ctx_def Let_def p)
qed

theorem index_directory_livelock_witness:
  "\<exists>sy. sys_reach sample_cr sample_config sy \<and>
     (\<forall>n. \<exists>t. (directory_step sample_cr {''/srv/d/index.html''} ^^ n) sy t \<and> fl_phase (sy_filter t) \<noteq> Done \<and>
       n \<le> 2 * asked ''/srv/d/index.html'' (fl_out (sy_filter t)) + 2)"
proof -
  let ?req = "sample_dir_request ''/srv/d''" and ?init = "sys_init sample_config"
  define f1 where "f1 = sample_dir_filter (ResolvingFile []) Empty [OpenFile ?req sample_ctx]"
  define s1 where "s1 = absorb f1 ?init"
  define s2 where "s2 = absorb (deliver sample_dir_opened (sy_filter s1)) (s1\<lparr>sy_pending := [] @ [], sy_content := []\<rparr>)"
  have "sys_step sample_cr ?init s1"
    unfolding s1_def f1_def
    by (rule sys_step.headers [where kvs = "[('':method'', ''GET''), ('':path'', ''/d/'')]"])
       (simp_all add: sys_init_def sample_dir_requested, simp add: filter_new_def)
  then have r1: "sys_reach sample_cr sample_config s1" by (rule sys_reach.step [OF sys_reach.start])
  have s1: "sy_filter s1 = f1" "sy_pending s1 = [ROpen ?req sample_ctx]" "sy_content s1 = []" "sy_scheduled s1 = 0" "sy_alive s1"
    by (simp_all add: s1_def f1_def absorb_def sys_init_def filter_new_def sample_dir_filter_def sample_filter_def)
  have "engine_answer [] (ROpen ?req sample_ctx) [] sample_dir_opened"
    using open_directory [of "sample_stat\<lparr>st_is_dir := True\<rparr>" "[]" ?req sample_ctx 1]
    by (simp add: open_event_def sample_dir_opened_def)
  then have "sys_step sample_cr s1 s2"
    unfolding s2_def using s1 by (intro sys_step.answered) simp_all
  then have r2: "sys_reach sample_cr sample_config s2" by (rule sys_reach.step [OF r1])
  have s2: "sy_filter s2 = sample_dir_filter (ResolvingFile []) (OneEvent sample_dir_opened) [OpenFile ?req sample_ctx, Commit]"
      "sy_pending s2 = []" "sy_scheduled s2 = Suc 0" "sy_alive s2"
    by (simp_all add: s2_def absorb_def s1 f1_def deliver_def emit_def sample_dir_filter_def sample_filter_def)
  obtain f3 req where f3: "on_scheduled sample_cr (\<lambda>_. []) (sy_filter s2) = Some f3" "fl_bridge f3 = Empty"
      "index_asked sample_config sample_dir_rd f3" "or_path req = ''/srv/d/index.html''"
      "fl_out f3 = fl_out (sy_filter s2) @ [OpenFile req (index_ctx sample_cr sample_config ''index.html''), DropFile 1]"
    using sample_dir_index [of "[OpenFile ?req sample_ctx, Commit]"] unfolding s2(1)
    by (auto simp: sample_dir_filter_def sample_filter_def)
  let ?s3 = "absorb f3 (s2\<lparr>sy_scheduled := 0\<rparr>)"
  have r3: "sys_reach sample_cr sample_config ?s3"
    by (rule sys_reach.step [OF r2 sys_step.scheduled [OF s2(4,3) f3(1)]])
  let ?p = "''/srv/d/index.html''"
  have loop: "index_loop sample_config sample_dir_rd ?p False ?s3"
    using f3 s2 by (auto simp: index_loop_def absorb_def index_ctx_def)
  have sched: "sy_scheduled ?s3 = 0" using f3(5) by (simp add: absorb_def)
  have c: "cfg_directory sample_config \<noteq> Deny" "cfg_index_files sample_config = ''index.html'' # []"
    and p: "?p = index_path sample_config sample_dir_rd ''index.html''" "?p \<in> {?p}"
    by (simp_all add: sample_config_def default_config_def index_path_def sample_dir_rd_def path_join_def is_absolute_def)
  have "\<exists>t. (directory_step sample_cr {?p} ^^ n) ?s3 t" for n
  proof (induction n)
    case (Suc n)
    then obtain t where "(directory_step sample_cr {?p} ^^ n) ?s3 t" ..
    with index_directory_livelock [OF loop c p this] show ?case by (blast intro: relpowp_Suc_I)
  qed simp
  then have "\<exists>t. (directory_step sample_cr {?p} ^^ n) ?s3 t \<and> fl_phase (sy_filter t) \<noteq> Done \<and>
       n \<le> 2 * asked ?p (fl_out (sy_filter t)) + 2" for n
    using index_directory_livelock [OF loop c p, where n = n and cr = sample_cr] sched by fastforce
  then show ?thesis using r3 by blast
qed

section \<open>The links of a listing\<close>

text \<open>The address of a directory below the mount, its names encoded as a listing encodes them.\<close>

definition directory_url :: "('h, 't) crates \<Rightarrow> config \<Rightarrow> string list \<Rightarrow> string" where
  "directory_url cr c segs = (case cfg_strip_prefix c of Some m \<Rightarrow> m | None \<Rightarrow> []) @
     ''/'' @ concat (map (\<lambda>s. percent_encode_path_segment (cr_text cr) s @ ''/'') segs)"

lemma intake_below:
  assumes "raw_method raw = Some ''GET''" and "hd p = CHR ''/''" and "p \<noteq> []"
    and "raw_path raw = Some ((case cfg_strip_prefix c of Some m \<Rightarrow> m | None \<Rightarrow> []) @ p)"
  shows "intake cr c raw = (case resolve_request_path (cr_percent_decode cr) p (intake_policy c) of
     Reject reason \<Rightarrow> Inl (reject_status reason, []) | PathOk rel ts \<Rightarrow> Inr (rel, ts))"
proof -
  have "mounted_path c raw = Some p"
    using assms strip_mounted [of p] by (simp add: mounted_path_def split: option.split)
  then show ?thesis using assms(1) by (simp add: intake_def)
qed

lemma joined_names:
  "''/'' @ concat (map (\<lambda>s. f s @ ''/'') segs) @ f name = ''/'' @ join_with ''/'' (map f (segs @ [name]))"
proof -
  have "concat (map (\<lambda>s. f s @ ''/'') segs) @ f name = join_with ''/'' (map f (segs @ [name]))"
  proof (induction segs)
    case (Cons s segs)
    then show ?case by (cases segs) simp_all
  qed simp
  then show ?thesis by simp
qed

text \<open>
  C40: The link of a row of a listing, followed from the address of the listed directory with its trailing slash,
  mounted or not, asks for the listed entry when the policy serves its name, with a trailing slash exactly for a
  directory; when the policy does not serve the name (a hidden file, a reserved name, a name with a colon or a
  control character), it is answered 400 or 404, though the listing shows it. The directory's own names are
  servable and the encoded address below the mount is at most 4096 bytes long.
\<close>

theorem listing_link_resolves:
  assumes "render_row (cr_text cr) hc entry = Some row"
    and "\<forall>s \<in> set (segs @ [de_name entry]).
      encodes (cr_percent_decode cr) (percent_encode_path_segment (cr_text cr)) s"
    and "plain_name (de_name entry)" and "\<forall>s \<in> set segs. safe_segment (intake_policy c) s"
    and "cr_percent_decode cr [] = Some []"
    and "length (concat (map (percent_encode_path_segment (cr_text cr)) (segs @ [de_name entry]))) + length segs + 2 \<le> 4096"
    and "raw_method raw = Some ''GET''"
  shows "\<exists>href post. row = ''<tr><td><a href=\"'' @ href @ ''\">'' @ post \<and>
    (if safe_segment (intake_policy c) (de_name entry)
     then intake cr c (raw\<lparr>raw_path := Some (directory_url cr c segs @ href)\<rparr>) =
       Inr (join_with ''/'' (segs @ [de_name entry]), de_is_dir entry)
     else \<exists>st \<in> {400, 404}. intake cr c (raw\<lparr>raw_path := Some (directory_url cr c segs @ href)\<rparr>) = Inl (st, []))"
proof -
  let ?enc = "percent_encode_path_segment (cr_text cr)" and ?name = "de_name entry" and ?pol = "intake_policy c"
  define slash where "slash = (if de_is_dir entry then ''/'' else [])"
  let ?href = "?enc ?name @ slash"
  define p where "p = ''/'' @ concat (map (\<lambda>s. ?enc s @ ''/'') segs) @ ?href"
  obtain post where row: "row = ''<tr><td><a href=\"'' @ ?href @ ''\">'' @ post"
    using assms(1) by (cases "de_is_dir entry") (auto simp: render_row_def slash_def bind_eq_Some_conv)
  have "length (concat (map (\<lambda>s. ?enc s @ ''/'') segs)) = length (concat (map ?enc segs)) + length segs"
    by (induction segs) simp_all
  then have len: "length p \<le> pol_max_path_len ?pol"
    using assms(6) by (simp add: p_def slash_def intake_policy_def)
  have p: "p = ''/'' @ join_with ''/'' (map ?enc (segs @ [?name])) @ slash"
    unfolding p_def using joined_names [of ?enc segs ?name, THEN arg_cong, of "\<lambda>x. x @ slash"] by simp
  have intake: "intake cr c (raw\<lparr>raw_path := Some (directory_url cr c segs @ ?href)\<rparr>) =
      (case resolve_request_path (cr_percent_decode cr) p ?pol of
         Reject reason \<Rightarrow> Inl (reject_status reason, []) | PathOk rel ts \<Rightarrow> Inr (rel, ts))"
    by (rule intake_below) (simp_all add: assms(7) p_def directory_url_def)
  have "if safe_segment ?pol ?name
     then intake cr c (raw\<lparr>raw_path := Some (directory_url cr c segs @ ?href)\<rparr>) =
       Inr (join_with ''/'' (segs @ [?name]), de_is_dir entry)
     else \<exists>st \<in> {400, 404}. intake cr c (raw\<lparr>raw_path := Some (directory_url cr c segs @ ?href)\<rparr>) = Inl (st, [])"
  proof (cases "safe_segment ?pol ?name")
    case True
    have "p = ''/'' @ join_with ''/'' (map ?enc (segs @ [?name])) @ (if de_is_dir entry then ''/'' else []) @ []"
      using p by (simp add: slash_def)
    from resolve_encoded [OF assms(2,5) _ _ _ this len] True assms(4) show ?thesis by (simp add: intake)
  next
    case False
    from resolve_encoded_rejected [OF assms(2,5,4,3) False p [unfolded slash_def] len]
    obtain reason where "reject_reason_for_segment ?name ?pol = Some reason"
        "resolve_request_path (cr_percent_decode cr) p ?pol = Reject reason" by blast
    moreover have "reason \<noteq> TooLong"
      using \<open>reject_reason_for_segment ?name ?pol = Some reason\<close>
      using reject_char_cases [of ?name] by (auto simp: reject_reason_for_segment_def split: option.splits if_splits)
    ultimately show ?thesis
      using False intake by (cases reason) (auto simp: reject_status_def)
  qed
  then show ?thesis using row by blast
qed

theorem listing_link_resolves_witness:
  "\<exists>href post row. render_row sample_text_crates sample_crate
       \<lparr>de_name = ''a'', de_is_dir = True, de_size = 0, de_mtime_unix = 0\<rparr> = Some row \<and>
     row = ''<tr><td><a href=\"'' @ href @ ''\">'' @ post \<and>
     intake sample_cr sample_config (raw_empty\<lparr>raw_method := Some ''GET'', raw_path := Some (''/d/'' @ href)\<rparr>) =
       Inr (''d/a'', True)"
proof -
  let ?e = "\<lparr>de_name = ''a'', de_is_dir = True, de_size = 0, de_mtime_unix = 0\<rparr>"
  have enc: "percent_encode_path_segment sample_text_crates s = s" if "s = ''a'' \<or> s = ''d''" for s
    using that by (auto simp: percent_encode_path_segment_def sample_text_crates_def PATH_SEGMENT_def
        percent_encoded_def not_alphanumeric_def is_ascii_digit_def)
  have cr: "cr_text sample_cr = sample_text_crates" "cr_percent_decode sample_cr = Some" by (simp_all add: sample_cr_def)
  obtain row where row: "render_row (cr_text sample_cr) sample_crate ?e = Some row"
    by (simp add: render_row_def format_http_date_def sample_crate_def system_time_sint cr)
  have safe: "safe_segment (intake_policy sample_config) s" if "s = ''a'' \<or> s = ''d''" for s
    using that by (auto simp: safe_segment_def plain_name_def is_windows_reserved_name_def RESERVED_def
        eq_ignore_ascii_case_def to_ascii_lowercase_def to_ascii_lower_def char_of_def bit_Suc_0_iff)
  have "\<forall>s \<in> set ([''d''] @ [de_name ?e]).
      encodes (cr_percent_decode sample_cr) (percent_encode_path_segment (cr_text sample_cr)) s"
    by (simp add: encodes_def enc cr)
  moreover have "plain_name (de_name ?e)" by (simp add: plain_name_def)
  moreover have "directory_url sample_cr sample_config [''d''] = ''/d/''"
    by (simp add: directory_url_def enc cr sample_config_def default_config_def)
  ultimately show ?thesis
    using listing_link_resolves [OF row, of "[''d'']" sample_config "raw_empty\<lparr>raw_method := Some ''GET''\<rparr>"] row
    by (simp add: enc cr safe)
qed

end
