(* ===== verification/Stream_Properties.thy ===== *)
theory Stream_Properties
  imports Stream_Sample
begin

text \<open>What the invariant of a stream's life gives, whatever the interleaving of the steps.\<close>

lemma reachable_trace:
  "sys_reach cr c sy \<Longrightarrow> config_ok c \<Longrightarrow> trace_ok cr (sy_content sy) (sy_filter sy) \<and> fl_config (sy_filter sy) = c"
  using reachable_ok [of cr c sy] by (simp add: sys_ok_def)

lemma reachable_live: "sys_reach cr c sy \<Longrightarrow> config_ok c \<Longrightarrow> sy_alive sy \<Longrightarrow> live_ok c sy"
  using reachable_ok [of cr c sy] by (simp add: sys_ok_def)

text \<open>
  In every state whose response has headers and a body, also after a read error or a reset, the data
  sent so far is a prefix of the planned body, and all of it at the end of a response without an error.
\<close>

lemma sent_of_body:
  assumes "sys_reach cr c sy" and "config_ok c" and "starts (fl_out (sy_filter sy)) = 1"
  shows "\<exists>body. started cr (sy_content sy) (sy_filter sy) body \<and>
    prefix (data_of (fl_out (sy_filter sy))) (body_bytes (sy_content sy) body) \<and>
    (fl_phase (sy_filter sy) = Done \<and> logs (fl_out (sy_filter sy)) = 0 \<longrightarrow>
      data_of (fl_out (sy_filter sy)) = body_bytes (sy_content sy) body)"
proof (cases "fl_phase (sy_filter sy)")
  case (Streaming s)
  then obtain body where b: "started cr (sy_content sy) (sy_filter sy) body"
      "chunks_of (sy_content sy) (sm_chunks s) = body_bytes (sy_content sy) body"
      "data_of (fl_out (sy_filter sy)) = chunks_of (sy_content sy) (take (sm_next_send s) (sm_chunks s))"
    using reachable_trace [OF assms(1,2)] by (auto simp: trace_ok_def Let_def)
  have "body_bytes (sy_content sy) body = data_of (fl_out (sy_filter sy)) @
      chunks_of (sy_content sy) (drop (sm_next_send s) (sm_chunks s))"
    using b(2,3) by (metis append_take_drop_id chunks_of_simps(3))
  then show ?thesis using b(1) Streaming by (metis phase.distinct(19) prefixI)
qed (use reachable_trace [OF assms(1,2)] assms(3) in \<open>auto simp: trace_ok_def Let_def\<close>)

text \<open>
  C6: A response whose body was streamed to its end without a read error has sent exactly the body
  of its plan, cut from the opened file, in order: whatever the order in which reads completed, how they were
  batched, and which watermarks Envoy raised.
\<close>

theorem body_delivered:
  assumes "sys_reach cr c sy" and "config_ok c"
    and "fl_phase (sy_filter sy) = Done" and "starts (fl_out (sy_filter sy)) = 1"
    and "logs (fl_out (sy_filter sy)) = 0"
  shows "\<exists>body. started cr (sy_content sy) (sy_filter sy) body \<and>
    data_of (fl_out (sy_filter sy)) = body_bytes (sy_content sy) body"
  using sent_of_body [OF assms(1,2,4)] assms(3,5) by blast

theorem body_delivered_witness:
  "\<exists>body. started sample_cr ''hello'' (sy_filter sample_done) body \<and> ''hello'' = body_bytes ''hello'' body"
  using body_delivered [OF sample_reach_done sample_config_ok]
  by (simp add: sample_done_def sys_init_def sample_filter_def sample_trace_def sample_open_def)

lemma started_plan:
  assumes "started cr content fl body"
  obtains facts meta plan where "plan_response (cr_headers cr) facts meta = Some plan" "\<not> rf_method_head facts"
    "fm_size meta = of_nat (length content)" "length content < 2 ^ 64" "body = plan_body plan"
    "plan_status plan \<in> {STATUS_OK, STATUS_PARTIAL_CONTENT}"
    "SendHeaders (('':status'', to_radix 10 (plan_status plan)) # plan_headers plan) False \<in> set (fl_out fl)"
proof -
  obtain request stat ctx plan where p:
      "plan_response (cr_headers cr) (request_facts_of (fl_config fl) request stat ctx) (file_meta_of stat) = Some plan"
      "st_size stat = of_nat (length content)" "length content < 2 ^ 64" "body = plan_body plan" "body \<noteq> EmptyBody"
      "SendHeaders (('':status'', to_radix 10 (plan_status plan)) # plan_headers plan) False \<in> set (fl_out fl)"
    using assms by (auto simp: started_def)
  have "fm_size (file_meta_of stat) = of_nat (length content)" using p(2) by (simp add: file_meta_of_def)
  with that p plan_with_body [OF p(1)] show ?thesis by blast
qed

text \<open>
  C11: The \<^verbatim>\<open>Content-Length\<close> announced before the body is the number of bytes that a completed
  stream has sent, for bodies below 16 EiB.
\<close>

theorem content_length_honest:
  assumes "sys_reach cr c sy" and "config_ok c"
    and "fl_phase (sy_filter sy) = Done" and "starts (fl_out (sy_filter sy)) = 1"
    and "logs (fl_out (sy_filter sy)) = 0" and "length (data_of (fl_out (sy_filter sy))) < 2 ^ 64"
  shows "\<exists>hs n. SendHeaders hs False \<in> set (fl_out (sy_filter sy)) \<and>
    map_of hs ''content-length'' = Some (dec_u64 n) \<and> unat n = length (data_of (fl_out (sy_filter sy)))"
proof -
  have "\<exists>body. started cr (sy_content sy) (sy_filter sy) body \<and>
      data_of (fl_out (sy_filter sy)) = body_bytes (sy_content sy) body"
    using reachable_trace [OF assms(1,2)] assms(3-5) by (auto simp: trace_ok_def Let_def)
  then obtain body where b: "started cr (sy_content sy) (sy_filter sy) body"
      "data_of (fl_out (sy_filter sy)) = body_bytes (sy_content sy) body"
    by blast
  obtain facts meta plan where p: "plan_response (cr_headers cr) facts meta = Some plan" "\<not> rf_method_head facts"
    "fm_size meta = of_nat (length (sy_content sy))" "length (sy_content sy) < 2 ^ 64" "body = plan_body plan"
    "plan_status plan \<in> {STATUS_OK, STATUS_PARTIAL_CONTENT}"
    "SendHeaders (('':status'', to_radix 10 (plan_status plan)) # plan_headers plan) False \<in> set (fl_out (sy_filter sy))"
    using started_plan [OF b(1)] .
  from planned_content_length [OF p(1-4,6)] p(5) b(2) assms(6)
  obtain n where "header_of ''content-length'' plan = Some (dec_u64 n)" "unat n = length (data_of (fl_out (sy_filter sy)))"
    by auto
  then show ?thesis using p(7)
    by (intro exI [of _ "('':status'', to_radix 10 (plan_status plan)) # plan_headers plan"]) (auto simp: header_of_def)
qed

theorem content_length_honest_witness:
  "\<exists>hs n. SendHeaders hs False \<in> set (fl_out (sy_filter sample_done)) \<and>
     map_of hs ''content-length'' = Some (dec_u64 n) \<and> unat n = length ''hello''"
  using content_length_honest [OF sample_reach_done sample_config_ok]
  by (simp add: sample_done_def sys_init_def sample_filter_def sample_trace_def sample_open_def)

text \<open>
  C15: Back-pressure: while a response streams, the reads in flight, those whose completion waits in the
  mailbox included, are at most the configured window, are counted by \<^verbatim>\<open>inflight\<close>, are for distinct
  chunks, and each is of an issued file chunk with exactly its offset and length.
\<close>

theorem reads_within_window:
  assumes "sys_reach cr c sy" and "config_ok c" and "sy_alive sy" and "fl_phase (sy_filter sy) = Streaming s"
  shows "let outstanding = map request_seq (sy_pending sy) @ map event_seq (bridge_contents (fl_bridge (sy_filter sy))) in
    length outstanding = sm_inflight s \<and> sm_inflight s \<le> cfg_max_inflight_reads c \<and> distinct outstanding \<and>
    list_all (read_request_ok (sm_chunks s)) (sy_pending sy)"
  using reachable_live [OF assms(1-3)] assms(4) by (simp add: live_ok_def stream_ok_def Let_def)

theorem reads_within_window_witness:
  "length [0::nat] = sm_inflight (sample_streaming [] 1 1) \<and> sm_inflight (sample_streaming [] 1 1) \<le> 2"
  using reads_within_window [OF sample_reach_reading sample_config_ok, of "sample_streaming [] 1 1"]
  by (simp add: sample_reading_def sys_init_def sample_filter_def sample_config_def default_config_def)

text \<open>
  No lost wake-up: a live stream that is neither idle nor done, and not held by a watermark, always has a
  request at the engine or a scheduled callback to go on with.
\<close>

theorem no_lost_wakeup:
  assumes "sys_reach cr c sy" and "config_ok c" and "sy_alive sy"
    and "sy_pending sy = []" and "sy_scheduled sy = 0"
  shows "case fl_phase (sy_filter sy) of
      Idle \<Rightarrow> True | Done \<Rightarrow> True | Streaming s \<Rightarrow> sm_watermark_depth s \<noteq> 0 | _ \<Rightarrow> False"
proof -
  have lv: "live_ok c sy" using reachable_live [OF assms(1-3)] .
  then have evs: "bridge_contents (fl_bridge (sy_filter sy)) = []"
    using assms(5) by (auto simp: live_ok_def Let_def)
  show ?thesis
  proof (cases "fl_phase (sy_filter sy)")
    case (Streaming s)
    have "False" if "sm_watermark_depth s = 0"
    proof (rule stream_ok_not_stalled)
      show "stream_ok (sy_content sy) (cfg_max_inflight_reads c) [] (data_of (fl_out (sy_filter sy))) s"
        using lv Streaming assms(4) evs by (simp add: live_ok_def Let_def)
      show "pumped (cfg_max_inflight_reads c) s"
        using lv Streaming assms(5) that by (simp add: live_ok_def Let_def)
      show "0 < cfg_max_inflight_reads c" using assms(2) by (simp add: config_ok_def)
    qed
    then show ?thesis using Streaming by auto
  qed (use lv assms(4) evs in \<open>auto simp: live_ok_def Let_def\<close>)
qed

theorem no_lost_wakeup_witness:
  "case fl_phase (sy_filter sample_done) of
      Idle \<Rightarrow> True | Done \<Rightarrow> True | Streaming s \<Rightarrow> sm_watermark_depth s \<noteq> 0 | _ \<Rightarrow> False"
  by (rule no_lost_wakeup [OF sample_reach_done sample_config_ok]) (simp_all add: sample_done_def sys_init_def)

end
