(* ===== verification/Stream_Refinement.thy ===== *)
theory Stream_Refinement
  imports Stream_Liveness Stream_Properties
begin

text \<open>
  What a client may see of a response, as an abstract machine of five states, and the proof that every
  step of the system is a run of it.
\<close>

section \<open>The abstract response\<close>

text \<open>
  Not answered; answered at once, without a streamed body; the headers sent, the body announced and what was
  sent of it; all of it sent, and the end signalled; cut short, and the end signalled.
\<close>

datatype response =
    Unanswered
  | Answered action
  | Sending "header list" bytes bytes
  | Complete "header list" bytes
  | Truncated "header list" bytes bytes

inductive response_step :: "response \<Rightarrow> response \<Rightarrow> bool" where
  answers: "whole_answer a \<Longrightarrow> response_step Unanswered (Answered a)"
| starts_body: "response_step Unanswered (Sending hs body [])"
| sends: "prefix (xs @ ys) body \<Longrightarrow> response_step (Sending hs body xs) (Sending hs body (xs @ ys))"
| completes: "response_step (Sending hs body body) (Complete hs body)"
| truncates: "response_step (Sending hs body xs) (Truncated hs body xs)"

text \<open>
  How it is seen: by what was sent to Envoy so far, in order. The headers of a streamed body do not end the stream,
  its data does not either but for the last, and nothing is sent after the end.
\<close>

fun response_of :: "bytes \<Rightarrow> stream_filter \<Rightarrow> response \<Rightarrow> bool" where
  "response_of content fl Unanswered \<longleftrightarrow> (fl_phase fl = Idle \<or> resolving (fl_phase fl)) \<and> wire (fl_out fl) = []"
| "response_of content fl (Answered a) \<longleftrightarrow> fl_phase fl = Done \<and> wire (fl_out fl) = [a] \<and> whole_answer a"
| "response_of content fl (Sending hs body xs) \<longleftrightarrow>
     (\<exists>s. fl_phase fl = Streaming s \<and> body = chunks_of content (sm_chunks s)) \<and>
     (\<exists>bss. wire (fl_out fl) = SendHeaders hs False # pieces bss \<and> xs = concat bss)"
| "response_of content fl (Complete hs body) \<longleftrightarrow>
     fl_phase fl = Done \<and> logs (fl_out fl) = 0 \<and>
     (\<exists>bss bs. wire (fl_out fl) = SendHeaders hs False # pieces bss @ [SendData bs True] \<and> body = concat bss @ bs)"
| "response_of content fl (Truncated hs body xs) \<longleftrightarrow>
     fl_phase fl = Done \<and> 0 < logs (fl_out fl) \<and>
     (\<exists>bss. wire (fl_out fl) = SendHeaders hs False # pieces bss @ [SendData [] True] \<and> xs = concat bss)"

lemma data_wire: "data_of acts = data_of (wire acts)"
proof (induction acts)
  case (Cons a acts)
  then show ?case by (cases a) simp_all
qed simp

lemma data_pieces [simp]: "data_of (pieces bss) = concat bss"
  by (induction bss) simp_all

lemma sending_data: "response_of content fl (Sending hs body xs) \<Longrightarrow> xs = data_of (fl_out fl)"
  by (subst data_wire) auto

text \<open>A step that leaves the phase and says nothing changes no response.\<close>

lemma response_stutter:
  assumes "response_of content fl a" and "fl_phase fl' = fl_phase fl" and "fl_out fl' = fl_out fl @ acts"
    and "list_all neutral_action acts"
  shows "response_of content fl' a"
  using assms(1-3) action_kinds(2) [OF assms(4)] action_wire(2) [OF assms(4)] by (cases a) auto

lemma response_content:
  "response_of content fl a \<Longrightarrow> (\<forall>s. fl_phase fl \<noteq> Streaming s) \<Longrightarrow> response_of content' fl a"
  by (cases a) auto

text \<open>Body bytes from the start of the stream on.\<close>

lemma sends_more: "prefix xs ys \<Longrightarrow> prefix ys body \<Longrightarrow> response_step\<^sup>*\<^sup>* (Sending hs body xs) (Sending hs body ys)"
  by (elim prefixE [of xs ys]) (auto intro!: r_into_rtranclp sends)

lemma sends_all: "prefix xs body \<Longrightarrow> response_step\<^sup>*\<^sup>* (Sending hs body xs) (Complete hs body)"
  using sends_more [of xs body body hs] completes by (auto intro: rtranclp.rtrancl_into_rtrancl)

lemma sent_prefix: "stream_ok content w R D s \<Longrightarrow> prefix D (chunks_of content (sm_chunks s))"
  unfolding stream_ok_def by (metis append_take_drop_id chunks_of_simps(3) prefixI)

lemma trace_streaming:
  assumes "trace_ok cr content fl" and "fl_phase fl = Streaming s"
  shows "prefix (data_of (fl_out fl)) (chunks_of content (sm_chunks s))" and "ends (fl_out fl) = 0"
    and "starts (fl_out fl) = 1" and "logs (fl_out fl) = 0"
proof -
  have "data_of (fl_out fl) = chunks_of content (take (sm_next_send s) (sm_chunks s))"
    using assms by (auto simp: trace_ok_def Let_def)
  then show "prefix (data_of (fl_out fl)) (chunks_of content (sm_chunks s))"
    by (metis append_take_drop_id chunks_of_simps(3) prefixI)
qed (use assms in \<open>auto simp: trace_ok_def Let_def\<close>)

section \<open>The pump\<close>

lemma wire_reads: "wire (map read_action reqs) = []"
  by (induction reqs) (auto simp: read_action_def)

lemma pump_refines:
  assumes "fl_phase fl = Streaming s" and "stream_ok content w R (data_of (fl_out fl)) s"
    and "fl_waker fl" and "w = cfg_max_inflight_reads (fl_config fl)"
    and "wire (fl_out fl) = SendHeaders hs False # pieces bss" and "logs (fl_out fl) = 0" and "pump react fl = Some fl'"
  shows "\<exists>a. response_step\<^sup>*\<^sup>* (Sending hs (chunks_of content (sm_chunks s)) (data_of (fl_out fl))) a \<and>
    response_of content fl' a"
proof -
  let ?body = "chunks_of content (sm_chunks s)"
  from pump_ok [OF assms(1-4), of react] assms(7) consider
    (streams) s' acts reqs where "still_streaming content w (R @ map fst reqs) s fl' s'"
      "fl_out fl' = fl_out fl @ acts @ map read_action reqs" "list_all flush_action acts"
  | (ended) acts bs where "fl_phase fl' = Done" "data_of (fl_out fl') = ?body"
      "fl_out fl' = fl_out fl @ acts @ [DropFile (sm_handle s), SendData bs True]" "list_all flush_action acts"
    by auto
  then show ?thesis
  proof cases
    case streams
    then have st: "fl_phase fl' = Streaming s'" "chunks_of content (sm_chunks s') = ?body"
      "prefix (data_of (fl_out fl')) ?body" "prefix (data_of (fl_out fl)) (data_of (fl_out fl'))"
      by (auto simp: still_streaming_def dest: sent_prefix)
    obtain bss' where "wire acts = pieces bss'" using action_wire(5) [OF streams(3)] by blast
    then have w: "wire (fl_out fl') = SendHeaders hs False # pieces (bss @ bss')"
      using streams(2) assms(5) by (simp add: wire_reads)
    have "response_of content fl' (Sending hs ?body (concat (bss @ bss')))"
      unfolding response_of.simps
      by (intro conjI exI [of _ s'] exI [of _ "bss @ bss'"]) (simp_all only: st(1,2) w)
    moreover from this have "concat (bss @ bss') = data_of (fl_out fl')" by (rule sending_data)
    ultimately show ?thesis using sends_more [OF st(4,3)] by metis
  next
    case ended
    obtain bss' where "wire acts = pieces bss'" using action_wire(5) [OF ended(4)] by blast
    then have w: "wire (fl_out fl') = SendHeaders hs False # pieces (bss @ bss') @ [SendData bs True]"
      using ended(3) assms(5) by simp
    then have "?body = concat (bss @ bss') @ bs" using ended(2) data_wire [of "fl_out fl'"] by simp
    moreover have "logs (fl_out fl') = 0" using ended(3) assms(6) action_kinds(4) [OF ended(4)] by simp
    ultimately have "response_of content fl' (Complete hs ?body)"
      unfolding response_of.simps
      by (intro conjI exI [of _ "bss @ bss'"] exI [of _ bs]) (simp_all only: ended(1) w)
    then show ?thesis using sends_all [OF sent_prefix [OF assms(2)]] by blast
  qed
qed

section \<open>The steps\<close>

lemma headers_refines:
  assumes "fl_phase fl = Idle" and "on_request_headers cr kvs fl = Some fl'" and "wire (fl_out fl) = []"
  shows "\<exists>a. response_step\<^sup>*\<^sup>* Unanswered a \<and> response_of content fl' a"
proof -
  obtain acts where out: "fl_out fl' = fl_out fl @ acts"
    and kind: "(fl_phase fl' = Done \<and> list_all response_action acts \<and> ends acts = 1) \<or>
      (resolving (fl_phase fl') \<and> list_all resolving_action acts)"
    using on_request_headers_step [OF assms(1,2)] by blast
  from kind show ?thesis
  proof
    assume d: "fl_phase fl' = Done \<and> list_all response_action acts \<and> ends acts = 1"
    then obtain a where "wire acts = [a]" "whole_answer a" using action_wire(4) by blast
    then have "response_of content fl' (Answered a)" using d out assms(3) by simp
    then show ?thesis using answers [OF \<open>whole_answer a\<close>] by blast
  next
    assume r: "resolving (fl_phase fl') \<and> list_all resolving_action acts"
    then have "response_of content fl' Unanswered" using action_wire(1) [of acts] out assms(3) by simp
    then show ?thesis by blast
  qed
qed

lemma resolved_refines:
  assumes "resolve_outcome cr content w fl fl1 e" and "wire (fl_out fl) = []"
    and "logs (fl_out fl) = 0" and "fl_waker fl" and "w = cfg_max_inflight_reads (fl_config fl)"
    and "(if e then Some fl1 else case fl_phase fl1 of Streaming _ \<Rightarrow> pump react fl1 | _ \<Rightarrow> Some fl1) = Some fl'"
  shows "\<exists>a. response_step\<^sup>*\<^sup>* Unanswered a \<and> response_of content fl' a"
proof -
  obtain acts where frame: "same_frame fl fl1" and out: "fl_out fl1 = fl_out fl @ acts" and
    kind: "if e then fl_phase fl1 = Done \<and> list_all response_action acts \<and> ends acts = 1
        else (resolving (fl_phase fl1) \<and> list_all resolving_action acts \<and>
            length (requests_of acts) = 1 \<and> list_all resolution_request (requests_of acts) \<and> commits_of acts = 0) \<or>
          (\<exists>s body. fl_phase fl1 = Streaming s \<and> stream_ok content w [] [] s \<and> started cr content fl1 body \<and>
            chunks_of content (sm_chunks s) = body_bytes content body \<and> requests_of acts = [] \<and> commits_of acts = 0 \<and>
            data_of acts = [] \<and> ends acts = 0 \<and> starts acts = 1 \<and> logs acts = 0 \<and>
            (\<exists>hs. wire acts = [SendHeaders hs False]))"
    using assms(1) by (auto simp: resolve_outcome_def)
  from kind consider (answered) "e" "fl_phase fl1 = Done" "list_all response_action acts" "ends acts = 1"
    | (resolves) "\<not> e" "resolving (fl_phase fl1)" "list_all resolving_action acts"
    | (streams) s hs where "\<not> e" "fl_phase fl1 = Streaming s" "stream_ok content w [] [] s"
        "wire acts = [SendHeaders hs False]" "logs acts = 0"
    by (cases e) auto
  then show ?thesis
  proof cases
    case answered
    obtain a where a: "wire acts = [a]" "whole_answer a" using action_wire(4) [OF answered(3,4)] by blast
    then have "response_of content fl' (Answered a)" using answered assms(2,6) out by simp
    then show ?thesis using answers [OF a(2)] by blast
  next
    case resolves
    then have "fl' = fl1" using assms(6) by (cases "fl_phase fl1") auto
    then show ?thesis using resolves action_wire(1) [OF resolves(3)] assms(2) out by (intro exI [of _ Unanswered]) simp
  next
    case streams
    have pump: "pump react fl1 = Some fl'" using assms(6) streams by simp
    have wired: "wire (fl_out fl1) = SendHeaders hs False # pieces []" and "logs (fl_out fl1) = 0"
      using streams(4,5) out assms(2,3) by simp_all
    then have sent: "data_of (fl_out fl1) = []" by (subst data_wire) simp
    have "fl_waker fl1" "w = cfg_max_inflight_reads (fl_config fl1)"
      using frame assms(4,5) by (simp_all add: same_frame_def)
    from pump_refines [OF streams(2) _ this wired \<open>logs (fl_out fl1) = 0\<close> pump, of content "[]"] streams(3)
    obtain a where "response_step\<^sup>*\<^sup>* (Sending hs (chunks_of content (sm_chunks s)) []) a" "response_of content fl' a"
      unfolding sent by blast
    then show ?thesis using starts_body by (metis converse_rtranclp_into_rtranclp)
  qed
qed

lemma scheduled_refines:
  assumes "sys_ok cr c sy" and "config_ok c" and "sy_alive sy" and "on_scheduled cr react (sy_filter sy) = Some fl'"
    and "response_of (sy_content sy) (sy_filter sy) a"
  shows "\<exists>a'. response_step\<^sup>*\<^sup>* a a' \<and> response_of (sy_content sy) fl' a'"
proof -
  let ?fl = "sy_filter sy" and ?w = "cfg_max_inflight_reads c" and ?content = "sy_content sy"
  have parts: "fl_config ?fl = c" "trace_ok cr ?content ?fl" "live_ok c sy"
    using assms(1,3) by (auto simp: sys_ok_def)
  from parts(3,1) assms(2,4) show ?thesis
  proof (cases rule: callback_cases)
    case drains
    then show ?thesis
      using assms(5) response_stutter [of ?content ?fl a fl' "[]"] by (auto simp: drained_def)
  next
    case (resolves fl0 fl1 e ev)
    have "logs (fl_out ?fl) = 0" using parts(2) resolves(1) by (cases "fl_phase ?fl"; simp add: trace_ok_def Let_def)
    moreover have a: "a = Unanswered" using assms(5) resolves(1) by (cases a; cases "fl_phase ?fl") auto
    ultimately show ?thesis
      using resolved_refines [OF resolves(8) _ _ _ _ resolves(9)] resolves(1,2,7) assms(5) parts(1)
      by (simp add: drained_def)
  next
    case (fails s fl0 acts)
    note tr = trace_streaming [OF parts(2) fails(1)]
    obtain hs bss where a: "a = Sending hs (chunks_of ?content (sm_chunks s)) (concat bss)"
        "wire (fl_out ?fl) = SendHeaders hs False # pieces bss"
      using assms(5) fails(1) by (cases a) auto
    moreover have "response_of ?content fl' (Truncated hs (chunks_of ?content (sm_chunks s)) (concat bss))"
      using fails a(2) by auto
    ultimately show ?thesis using truncates by blast
  next
    case (pumps s s1 fl0 fl1)
    note tr = trace_streaming [OF parts(2) pumps(1)]
    obtain hs bss where a: "a = Sending hs (chunks_of ?content (sm_chunks s1)) (concat bss)"
        "wire (fl_out fl1) = SendHeaders hs False # pieces bss"
      using assms(5) pumps(1,5,6) by (cases a) auto
    have "concat bss = data_of (fl_out fl1)" by (subst data_wire) (simp add: a(2))
    moreover have "fl_waker ?fl" using parts(3) pumps(1) by (simp add: live_ok_def Let_def)
    then have "fl_waker fl1" "?w = cfg_max_inflight_reads (fl_config fl1)"
      using pumps(2,3) parts(1) by (simp_all add: same_frame_def drained_def)
    from pump_refines [OF pumps(4,7) this a(2) _ pumps(8)] have
      "\<exists>a'. response_step\<^sup>*\<^sup>* (Sending hs (chunks_of ?content (sm_chunks s1)) (data_of (fl_out fl1))) a' \<and> response_of ?content fl' a'"
      using tr(4) pumps(5) by simp
    ultimately show ?thesis unfolding a(1) by simp
  qed
qed

lemma step_refines:
  assumes "sys_reach cr c sy" and "config_ok c" and "sys_step cr sy sy'"
    and "response_of (sy_content sy) (sy_filter sy) a"
  shows "\<exists>a'. response_step\<^sup>*\<^sup>* a a' \<and> response_of (sy_content sy') (sy_filter sy') a'"
proof -
  have ok: "sys_ok cr c sy" using reachable_ok [OF assms(1,2)] .
  from assms(3) show ?thesis
  proof cases
    case (headers kvs fl)
    then have a: "a = Unanswered" "wire (fl_out (sy_filter sy)) = []" using assms(4) by (cases a; auto)+
    then show ?thesis
      using headers_refines [OF headers(3,4) a(2)] headers(1) by (auto simp: absorb_fields)
  next
    case (answered rs1 r rs2 content' ev)
    obtain acts where fr: "fl_phase (deliver ev (sy_filter sy)) = fl_phase (sy_filter sy)"
        "fl_out (deliver ev (sy_filter sy)) = fl_out (sy_filter sy) @ acts" "list_all neutral_action acts"
      using deliver_frame [of ev "sy_filter sy"] by blast
    have "response_of (sy_content sy) (deliver ev (sy_filter sy)) a"
      using assms(4) fr by (rule response_stutter)
    moreover have "content' = sy_content sy" if "fl_phase (sy_filter sy) = Streaming s" for s
      using answer_to_read [OF answered(3)] ok that answered(2) by (auto simp: sys_ok_def settled_ok_def)
    ultimately have "response_of content' (deliver ev (sy_filter sy)) a"
      using fr(1) response_content by (cases "\<exists>s. fl_phase (sy_filter sy) = Streaming s") metis+
    then show ?thesis using answered(1) by (auto simp: absorb_fields)
  next
    case (scheduled n react fl)
    then show ?thesis
      using scheduled_refines [OF ok assms(2) scheduled(2,4) assms(4)] by (simp add: absorb_fields)
  next
    case (watermark k)
    have "response_of (sy_content sy) (on_watermark k (sy_filter sy)) a"
    proof (cases "fl_phase (sy_filter sy)")
      case (Streaming s)
      obtain d acts where w: "fl_phase (on_watermark k (sy_filter sy)) = Streaming (s\<lparr>sm_watermark_depth := d\<rparr>)"
          "fl_out (on_watermark k (sy_filter sy)) = fl_out (sy_filter sy) @ acts" "set acts \<subseteq> {Commit}"
        using on_watermark_streaming [OF Streaming, of k] by blast
      from w(3) have "wire acts = []" by (induction acts) auto
      then show ?thesis using w(1,2) Streaming assms(4) by (cases a) auto
    qed (use assms(4) in \<open>cases k; simp add: on_watermark_def on_above_high_watermark_def on_below_low_watermark_def\<close>)+
    then show ?thesis using watermark(1) by (auto simp: absorb_fields)
  next
    case complete
    have "response_of (sy_content sy) (on_stream_complete (sy_filter sy)) a"
      by (rule response_stutter [OF assms(4) _ _ dropped_events_neutral]) (simp_all add: on_stream_complete_def emit_def)
    then show ?thesis using complete(1) by (auto simp: absorb_fields)
  qed
qed

lemma response_steps_from: "response_step\<^sup>*\<^sup>* a b \<Longrightarrow> response_step\<^sup>*\<^sup>* s a \<Longrightarrow> response_step\<^sup>*\<^sup>* s b"
  by (rule rtranclp_trans)

text \<open>Every reachable state is a state of the response, reached by the abstract machine from its start.\<close>

lemma reachable_response:
  "sys_reach cr c sy \<Longrightarrow> config_ok c \<Longrightarrow>
     \<exists>a. response_step\<^sup>*\<^sup>* Unanswered a \<and> response_of (sy_content sy) (sy_filter sy) a"
proof (induction rule: sys_reach.induct)
  case start
  have "response_of (sy_content (sys_init c)) (sy_filter (sys_init c)) Unanswered"
    by (simp add: sys_init_def filter_new_def)
  then show ?case by blast
next
  case (step sy sy')
  then show ?case using step_refines response_steps_from by metis
qed

text \<open>
  C7: Refinement: what is sent to Envoy is a run of the abstract response. In every reachable state the headers and
  data sent so far, with their end flags, are those of a state of the abstract machine, and every step of the
  system, be it a callback, an answer of the engine, a watermark or the end of the stream, is matched by abstract
  steps: one answer that ends the stream, or one set of headers and then one fixed body in growing prefixes, whose
  last piece signals the end exactly when all of it is sent, or an empty piece after a logged read error; and then
  nothing more.
\<close>

theorem system_refines_response:
  assumes "sys_reach cr c sy" and "config_ok c"
  shows "(\<exists>a. response_step\<^sup>*\<^sup>* Unanswered a \<and> response_of (sy_content sy) (sy_filter sy) a) \<and>
    (\<forall>a sy'. sys_step cr sy sy' \<and> response_of (sy_content sy) (sy_filter sy) a \<longrightarrow>
      (\<exists>a'. response_step\<^sup>*\<^sup>* a a' \<and> response_of (sy_content sy') (sy_filter sy') a'))"
  using reachable_response [OF assms] step_refines [OF assms] by blast

theorem system_refines_response_witness:
  "\<exists>a'. response_step\<^sup>*\<^sup>* (Sending (('':status'', ''200'') # sample_plan_headers) ''hello'' []) a' \<and>
     response_of ''hello'' (deliver (ReadEvent 0 (Inr ''hello'')) (sy_filter sample_reading)) a'"
proof -
  have "response_of (sy_content sample_reading) (sy_filter sample_reading)
      (Sending (('':status'', ''200'') # sample_plan_headers) ''hello'' [])"
    by (simp add: sample_reading_def sys_init_def sample_filter_def sample_streaming_def sample_chunks_def
        sample_trace_def sample_open_def slice_def) (intro exI [of _ "[]"], simp)
  with system_refines_response [OF sample_reach_reading sample_config_ok, THEN conjunct2, rule_format, OF conjI [OF sample_step_read]]
  show ?thesis by (simp add: absorb_fields sample_reading_def sys_init_def)
qed

section \<open>The form of a response\<close>

text \<open>
  C21: The form of every response: in every reachable state, what was sent to Envoy is nothing while no file is
  found; the headers, then data, none of them ending the stream, while a body streams; and once the filter is done
  exactly one of these: a whole response, headers that end the stream, or headers and data of which the last,
  and only it, ends the stream. So there is one set of headers, it comes first, and the end is signalled once.
\<close>

theorem single_end:
  assumes "sys_reach cr c sy" and "config_ok c"
  shows "case fl_phase (sy_filter sy) of
      Streaming s \<Rightarrow> \<exists>hs bss. wire (fl_out (sy_filter sy)) = SendHeaders hs False # map (\<lambda>bs. SendData bs False) bss
    | Done \<Rightarrow> (\<exists>st hs body. wire (fl_out (sy_filter sy)) = [SendResponse st hs body]) \<or>
        (\<exists>hs. wire (fl_out (sy_filter sy)) = [SendHeaders hs True]) \<or>
        (\<exists>hs bss bs. wire (fl_out (sy_filter sy)) =
          SendHeaders hs False # map (\<lambda>bs. SendData bs False) bss @ [SendData bs True])
    | _ \<Rightarrow> wire (fl_out (sy_filter sy)) = []"
proof -
  obtain a where r: "response_of (sy_content sy) (sy_filter sy) a" using reachable_response [OF assms] by blast
  have whole: "(\<exists>st hs body. a = SendResponse st hs body) \<or> (\<exists>hs. a = SendHeaders hs True)" if "whole_answer a" for a
    using that by (cases a) auto
  show ?thesis
  proof (cases a)
    case (Answered act)
    then show ?thesis using r whole [of act] by auto
  qed (use r in \<open>cases "fl_phase (sy_filter sy)"; auto simp: pieces_def; fail\<close>)+
qed

theorem single_end_witness:
  "wire (fl_out (sy_filter sample_done)) =
     [SendHeaders (('':status'', ''200'') # sample_plan_headers) False, SendData ''hello'' True] \<and>
   (\<exists>hs bss bs. wire (fl_out (sy_filter sample_done)) =
     SendHeaders hs False # map (\<lambda>bs. SendData bs False) bss @ [SendData bs True])"
  using single_end [OF sample_reach_done sample_config_ok]
  by (simp add: sample_done_def sys_init_def sample_filter_def sample_trace_def sample_open_def)

end
