(* ===== verification/Stream_Window.thy ===== *)
theory Stream_Window
  imports Stream_Sample
begin

text \<open>
  Two places where the read window does not do what the comments and the documentation say: the
  prefetched chunk is read again, and completed reads do not count against the window.
\<close>

section \<open>The prefetched chunk\<close>

text \<open>
  The pump reads a prefetched first chunk again. The prefetch seeds chunk 0, the flush sends it and takes
  it out of \<^verbatim>\<open>ready\<close>, and the issue loop, which still starts at chunk 0, no longer finds it there: the
  chunk's bytes are requested from the engine although they have been sent already.
\<close>

theorem prefetched_chunk_read_again:
  assumes "length prefetch = k" and "fl_waker fl" and "cfg_max_inflight_reads (fl_config fl) = 2"
    and "begin_streaming hs h [FileChunk 0 k, FileChunk off len] prefetch fl = (fl1, e)"
  shows "\<exists>fl'. pump (\<lambda>_. []) fl1 = Some fl' \<and>
    fl_out fl' = fl_out fl1 @ [SendData prefetch False, ReadFile h 0 k 0, ReadFile h off len 1]"
proof -
  let ?s = "\<lparr>sm_handle = h, sm_chunks = [FileChunk 0 k, FileChunk off len], sm_ready = [(0, prefetch)], sm_next_send = 0,
      sm_issue_cursor = 0, sm_inflight = 0, sm_watermark_depth = 0\<rparr>"
  have fl1: "fl_phase fl1 = Streaming ?s" "fl_waker fl1" "fl_config fl1 = fl_config fl"
    using assms(1,2,4) by (auto simp: begin_streaming_def seed_prefetch_def set_phase_def emit_def)
  have "flush_loop (\<lambda>_. []) fl1 = Broke (emit [SendData prefetch False] (fl1\<lparr>fl_phase :=
      Streaming (?s\<lparr>sm_ready := [], sm_next_send := 1\<rparr>)\<rparr>))"
    using fl1(1) by (simp add: flush_loop.simps send_data_def emit_def)
  then show ?thesis
    using fl1 assms(3) by (simp add: pump_def emit_def issue_loop.simps)
qed

theorem prefetched_chunk_read_again_witness:
  "\<exists>fl1 fl'. begin_streaming [] 7 [FileChunk 0 2, FileChunk 2 1] ''he'' (sample_filter (ResolvingFile []) Empty []) = (fl1, False) \<and>
     pump (\<lambda>_. []) fl1 = Some fl' \<and>
     fl_out fl' = fl_out fl1 @ [SendData ''he'' False, ReadFile 7 0 2 0, ReadFile 7 2 1 1]"
proof -
  let ?fl = "sample_filter (ResolvingFile []) Empty []"
  obtain fl1 where b: "begin_streaming [] 7 [FileChunk 0 2, FileChunk 2 1] ''he'' ?fl = (fl1, False)"
    by (simp add: begin_streaming_def)
  have "fl_waker ?fl" "cfg_max_inflight_reads (fl_config ?fl) = 2" "length ''he'' = 2"
    by (simp_all add: sample_filter_def sample_config_def default_config_def)
  then show ?thesis using prefetched_chunk_read_again [OF _ _ _ b] b by blast
qed

section \<open>Chunks that wait\<close>

text \<open>
  Completed reads wait in \<^verbatim>\<open>ready\<close> for the chunks before them and no longer count as in flight: while
  the first chunk's read is outstanding, each completion of a later one makes room for the next, so that the
  number of buffered chunks is not bounded by the window. One round, which can be repeated to the end of the
  file:
\<close>

lemma reads_run_ahead:
  assumes "fl_phase fl = Streaming s" and "fl_waker fl" and "cfg_max_inflight_reads (fl_config fl) = 2"
    and "sm_watermark_depth s = 0" and "sm_next_send s = 0" and "map_of (sm_ready s) 0 = None"
    and "sm_issue_cursor s = Suc n" and "sm_inflight s = 1" and "map_of (sm_ready s) (Suc n) = None"
    and "Suc n < length (sm_chunks s)" and "sm_chunks s ! Suc n = FileChunk off len"
  shows "\<exists>fl' fl''. pump react fl = Some fl' \<and> fl_out fl' = fl_out fl @ [ReadFile (sm_handle s) off len (Suc n)] \<and>
    handle_read (Suc n) (Inr bs) fl' = (fl'', False) \<and>
    fl_phase fl'' = Streaming (s\<lparr>sm_issue_cursor := Suc (Suc n), sm_ready := AList.update (Suc n) bs (sm_ready s)\<rparr>)"
proof -
  have "flush_loop react fl = Broke fl"
    using assms(1,4-6) by (simp add: flush_loop.simps)
  moreover have "issue_loop 2 s [] = (s\<lparr>sm_issue_cursor := Suc (Suc n), sm_inflight := 2\<rparr>, [(Suc n, off, len, sm_handle s)])"
    by (subst issue_loop.simps, use assms(7-11) in simp, subst issue_loop.simps, simp)
  ultimately show ?thesis
    using assms(1-3,8) by (simp add: pump_def emit_def handle_read_def)
qed

end
