(* ===== verification/Stream_Resolution.thy ===== *)
theory Stream_Resolution
  imports Stream_Liveness Filter_Confinement
begin

text \<open>
  Liveness of a request from its acceptance on: the search for a file comes to an end, with an answer or
  with a response that streams, as long as no index file is a directory. That an index file which is a
  directory is never given up is shown in \<open>Filter_Directories\<close>.
\<close>

section \<open>Answers without a panic\<close>

text \<open>The filter can plan a response, or render a listing, from the event.\<close>

fun plannable :: "('h, 't) crates \<Rightarrow> stream_filter \<Rightarrow> io_event \<Rightarrow> bool" where
  "plannable cr fl (Opened h stat ctx prefetch) \<longleftrightarrow> st_is_dir stat \<or>
     (\<forall>rd. fl_request fl = Some rd \<longrightarrow>
        plan_response (cr_headers cr) (request_facts_of (fl_config fl) rd stat ctx) (file_meta_of stat) \<noteq> None)"
| "plannable cr fl (DirEvent (Inr entries)) \<longleftrightarrow>
     (\<forall>rd. fl_request fl = Some rd \<longrightarrow>
        render_listing (cr_text cr) (cr_headers cr) (url_for (fl_config fl) (rd_relative rd)) (rd_relative rd = [])
          (map (\<lambda>e. \<lparr>de_name = di_name e, de_is_dir = di_is_dir e, de_size = di_size e,
             de_mtime_unix = di_mtime_unix e\<rparr>) entries) \<noteq> None)"
| "plannable cr fl _ \<longleftrightarrow> True"

text \<open>
  The values an event brings into a response: the file's content type and the configured cache control are valid
  header values, and the time of the file, or of every entry of a listing, has an HTTP date. They are all it takes.
\<close>

fun valid_values :: "('h, 't) crates \<Rightarrow> config \<Rightarrow> io_event \<Rightarrow> bool" where
  "valid_values cr c (Opened h stat ctx prefetch) \<longleftrightarrow> st_is_dir stat \<or>
     (hc_value_ok (cr_headers cr) (ctx_content_type ctx) \<and>
      (\<forall>cc. cfg_cache_control c = Some cc \<longrightarrow> hc_value_ok (cr_headers cr) cc) \<and>
      format_http_date (cr_headers cr) (st_mtime_unix stat) \<noteq> None)"
| "valid_values cr c (DirEvent (Inr entries)) \<longleftrightarrow>
     (\<forall>e \<in> set entries. format_http_date (cr_headers cr) (di_mtime_unix e) \<noteq> None)"
| "valid_values cr c _ \<longleftrightarrow> True"

lemma valid_plannable:
  assumes "values_contract (cr_headers cr)" and "valid_values cr (fl_config fl) ev"
  shows "plannable cr fl ev"
proof (cases "(cr, fl, ev)" rule: plannable.cases)
  case (1 cr' fl' h stat ctx prefetch)
  show ?thesis
  proof (cases "st_is_dir stat")
    case False
    have "visible_text ''envoyfilesboundary''" by (simp add: visible_text_def)
    then have "visible_text (rf_boundary (request_facts_of (fl_config fl) rd stat ctx))" for rd
      using visible_hex016 unfolding request_facts_of_def request_facts.simps visible_append by blast
    then have "plan_response (cr_headers cr) (request_facts_of (fl_config fl) rd stat ctx) (file_meta_of stat) \<noteq> None" for rd
      using assms False 1
      by (intro plan_total) (auto simp: file_meta_of_def request_facts_of_def split: option.split)
    then show ?thesis using 1 by simp
  qed (use 1 in simp)
next
  case (2 cr' fl' entries)
  have "render_listing tc (cr_headers cr) u r (map (\<lambda>e. \<lparr>de_name = di_name e, de_is_dir = di_is_dir e,
      de_size = di_size e, de_mtime_unix = di_mtime_unix e\<rparr>) entries) \<noteq> None" for tc u r
    by (rule render_listing_total) (use assms(2) 2 in \<open>fastforce simp del: not_None_eq\<close>)
  then show ?thesis using 2 by simp
qed simp_all

text \<open>An answer waits that brings a value which is not valid.\<close>

definition invalid_value :: "('h, 't) crates \<Rightarrow> stream_filter \<Rightarrow> bool" where
  "invalid_value cr fl \<longleftrightarrow> (\<exists>ev \<in> set (bridge_contents (fl_bridge fl)). \<not> valid_values cr (fl_config fl) ev)"

lemma submit_open_total: "fl_waker fl \<Longrightarrow> \<exists>fl'. submit_open p ctx fl = Some fl'"
  by (simp add: submit_open_def)

lemma next_candidate_total: "fl_waker fl \<Longrightarrow> open_next_candidate fl \<noteq> None"
  by (auto simp: open_next_candidate_def submit_open_def split: phase.split list.split)

lemma fallback_total: "fl_waker fl \<Longrightarrow> directory_fallback d fl \<noteq> None"
  by (auto simp: directory_fallback_def split: directory_mode.split)

lemma next_index_total: "fl_waker fl \<Longrightarrow> open_next_index fl \<noteq> None"
  using fallback_total [of fl]
  by (fastforce simp: open_next_index_def submit_open_def split: phase.split list.split)

lemma directory_total: "fl_waker fl \<Longrightarrow> fl_request fl = Some rd \<Longrightarrow> handle_directory cr fl \<noteq> None"
  using fallback_total [of fl] next_index_total [of "set_phase p fl" for p]
  by (auto simp: handle_directory_def Let_def set_phase_def emit_def)

lemma serve_file_total:
  assumes "config_ok (fl_config fl)" and "fl_request fl = Some rd" and "event_ok content (Opened h stat ctx prefetch)"
    and "\<not> st_is_dir stat" and "plannable cr fl (Opened h stat ctx prefetch)"
  shows "serve_file cr h stat ctx prefetch fl \<noteq> None"
proof -
  obtain plan where plan: "plan_response (cr_headers cr) (request_facts_of (fl_config fl) rd stat ctx) (file_meta_of stat) = Some plan"
    using assms(2,4,5) by auto
  have size: "fm_size (file_meta_of stat) = of_nat (length content)" "length content < 2 ^ 64"
    using assms(3,4) by (auto simp: file_meta_of_def)
  have "execute_plan plan h prefetch fl \<noteq> None"
    using body_chunks_ok [OF assms(1) plan size] by (auto simp: execute_plan_def Let_def)
  then show ?thesis using assms(2) plan by (simp add: serve_file_def)
qed

lemma resolution_event_total:
  assumes "resolving (fl_phase fl)" and "fl_waker fl" and "fl_request fl = Some rd" and "config_ok (fl_config fl)"
    and "event_ok content ev" and "plannable cr fl ev"
  shows "handle_event cr ev fl \<noteq> None"
proof (cases ev)
  case (Opened h stat ctx prefetch)
  show ?thesis
  proof (cases "st_is_dir stat")
    case True
    then show ?thesis
      using Opened assms(1-3) next_candidate_total [of fl] next_index_total [of fl] directory_total [of fl rd cr]
      by (cases "fl_phase fl") (auto simp: handle_event_def handle_opened_def advance_after_open_miss_def current_resolver_def)
  next
    case False
    have "serve_file cr h stat ctx prefetch fl \<noteq> None"
      using assms(5,6) unfolding Opened by (rule serve_file_total [OF assms(4,3) _ False])
    then show ?thesis using Opened False by (auto simp: handle_event_def handle_opened_def)
  qed
next
  case (OpenError err)
  then show ?thesis
    using assms(1,2) next_candidate_total [of fl] next_index_total [of fl]
    by (cases "fl_phase fl") (auto simp: handle_event_def handle_open_error_def current_resolver_def split: bool.split)
next
  case (DirEvent res)
  then show ?thesis
    using assms(3,6) by (cases res) (auto simp: handle_event_def handle_dir_def Let_def)
qed (use assms(5) in simp)

section \<open>The search gets shorter\<close>

fun is_open_request :: "request \<Rightarrow> bool" where
  "is_open_request (ROpen _ _) \<longleftrightarrow> True"
| "is_open_request _ \<longleftrightarrow> False"

fun is_open_event :: "io_event \<Rightarrow> bool" where
  "is_open_event (Opened _ _ _ _) \<longleftrightarrow> True"
| "is_open_event (OpenError _) \<longleftrightarrow> True"
| "is_open_event _ \<longleftrightarrow> False"

definition opens :: "request list \<Rightarrow> nat" where
  "opens rs = length (filter is_open_request rs)"

text \<open>What is left to try: candidates first, then the index files of a directory.\<close>

fun phase_rank :: "config \<Rightarrow> phase \<Rightarrow> nat" where
  "phase_rank c (ResolvingFile ps) = 2 * length ps + 2 * length (cfg_index_files c) + 2"
| "phase_rank c (ResolvingIndex dir ps) = 2 * length ps"
| "phase_rank c _ = 0"

text \<open>A handler answers, or leaves less to try.\<close>

definition shortens :: "nat \<Rightarrow> stream_filter \<Rightarrow> stream_filter \<Rightarrow> bool" where
  "shortens b fl fl' \<longleftrightarrow> fl_phase fl' = Done \<or>
     (\<exists>acts. fl_out fl' = fl_out fl @ acts \<and>
        phase_rank (fl_config fl) (fl_phase fl') + opens (requests_of acts) < phase_rank (fl_config fl) (fl_phase fl) + b)"

lemma shortens_respond [simp]: "shortens b fl (respond_status st fl)"
  by (simp add: shortens_def respond_status_def set_phase_def emit_def)

lemma shortens_drop: "shortens b fl fl' \<Longrightarrow> shortens b fl (emit [DropFile h] fl')"
  by (auto simp: shortens_def emit_def)

lemma shortens_submit:
  "submit_open p ctx (fl\<lparr>fl_phase := ph\<rparr>) = Some fl' \<Longrightarrow>
     phase_rank (fl_config fl) ph + 1 < phase_rank (fl_config fl) (fl_phase fl) + b \<Longrightarrow> shortens b fl fl'"
  by (auto simp: submit_open_def shortens_def emit_def opens_def Let_def split: if_splits)

lemma shortens_candidate:
  "open_next_candidate fl = Some (fl', e) \<Longrightarrow> fl_phase fl = ResolvingFile ps \<Longrightarrow> shortens (Suc 0) fl fl'"
  by (cases ps) (auto simp: open_next_candidate_def bind_eq_Some_conv intro: shortens_submit)

lemma shortens_fallback:
  "directory_fallback d fl = Some (fl', e) \<Longrightarrow> shortens (Suc 0) fl fl'"
  by (auto simp: directory_fallback_def split: directory_mode.splits if_splits)
     (simp add: shortens_def emit_def opens_def)

lemma shortens_index:
  "open_next_index fl = Some (fl', e) \<Longrightarrow> fl_phase fl = ResolvingIndex d ps \<Longrightarrow> shortens (Suc 0) fl fl'"
  by (cases ps) (auto simp: open_next_index_def bind_eq_Some_conv intro: shortens_submit shortens_fallback)

lemma shortens_into_index:
  assumes "open_next_index (set_phase (ResolvingIndex d qs) fl) = Some (fl', e)" and "fl_phase fl = ResolvingFile ps"
    and "length qs = length (cfg_index_files (fl_config fl))" and "qs \<noteq> []"
  shows "shortens (Suc 0) fl fl'"
  using assms
  by (cases qs) (auto simp: open_next_index_def bind_eq_Some_conv set_phase_def emit_def submit_open_def shortens_def
      opens_def Let_def split: if_splits)

lemma shortens_directory:
  assumes "handle_directory cr fl = Some (fl', e)" and "fl_phase fl = ResolvingFile ps"
  shows "shortens (Suc 0) fl fl'"
  using assms
  by (auto simp: handle_directory_def Let_def split: option.splits if_splits
      intro: shortens_fallback shortens_into_index)
     (simp add: shortens_def set_phase_def emit_def)

text \<open>An index file is not a directory.\<close>

definition no_index_directory :: "stream_filter \<Rightarrow> bool" where
  "no_index_directory fl \<longleftrightarrow>
     (\<forall>dir ps h stat ctx prefetch. fl_phase fl = ResolvingIndex dir ps \<longrightarrow>
        Opened h stat ctx prefetch \<in> set (bridge_contents (fl_bridge fl)) \<longrightarrow> \<not> st_is_dir stat)"

lemma shortens_event:
  assumes "resolving (fl_phase fl)" and "handle_event cr ev fl = Some (fl', e)"
    and "\<forall>dir ps h stat ctx prefetch. fl_phase fl = ResolvingIndex dir ps \<longrightarrow> ev = Opened h stat ctx prefetch \<longrightarrow> \<not> st_is_dir stat"
  shows "shortens (if is_open_event ev then Suc 0 else 0) fl fl' \<or> (\<exists>s. fl_phase fl' = Streaming s) \<or>
    (\<exists>seq res. ev = ReadEvent seq res)"
proof (cases ev)
  case (Opened h stat ctx prefetch)
  show ?thesis
  proof (cases "st_is_dir stat")
    case True
    then obtain ps where ps: "fl_phase fl = ResolvingFile ps" using assms(1,3) Opened by (cases "fl_phase fl") auto
    then show ?thesis
      using assms(2) Opened True shortens_candidate [OF _ ps] shortens_directory [OF _ ps]
      by (auto simp: handle_event_def handle_opened_def advance_after_open_miss_def current_resolver_def
          bind_eq_Some_conv split: if_splits intro!: shortens_drop)
  next
    case False
    then show ?thesis
      using assms(2) Opened
      by (auto simp: handle_event_def handle_opened_def serve_file_def execute_plan_def begin_streaming_def Let_def
          bind_eq_Some_conv shortens_def set_phase_def emit_def split: option.splits if_splits)
  qed
next
  case (OpenError err)
  then show ?thesis
    using assms(1,2) shortens_candidate [of fl] shortens_index [of fl]
    by (cases "fl_phase fl") (auto simp: handle_event_def handle_open_error_def current_resolver_def split: bool.splits)
next
  case (DirEvent res)
  then show ?thesis
    using assms(2)
    by (auto simp: handle_event_def handle_dir_def Let_def bind_eq_Some_conv shortens_def set_phase_def emit_def
        respond_status_def split: sum.splits option.splits)
qed simp

section \<open>The system\<close>

lemma inevitable_then:
  assumes "inevitable R goal s" and "J s" and "\<And>s t. J s \<Longrightarrow> R s t \<Longrightarrow> J t"
    and "\<And>s. J s \<Longrightarrow> goal s \<Longrightarrow> inevitable R goal' s"
  shows "inevitable R goal' s"
  using assms(1,2)
proof (induction rule: inevitable.induct)
  case (later s s')
  show ?case
    using later.hyps(1) by (rule inevitable.later) (use later assms(3) in blast)
qed (use assms(4) in blast)

lemma inevitable_mono: "inevitable R goal s \<Longrightarrow> (\<And>s. goal s \<Longrightarrow> goal' s) \<Longrightarrow> inevitable R goal' s"
  by (induction rule: inevitable.induct) (auto intro: inevitable.intros)

definition open_events :: "io_event list \<Rightarrow> nat" where
  "open_events evs = length (filter is_open_event evs)"

definition resolution_rank :: "config \<Rightarrow> sys \<Rightarrow> nat \<times> nat" where
  "resolution_rank c sy =
     (phase_rank c (fl_phase (sy_filter sy)) + opens (sy_pending sy) +
        open_events (bridge_contents (fl_bridge (sy_filter sy))),
      2 * length (sy_pending sy) + sy_scheduled sy)"

lemma answer_kind: "engine_answer content r content' ev \<Longrightarrow> resolution_request r \<Longrightarrow> is_open_event ev = is_open_request r"
  by (cases r) (auto elim!: engine_answer_openE engine_answer_dirE simp: open_event_def)

lemma resolving_facts:
  assumes "sys_reach cr c sy" and "config_ok c" and "sy_alive sy" and "resolving (fl_phase (sy_filter sy))"
  shows "bridge_open (fl_bridge (sy_filter sy))" "fl_waker (sy_filter sy)" "fl_config (sy_filter sy) = c"
    "length (sy_pending sy) + length (bridge_contents (fl_bridge (sy_filter sy))) = 1"
    "list_all resolution_request (sy_pending sy)"
    "list_all (event_ok (sy_content sy)) (bridge_contents (fl_bridge (sy_filter sy)))"
    "bridge_contents (fl_bridge (sy_filter sy)) \<noteq> [] \<Longrightarrow> 0 < sy_scheduled sy"
    "fl_request (sy_filter sy) \<noteq> None"
proof -
  have lv: "live_ok c sy" "fl_config (sy_filter sy) = c" using reachable_ok [OF assms(1,2)] assms(3) by (simp_all add: sys_ok_def)
  then show "bridge_open (fl_bridge (sy_filter sy))" "fl_config (sy_filter sy) = c"
    "bridge_contents (fl_bridge (sy_filter sy)) \<noteq> [] \<Longrightarrow> 0 < sy_scheduled sy"
    by (simp_all add: live_ok_def Let_def)
  show w: "fl_waker (sy_filter sy)"
    and "length (sy_pending sy) + length (bridge_contents (fl_bridge (sy_filter sy))) = 1"
    and "list_all resolution_request (sy_pending sy)"
    and "list_all (event_ok (sy_content sy)) (bridge_contents (fl_bridge (sy_filter sy)))"
    using lv(1) assms(4) by (cases "fl_phase (sy_filter sy)"; simp add: live_ok_def Let_def)+
  show "fl_request (sy_filter sy) \<noteq> None"
    using read_bound.reachable_obeys [OF assms(1)] w by (simp add: obeys_def)
qed

lemma answer_shortens:
  assumes "sys_reach cr c sy" and "config_ok c" and "sy_alive sy" and "resolving (fl_phase (sy_filter sy))"
    and "sy_pending sy = rs1 @ r # rs2" and "engine_answer (sy_content sy) r content' ev"
    and "t = absorb (deliver ev (sy_filter sy)) (sy\<lparr>sy_pending := rs1 @ rs2, sy_content := content'\<rparr>)"
  shows "resolving (fl_phase (sy_filter t)) \<and> (resolution_rank c t, resolution_rank c sy) \<in> less_than <*lex*> less_than"
proof -
  note f = resolving_facts [OF assms(1-4)]
  have one: "rs1 = []" "rs2 = []" "bridge_contents (fl_bridge (sy_filter sy)) = []" "resolution_request r"
    using f(4,5) assms(5) by simp_all
  show ?thesis
    using deliver_open [OF f(1), of ev] deliver_frame [of ev "sy_filter sy"] answer_kind [OF assms(6) one(4)] one assms(4,5)
    unfolding assms(7) by (simp add: resolution_rank_def absorb_def opens_def open_events_def)
qed

text \<open>A scheduled callback while the search is on does not panic.\<close>

lemma pump_total:
  assumes "fl_phase fl = Streaming s" and "stream_ok content w R (data_of (fl_out fl)) s" and "fl_waker fl"
    and "w = cfg_max_inflight_reads (fl_config fl)" and "pump react fl = Some fl'"
  shows "fl_phase fl' = Done \<or> (\<exists>s'. fl_phase fl' = Streaming s')" and "fl_bridge fl' = fl_bridge fl"
  using pump_ok [OF assms(1-4), of react] assms(5) by (auto simp: still_streaming_def same_frame_def)

lemma wake_total:
  assumes "sys_reach cr c sy" and "config_ok c" and "sy_alive sy" and "resolving (fl_phase (sy_filter sy))"
    and "\<not> invalid_value cr (sy_filter sy)" and "values_contract (cr_headers cr)"
  shows "\<exists>fl'. on_scheduled cr react (sy_filter sy) = Some fl'"
proof -
  let ?fl = "sy_filter sy"
  note f = resolving_facts [OF assms(1-4)]
  obtain b where b: "bridge_process (fl_bridge ?fl) = (b, bridge_contents (fl_bridge ?fl))"
    by (rule process_open [OF f(1)])
  define fl0 where "fl0 = ?fl\<lparr>fl_bridge := b\<rparr>"
  have fl0: "fl_config fl0 = c" "fl_phase fl0 = fl_phase ?fl" "fl_waker fl0" "fl_request fl0 = fl_request ?fl"
    using f(2,3) by (simp_all add: fl0_def)
  show ?thesis
  proof (cases "bridge_contents (fl_bridge ?fl)")
    case Nil
    then show ?thesis
      using b assms(4) by (cases "fl_phase ?fl") (simp_all add: on_scheduled_def)
  next
    case (Cons ev rest)
    then have one: "rest = []" "event_ok (sy_content sy) ev" using f(4,6) by simp_all
    obtain rd where rd: "fl_request fl0 = Some rd" using f(8) fl0(4) by auto
    have "plannable cr fl0 ev"
      using assms(5) Cons by (intro valid_plannable [OF assms(6)]) (simp add: invalid_value_def fl0_def)
    from resolution_event_total [OF _ fl0(3) rd _ one(2) this] obtain fl1 e where
      ev: "handle_event cr ev fl0 = Some (fl1, e)" using assms(2,4) fl0(1,2) by auto
    have "resolve_outcome cr (sy_content sy) (cfg_max_inflight_reads c) fl0 fl1 e"
      using resolution_event_outcome [OF _ _ one(2) ev] assms(2,4) fl0(1,2) by simp
    then have w: "fl_waker fl1" using fl0(3) by (auto simp: resolve_outcome_def same_frame_def)
    have "on_scheduled cr react ?fl =
        (if e then Some fl1 else case fl_phase fl1 of Streaming _ \<Rightarrow> pump react fl1 | _ \<Rightarrow> Some fl1)"
      using b Cons one(1) ev by (cases e) (simp_all add: on_scheduled_def fl0_def emit_def)
    moreover have "pump react fl1 \<noteq> None" if "\<not> e" "fl_phase fl1 = Streaming s" for s
    proof -
      have "data_of (fl_out fl0) = []"
        using reachable_ok [OF assms(1,2)] assms(4)
        by (cases "fl_phase ?fl") (auto simp: sys_ok_def trace_ok_def fl0_def Let_def)
      then have "stream_ok (sy_content sy) (cfg_max_inflight_reads c) [] (data_of (fl_out fl1)) s"
        using \<open>resolve_outcome cr _ _ fl0 fl1 e\<close> that by (auto simp: resolve_outcome_def)
      moreover have "cfg_max_inflight_reads c = cfg_max_inflight_reads (fl_config fl1)"
        using \<open>resolve_outcome cr _ _ fl0 fl1 e\<close> fl0(1) by (simp add: resolve_outcome_def same_frame_def)
      ultimately show ?thesis using pump_ok [OF that(2) _ w, of "sy_content sy" _ "[]" react] by auto
    qed
    ultimately show ?thesis by (cases e; cases "fl_phase fl1") auto
  qed
qed

text \<open>It shortens the search.\<close>

lemma resolved_shortens:
  assumes "resolving (fl_phase fl)" and "handle_event cr ev fl0 = Some (fl1, e)" and "drained fl fl0" and "fl_config fl = c"
    and "no_index_directory fl" and "bridge_contents (fl_bridge fl) = [ev]" and "event_ok content ev"
    and "resolving (fl_phase fl1)"
  shows "\<exists>acts. fl_out fl1 = fl_out fl @ acts \<and>
    phase_rank c (fl_phase fl1) + opens (requests_of acts) < phase_rank c (fl_phase fl) + open_events [ev]"
proof -
  have "\<forall>dir ps h stat ctx prefetch. fl_phase fl0 = ResolvingIndex dir ps \<longrightarrow> ev = Opened h stat ctx prefetch \<longrightarrow>
      \<not> st_is_dir stat"
    using assms(3,5,6) by (auto simp: no_index_directory_def drained_def)
  moreover have "resolving (fl_phase fl0)" using assms(1,3) by (simp add: drained_def)
  ultimately have "shortens (if is_open_event ev then Suc 0 else 0) fl0 fl1 \<or> (\<exists>s. fl_phase fl1 = Streaming s) \<or>
      (\<exists>seq res. ev = ReadEvent seq res)"
    using shortens_event assms(2) by blast
  then have "shortens (if is_open_event ev then Suc 0 else 0) fl0 fl1" using assms(7,8) by auto
  then show ?thesis
    using assms(3,4,8) by (auto simp: shortens_def drained_def open_events_def split: if_splits)
qed

lemma wake_shortens:
  assumes "sys_reach cr c sy" and "config_ok c" and "sy_alive sy" and "resolving (fl_phase (sy_filter sy))"
    and "sy_scheduled sy = Suc n" and "no_index_directory (sy_filter sy)"
    and "on_scheduled cr react (sy_filter sy) = Some fl'"
  shows "bridge_contents (fl_bridge fl') = [] \<and>
    (fl_phase fl' = Done \<or> (\<exists>s. fl_phase fl' = Streaming s) \<or>
     resolving (fl_phase fl') \<and>
       (resolution_rank c (absorb fl' (sy\<lparr>sy_scheduled := n\<rparr>)), resolution_rank c sy) \<in> less_than <*lex*> less_than)"
proof -
  let ?fl = "sy_filter sy"
  have parts: "live_ok c sy" "fl_config ?fl = c" "trace_ok cr (sy_content sy) ?fl"
    using reachable_ok [OF assms(1,2)] assms(3) by (auto simp: sys_ok_def)
  from parts(1,2) assms(2,7) show ?thesis
  proof (cases rule: callback_cases)
    case drains
    have "absorb fl' (sy\<lparr>sy_scheduled := n\<rparr>) = sy\<lparr>sy_scheduled := n, sy_filter := fl'\<rparr>"
      using drains(1) by (simp add: absorb_def drained_def)
    then show ?thesis
      using drains assms(4,5) by (auto simp: resolution_rank_def drained_def)
  next
    case (resolves fl0 fl1 e ev)
    have fr: "bridge_contents (fl_bridge fl1) = []" "fl_waker fl1" "cfg_max_inflight_reads c = cfg_max_inflight_reads (fl_config fl1)"
      using resolves(2,7,8) parts(2) by (auto simp: resolve_outcome_def same_frame_def drained_def)
    have clean: "data_of (fl_out fl0) = []"
      using parts(3) resolves(1,7) by (cases "fl_phase ?fl") (auto simp: trace_ok_def drained_def Let_def)
    from resolves(8) consider "e" "fl_phase fl1 = Done" | "\<not> e" "resolving (fl_phase fl1)"
      | s where "\<not> e" "fl_phase fl1 = Streaming s"
          "stream_ok (sy_content sy) (cfg_max_inflight_reads c) [] (data_of (fl_out fl1)) s"
      using clean by (cases e) (auto simp: resolve_outcome_def)
    then show ?thesis
    proof cases
      case 1
      then show ?thesis using resolves(9) fr(1) by simp
    next
      case 2
      then have fl': "fl' = fl1" using resolves(9) by (cases "fl_phase fl1") simp_all
      obtain acts where acts: "fl_out fl1 = fl_out ?fl @ acts"
        "phase_rank c (fl_phase fl1) + opens (requests_of acts) < phase_rank c (fl_phase ?fl) + open_events [ev]"
        using resolved_shortens [OF resolves(1,6,7) parts(2) assms(6) resolves(4,5) 2(2)] by blast
      then show ?thesis
        using resolves(3,4) fr(1) 2(2) unfolding fl' by (simp add: resolution_rank_def absorb_def open_events_def opens_def)
    next
      case 3
      then have "pump react fl1 = Some fl'" using resolves(9) by simp
      from pump_total [OF 3(2,3) fr(2,3) this] fr(1) show ?thesis by auto
    qed
  qed (use assms(4) in auto)
qed

lemma no_index_directory_empty: "bridge_contents (fl_bridge fl) = [] \<Longrightarrow> no_index_directory fl"
  by (simp add: no_index_directory_def)

lemma resolution_goes_on:
  assumes "sys_reach cr c sy" and "config_ok c" and "sy_alive sy" and "resolving (fl_phase (sy_filter sy))"
    and "no_index_directory (sy_filter sy)" and "\<not> invalid_value cr (sy_filter sy)"
    and "values_contract (cr_headers cr)"
  shows "\<exists>t. drive_step cr sy t \<and> no_index_directory (sy_filter t)"
proof -
  note f = resolving_facts [OF assms(1-4)]
  show ?thesis
  proof (cases "bridge_contents (fl_bridge (sy_filter sy)) = []")
    case False
    then obtain n where n: "sy_scheduled sy = Suc n" using f(7) gr0_implies_Suc by blast
    obtain fl' where on: "on_scheduled cr (\<lambda>_. []) (sy_filter sy) = Some fl'" using wake_total [OF assms(1-4,6,7)] by blast
    have fl': "on_scheduled cr (\<lambda>_. []) (sy_filter sy) = Some fl'" "bridge_contents (fl_bridge fl') = []"
      using on wake_shortens [OF assms(1-4) n assms(5) on] by simp_all
    then show ?thesis
      using drive_step.wake [OF assms(3) n fl'(1)] no_index_directory_empty [of fl'] absorb_fields(1) by metis
  next
    case True
    then obtain r where r: "sy_pending sy = [] @ r # []" "resolution_request r"
      using f(4,5) by (cases "sy_pending sy") auto
    then obtain ev where ev: "engine_answer (sy_content sy) r (sy_content sy) ev" "\<And>h stat ctx prefetch. ev \<noteq> Opened h stat ctx prefetch"
    proof (cases r)
      case (ROpen req ctx)
      then show ?thesis using that [of "OpenError err" for err] open_fails [of "sy_content sy" req ctx] by (auto simp: open_event_def)
    next
      case (RDir p)
      then show ?thesis using that [of "DirEvent (Inr [])"] listed by auto
    qed simp
    have "no_index_directory (deliver ev (sy_filter sy))"
      using deliver_open [OF f(1), of ev] True ev(2) by (auto simp: no_index_directory_def)
    then show ?thesis using drive_step.answer [OF r(1) ev(1)] absorb_fields(1) by metis
  qed
qed

section \<open>Every request\<close>

lemma resolution_ends:
  assumes "sys_reach cr c sy" and "config_ok c" and "sy_alive sy" and "resolving (fl_phase (sy_filter sy))"
    and "no_index_directory (sy_filter sy)" and "values_contract (cr_headers cr)"
  shows "inevitable (\<lambda>sy t. drive_step cr sy t \<and> no_index_directory (sy_filter t))
    (\<lambda>sy. fl_phase (sy_filter sy) = Done \<or> (\<exists>s. fl_phase (sy_filter sy) = Streaming s) \<or> invalid_value cr (sy_filter sy)) sy"
proof -
  define I where "I sy \<longleftrightarrow> sys_reach cr c sy \<and> sy_alive sy \<and> resolving (fl_phase (sy_filter sy)) \<and>
    no_index_directory (sy_filter sy)" for sy
  show ?thesis
  proof (rule inevitable_by_rank [where rank = "resolution_rank c" and I = I])
    show "I sy" using assms by (simp add: I_def)
  next
    fix sy assume "I sy" and "\<not> (fl_phase (sy_filter sy) = Done \<or> (\<exists>s. fl_phase (sy_filter sy) = Streaming s) \<or>
        invalid_value cr (sy_filter sy))"
    then show "\<exists>t. drive_step cr sy t \<and> no_index_directory (sy_filter t)"
      using resolution_goes_on [OF _ assms(2) _ _ _ _ assms(6)] unfolding I_def by blast
  next
    fix sy t
    assume i: "I sy" and g: "\<not> (fl_phase (sy_filter sy) = Done \<or> (\<exists>s. fl_phase (sy_filter sy) = Streaming s) \<or>
        invalid_value cr (sy_filter sy))"
      and d: "drive_step cr sy t \<and> no_index_directory (sy_filter t)"
    note i' = i [unfolded I_def]
    have next_ok: "sys_reach cr c t" "sy_alive t"
      using i' d drive_step_is_step drive_alive sys_reach.step by metis+
    from conjunct1 [OF d] have "fl_phase (sy_filter t) = Done \<or> (\<exists>s. fl_phase (sy_filter t) = Streaming s) \<or>
        resolving (fl_phase (sy_filter t)) \<and> (resolution_rank c t, resolution_rank c sy) \<in> less_than <*lex*> less_than"
    proof cases
      case (answer rs1 r rs2 content' ev)
      then show ?thesis using answer_shortens [OF _ assms(2)] i' by blast
    next
      case (wake n react fl)
      then show ?thesis
        using wake_shortens [OF _ assms(2) _ _ wake(3) _ wake(4)] i' absorb_fields(1) by simp
    qed
    then show "(fl_phase (sy_filter t) = Done \<or> (\<exists>s. fl_phase (sy_filter t) = Streaming s) \<or> invalid_value cr (sy_filter t)) \<or>
        I t \<and> (resolution_rank c t, resolution_rank c sy) \<in> less_than <*lex*> less_than"
      using next_ok d unfolding I_def by blast
  qed
qed

text \<open>
  C4: Every request is brought to an end: while a file is being looked for, and as long as no index file is
  found to be a directory, however the engine orders and answers and the callbacks are batched, after finitely
  many steps the response is complete, or Envoy holds it by a watermark; until then there is always something to run.
  The one exception is an answer that waits with a content type or cache control that is no valid header value, or
  with a file time that has no HTTP date: nothing else makes the filter panic.
\<close>

theorem request_completes:
  assumes "sys_reach cr c sy" and "config_ok c" and "sy_alive sy" and "resolving (fl_phase (sy_filter sy))"
    and "no_index_directory (sy_filter sy)" and "values_contract (cr_headers cr)"
  shows "inevitable (\<lambda>sy t. drive_step cr sy t \<and> no_index_directory (sy_filter t))
    (\<lambda>sy. fl_phase (sy_filter sy) = Done \<or>
       (\<exists>s. fl_phase (sy_filter sy) = Streaming s \<and> sm_watermark_depth s \<noteq> 0) \<or>
       invalid_value cr (sy_filter sy)) sy"
proof (rule inevitable_then [OF resolution_ends [OF assms], where J = "\<lambda>sy. sys_reach cr c sy \<and> sy_alive sy"])
  show "sys_reach cr c sy \<and> sy_alive sy" using assms by simp
next
  fix s t
  assume "sys_reach cr c s \<and> sy_alive s" and "drive_step cr s t \<and> no_index_directory (sy_filter t)"
  then show "sys_reach cr c t \<and> sy_alive t"
    using drive_step_is_step drive_alive sys_reach.step by metis
next
  fix sy
  assume j: "sys_reach cr c sy \<and> sy_alive sy" and g: "fl_phase (sy_filter sy) = Done \<or>
      (\<exists>s. fl_phase (sy_filter sy) = Streaming s) \<or> invalid_value cr (sy_filter sy)"
  show "inevitable (\<lambda>sy t. drive_step cr sy t \<and> no_index_directory (sy_filter t))
      (\<lambda>sy. fl_phase (sy_filter sy) = Done \<or> (\<exists>s. fl_phase (sy_filter sy) = Streaming s \<and> sm_watermark_depth s \<noteq> 0) \<or>
         invalid_value cr (sy_filter sy)) sy"
  proof (cases "\<exists>s. fl_phase (sy_filter sy) = Streaming s")
    case True
    then obtain s where s: "fl_phase (sy_filter sy) = Streaming s" by blast
    have free: "fl_phase (sy_filter t) = Done \<or> (\<exists>s. fl_phase (sy_filter t) = Streaming s) \<Longrightarrow>
        no_index_directory (sy_filter t)" for t
      by (auto simp: no_index_directory_def)
    have "inevitable (\<lambda>sy t. drive_step cr sy t \<and> no_index_directory (sy_filter t))
        (\<lambda>sy. fl_phase (sy_filter sy) = Done \<or> (\<exists>s. fl_phase (sy_filter sy) = Streaming s \<and> sm_watermark_depth s \<noteq> 0)) sy"
      by (rule streaming_inevitable [OF conjunct1 [OF j] assms(2) conjunct2 [OF j] s, where P = "\<lambda>t. no_index_directory (sy_filter t)"])
         (rule free)
    then show ?thesis by (rule inevitable_mono) blast
  qed (use g in \<open>auto intro: inevitable.now\<close>)
qed

theorem request_completes_witness:
  "sys_reach sample_cr sample_config sample_asked \<and>
   inevitable (\<lambda>sy t. drive_step sample_cr sy t \<and> no_index_directory (sy_filter t))
    (\<lambda>sy. fl_phase (sy_filter sy) = Done \<or>
       (\<exists>s. fl_phase (sy_filter sy) = Streaming s \<and> sm_watermark_depth s \<noteq> 0) \<or>
       invalid_value sample_cr (sy_filter sy)) sample_asked"
proof
  show "sys_reach sample_cr sample_config sample_asked" by (rule sample_reach_asked)
  show "inevitable (\<lambda>sy t. drive_step sample_cr sy t \<and> no_index_directory (sy_filter t))
    (\<lambda>sy. fl_phase (sy_filter sy) = Done \<or>
       (\<exists>s. fl_phase (sy_filter sy) = Streaming s \<and> sm_watermark_depth s \<noteq> 0) \<or>
       invalid_value sample_cr (sy_filter sy)) sample_asked"
    by (rule request_completes [OF sample_reach_asked sample_config_ok])
       (simp_all add: sample_values sample_cr_def [THEN arg_cong [of _ _ cr_headers]] sample_asked_def sys_init_def sample_filter_def no_index_directory_def)
qed

end
