(* ===== verification/Filter_Module.thy ===== *)
theory Filter_Module
  imports Filter_Confinement
begin

text \<open>
  \<^verbatim>\<open>envoy-files-filter/src/lib.rs\<close>, the entry point of the dynamic module, with the start of the
  engine (\<^verbatim>\<open>IoConfig\<close>, \<^verbatim>\<open>select_backend\<close>, \<^verbatim>\<open>CompioEngine::try_new\<close>, \<^verbatim>\<open>build_runtime\<close>)
  and its stop. What is asked of the host, its parallelism, the reactor thread and the compio runtime, is a record of
  functions (\<open>host\<close>); a runtime whose construction panics is \<open>None\<close>.
\<close>

section \<open>Starting the engine\<close>

datatype driver_type = IoUring | IOCP | Poll

text \<open>The fields of a \<^verbatim>\<open>ProactorBuilder\<close> that are set; a driver of \<open>None\<close> is the default of the platform.\<close>

record proactor =
  pro_thread_pool_limit :: nat
  pro_driver_type :: "driver_type option"

record host =
  host_available_parallelism :: "io_error + nat"
  host_is_linux :: bool
  host_spawn :: "io_error + unit"
  host_build :: "proactor \<Rightarrow> (io_error + driver_type) option"

record io_config =
  ic_blocking_threads :: nat
  ic_force_blocking :: bool

definition io_config_default :: "host \<Rightarrow> io_config" where
  "io_config_default host =
     \<lparr>ic_blocking_threads =
        (case host_available_parallelism host of Inr n \<Rightarrow> min n 4 | Inl _ \<Rightarrow> 2),
      ic_force_blocking = False\<rparr>"

definition build_runtime :: "host \<Rightarrow> nat \<Rightarrow> bool \<Rightarrow> (io_error + driver_type) option" where
  "build_runtime host blocking_threads force_blocking =
     (let proactor = \<lparr>pro_thread_pool_limit = max blocking_threads 1, pro_driver_type = None\<rparr>;
          proactor = (if host_is_linux host \<and> force_blocking then proactor\<lparr>pro_driver_type := Some Poll\<rparr> else proactor)
      in host_build host proactor)"

definition driver_name :: "driver_type \<Rightarrow> string" where
  "driver_name d = (case d of IoUring \<Rightarrow> ''compio-io_uring'' | IOCP \<Rightarrow> ''compio-iocp'' | Poll \<Rightarrow> ''compio-poll'')"

text \<open>The engine that is running, and the name of its driver.\<close>

record ('f, 'k) backend =
  be_engine :: "('f, 'k) engine"
  be_driver :: string

definition try_new :: "host \<Rightarrow> nat \<Rightarrow> bool \<Rightarrow> io_error + ('f, 'k) backend" where
  "try_new host blocking_threads force_blocking =
     (case host_spawn host of
        Inl err \<Rightarrow> Inl err
      | Inr _ \<Rightarrow>
          (case build_runtime host blocking_threads force_blocking of
             Some (Inr d) \<Rightarrow> Inr \<lparr>be_engine = engine_new, be_driver = driver_name d\<rparr>
           | Some (Inl err) \<Rightarrow> Inl err
           | None \<Rightarrow> Inl other_error))"

definition select_backend :: "host \<Rightarrow> io_config \<Rightarrow> io_error + ('f, 'k) backend" where
  "select_backend host config = try_new host (ic_blocking_threads config) (ic_force_blocking config)"

section \<open>The filter configuration\<close>

record ('f, 'k) filter_config =
  fc_config :: config
  fc_backend :: "('f, 'k) backend"

definition new_http_filter_config ::
  "'y yaml_crate \<Rightarrow> config_fs \<Rightarrow> host \<Rightarrow> bytes \<Rightarrow> ('f, 'k) filter_config option" where
  "new_http_filter_config yc fs host bytes =
     (case parse_config yc fs bytes of
        Inl err \<Rightarrow> None
      | Inr c \<Rightarrow>
          (case select_backend host
              \<lparr>ic_blocking_threads =
                 (case cfg_blocking_threads c of
                    Some n \<Rightarrow> n
                  | None \<Rightarrow> ic_blocking_threads (io_config_default host)),
               ic_force_blocking = cfg_force_blocking c\<rparr> of
             Inl err \<Rightarrow> None
           | Inr backend \<Rightarrow> Some \<lparr>fc_config = c, fc_backend = backend\<rparr>))"

definition new_http_filter :: "('f, 'k) filter_config \<Rightarrow> stream_filter" where
  "new_http_filter fc = filter_new (fc_config fc)"

definition filter_config_drop :: "('f, 'k) filter_config \<Rightarrow> ('f, 'k) filter_config" where
  "filter_config_drop fc =
     fc\<lparr>fc_backend := (fc_backend fc)\<lparr>be_engine := engine_shutdown (be_engine (fc_backend fc))\<rparr>\<rparr>"

text \<open>
  The library that Envoy loads (\<^verbatim>\<open>envoy-files-module\<close>): its initialization, which may run more than once,
  has no state and always succeeds, and the flags its build script gives the linker.
\<close>

definition module_init :: bool where
  "module_init \<longleftrightarrow> True"

definition build_script :: "string option \<Rightarrow> string list" where
  "build_script target_os =
     (if target_os = Some ''macos'' then [''cargo:rustc-link-arg=-undefined'', ''cargo:rustc-link-arg=dynamic_lookup''] else [])"

section \<open>What starts\<close>

text \<open>
  A configuration is only created from an accepted document and a runtime that has started: with
  between 1 and 256 blocking threads, on the polling driver when that is forced on Linux and on the
  platform's own otherwise.
\<close>

lemma module_started:
  assumes "new_http_filter_config yc fs host raw = Some fc"
  shows "parse_config yc fs raw = Inr (fc_config fc) \<and> be_engine (fc_backend fc) = engine_new \<and>
    (\<exists>p d. host_build host p = Some (Inr d) \<and> be_driver (fc_backend fc) = driver_name d \<and>
      1 \<le> pro_thread_pool_limit p \<and> pro_thread_pool_limit p \<le> 256 \<and>
      pro_driver_type p = (if host_is_linux host \<and> cfg_force_blocking (fc_config fc) then Some Poll else None))"
proof -
  obtain c where c: "parse_config yc fs raw = Inr c"
    using assms by (auto simp: new_http_filter_config_def split: sum.splits)
  define n where "n = (case cfg_blocking_threads c of Some n \<Rightarrow> n | None \<Rightarrow> ic_blocking_threads (io_config_default host))"
  obtain be where be: "select_backend host \<lparr>ic_blocking_threads = n, ic_force_blocking = cfg_force_blocking c\<rparr> = Inr be"
      "fc = \<lparr>fc_config = c, fc_backend = be\<rparr>"
    using assms c by (auto simp: new_http_filter_config_def n_def split: sum.splits)
  have "n \<le> 256"
    using conjunct1 [OF accepted_config [OF c]]
    by (simp add: n_def config_ok_def io_config_default_def min_le_iff_disj split: option.splits sum.splits)
  moreover obtain d where d: "build_runtime host n (cfg_force_blocking c) = Some (Inr d)" "be_driver be = driver_name d"
      "be_engine be = engine_new"
    using be(1) by (cases "host_spawn host"; cases "build_runtime host n (cfg_force_blocking c)")
      (auto simp: select_backend_def try_new_def split: sum.splits)
  moreover define p where "p = \<lparr>pro_thread_pool_limit = max n 1,
      pro_driver_type = (if host_is_linux host \<and> cfg_force_blocking c then Some Poll else None)\<rparr>"
  have "build_runtime host n (cfg_force_blocking c) = host_build host p"
    unfolding build_runtime_def Let_def p_def by simp
  moreover have "1 \<le> pro_thread_pool_limit p" by (simp add: p_def)
  moreover have "pro_driver_type p = (if host_is_linux host \<and> cfg_force_blocking (fc_config fc) then Some Poll else None)"
    by (simp add: p_def be(2))
  ultimately have "\<exists>p d'. host_build host p = Some (Inr d') \<and> be_driver (fc_backend fc) = driver_name d' \<and>
      1 \<le> pro_thread_pool_limit p \<and> pro_thread_pool_limit p \<le> 256 \<and>
      pro_driver_type p = (if host_is_linux host \<and> cfg_force_blocking (fc_config fc) then Some Poll else None)"
    by (intro exI [of _ p] exI [of _ d]) (simp add: p_def be(2))
  then show ?thesis using c be(2) d(3) by simp
qed

section \<open>What a stream has outstanding\<close>

fun request_bytes :: "request \<Rightarrow> nat" where
  "request_bytes (RRead h off len seq) = len"
| "request_bytes _ = 0"

lemma streaming_requests_short:
  assumes "sys_reach cr c sy" and "fl_phase (sy_filter sy) = Streaming s"
    and "list_all (read_request_ok (sm_chunks s)) (sy_pending sy)" and "r \<in> set (sy_pending sy)"
  shows "request_bytes r \<le> cfg_chunk_size c"
proof -
  have "read_request_ok (sm_chunks s) r" using assms(3,4) by (simp add: list_all_iff)
  then obtain h off len seq where r: "r = RRead h off len seq" "seq < length (sm_chunks s)" "sm_chunks s ! seq = FileChunk off len"
    by (cases r) auto
  then have "FileChunk off len \<in> set (sm_chunks s)" by (metis nth_mem)
  then show ?thesis
    using read_bound.reachable_obeys [OF assms(1)] assms(2) r(1) by (auto simp: obeys_def)
qed

text \<open>
  C16: Whatever document the module is configured with, the reads a stream has in flight ask for at most the
  configured window times the chunk size, and never for more than 32 MiB in all.
\<close>

theorem module_reads_bounded:
  assumes "new_http_filter_config yc fs host raw = Some fc"
    and "sys_reach cr (fc_config fc) sy" and "sy_alive sy" and "fl_phase (sy_filter sy) = Streaming s"
  shows "sum_list (map request_bytes (sy_pending sy)) \<le> cfg_max_inflight_reads (fc_config fc) * cfg_chunk_size (fc_config fc) \<and>
    cfg_max_inflight_reads (fc_config fc) * cfg_chunk_size (fc_config fc) \<le> 33554432"
proof -
  let ?c = "fc_config fc" and ?rs = "sy_pending sy"
  have ok: "config_ok ?c" using accepted_config module_started [OF assms(1)] by blast
  have "live_ok ?c sy" using reachable_ok [OF assms(2) ok] assms(3) by (simp add: sys_ok_def)
  then have rs: "list_all (read_request_ok (sm_chunks s)) ?rs" "length ?rs \<le> cfg_max_inflight_reads ?c"
    using assms(4) by (auto simp: live_ok_def stream_ok_def Let_def)
  have "sum_list (map request_bytes ?rs) \<le> length ?rs * cfg_chunk_size ?c"
    using sum_list_mono [of ?rs request_bytes "\<lambda>_. cfg_chunk_size ?c"] streaming_requests_short [OF assms(2,4) rs(1)]
    by (simp add: sum_list_triv)
  also have "\<dots> \<le> cfg_max_inflight_reads ?c * cfg_chunk_size ?c" using rs(2) by simp
  finally show ?thesis
    using ok mult_le_mono [of "cfg_max_inflight_reads ?c" 8 "cfg_chunk_size ?c" 4194304]
    by (simp add: config_ok_def)
qed

definition sample_module_yaml :: "string yaml_crate" where
  "sample_module_yaml =
     \<lparr>yc_load = (\<lambda>s. Inr [s]),
      yc_shape = (\<lambda>y. if y = ''doc'' then YHash [(''root'', ''/srv''), (''etag'', ''false''), (''last_modified'', ''false'')]
        else if y = [] then YBadValue else if y = ''false'' then YOther else YString y),
      yc_index = (\<lambda>y key. if key = ''root'' then ''/srv''
        else if key = ''etag'' \<or> key = ''last_modified'' then ''false'' else []),
      yc_as_str = (\<lambda>y. if y = ''/srv'' then Some y else None),
      yc_as_i64 = (\<lambda>y. None), yc_as_bool = (\<lambda>y. if y = ''false'' then Some False else None)\<rparr>"

definition sample_host :: host where
  "sample_host = \<lparr>host_available_parallelism = Inr 8, host_is_linux = True, host_spawn = Inr (),
     host_build = (\<lambda>p. Some (Inr (case pro_driver_type p of Some d \<Rightarrow> d | None \<Rightarrow> IoUring)))\<rparr>"

lemma sample_module:
  "new_http_filter_config sample_module_yaml sample_fs sample_host ''doc'' =
     Some \<lparr>fc_config = sample_config, fc_backend = \<lparr>be_engine = engine_new, be_driver = ''compio-io_uring''\<rparr>\<rparr>"
proof -
  have "utf8_valid ''doc''" by (rule ascii_valid) simp
  then have "parse_config sample_module_yaml sample_fs ''doc'' = Inr sample_config"
    by (simp del: utf8_valid.simps add: parse_config_def from_utf8_def sample_module_yaml_def parse_config_doc_def KNOWN_KEYS_def
        parse_root_def sample_fs_def parse_strip_prefix_def parse_index_files_def
        parse_directory_def parse_ranges_def parse_precompressed_def parse_mime_overrides_def
        int_in_range_def parse_blocking_threads_def bool_or_def default_config_def sample_config_def)
  moreover have "cfg_blocking_threads sample_config = None" "\<not> cfg_force_blocking sample_config"
    by (simp_all add: sample_config_def default_config_def)
  ultimately show ?thesis
    by (simp add: new_http_filter_config_def select_backend_def try_new_def build_runtime_def sample_host_def
        io_config_default_def driver_name_def Let_def)
qed

theorem module_reads_bounded_witness:
  "sum_list (map request_bytes (sy_pending sample_reading)) \<le> 131072 \<and> sy_pending sample_reading = [RRead 7 0 5 0]"
  using module_reads_bounded [OF sample_module, of sample_cr sample_reading "sample_streaming [] 1 1"]
    sample_reach_reading
  by (simp add: sample_reading_def sys_init_def sample_filter_def sample_config_def default_config_def)

section \<open>Teardown\<close>

text \<open>An engine that has stopped holds nothing, and never will again.\<close>

definition stopped_clean :: "('f, 'k) engine \<Rightarrow> bool" where
  "stopped_clean eng \<longleftrightarrow> \<not> eng_running eng \<and> eng_commands eng = [] \<and> eng_tasks eng = [] \<and> eng_files eng = []"

lemma stopped_clean_step: "stopped_clean eng \<Longrightarrow> stopped_clean (fst (engine_step os op eng))"
  by (cases op)
     (auto simp: stopped_clean_def engine_step_def engine_open_stat_def engine_read_def engine_read_dir_def
       drop_handle_def engine_shutdown_def run_reactor_def run_task_def try_send_def)

lemma clean_step:
  assumes "eng_running eng \<or> stopped_clean eng"
  shows "eng_running (fst (engine_step os op eng)) \<or> stopped_clean (fst (engine_step os op eng))"
proof (cases "stopped_clean eng")
  case False
  with assms have run: "eng_running eng" by simp
  show ?thesis
  proof (cases op)
    case (FinishTask j)
    then show ?thesis
      using run by (auto simp: engine_step_def run_task_def Let_def split: task.split prod.split)
  next
    case React
    then show ?thesis
      using run
      by (auto simp: engine_step_def run_reactor_def stopped_clean_def Let_def split: list.split command.split)
  qed (use run in \<open>auto simp: engine_step_def engine_open_stat_def engine_read_def engine_read_dir_def
        drop_handle_def engine_shutdown_def try_send_def\<close>)
qed (use stopped_clean_step in blast)

lemma clean_run:
  "engine_run os ops eng = (eng', out) \<Longrightarrow> eng_running eng \<or> stopped_clean eng \<Longrightarrow> eng_running eng' \<or> stopped_clean eng'"
proof (induction ops arbitrary: eng out)
  case (Cons op ops)
  then show ?case using clean_step [of eng os op] by (auto simp: Let_def split: prod.splits)
qed simp

lemma reactor_stops:
  assumes "eng_running eng" and "eng_commands eng = cs @ [ShutdownCommand]"
  shows "stopped_clean ((run_reactor ^^ Suc (length cs)) eng)"
  using assms
proof (induction cs arbitrary: eng)
  case Nil
  then show ?case by (simp add: run_reactor_def stopped_clean_def)
next
  case (Cons c cs)
  have still: "stopped_clean ((run_reactor ^^ n) e)" if "stopped_clean e" for n and e :: "('f, 'k) engine"
  proof (induction n)
    case (Suc n)
    then show ?case by (simp add: run_reactor_def stopped_clean_def)
  qed (simp add: that)
  have turn: "(run_reactor ^^ Suc (length (c # cs))) eng = (run_reactor ^^ Suc (length cs)) (run_reactor eng)"
    by (simp add: funpow_swap1)
  have "eng_running (run_reactor eng) \<and> eng_commands (run_reactor eng) = cs @ [ShutdownCommand] \<or>
      stopped_clean (run_reactor eng)"
    using Cons.prems by (cases c) (simp_all add: run_reactor_def stopped_clean_def)
  then show ?case unfolding turn using Cons.IH still by blast
qed

text \<open>
  C26: Teardown ends: from any state of the engine, dropping the filter configuration stops the reactor within
  as many turns as there are commands queued; then no file is open, no callback is outstanding, and
  whatever is still submitted is dropped.
\<close>

theorem teardown_stops:
  assumes "engine_run os ops engine_new = (be_engine (fc_backend fc), out)"
    and "eng = be_engine (fc_backend (filter_config_drop fc))"
    and "stopped = (run_reactor ^^ length (eng_commands eng)) eng"
  shows "\<not> eng_running stopped \<and> eng_files stopped = [] \<and> outstanding stopped = {#} \<and>
    outstanding (fst (engine_run os later stopped)) = {#} \<and> snd (engine_run os later stopped) = []"
proof -
  have "stopped_clean stopped"
  proof (cases "eng_running (be_engine (fc_backend fc))")
    case True
    then have "eng_running eng" "eng_commands eng = eng_commands (be_engine (fc_backend fc)) @ [ShutdownCommand]"
      by (simp_all add: assms(2) filter_config_drop_def engine_shutdown_def try_send_def)
    then show ?thesis using reactor_stops [of eng] by (simp add: assms(3))
  next
    case False
    then have c: "stopped_clean (be_engine (fc_backend fc))" using clean_run [OF assms(1)] by (simp add: engine_new_def)
    then have "eng = be_engine (fc_backend fc)"
      by (simp add: assms(2) filter_config_drop_def engine_shutdown_def try_send_def stopped_clean_def)
    then show ?thesis using c by (simp add: assms(3) stopped_clean_def)
  qed
  moreover have "stopped_clean (fst (engine_run os later e)) \<and> snd (engine_run os later e) = []" if "stopped_clean e" for e
    using that
  proof (induction later arbitrary: e)
    case (Cons op later)
    have "snd (engine_step os op e) = []"
      using Cons.prems by (cases op) (simp_all add: engine_step_def run_task_def stopped_clean_def)
    then show ?case
      using Cons.IH [OF stopped_clean_step [OF Cons.prems, of os op]] by (simp add: case_prod_unfold Let_def)
  qed simp
  moreover have "outstanding e = {#}" if "stopped_clean e" for e :: "('a, 'b) engine"
    using that by (simp add: stopped_clean_def outstanding_def)
  ultimately show ?thesis by (simp add: stopped_clean_def)
qed

theorem teardown_stops_witness:
  "\<exists>stopped. stopped = run_reactor (run_reactor (run_reactor (engine_shutdown (fst (engine_run sample_os
      [SubmitOpen (sample_request 8) True, React, SubmitRead 1 0 4 False, SubmitReadDir ''/srv'' True] engine_new))))) \<and>
     outstanding stopped = {#} \<and> eng_files stopped = []"
proof -
  let ?ops = "[SubmitOpen (sample_request 8) True, React, SubmitRead 1 0 4 False, SubmitReadDir ''/srv'' True]"
  define eng where "eng = fst (engine_run sample_os ?ops engine_new)"
  define fc :: "(unit, bool) filter_config" where
    "fc = \<lparr>fc_config = sample_config, fc_backend = \<lparr>be_engine = eng, be_driver = ''compio-poll''\<rparr>\<rparr>"
  have run: "engine_run sample_os ?ops engine_new = (be_engine (fc_backend fc), snd (engine_run sample_os ?ops engine_new))"
    by (simp add: fc_def eng_def)
  have drop: "be_engine (fc_backend (filter_config_drop fc)) = engine_shutdown eng"
    by (simp add: filter_config_drop_def fc_def)
  have "length (eng_commands (engine_shutdown eng)) = 3"
    by (simp add: eng_def engine_step_def engine_open_stat_def engine_read_def engine_read_dir_def try_send_def
        engine_new_def run_reactor_def engine_shutdown_def)
  then show ?thesis
    using teardown_stops [OF run refl refl] unfolding drop eng_def [symmetric] by (simp add: numeral_3_eq_3)
qed

end
