(* ===== verification/Handler_Frame.thy ===== *)
theory Handler_Frame
  imports Stream_System
begin

text \<open>
  What every handler of the filter has in common. A handler is built from a few primitive changes: it says
  something, drops a handle, moves to another phase, or keeps the request. A relation between the filter
  before and after, indexed by the handles that were handed over in between, that these primitives
  satisfy and that composes is satisfied by every handler (locale \<open>handler_relation\<close>). Two instances
  are here and in \<open>Stream_Handles\<close>: handlers only append to the trace, leave the mailbox alone, and neither read nor begin a body on their own (\<open>quiet\<close>),
  and they neither lose nor repeat a handle.
\<close>

section \<open>Where the handles are\<close>

fun held :: "phase \<Rightarrow> file_handle multiset" where
  "held (Streaming s) = {#sm_handle s#}"
| "held _ = {#}"

fun event_handle :: "io_event \<Rightarrow> file_handle multiset" where
  "event_handle (Opened h stat ctx prefetch) = {#h#}"
| "event_handle _ = {#}"

definition event_handles :: "io_event list \<Rightarrow> file_handle multiset" where
  "event_handles evs = sum_list (map event_handle evs)"

lemma event_handles_simps [simp]:
  "event_handles [] = {#}" "event_handles (e # evs) = event_handle e + event_handles evs"
  "event_handles (evs @ evs') = event_handles evs + event_handles evs'"
  by (simp_all add: event_handles_def)

text \<open>Neither a drop of a handle nor a read from one, nor the headers of a body that is to follow.\<close>

fun plain_action :: "action \<Rightarrow> bool" where
  "plain_action (DropFile _) \<longleftrightarrow> False"
| "plain_action (ReadFile _ _ _ _) \<longleftrightarrow> False"
| "plain_action (SendHeaders _ e) \<longleftrightarrow> e"
| "plain_action _ \<longleftrightarrow> True"

section \<open>The handlers\<close>

locale handler_relation =
  fixes along :: "file_handle multiset \<Rightarrow> stream_filter \<Rightarrow> stream_filter \<Rightarrow> bool"
  assumes along_refl: "along {#} fl fl"
    and along_trans: "along M fl1 fl2 \<Longrightarrow> along N fl2 fl3 \<Longrightarrow> along (M + N) fl1 fl3"
    and along_emit: "list_all plain_action acts \<Longrightarrow> along {#} fl (emit acts fl)"
    and along_drop: "along {#h#} fl (emit [DropFile h] fl)"
    and along_set_phase: "along (held p) fl (set_phase p fl)"
    and along_start: "along {#sm_handle s#} fl (emit [SendHeaders hs False] (set_phase (Streaming s) fl))"
    and along_phase: "held p = held (fl_phase fl) \<Longrightarrow> along {#} fl (fl\<lparr>fl_phase := p\<rparr>)"
    and along_request: "along {#} fl (fl\<lparr>fl_request := r, fl_waker := k\<rparr>)"
begin

lemma along_trans0: "along {#} fl1 fl2 \<Longrightarrow> along M fl2 fl3 \<Longrightarrow> along M fl1 fl3"
  using along_trans [of "{#}" fl1 fl2 M fl3] by simp

lemma along_then: "along M fl1 fl2 \<Longrightarrow> along {#} fl2 fl3 \<Longrightarrow> along M fl1 fl3"
  using along_trans [of M fl1 fl2 "{#}" fl3] by simp

lemma along_emit_phase: "held p = {#} \<Longrightarrow> list_all plain_action acts \<Longrightarrow> along {#} fl (emit acts (set_phase p fl))"
  using along_trans0 [of fl "set_phase p fl"] along_set_phase [of p fl] along_emit by simp

lemma along_respond: "along {#} fl (respond_status st fl)"
  by (simp add: respond_status_def along_emit_phase)

lemma along_after_phase: "along {#} (set_phase p fl) fl' \<Longrightarrow> held p = {#} \<Longrightarrow> along {#} fl fl'"
  using along_trans0 along_set_phase by metis

lemma along_submit: "submit_open p ctx fl = Some fl' \<Longrightarrow> along {#} fl fl'"
  by (auto simp: submit_open_def Let_def split: if_splits intro!: along_emit)

lemma along_submit_after:
  "submit_open p ctx (fl\<lparr>fl_phase := ph\<rparr>) = Some fl' \<Longrightarrow> held ph = held (fl_phase fl) \<Longrightarrow> along {#} fl fl'"
  by (rule along_trans0 [OF along_phase along_submit])

lemma along_next_candidate: "open_next_candidate fl = Some (fl', e) \<Longrightarrow> along {#} fl fl'"
  by (auto simp: open_next_candidate_def bind_eq_Some_conv along_respond along_refl split: phase.splits list.splits
      intro: along_submit_after)

lemma along_fallback: "directory_fallback d fl = Some (fl', e) \<Longrightarrow> along {#} fl fl'"
  by (auto simp: directory_fallback_def along_respond split: directory_mode.splits if_splits intro!: along_emit)

lemma along_next_index: "open_next_index fl = Some (fl', e) \<Longrightarrow> along {#} fl fl'"
  by (auto simp: open_next_index_def bind_eq_Some_conv along_refl split: phase.splits list.splits
      intro: along_submit_after dest: along_fallback)

lemma along_advance: "advance_after_open_miss fl = Some (fl', e) \<Longrightarrow> along {#} fl fl'"
  by (auto simp: advance_after_open_miss_def along_refl split: option.splits resolver.splits
      dest: along_next_candidate along_next_index)

lemma along_open_error: "handle_open_error cr err fl = Some (fl', e) \<Longrightarrow> along {#} fl fl'"
  by (auto simp: handle_open_error_def along_respond along_refl split: option.splits resolver.splits bool.splits
      dest: along_next_candidate along_next_index)

lemma along_directory: "handle_directory cr fl = Some (fl', e) \<Longrightarrow> along {#} fl fl'"
  by (auto simp: handle_directory_def Let_def along_respond split: option.splits if_splits
      intro!: along_emit_phase dest!: along_fallback along_next_index intro: along_after_phase)

lemma along_dir: "handle_dir cr res fl = Some (fl', e) \<Longrightarrow> along {#} fl fl'"
  by (auto simp: handle_dir_def Let_def bind_eq_Some_conv along_respond split: sum.splits option.splits
      intro!: along_emit_phase)

lemma along_ended: "list_all plain_action acts \<Longrightarrow> along {#h#} fl (emit (acts @ [DropFile h]) (set_phase Done fl))"
proof -
  assume "list_all plain_action acts"
  then have "along {#} fl (emit acts (set_phase Done fl))" by (simp add: along_emit_phase)
  from along_trans0 [OF this along_drop, of h] show ?thesis by (simp add: emit_def)
qed

lemma along_begin: "along {#h#} fl (fst (begin_streaming hs h chunks prefetch fl))"
proof (cases "chunks = []")
  case True
  then show ?thesis using along_ended [of "[SendHeaders hs True]"] by (simp add: begin_streaming_def)
next
  case False
  show ?thesis
    using False along_start [of "\<lparr>sm_handle = h, sm_chunks = chunks,
      sm_ready = seed_prefetch chunks prefetch (seed_inline 0 chunks []), sm_next_send = 0, sm_issue_cursor = 0,
      sm_inflight = 0, sm_watermark_depth = 0\<rparr>" fl hs]
    by (simp add: begin_streaming_def Let_def)
qed

lemma along_plan: "execute_plan plan h prefetch fl = Some (fl', e) \<Longrightarrow> along {#h#} fl fl'"
proof (cases "plan_body plan = EmptyBody")
  case True
  moreover assume "execute_plan plan h prefetch fl = Some (fl', e)"
  ultimately show ?thesis
    using along_ended [of "[SendHeaders (('':status'', to_radix 10 (plan_status plan)) # plan_headers plan) True]" h fl]
    by (simp add: execute_plan_def)
next
  case False
  assume "execute_plan plan h prefetch fl = Some (fl', e)"
  with False obtain hs chunks pf where "begin_streaming hs h chunks pf fl = (fl', e)"
    by (auto simp: execute_plan_def Let_def bind_eq_Some_conv)
  then show ?thesis using along_begin [of h fl hs chunks pf] by simp
qed

lemma along_dir_opened:
  "st_is_dir stat \<Longrightarrow> handle_opened cr h stat ctx prefetch fl = Some (fl', e) \<Longrightarrow>
     \<exists>fl1. along {#} fl fl1 \<and> fl' = emit [DropFile h] fl1"
  by (auto simp: handle_opened_def bind_eq_Some_conv split: if_splits dest: along_advance along_directory)

lemma along_opened: "handle_opened cr h stat ctx prefetch fl = Some (fl', e) \<Longrightarrow> along {#h#} fl fl'"
proof (cases "st_is_dir stat")
  case True
  moreover assume "handle_opened cr h stat ctx prefetch fl = Some (fl', e)"
  ultimately show ?thesis using along_dir_opened along_trans0 along_drop by blast
next
  case False
  moreover assume "handle_opened cr h stat ctx prefetch fl = Some (fl', e)"
  ultimately show ?thesis
    by (auto simp: handle_opened_def serve_file_def bind_eq_Some_conv split: option.splits dest: along_plan)
qed

lemma along_read: "along {#} fl (fst (handle_read seq res fl))"
proof (cases "fl_phase fl")
  case (Streaming s)
  let ?fl = "\<lambda>s. fl\<lparr>fl_phase := Streaming s\<rparr>"
  have p: "along {#} fl (?fl s')" if "sm_handle s' = sm_handle s" for s'
    using Streaming that by (intro along_phase) simp
  have "along {#} (?fl s') (emit [SendData [] True] (set_phase Done (emit [LogReadError seq err] (?fl s'))))" for s' err
    by (rule along_trans0 [OF along_emit along_emit_phase]) simp_all
  from along_trans0 [OF p this] show ?thesis
    using Streaming p by (auto simp: handle_read_def Let_def split: sum.split)
qed (simp_all add: handle_read_def along_refl)

lemma along_event: "handle_event cr ev fl = Some (fl', e) \<Longrightarrow> along (event_handle ev) fl fl'"
  using along_read [of fl]
  by (cases ev) (auto simp: handle_event_def dest: along_opened along_open_error along_dir, metis fst_conv)

lemma along_dropped_events: "along (event_handles evs) fl (emit (concat (map dropped_with_event evs)) fl)"
proof (induction evs arbitrary: fl)
  case Nil
  then show ?case using along_emit [of "[]"] by simp
next
  case (Cons ev evs)
  have "along (event_handle ev) fl (emit (dropped_with_event ev) fl)"
    using along_drop along_emit [of "[]"] by (cases ev) auto
  from along_trans [OF this Cons.IH] show ?case by (simp add: emit_def)
qed

lemma along_events: "handle_events cr evs fl = Some (fl', e) \<Longrightarrow> along (event_handles evs) fl fl'"
proof (induction evs arbitrary: fl)
  case (Cons ev evs)
  then obtain fl1 e1 where ev: "handle_event cr ev fl = Some (fl1, e1)" by (auto split: option.splits)
  show ?case
    using Cons ev along_trans [OF along_event [OF ev]] along_dropped_events by (cases e1) auto
qed (simp add: along_refl)

lemma along_watermark: "along {#} fl (on_watermark w fl)"
proof -
  have emit: "along {#} fl (emit [Commit] (fl\<lparr>fl_phase := p\<rparr>))" if "held p = held (fl_phase fl)" for p
    by (rule along_trans0 [OF along_phase along_emit]) (use that in simp_all)
  show ?thesis
    by (cases "fl_phase fl")
       (auto simp: on_watermark_def on_above_high_watermark_def on_below_low_watermark_def Let_def along_refl
         split: watermark.split intro!: emit along_phase)
qed

lemma along_send_data: "along {#} fl (send_data react bs fl)"
proof -
  have "along {#} fl (fold on_watermark ws fl)" for ws fl
    by (induction ws arbitrary: fl) (auto intro: along_trans0 along_watermark along_refl)
  from along_trans0 [OF along_emit this] show ?thesis by (simp add: send_data_def Let_def)
qed

lemma along_flush: "along {#} fl (case flush_loop react fl of Returned fl' \<Rightarrow> fl' | Broke fl' \<Rightarrow> fl')"
proof (induction react fl rule: flush_loop.induct)
  case (1 react fl)
  show ?case
  proof (cases "fl_phase fl")
    case (Streaming s)
    show ?thesis
    proof (cases "sm_watermark_depth s = 0 \<and> map_of (sm_ready s) (sm_next_send s) \<noteq> None")
      case True
      then obtain bs where some: "map_of (sm_ready s) (sm_next_send s) = Some bs" by auto
      let ?fl = "fl\<lparr>fl_phase := Streaming (s\<lparr>sm_ready := AList.delete (sm_next_send s) (sm_ready s),
          sm_next_send := sm_next_send s + 1\<rparr>)\<rparr>"
      have same: "along {#} fl ?fl" using Streaming by (intro along_phase) simp
      show ?thesis
      proof (cases "sm_next_send s = usize_sub (length (sm_chunks s)) 1")
        case last: True
        have "along {#} fl (emit [SendData bs True] (set_phase Done ?fl))"
          by (rule along_trans0 [OF same along_emit_phase]) simp_all
        then show ?thesis using True some Streaming last by (simp add: flush_loop.simps [of react fl] Let_def)
      next
        case False
        have "along {#} fl (send_data react bs ?fl)" by (rule along_trans0 [OF same along_send_data])
        then show ?thesis
          using "1.IH" [OF Streaming _ refl some refl refl False] True some Streaming False
          by (subst flush_loop.simps) (auto simp: Let_def intro: along_trans0)
      qed
    qed (use Streaming in \<open>auto simp: flush_loop.simps [of react fl] along_refl\<close>)
  qed (simp_all add: flush_loop.simps [of react fl] along_refl)
qed

lemma along_headers: "on_request_headers cr kvs fl = Some fl' \<Longrightarrow> along {#} fl fl'"
  unfolding on_request_headers_def Let_def
  by (auto simp: along_respond split: if_splits option.splits validated_path.splits
      intro!: along_emit_phase
      dest!: along_next_candidate intro: along_trans0 [OF along_request along_after_phase])

end

section \<open>Handlers only append, and neither read nor begin a body on their own\<close>

fun reads_file :: "action \<Rightarrow> bool" where
  "reads_file (ReadFile _ _ _ _) \<longleftrightarrow> True"
| "reads_file _ \<longleftrightarrow> False"

definition quiet :: "file_handle multiset \<Rightarrow> stream_filter \<Rightarrow> stream_filter \<Rightarrow> bool" where
  "quiet M fl fl' \<longleftrightarrow> fl_bridge fl' = fl_bridge fl \<and> held (fl_phase fl') \<subseteq># held (fl_phase fl) + M \<and>
     (\<exists>acts. fl_out fl' = fl_out fl @ acts \<and> \<not> list_ex reads_file acts \<and> (M = {#} \<longrightarrow> starts acts = 0))"

lemma plain_reads_nothing: "list_all plain_action acts \<Longrightarrow> \<not> list_ex reads_file acts \<and> starts acts = 0"
proof (induction acts)
  case (Cons a acts)
  then show ?case by (cases a) auto
qed simp

lemma dropped_with_reads_nothing [simp]: "\<not> list_ex reads_file (dropped_with p) \<and> starts (dropped_with p) = 0"
  by (cases p) auto

interpretation silent: handler_relation quiet
proof
  fix fl fl1 fl2 fl3 M N acts h p r k s hs
  show "quiet {#} fl fl" by (simp add: quiet_def)
  show "quiet M fl1 fl2 \<Longrightarrow> quiet N fl2 fl3 \<Longrightarrow> quiet (M + N) fl1 fl3"
    unfolding quiet_def
    by (fastforce simp: add.assoc [symmetric] intro: subset_mset.order_trans)
  show "list_all plain_action acts \<Longrightarrow> quiet {#} fl (emit acts fl)"
    using plain_reads_nothing by (simp add: quiet_def emit_def)
  show "quiet {#h#} fl (emit [DropFile h] fl)" by (simp add: quiet_def emit_def)
  show "quiet (held p) fl (set_phase p fl)" by (simp add: quiet_def set_phase_def emit_def)
  show "quiet {#sm_handle s#} fl (emit [SendHeaders hs False] (set_phase (Streaming s) fl))"
    by (simp add: quiet_def set_phase_def emit_def)
  show "held p = held (fl_phase fl) \<Longrightarrow> quiet {#} fl (fl\<lparr>fl_phase := p\<rparr>)" by (simp add: quiet_def)
  show "quiet {#} fl (fl\<lparr>fl_request := r, fl_waker := k\<rparr>)" by (simp add: quiet_def)
qed

end
