(* ===== verification/Stream_Handles.thy ===== *)
theory Stream_Handles
  imports Stream_Sample Handler_Frame
begin

text \<open>
  File handles: every handle the engine gives a stream is owned in exactly one place, the phase that
  streams from it or an event that waits in the mailbox, until it is dropped, once.
\<close>

section \<open>All handles of a filter\<close>

fun dropped_handle :: "action \<Rightarrow> file_handle multiset" where
  "dropped_handle (DropFile h) = {#h#}"
| "dropped_handle _ = {#}"

definition dropped_handles :: "action list \<Rightarrow> file_handle multiset" where
  "dropped_handles acts = sum_list (map dropped_handle acts)"

text \<open>All handles a filter has ever had: dropped, held, or in the mailbox.\<close>

definition handles :: "stream_filter \<Rightarrow> file_handle multiset" where
  "handles fl = dropped_handles (fl_out fl) + held (fl_phase fl) + event_handles (bridge_contents (fl_bridge fl))"

lemma handle_sums [simp]:
  "dropped_handles [] = {#}" "dropped_handles (a # acts) = dropped_handle a + dropped_handles acts"
  "dropped_handles (acts @ acts') = dropped_handles acts + dropped_handles acts'"
  by (simp_all add: dropped_handles_def)

lemma dropped_with_held [simp]: "dropped_handles (dropped_with p) = held p"
  by (cases p) simp_all

lemma dropped_with_event_handle [simp]: "dropped_handles (dropped_with_event e) = event_handle e"
  by (cases e) simp_all

lemma dropped_with_events [simp]: "dropped_handles (concat (map dropped_with_event evs)) = event_handles evs"
  by (induction evs) simp_all

section \<open>The handlers\<close>

lemma handles_emit [simp]: "handles (emit acts fl) = handles fl + dropped_handles acts"
  by (simp add: handles_def emit_def)

lemma handles_set_phase [simp]: "handles (set_phase p fl) = handles fl + held p"
  by (simp add: set_phase_def) (simp add: handles_def)

lemma handles_phase: "held p = held (fl_phase fl) \<Longrightarrow> handles (fl\<lparr>fl_phase := p\<rparr>) = handles fl"
  by (simp add: handles_def)

lemma dropped_plain: "list_all plain_action acts \<Longrightarrow> dropped_handles acts = {#}"
proof (induction acts)
  case (Cons a acts)
  then show ?case by (cases a) auto
qed simp

interpretation accounting: handler_relation "\<lambda>M fl fl'. handles fl' = handles fl + M"
  by unfold_locales (simp_all add: dropped_plain handles_phase add.assoc, simp add: handles_def)

lemma issue_loop_handle: "issue_loop m s reqs = (s', reqs') \<Longrightarrow> sm_handle s' = sm_handle s"
proof (induction m s reqs rule: issue_loop.induct)
  case (1 m s reqs)
  then show ?case by (subst (asm) (2) issue_loop.simps) (auto simp: Let_def split: if_splits chunk.splits)
qed

lemma handles_pump: "pump react fl = Some fl' \<Longrightarrow> handles fl' = handles fl"
proof -
  assume p: "pump react fl = Some fl'"
  have reads: "dropped_handles (map (\<lambda>(index, off, len, h). ReadFile h off len index) reqs) = {#}" for reqs
    by (induction reqs) auto
  show ?thesis
  proof (cases "flush_loop react fl")
    case (Returned fl1)
    then show ?thesis using p accounting.along_flush [where react = react and fl = fl] by (simp add: pump_def)
  next
    case (Broke fl1)
    have "handles fl' = handles fl1"
      using p Broke reads
      by (auto simp: pump_def handles_phase issue_loop_handle split: if_splits phase.splits prod.splits)
    then show ?thesis using Broke accounting.along_flush [where react = react and fl = fl] by simp
  qed
qed

lemma handles_bridge:
  "event_handles (bridge_contents b) = event_handles (bridge_contents (fl_bridge fl)) \<Longrightarrow>
     handles (fl\<lparr>fl_bridge := b\<rparr>) = handles fl"
  by (simp add: handles_def)

lemma process_contents: "bridge_process b = (b', evs) \<Longrightarrow> evs = bridge_contents b \<and> bridge_contents b' = []"
  by (cases b) auto

lemma handles_scheduled: "on_scheduled cr react fl = Some fl' \<Longrightarrow> handles fl' = handles fl"
proof -
  assume s: "on_scheduled cr react fl = Some fl'"
  obtain b evs where b: "bridge_process (fl_bridge fl) = (b, evs)" by fastforce
  obtain fl1 e where run: "handle_events cr evs (fl\<lparr>fl_bridge := b\<rparr>) = Some (fl1, e)"
    using s b by (auto simp: on_scheduled_def bind_eq_Some_conv)
  have "handles fl1 = handles (fl\<lparr>fl_bridge := b\<rparr>) + event_handles evs" by (rule accounting.along_events [OF run])
  also have "\<dots> = handles fl" using process_contents [OF b] by (simp add: handles_def ac_simps)
  finally have fl1: "handles fl1 = handles fl" .
  show ?thesis
    using s b run fl1 handles_pump [of react fl1] by (auto simp: on_scheduled_def split: if_splits phase.splits)
qed

lemma handles_deliver: "handles (deliver ev fl) = handles fl + event_handle ev"
proof (cases "bridge_send (fl_bridge fl) ev")
  case (Pair b r)
  show ?thesis
  proof (cases r)
    case (Inl ev')
    then have "b = fl_bridge fl \<and> ev' = ev" using Pair by (cases "fl_bridge fl") auto
    then show ?thesis using Pair Inl by (simp add: deliver_def)
  next
    case (Inr u)
    then have "bridge_contents b = bridge_contents (fl_bridge fl) @ [ev]" using Pair by (cases "fl_bridge fl") auto
    then show ?thesis using Pair Inr by (simp add: deliver_def) (simp add: handles_def)
  qed
qed

lemma handles_complete: "handles (on_stream_complete fl) = handles fl"
  by (simp add: on_stream_complete_def) (simp add: handles_def bridge_close_def ac_simps)

section \<open>Runs that remember what they were given\<close>

text \<open>The steps of Envoy, apart from the answers of the engine.\<close>

inductive callback :: "('h, 't) crates \<Rightarrow> sys \<Rightarrow> sys \<Rightarrow> bool" for cr where
  "sy_alive sy \<Longrightarrow> fl_phase (sy_filter sy) = Idle \<Longrightarrow>
     on_request_headers cr kvs (sy_filter sy) = Some fl \<Longrightarrow> callback cr sy (absorb fl sy)"
| "sy_alive sy \<Longrightarrow> sy_scheduled sy = Suc n \<Longrightarrow>
     on_scheduled cr react (sy_filter sy) = Some fl \<Longrightarrow> callback cr sy (absorb fl (sy\<lparr>sy_scheduled := n\<rparr>))"
| "sy_alive sy \<Longrightarrow> callback cr sy (absorb (on_watermark k (sy_filter sy)) sy)"
| "sy_alive sy \<Longrightarrow> callback cr sy ((absorb (on_stream_complete (sy_filter sy)) sy)\<lparr>sy_alive := False\<rparr>)"

inductive given_run :: "('h, 't) crates \<Rightarrow> config \<Rightarrow> sys \<Rightarrow> file_handle multiset \<Rightarrow> bool" for cr c where
  "given_run cr c (sys_init c) {#}"
| "given_run cr c sy given \<Longrightarrow> callback cr sy sy' \<Longrightarrow> given_run cr c sy' given"
| "given_run cr c sy given \<Longrightarrow> sy_pending sy = rs1 @ r # rs2 \<Longrightarrow>
     engine_answer (sy_content sy) r content' event \<Longrightarrow>
     given_run cr c (absorb (deliver event (sy_filter sy)) (sy\<lparr>sy_pending := rs1 @ rs2, sy_content := content'\<rparr>))
       (given + event_handle event)"

lemma absorb_filter [simp]: "sy_filter (absorb fl sy) = fl"
  by (simp add: absorb_def Let_def)

lemma callback_step: "callback cr sy sy' \<Longrightarrow> sys_step cr sy sy' \<and> handles (sy_filter sy') = handles (sy_filter sy)"
  by (induction rule: callback.induct)
     (auto simp: accounting.along_headers accounting.along_watermark [simplified] handles_scheduled handles_complete intro: sys_step.intros)

lemma reachable_given: "sys_reach cr c sy \<Longrightarrow> \<exists>given. given_run cr c sy given"
proof (induction rule: sys_reach.induct)
  case start
  then show ?case by (blast intro: given_run.intros)
next
  case (step sy sy')
  then obtain given where g: "given_run cr c sy given" by blast
  from step.hyps(2) show ?case
    by (cases rule: sys_step.cases) (use g in \<open>blast intro: given_run.intros callback.intros\<close>)+
qed

text \<open>
  C17: No file handle leaks and none is dropped twice: in every reachable state the handles the engine has
  given the stream are, with multiplicity, those dropped, the one the phase streams from, and those of
  opens that wait in the mailbox.
\<close>

theorem handles_accounted:
  assumes "given_run cr c sy given"
  shows "sys_reach cr c sy \<and>
    given = dropped_handles (fl_out (sy_filter sy)) + held (fl_phase (sy_filter sy)) +
      event_handles (bridge_contents (fl_bridge (sy_filter sy)))"
proof -
  have "sys_reach cr c sy \<and> given = handles (sy_filter sy)"
    using assms
  proof (induction rule: given_run.induct)
    case 1
    then show ?case by (simp add: sys_reach.start) (simp add: handles_def sys_init_def filter_new_def bridge_new_def)
  next
    case (2 sy given sy')
    then show ?case using callback_step sys_reach.step by metis
  next
    case (3 sy given rs1 r rs2 content' event)
    then show ?case
      using sys_reach.step [OF _ sys_step.answered [OF 3(2,3)]]
      by (auto simp: handles_deliver)
  qed
  then show ?thesis by (simp add: handles_def)
qed

theorem handles_accounted_witness:
  "given_run sample_cr sample_config sample_done {#7#}"
proof -
  obtain given where run: "given_run sample_cr sample_config sample_done given"
    using reachable_given [OF sample_reach_done] by blast
  have "given = {#7#}"
    using handles_accounted [OF run]
    by (simp add: sample_done_def sys_init_def sample_filter_def sample_trace_def sample_open_def)
  then show ?thesis using run by simp
qed

end
