(* ===== verification/Server_System.thy ===== *)
theory Server_System
  imports Stream_Handles Filter_Confinement
begin

text \<open>
  The whole server: the streams that Envoy's workers drive and the one I/O engine they share. A callback of a
  stream (\<open>Stream_Filter\<close>) leaves what it asks of the engine in the stream's outbox; the worker hands it
  over one call at a time (\<^verbatim>\<open>engine.open_stat\<close>, \<^verbatim>\<open>read\<close>, \<^verbatim>\<open>read_dir\<close> and the drop of a handle), so
  the submissions of different streams interleave freely on the engine's channel. The reactor turns commands
  into tasks, tasks finish in any order, and a completion goes through its callback, which owns the
  waker of its stream, into that stream's mailbox on the engine's own thread. A callback is the number of
  its stream with the request it answers. After \<^verbatim>\<open>on_stream_complete\<close> Envoy destroys the filter, which drops
  its file handle: this is a step of its own, at any later time.

  The operating system is one record \<open>os\<close> for a whole run: files are not created, replaced, truncated or removed while
  it lasts, and what \<open>os_pread\<close> answers may depend on the attempt but not on the history.
\<close>

section \<open>The state\<close>

record slot =
  sl_filter :: stream_filter
  sl_scheduled :: nat
  sl_alive :: bool
  sl_outbox :: "action list"
  sl_destroyed :: bool

type_synonym tag = "nat \<times> request"

record 'f server =
  sv_engine :: "('f, tag) engine"
  sv_slots :: "slot list"

definition slot_new :: "config \<Rightarrow> slot" where
  "slot_new c = \<lparr>sl_filter = filter_new c, sl_scheduled = 0, sl_alive = True, sl_outbox = [],
     sl_destroyed = False\<rparr>"

definition server_init :: "'f server" where
  "server_init = \<lparr>sv_engine = engine_new, sv_slots = []\<rparr>"

section \<open>The steps\<close>

text \<open>A worker's call into the engine. What is said to Envoy does not reach the engine.\<close>

fun perform :: "nat \<Rightarrow> action \<Rightarrow> ('f, tag) engine \<Rightarrow> ('f, tag) engine" where
  "perform i (OpenFile req ctx) eng = engine_open_stat req (i, ROpen req ctx) eng"
| "perform i (ReadFile h off len seq) eng = engine_read h off len (i, RRead h off len seq) eng"
| "perform i (ReadDirectory p) eng = engine_read_dir p (i, RDir p) eng"
| "perform i (DropFile h) eng = drop_handle h eng"
| "perform i _ eng = eng"

text \<open>The event a callback makes of its completion.\<close>

fun completed :: "request \<Rightarrow> completion \<Rightarrow> io_event option" where
  "completed (ROpen req ctx) (OpenDone result) = Some (open_event ctx result)"
| "completed (RRead h off len seq) (ReadDone result) = Some (ReadEvent seq result)"
| "completed (RDir p) (ReadDirDone result) = Some (DirEvent result)"
| "completed _ _ = None"

definition new_actions :: "stream_filter \<Rightarrow> stream_filter \<Rightarrow> action list" where
  "new_actions fl fl' = drop (length (fl_out fl)) (fl_out fl')"

definition moved :: "stream_filter \<Rightarrow> slot \<Rightarrow> slot" where
  "moved fl sl =
     (let acts = new_actions (sl_filter sl) fl in
      sl\<lparr>sl_filter := fl, sl_scheduled := sl_scheduled sl + commits_of acts, sl_outbox := sl_outbox sl @ acts\<rparr>)"

text \<open>The callbacks of Envoy on one stream. The previous one has run to its end.\<close>

inductive slot_step :: "('h, 't) crates \<Rightarrow> slot \<Rightarrow> slot \<Rightarrow> bool" for cr where
  headers: "sl_alive sl \<Longrightarrow> sl_outbox sl = [] \<Longrightarrow> fl_phase (sl_filter sl) = Idle \<Longrightarrow>
    on_request_headers cr kvs (sl_filter sl) = Some fl \<Longrightarrow> slot_step cr sl (moved fl sl)"
| scheduled: "sl_alive sl \<Longrightarrow> sl_outbox sl = [] \<Longrightarrow> sl_scheduled sl = Suc n \<Longrightarrow>
    on_scheduled cr react (sl_filter sl) = Some fl \<Longrightarrow> slot_step cr sl (moved fl (sl\<lparr>sl_scheduled := n\<rparr>))"
| watermark: "sl_alive sl \<Longrightarrow> sl_outbox sl = [] \<Longrightarrow> slot_step cr sl (moved (on_watermark k (sl_filter sl)) sl)"
| complete: "sl_alive sl \<Longrightarrow> sl_outbox sl = [] \<Longrightarrow>
    slot_step cr sl ((moved (on_stream_complete (sl_filter sl)) sl)\<lparr>sl_alive := False\<rparr>)"

text \<open>
  Envoy destroys a filter after the end of its stream: its fields are dropped, and with the phase the file
  handle it streams from, whose close the worker hands over as it does every drop. Completions that come
  later find the mailbox, which their callbacks share, closed.
\<close>

definition filter_drop :: "stream_filter \<Rightarrow> action list" where
  "filter_drop fl = dropped_with (fl_phase fl)"

definition destroyed :: "slot \<Rightarrow> slot" where
  "destroyed sl = sl\<lparr>sl_outbox := filter_drop (sl_filter sl), sl_destroyed := True\<rparr>"

text \<open>A completion reaches a stream: what the delivery does is done at once, on the engine's thread.\<close>

definition delivered :: "io_event \<Rightarrow> slot \<Rightarrow> slot" where
  "delivered ev sl = (let fl = deliver ev (sl_filter sl) in
     sl\<lparr>sl_filter := fl, sl_scheduled := sl_scheduled sl + commits_of (new_actions (sl_filter sl) fl)\<rparr>)"

definition delivery_actions :: "io_event \<Rightarrow> slot \<Rightarrow> action list" where
  "delivery_actions ev sl = new_actions (sl_filter sl) (deliver ev (sl_filter sl))"

inductive server_step :: "'f os_calls \<Rightarrow> ('h, 't) crates \<Rightarrow> 'f server \<Rightarrow> 'f server \<Rightarrow> bool" for os cr where
  connect: "config_ok c \<Longrightarrow> server_step os cr sv (sv\<lparr>sv_slots := sv_slots sv @ [slot_new c]\<rparr>)"
| callback: "i < length (sv_slots sv) \<Longrightarrow> slot_step cr (sv_slots sv ! i) sl \<Longrightarrow>
    server_step os cr sv (sv\<lparr>sv_slots := (sv_slots sv)[i := sl]\<rparr>)"
| destroy: "i < length (sv_slots sv) \<Longrightarrow> \<not> sl_alive (sv_slots sv ! i) \<Longrightarrow> \<not> sl_destroyed (sv_slots sv ! i) \<Longrightarrow>
    sl_outbox (sv_slots sv ! i) = [] \<Longrightarrow>
    server_step os cr sv (sv\<lparr>sv_slots := (sv_slots sv)[i := destroyed (sv_slots sv ! i)]\<rparr>)"
| submit: "i < length (sv_slots sv) \<Longrightarrow> sl_outbox (sv_slots sv ! i) = a # rest \<Longrightarrow>
    server_step os cr sv (sv\<lparr>sv_engine := perform i a (sv_engine sv),
      sv_slots := (sv_slots sv)[i := (sv_slots sv ! i)\<lparr>sl_outbox := rest\<rparr>]\<rparr>)"
| react: "server_step os cr sv (sv\<lparr>sv_engine := run_reactor (sv_engine sv)\<rparr>)"
| finish: "run_task os j (sv_engine sv) = (eng, [((i, r), result)]) \<Longrightarrow> i < length (sv_slots sv) \<Longrightarrow>
    completed r result = Some ev \<Longrightarrow>
    server_step os cr sv (sv\<lparr>sv_engine := fold (perform i) (delivery_actions ev (sv_slots sv ! i)) eng,
      sv_slots := (sv_slots sv)[i := delivered ev (sv_slots sv ! i)]\<rparr>)"
| shutdown: "server_step os cr sv (sv\<lparr>sv_engine := engine_shutdown (sv_engine sv)\<rparr>)"

text \<open>The states after \<open>n\<close> steps. Ids of opens are distinct as long as fewer than 2^64 steps have been made.\<close>

inductive server_run :: "'f os_calls \<Rightarrow> ('h, 't) crates \<Rightarrow> nat \<Rightarrow> 'f server \<Rightarrow> bool" for os cr where
  begins: "server_run os cr 0 server_init"
| goes_on: "server_run os cr n sv \<Longrightarrow> server_step os cr sv sv' \<Longrightarrow> server_run os cr (Suc n) sv'"

section \<open>One slot\<close>

text \<open>A slot as the system of one stream, given the file it serves and the requests that are out.\<close>

definition view :: "bytes \<Rightarrow> request list \<Rightarrow> slot \<Rightarrow> sys" where
  "view content pending sl = \<lparr>sy_filter = sl_filter sl, sy_content = content, sy_pending = pending,
     sy_scheduled = sl_scheduled sl, sy_alive = sl_alive sl\<rparr>"

lemma view_simps [simp]:
  "sy_filter (view content pending sl) = sl_filter sl" "sy_content (view content pending sl) = content"
  "sy_pending (view content pending sl) = pending" "sy_scheduled (view content pending sl) = sl_scheduled sl"
  "sy_alive (view content pending sl) = sl_alive sl"
  by (simp_all add: view_def)

lemma view_outbox [simp]: "view content pending (sl\<lparr>sl_outbox := acts\<rparr>) = view content pending sl"
  by (simp add: view_def)

lemma filter_drop_requests [simp]: "requests_of (filter_drop fl) = []"
  unfolding filter_drop_def by (cases "fl_phase fl") simp_all

lemma destroyed_simps [simp]:
  "sl_filter (destroyed sl) = sl_filter sl" "sl_scheduled (destroyed sl) = sl_scheduled sl"
  "sl_alive (destroyed sl) = sl_alive sl" "sl_outbox (destroyed sl) = filter_drop (sl_filter sl)"
  "sl_destroyed (destroyed sl)" "view content pending (destroyed sl) = view content pending sl"
  by (simp_all add: destroyed_def view_def)

lemma view_moved: "view content (pending @ requests_of (new_actions (sl_filter sl) fl)) (moved fl sl) =
    absorb fl (view content pending sl)"
  by (simp add: view_def moved_def absorb_def new_actions_def Let_def)

text \<open>A callback of a slot is one of the stream, and what it asks for is in the outbox.\<close>

lemma slot_step_callback:
  "slot_step cr sl sl' \<Longrightarrow> sl_outbox sl = [] \<and> callback cr (view content pending sl)
     (view content (pending @ requests_of (sl_outbox sl')) sl')"
proof (induction rule: slot_step.induct)
  case (headers sl kvs fl)
  then have "callback cr (view content pending sl) (absorb fl (view content pending sl))"
    by (intro callback.intros(1)) simp_all
  then show ?case using headers(2) by (simp add: view_moved [symmetric]) (simp add: moved_def Let_def)
next
  case (scheduled sl n react fl)
  have "callback cr (view content pending sl) (absorb fl ((view content pending sl)\<lparr>sy_scheduled := n\<rparr>))"
    by (rule callback.intros(2)) (use scheduled in simp_all)
  moreover have "(view content pending sl)\<lparr>sy_scheduled := n\<rparr> = view content pending (sl\<lparr>sl_scheduled := n\<rparr>)"
    by (simp add: view_def)
  ultimately show ?case using scheduled(2) by (simp add: view_moved [symmetric]) (simp add: moved_def Let_def)
next
  case (watermark sl k)
  have "callback cr (view content pending sl) (absorb (on_watermark k (sl_filter sl)) (view content pending sl))"
    using callback.intros(3) [of "view content pending sl" cr k] watermark(1) by simp
  then show ?case using watermark(2) by (simp add: view_moved [symmetric]) (simp add: moved_def Let_def)
next
  case (complete sl)
  have "callback cr (view content pending sl)
      ((absorb (on_stream_complete (sl_filter sl)) (view content pending sl))\<lparr>sy_alive := False\<rparr>)"
    using callback.intros(4) [of "view content pending sl" cr] complete(1) by simp
  then show ?case using complete(2)
    by (simp add: view_moved [symmetric]) (simp add: moved_def Let_def view_def)
qed

lemma slot_step_reach:
  assumes "slot_step cr sl sl'" and "sys_reach cr c (view content pending sl)"
  shows "sys_reach cr c (view content (pending @ requests_of (sl_outbox sl')) sl')"
  using slot_step_callback [OF assms(1)] callback_step sys_reach.step [OF assms(2)] by blast

text \<open>A delivery is an answer of the environment; it asks for nothing.\<close>

lemma delivery_neutral: "list_all neutral_action (delivery_actions ev sl)"
  using deliver_frame [of ev "sl_filter sl"] by (auto simp: delivery_actions_def new_actions_def)

lemma view_delivered:
  "view content' (rs1 @ rs2) (delivered ev sl) =
     absorb (deliver ev (sl_filter sl)) ((view content (rs1 @ r # rs2) sl)\<lparr>sy_pending := rs1 @ rs2, sy_content := content'\<rparr>)"
proof -
  have "requests_of (delivery_actions ev sl) = []"
    by (rule action_kinds(2) [OF delivery_neutral, THEN conjunct2, THEN conjunct2, THEN conjunct2, THEN conjunct2])
  then show ?thesis
    by (simp add: absorb_def view_def delivered_def delivery_actions_def new_actions_def Let_def)
qed

lemma delivered_reach:
  assumes "sys_reach cr c (view content (rs1 @ r # rs2) sl)" and "engine_answer content r content' ev"
  shows "sys_reach cr c (view content' (rs1 @ rs2) (delivered ev sl))"
  using sys_step.answered [of "view content (rs1 @ r # rs2) sl" rs1 r rs2 content' ev cr] assms
  unfolding view_delivered [of content' rs1 rs2 ev sl content r] by (auto intro: sys_reach.step)

end
