(* ===== verification/Server_Engine.thy ===== *)
theory Server_Engine
  imports Server_System
begin

text \<open>
  The shared engine: its commands and tasks match the requests they were submitted for, ids of opens are
  fresh, and what it answers is what the environment of a stream may answer (\<open>engine_answer\<close>).
\<close>

section \<open>The invariant of the engine\<close>

fun command_id :: "'k command \<Rightarrow> u64 list" where
  "command_id (OpenCommand h request k) = [h]"
| "command_id _ = []"

fun task_id :: "('f, 'k) task \<Rightarrow> u64 list" where
  "task_id (OpenTask h request k) = [h]"
| "task_id _ = []"

definition open_ids :: "('f, 'k) engine \<Rightarrow> u64 list" where
  "open_ids eng = concat (map command_id (eng_commands eng)) @ concat (map task_id (eng_tasks eng))"

text \<open>A command and its callback belong together, and to one of the \<open>m\<close> streams.\<close>

fun command_ok :: "nat \<Rightarrow> tag command \<Rightarrow> bool" where
  "command_ok m (OpenCommand h request k) \<longleftrightarrow> fst k < m \<and> (\<exists>ctx. snd k = ROpen request ctx)"
| "command_ok m (ReadCommand h off len k) \<longleftrightarrow> fst k < m \<and> (\<exists>seq. snd k = RRead h off len seq)"
| "command_ok m (ReadDirCommand p k) \<longleftrightarrow> fst k < m \<and> snd k = RDir p"
| "command_ok m (CloseCommand h) \<longleftrightarrow> h \<noteq> 0"
| "command_ok m ShutdownCommand \<longleftrightarrow> True"

fun task_ok :: "nat \<Rightarrow> ('f, tag) task \<Rightarrow> bool" where
  "task_ok m (OpenTask h request k) \<longleftrightarrow> fst k < m \<and> (\<exists>ctx. snd k = ROpen request ctx)"
| "task_ok m (ReadTask file off len k) \<longleftrightarrow> fst k < m \<and> (\<exists>h seq. snd k = RRead h off len seq)"
| "task_ok m (ReadDirTask p k) \<longleftrightarrow> fst k < m \<and> snd k = RDir p"

definition engine_ok :: "nat \<Rightarrow> nat \<Rightarrow> ('f, tag) engine \<Rightarrow> bool" where
  "engine_ok n m eng \<longleftrightarrow> 0 < unat (eng_next_id eng) \<and> unat (eng_next_id eng) \<le> n + 1 \<and>
     list_all (command_ok m) (eng_commands eng) \<and> list_all (task_ok m) (eng_tasks eng) \<and>
     distinct (open_ids eng) \<and>
     (\<forall>h. h \<in> set (open_ids eng) \<or> map_of (eng_files eng) h \<noteq> None \<longrightarrow>
        h \<noteq> 0 \<and> unat h < unat (eng_next_id eng))"

lemma command_ok_mono: "command_ok m c \<Longrightarrow> m \<le> m' \<Longrightarrow> command_ok m' c"
  by (cases c) auto

lemma task_ok_mono: "task_ok m t \<Longrightarrow> m \<le> m' \<Longrightarrow> task_ok m' t"
  by (cases t) auto

lemma engine_ok_mono: "engine_ok n m eng \<Longrightarrow> n \<le> n' \<Longrightarrow> m \<le> m' \<Longrightarrow> engine_ok n' m' eng"
  using command_ok_mono task_ok_mono by (fastforce simp: engine_ok_def list_all_iff)

lemma engine_ok_new: "engine_ok 0 m engine_new"
  by (simp add: engine_ok_def engine_new_def open_ids_def)

lemma engine_ok_send:
  "engine_ok n m eng \<Longrightarrow> command_ok m c \<Longrightarrow> command_id c = [] \<Longrightarrow> engine_ok n m (try_send c eng)"
  by (auto simp: engine_ok_def try_send_def open_ids_def)

lemma engine_ok_open:
  assumes "engine_ok n m eng" and "i < m" and "n + 2 < 2 ^ 64"
  shows "engine_ok (Suc n) m (engine_open_stat req (i, ROpen req ctx) eng)"
proof -
  let ?h = "eng_next_id eng"
  have after: "unat (?h + 1) = unat ?h + 1"
    using assms(1,3) unat_plus_u64 [of ?h 1] by (simp add: engine_ok_def)
  have old: "h \<noteq> ?h \<and> unat h < unat ?h + 1" if "h \<in> set (open_ids eng) \<or> map_of (eng_files eng) h \<noteq> None" for h
  proof -
    have "unat h < unat ?h" using assms(1) that unfolding engine_ok_def by blast
    then show ?thesis by auto
  qed
  have "?h \<noteq> 0" using assms(1) by (auto simp: engine_ok_def)
  with assms(1,2) after old show ?thesis
    by (auto simp: engine_ok_def engine_open_stat_def try_send_def open_ids_def)
qed

lemma engine_ok_perform:
  "engine_ok n m eng \<Longrightarrow> i < m \<Longrightarrow> n + 2 < 2 ^ 64 \<Longrightarrow> engine_ok (Suc n) m (perform i a eng)"
  using engine_ok_mono [of n m eng "Suc n" m]
  by (cases a) (auto simp: engine_read_def engine_read_dir_def drop_handle_def intro: engine_ok_open engine_ok_send)

lemma engine_ok_neutral:
  "engine_ok n m eng \<Longrightarrow> list_all neutral_action acts \<Longrightarrow> engine_ok n m (fold (perform i) acts eng)"
proof (induction acts arbitrary: eng)
  case (Cons a acts)
  then show ?case using engine_ok_send [of n m eng] by (cases a) (auto simp: drop_handle_def)
qed simp

lemma engine_ok_react: "engine_ok n m eng \<Longrightarrow> engine_ok n m (run_reactor eng)"
proof (cases "eng_running eng \<and> eng_commands eng \<noteq> []")
  case True
  then obtain c rest where c: "eng_commands eng = c # rest" by (cases "eng_commands eng") auto
  assume ok: "engine_ok n m eng"
  show ?thesis
  proof (cases c)
    case (OpenCommand h request k)
    then have "mset (open_ids (run_reactor eng)) = mset (open_ids eng)"
      using True c by (simp add: run_reactor_def open_ids_def)
    then have "set (open_ids (run_reactor eng)) = set (open_ids eng)" "distinct (open_ids (run_reactor eng)) = distinct (open_ids eng)"
      by (metis set_mset_mset, metis mset_eq_imp_distinct_iff)
    then show ?thesis using ok True c OpenCommand by (simp add: engine_ok_def) (simp add: run_reactor_def)
  next
    case (CloseCommand h)
    then show ?thesis
      using ok True c by (auto simp: engine_ok_def run_reactor_def open_ids_def map_of_delete)
  qed (use ok True c in \<open>auto simp: engine_ok_def run_reactor_def open_ids_def\<close>)
qed (auto simp: run_reactor_def split: list.split)

text \<open>The ids and files after a task has run.\<close>

lemma open_stat_files:
  assumes "open_stat os hid request files cache = (res, files', cache')"
  shows "files' = files \<and> (\<forall>h stat pf. res = Inr (h, stat, pf) \<longrightarrow> h = 0 \<and> \<not> st_is_dir stat) \<or>
    (\<exists>fl sl stat pf. open_final os request = Inr (fl, sl) \<and> res = Inr (hid, stat, pf) \<and> files' = AList.update hid fl files)"
  using assms by (auto simp: open_stat_def Let_def split: sum.splits prod.splits if_splits)

lemma task_ids:
  assumes "j < length ts"
  shows "mset (concat (map task_id ts)) =
    mset (task_id (ts ! j)) + mset (concat (map task_id (take j ts @ drop (Suc j) ts)))"
proof -
  have "concat (map task_id ts) = concat (map task_id (take j ts @ (ts ! j) # drop (Suc j) ts))"
    using assms by (simp add: id_take_nth_drop [symmetric])
  then show ?thesis by (simp add: ac_simps)
qed

lemma engine_ok_task:
  assumes "engine_ok n m eng" and "run_task os j eng = (eng', out)"
  shows "engine_ok n m eng'"
proof (cases "j < length (eng_tasks eng)")
  case False
  then show ?thesis using assms by (simp add: run_task_def)
next
  case True
  let ?t = "eng_tasks eng ! j" and ?ts = "take j (eng_tasks eng) @ drop (Suc j) (eng_tasks eng)"
  define ids where "ids = concat (map command_id (eng_commands eng)) @ concat (map task_id ?ts)"
  have split: "mset (open_ids eng) = mset (task_id ?t) + mset ids"
    using task_ids [OF True] by (simp add: open_ids_def ids_def)
  then have sub: "set ids \<subseteq> set (open_ids eng)" and dist: "distinct ids"
    using assms(1) by (metis mset_subset_eq_add_right set_mset_mono set_mset_mset,
        metis assms(1) engine_ok_def distinct_append mset_append mset_eq_imp_distinct_iff)
  have ts: "set ?ts \<subseteq> set (eng_tasks eng)" by (auto dest: in_set_takeD in_set_dropD)
  have same: "eng_commands eng' = eng_commands eng" "eng_tasks eng' = ?ts" "eng_next_id eng' = eng_next_id eng"
    using assms(2) True by (cases ?t; auto simp: run_task_def Let_def split: prod.splits)+
  have ids: "open_ids eng' = ids" by (simp add: open_ids_def same ids_def)
  have "h \<in> set (task_id ?t)" if "map_of (eng_files eng') h \<noteq> None" "map_of (eng_files eng) h = None" for h
    using that
  proof (cases ?t)
    case (OpenTask hid req k)
    obtain res files cache where o: "open_stat os hid req (eng_files eng) (eng_cache eng) = (res, files, cache)"
      by (metis prod.collapse)
    then have "eng_files eng' = files" using assms(2) True OpenTask by (auto simp: run_task_def Let_def)
    with open_stat_files [OF o] OpenTask show ?thesis using that by (auto simp: map_of_update split: if_splits)
  qed (use assms(2) True in \<open>auto simp: run_task_def Let_def\<close>)
  moreover have "set (task_id ?t) \<subseteq> set (open_ids eng)"
    using split by (metis mset_subset_eq_add_left set_mset_mono set_mset_mset)
  ultimately show ?thesis
    using assms(1) sub dist ts unfolding engine_ok_def list_all_iff ids same by blast
qed

text \<open>The cache of canonical parents stays right.\<close>

lemma open_stat_cache: "cache_ok os cache \<Longrightarrow> open_stat os hid req files cache = (res, files', cache') \<Longrightarrow> cache_ok os cache'"
  using canon.canon_valid [of os cache "or_path req"]
  by (auto simp: open_stat_def check_containment_def Let_def case_prod_unfold split: sum.splits prod.splits if_splits option.splits)

lemma cache_ok_task: "cache_ok os (eng_cache eng) \<Longrightarrow> cache_ok os (eng_cache (fst (run_task os j eng)))"
  by (cases "eng_tasks eng ! j")
     (auto simp: run_task_def Let_def dest: open_stat_cache split: prod.split)

lemma cache_ok_react: "cache_ok os (eng_cache eng) \<Longrightarrow> cache_ok os (eng_cache (run_reactor eng))"
  by (auto simp: run_reactor_def Let_def cache_ok_Nil split: list.split command.split)

lemma cache_perform: "eng_cache (perform i a eng) = eng_cache eng"
  by (cases a) (simp_all add: engine_open_stat_def engine_read_def engine_read_dir_def drop_handle_def try_send_def)

lemma cache_performs: "eng_cache (fold (perform i) acts eng) = eng_cache eng"
  by (induction acts arbitrary: eng) (simp_all add: cache_perform)

section \<open>Answers\<close>

text \<open>
  The files of the operating system: every open file has a content, which its reads give pieces of and its
  metadata has the length of.
\<close>

definition stable_files :: "'f os_calls \<Rightarrow> ('f \<Rightarrow> bytes) \<Rightarrow> bool" where
  "stable_files os content_of \<longleftrightarrow>
     (\<forall>fl. reads_content (os_pread os fl) (content_of fl) \<and> length (content_of fl) < 2 ^ 64 \<and>
        (\<forall>md. os_metadata_of os fl = Inr md \<longrightarrow> \<not> md_is_dir md \<longrightarrow> md_len md = of_nat (length (content_of fl))))"

lemma open_answered:
  assumes "stable_files os content_of" and "hid \<noteq> 0"
    and res: "open_stat os hid req files cache = (res, files', cache')"
  shows "\<exists>content'. engine_answer content (ROpen req ctx) content' (open_event ctx res) \<and>
    ((\<exists>h stat pf fl b. res = Inr (h, stat, pf) \<and> \<not> st_is_dir stat \<and> open_final os req = Inr (fl, b) \<and> content_of fl = content') \<or>
     (\<forall>h stat pf. res = Inr (h, stat, pf) \<longrightarrow> st_is_dir stat) \<and> content' = content) \<and>
    (\<forall>h stat pf fl. res = Inr (h, stat, pf) \<longrightarrow> \<not> st_is_dir stat \<longrightarrow> h \<noteq> 0 \<longrightarrow> map_of files' h = Some fl \<longrightarrow>
      content_of fl = content')"
proof (cases res)
  case (Inl err)
  then show ?thesis using open_fails [of content req ctx err] by blast
next
  case (Inr r)
  then obtain h stat pf where r: "res = Inr (h, stat, pf)" by (cases r) auto
  then obtain fl sl md where o: "open_final os req = Inr (fl, sl)" "os_metadata_of os fl = Inr md"
      "stat = stat_from_metadata md"
    using res by (auto simp: open_stat_def Let_def split: sum.splits prod.splits if_splits)
  have st: "st_is_dir stat = md_is_dir md" "st_size stat = md_len md"
    by (simp_all add: o(3) stat_from_metadata_def case_prod_unfold Let_def)
  show ?thesis
  proof (cases "st_is_dir stat")
    case True
    then have "pf = []" using res r o by (auto simp: open_stat_def Let_def split: sum.splits prod.splits if_splits)
    then show ?thesis using open_directory [OF True, of content req ctx h] r True by auto
  next
    case False
    have fl: "reads_content (os_pread os fl) (content_of fl)" "length (content_of fl) < 2 ^ 64"
        "st_size stat = of_nat (length (content_of fl))"
      using assms(1) o(2) st False unfolding stable_files_def by auto
    have h: "(h \<noteq> 0 \<longrightarrow> h = hid \<and> map_of files' h = Some fl) \<and>
        (pf = [] \<or> pf = take (or_prefetch_len req) (content_of fl) \<and> \<not> st_is_dir stat)"
      using opened_handle [OF res [unfolded r] o(1) assms(2) fl] by blast
    have "engine_answer content (ROpen req ctx) (content_of fl) (open_event ctx (Inr (h, stat, pf)))"
      by (rule open_file [OF False fl(3,2)]) (use h in blast)
    then show ?thesis using h r False o(1) by auto
  qed
qed

lemma read_answered:
  assumes "stable_files os content_of" and "\<And>fl. file = Some fl \<Longrightarrow> content_of fl = content" and "unat off + len < 2 ^ 64"
  shows "engine_answer content (RRead h off len seq) content (ReadEvent seq (read_at os file off len))"
proof (cases "read_at os file off len")
  case (Inl err)
  then show ?thesis by (simp add: read_fails)
next
  case (Inr bs)
  then obtain fl where fl: "file = Some fl" by (auto simp: read_at_def split: option.splits)
  then have "reads_content (os_pread os fl) content"
    using assms(1) assms(2) [OF fl] by (auto simp: stable_files_def)
  then have "bs = slice content (unat off) len" using read_at_slice [OF _ assms(3)] Inr fl by simp
  then show ?thesis using Inr by (simp add: read_succeeds)
qed

end
