(* ===== verification/Server_Slots.thy ===== *)
theory Server_Slots
  imports Server_System Stream_Liveness
begin

text \<open>
  One stream of the server. What its callbacks add to the trace and which handle their reads are from, and
  what holds of its outstanding requests: an open is outstanding alone, before any response, and
  reads stay within the range of 64-bit offsets. \<open>uses\<close> are the handles it may still read from.
\<close>

section \<open>What a callback does to the trace and the handles\<close>

text \<open>The handles of events from which a response is served.\<close>

fun serving_handle :: "io_event \<Rightarrow> file_handle multiset" where
  "serving_handle (Opened h stat ctx prefetch) = (if st_is_dir stat then {#} else {#h#})"
| "serving_handle _ = {#}"

definition serving_handles :: "io_event list \<Rightarrow> file_handle multiset" where
  "serving_handles evs = sum_list (map serving_handle evs)"

lemma serving_handles_simps [simp]:
  "serving_handles [] = {#}" "serving_handles (e # evs) = serving_handle e + serving_handles evs"
  "serving_handles (evs @ evs') = serving_handles evs + serving_handles evs'"
  by (simp_all add: serving_handles_def)

lemma quiet_drop: "quiet {#} fl fl1 \<Longrightarrow> quiet {#} fl (emit [DropFile h] fl1)"
  by (auto simp: quiet_def emit_def)

lemma event_serving: "handle_event cr ev fl = Some (fl', e) \<Longrightarrow> quiet (serving_handle ev) fl fl'"
proof (cases ev)
  case (Opened h stat ctx prefetch)
  assume ev: "handle_event cr ev fl = Some (fl', e)"
  then have o: "handle_opened cr h stat ctx prefetch fl = Some (fl', e)"
    using Opened by (simp add: handle_event_def)
  show ?thesis
  proof (cases "st_is_dir stat")
    case True
    then show ?thesis using silent.along_dir_opened [OF True o] Opened quiet_drop by auto
  next
    case False
    then show ?thesis using silent.along_event [OF ev] Opened by simp
  qed
qed (use silent.along_event [of cr ev fl fl' e] in simp_all)

lemma dropped_events_quiet: "quiet {#} fl (emit (concat (map dropped_with_event evs)) fl)"
proof -
  have "\<not> list_ex reads_file (concat (map dropped_with_event evs)) \<and> starts (concat (map dropped_with_event evs)) = 0"
  proof (induction evs)
    case (Cons e evs)
    then show ?case by (cases e) auto
  qed simp
  then show ?thesis by (simp add: quiet_def emit_def)
qed

lemma events_serving: "handle_events cr evs fl = Some (fl', e) \<Longrightarrow> quiet (serving_handles evs) fl fl'"
proof (induction evs arbitrary: fl)
  case (Cons ev evs)
  then obtain fl1 e1 where ev: "handle_event cr ev fl = Some (fl1, e1)" by (auto split: option.splits)
  have more: "quiet (serving_handle ev) fl fl' \<Longrightarrow> quiet (serving_handles (ev # evs)) fl fl'"
    by (auto simp: quiet_def subset_mset.add_increasing2 add.assoc [symmetric] intro: subset_mset.order_trans)
  show ?case
  proof (cases e1)
    case True
    then have "fl' = emit (concat (map dropped_with_event evs)) fl1" using Cons.prems ev by simp
    then show ?thesis
      using silent.along_then [OF event_serving [OF ev] dropped_events_quiet] more by blast
  next
    case False
    then show ?thesis using Cons ev silent.along_trans [OF event_serving [OF ev]] by simp
  qed
qed (simp add: silent.along_refl)

text \<open>The trace grows, and reads are from the handle the phase then streams from.\<close>

definition issues :: "file_handle multiset \<Rightarrow> stream_filter \<Rightarrow> stream_filter \<Rightarrow> bool" where
  "issues M fl fl' \<longleftrightarrow> held (fl_phase fl') \<subseteq># held (fl_phase fl) + M \<and>
     (\<exists>acts. fl_out fl' = fl_out fl @ acts \<and>
        (\<forall>h off len seq. ReadFile h off len seq \<in> set acts \<longrightarrow> held (fl_phase fl') = {#h#}) \<and>
        (M = {#} \<longrightarrow> starts acts = 0))"

lemma quiet_issues: "quiet M fl fl' \<Longrightarrow> issues M fl fl'"
  by (fastforce simp: quiet_def issues_def list_ex_iff)

lemma quiet_then_issues: "quiet M fl fl1 \<Longrightarrow> issues {#} fl1 fl' \<Longrightarrow> issues M fl fl'"
  by (fastforce simp: quiet_def issues_def list_ex_iff intro: subset_mset.order_trans)

lemma issue_loop_requests:
  "issue_loop m s reqs = (s', reqs') \<Longrightarrow> \<forall>(i, off, len, h) \<in> set reqs. h = sm_handle s \<Longrightarrow>
     \<forall>(i, off, len, h) \<in> set reqs'. h = sm_handle s"
proof (induction m s reqs rule: issue_loop.induct)
  case (1 m s reqs)
  then show ?case
    by (subst (asm) (2) issue_loop.simps) (auto simp: Let_def split: if_splits chunk.splits)
qed

lemma pump_issues: "pump react fl = Some fl' \<Longrightarrow> issues {#} fl fl' \<and> fl_bridge fl' = fl_bridge fl"
proof -
  assume p: "pump react fl = Some fl'"
  have flush: "quiet {#} fl (case flush_loop react fl of Returned fl' \<Rightarrow> fl' | Broke fl' \<Rightarrow> fl')"
    by (rule silent.along_flush)
  show ?thesis
  proof (cases "flush_loop react fl")
    case (Returned fl1)
    then show ?thesis using p flush quiet_issues by (auto simp: pump_def quiet_def)
  next
    case (Broke fl1)
    have "issues {#} fl1 fl' \<and> fl_bridge fl' = fl_bridge fl1"
    proof (cases "fl_phase fl1")
      case (Streaming s)
      obtain s' reqs where l: "issue_loop (cfg_max_inflight_reads (fl_config fl1)) s [] = (s', reqs)" by fastforce
      have "sm_handle s' = sm_handle s" "\<forall>(i, off, len, h) \<in> set reqs. h = sm_handle s"
        using issue_loop_handle [OF l] issue_loop_requests [OF l] by simp_all
      moreover have "starts (map (\<lambda>(index, off, len, h). ReadFile h off len index) reqs) = 0"
        by (induction reqs) auto
      ultimately show ?thesis
        using p Broke Streaming l by (fastforce simp: pump_def issues_def emit_def split: if_splits)
    qed (use p Broke quiet_issues [OF silent.along_refl] in \<open>auto simp: pump_def split: if_splits\<close>)
    then show ?thesis using Broke flush quiet_then_issues by (auto simp: quiet_def)
  qed
qed

lemma scheduled_issues:
  assumes "on_scheduled cr react fl = Some fl'"
  shows "issues (serving_handles (bridge_contents (fl_bridge fl))) fl fl' \<and> bridge_contents (fl_bridge fl') = []"
proof -
  obtain b evs where b: "bridge_process (fl_bridge fl) = (b, evs)" by fastforce
  obtain fl1 e where run: "handle_events cr evs (fl\<lparr>fl_bridge := b\<rparr>) = Some (fl1, e)"
    using assms b by (auto simp: on_scheduled_def bind_eq_Some_conv)
  have q: "quiet (serving_handles evs) (fl\<lparr>fl_bridge := b\<rparr>) fl1" by (rule events_serving [OF run])
  have "issues (serving_handles evs) (fl\<lparr>fl_bridge := b\<rparr>) fl' \<and> fl_bridge fl' = b"
    using assms b run quiet_issues [OF q] quiet_then_issues [OF q] pump_issues [of react fl1 fl'] q
    by (auto simp: on_scheduled_def quiet_def split: if_splits phase.splits)
  then show ?thesis using process_contents [OF b] by (simp add: issues_def)
qed

lemma callback_issues:
  assumes "slot_step cr sl sl'"
  shows "issues (serving_handles (bridge_contents (fl_bridge (sl_filter sl)))) (sl_filter sl) (sl_filter sl') \<and>
    set (bridge_contents (fl_bridge (sl_filter sl'))) \<subseteq> set (bridge_contents (fl_bridge (sl_filter sl)))"
proof -
  let ?M = "serving_handles (bridge_contents (fl_bridge (sl_filter sl)))"
  have more: "issues M fl fl'" if "issues {#} fl fl'" for M fl fl'
    using that by (auto simp: issues_def intro: subset_mset.order_trans)
  have quiet: "issues ?M (sl_filter sl) fl \<and> fl_bridge fl = fl_bridge (sl_filter sl)" if "quiet {#} (sl_filter sl) fl" for fl
    using more [OF quiet_issues [OF that]] that by (simp add: quiet_def)
  from assms show ?thesis
  proof (cases rule: slot_step.cases)
    case (headers kvs fl)
    then show ?thesis using quiet [OF silent.along_headers [OF headers(5)]] by (simp add: moved_def Let_def)
  next
    case (scheduled n react fl)
    then show ?thesis using scheduled_issues [of cr react "sl_filter sl" fl] by (simp add: moved_def Let_def)
  next
    case (watermark k)
    then show ?thesis using quiet [OF silent.along_watermark] by (simp add: moved_def Let_def)
  next
    case complete
    have "issues {#} (sl_filter sl) (on_stream_complete (sl_filter sl))"
      using quiet_issues [OF dropped_events_quiet, of "(sl_filter sl)\<lparr>fl_bridge := bridge_close (fl_bridge (sl_filter sl))\<rparr>"]
      by (simp add: on_stream_complete_def issues_def)
    then show ?thesis
      using more complete by (simp add: moved_def Let_def) (simp add: on_stream_complete_def bridge_close_def emit_def)
  qed
qed

lemma slot_step_out:
  "slot_step cr sl sl' \<Longrightarrow> fl_out (sl_filter sl') = fl_out (sl_filter sl) @ sl_outbox sl'"
proof -
  assume s: "slot_step cr sl sl'"
  then have "prefix (fl_out (sl_filter sl)) (fl_out (sl_filter sl'))"
    using callback_issues [OF s] by (auto simp: issues_def)
  with s show ?thesis
    by (cases rule: slot_step.cases) (auto simp: moved_def new_actions_def Let_def prefix_def)
qed

section \<open>Outstanding requests\<close>

lemma closed_after_end:
  assumes "sys_reach cr c sy" and "\<not> sy_alive sy"
  shows "fl_bridge (sy_filter sy) = Closed"
  using assms
proof (induction rule: sys_reach.induct)
  case start
  then show ?case by (simp add: sys_init_def)
next
  case (step sy sy')
  from step.hyps(2) step.prems step.IH show ?case
  proof (cases rule: sys_step.cases)
    case (answered rs1 r rs2 content' event)
    then have "fl_bridge (sy_filter sy) = Closed" using step.prems step.IH by (simp add: absorb_def Let_def)
    then show ?thesis using answered by (simp add: deliver_def emit_def)
  qed (auto simp: absorb_def Let_def on_stream_complete_def bridge_close_def emit_def)
qed

text \<open>While an open is out, nothing else is.\<close>

definition only_opening :: "sys \<Rightarrow> bool" where
  "only_opening sy \<longleftrightarrow> length (sy_pending sy) = 1 \<and> bridge_contents (fl_bridge (sy_filter sy)) = [] \<and>
     held (fl_phase (sy_filter sy)) = {#}"

lemma opening_live:
  assumes "sys_ok cr c sy" and "sy_alive sy" and "ROpen req ctx \<in> set (sy_pending sy)"
  shows "only_opening sy"
proof -
  have ok: "live_ok c sy" "settled_ok sy" using assms(1,2) by (simp_all add: sys_ok_def)
  have "\<not> list_all is_read_request (sy_pending sy)" using assms(3) is_read_request.simps(2) [of req ctx] unfolding list_all_iff by blast
  then have "resolving (fl_phase (sy_filter sy))"
    using ok assms(3) by (cases "fl_phase (sy_filter sy)") (auto simp: live_ok_def settled_ok_def Let_def)
  then have "length (sy_pending sy) + length (bridge_contents (fl_bridge (sy_filter sy))) = 1 \<and>
      held (fl_phase (sy_filter sy)) = {#}"
    using ok(1) by (cases "fl_phase (sy_filter sy)") (auto simp: live_ok_def Let_def)
  moreover have "sy_pending sy \<noteq> []" using assms(3) by auto
  ultimately show ?thesis by (cases "sy_pending sy") (simp_all add: only_opening_def)
qed

lemma opening_alone:
  assumes "sys_reach cr c sy" and "config_ok c" and "ROpen req ctx \<in> set (sy_pending sy)"
  shows "only_opening sy"
  using assms
proof (induction rule: sys_reach.induct)
  case start
  then show ?case by (simp add: sys_init_def)
next
  case (step sy sy')
  have "sys_reach cr c sy'" using step.hyps by (rule sys_reach.step)
  then have live: "only_opening sy'" if "sy_alive sy'"
    using opening_live [OF reachable_ok] step.prems that by blast
  from step.hyps(2) show ?case
  proof (cases rule: sys_step.cases)
    case (answered rs1 r rs2 content' event)
    show ?thesis
    proof (cases "sy_alive sy")
      case True
      then show ?thesis using live answered by (simp add: absorb_fields)
    next
      case False
      then have b: "fl_bridge (sy_filter sy) = Closed" using closed_after_end step.hyps(1) by blast
      then have "sy_pending sy' = rs1 @ rs2"
        using answered by (cases event) (simp_all add: absorb_def deliver_def emit_def)
      then have "ROpen req ctx \<in> set (rs1 @ rs2)" using step.prems by simp
      then have "length (rs1 @ r # rs2) = 1" using step.IH step.prems(1) answered(2) by (auto simp: only_opening_def)
      then have "rs1 @ rs2 = []" by (cases rs1) auto
      then show ?thesis using \<open>ROpen req ctx \<in> set (rs1 @ rs2)\<close> by simp
    qed
  next
    case complete
    have "requests_of (concat (map dropped_with_event evs)) = []" for evs
      using action_kinds(2) [OF dropped_events_neutral] by blast
    then have "sy_pending sy' = sy_pending sy"
      using complete by (simp add: absorb_def on_stream_complete_def emit_def Let_def)
    then have "only_opening sy" using step.IH step.prems by simp
    with \<open>sy_pending sy' = sy_pending sy\<close> show ?thesis
      using complete by (simp add: only_opening_def on_stream_complete_def emit_def bridge_close_def absorb_fields)
  qed (use live in \<open>simp_all add: absorb_fields\<close>)
qed

section \<open>The handles a stream may still read from\<close>

definition pending_handles :: "request list \<Rightarrow> file_handle set" where
  "pending_handles pending = {h. \<exists>off len seq. RRead h off len seq \<in> set pending}"

definition uses :: "slot \<Rightarrow> request list \<Rightarrow> file_handle set" where
  "uses sl pending = set_mset (held (fl_phase (sl_filter sl))) \<union>
     set_mset (serving_handles (bridge_contents (fl_bridge (sl_filter sl)))) \<union> pending_handles pending"

lemma pending_handles_simps [simp]:
  "pending_handles [] = {}" "pending_handles (r # rs) = (case r of RRead h off len seq \<Rightarrow> {h} | _ \<Rightarrow> {}) \<union> pending_handles rs"
  "pending_handles (rs @ rs') = pending_handles rs \<union> pending_handles rs'"
  by (auto simp: pending_handles_def split: request.splits)

lemma request_in_trace:
  "RRead h off len seq \<in> set (requests_of acts) \<longleftrightarrow> ReadFile h off len seq \<in> set acts"
  "ROpen req ctx \<in> set (requests_of acts) \<longleftrightarrow> OpenFile req ctx \<in> set acts"
proof (induction acts)
  case (Cons a acts)
  { case 1 then show ?case using Cons by (cases a) auto }
  { case 2 then show ?case using Cons by (cases a) auto }
qed simp_all

lemma serving_member: "h \<in># serving_handles evs \<longleftrightarrow> (\<exists>ev \<in> set evs. h \<in># serving_handle ev)"
  by (induction evs) auto

lemma serving_mono: "set evs \<subseteq> set evs' \<Longrightarrow> set_mset (serving_handles evs) \<subseteq> set_mset (serving_handles evs')"
  unfolding subset_iff serving_member by blast

lemma slot_step_uses:
  assumes "slot_step cr sl sl'"
  shows "uses sl' (pending @ requests_of (sl_outbox sl')) \<subseteq> uses sl pending"
proof -
  let ?fl = "sl_filter sl" and ?fl' = "sl_filter sl'"
  note i = callback_issues [OF assms]
  then have held: "set_mset (held (fl_phase ?fl')) \<subseteq> uses sl pending"
    by (auto simp: issues_def uses_def dest: mset_subset_eqD)
  have "held (fl_phase ?fl') = {#h#}" if "RRead h off len seq \<in> set (requests_of (sl_outbox sl'))" for h off len seq
    using i that slot_step_out [OF assms] by (auto simp: issues_def request_in_trace(1))
  then have "pending_handles (requests_of (sl_outbox sl')) \<subseteq> uses sl pending"
    using held by (auto simp: pending_handles_def)
  moreover have "set_mset (serving_handles (bridge_contents (fl_bridge ?fl'))) \<subseteq> uses sl pending"
    using serving_mono [OF i [THEN conjunct2]] by (auto simp: uses_def)
  ultimately show ?thesis using held by (auto simp: uses_def)
qed

lemma delivered_fields:
  "sl_outbox (delivered ev sl) = sl_outbox sl" "sl_alive (delivered ev sl) = sl_alive sl"
  "fl_phase (sl_filter (delivered ev sl)) = fl_phase (sl_filter sl)"
  "fl_config (sl_filter (delivered ev sl)) = fl_config (sl_filter sl)"
  using deliver_frame [of ev "sl_filter sl"] by (simp_all add: delivered_def Let_def)

lemma delivered_contents:
  "set (bridge_contents (fl_bridge (sl_filter (delivered ev sl)))) \<subseteq> insert ev (set (bridge_contents (fl_bridge (sl_filter sl))))"
  by (cases "fl_bridge (sl_filter sl)") (auto simp: delivered_def deliver_def emit_def Let_def)

lemma delivered_uses:
  "uses (delivered ev sl) (rs1 @ rs2) \<subseteq> uses sl (rs1 @ r # rs2) \<union> set_mset (serving_handle ev)"
proof -
  have "set_mset (serving_handles (bridge_contents (fl_bridge (sl_filter (delivered ev sl))))) \<subseteq>
      set_mset (serving_handles (ev # bridge_contents (fl_bridge (sl_filter sl))))"
    by (rule serving_mono) (use delivered_contents [of ev sl] in simp)
  then show ?thesis by (auto simp: uses_def delivered_fields)
qed

lemma pending_from_trace:
  assumes "sys_reach cr c sy"
  shows "set (sy_pending sy) \<subseteq> set (requests_of (fl_out (sy_filter sy)))"
  using assms
proof (induction rule: sys_reach.induct)
  case start
  then show ?case by (simp add: sys_init_def)
next
  case (step sy sy')
  have drop: "set (requests_of (drop n acts)) \<subseteq> set (requests_of acts)" for n and acts :: "action list"
    by (metis Un_upper2 append_take_drop_id requests_of_simps(3) set_append)
  have grow: "prefix (fl_out (sy_filter sy)) (fl_out fl) \<Longrightarrow>
      set rs \<subseteq> set (requests_of (fl_out (sy_filter sy))) \<Longrightarrow>
      set (rs @ requests_of (drop (length (fl_out (sy_filter sy))) (fl_out fl))) \<subseteq> set (requests_of (fl_out fl))" for fl rs
    using drop by (auto simp: prefix_def)
  have quiet: "prefix (fl_out fl) (fl_out fl')" if "quiet M fl fl'" for M fl fl'
    using that by (auto simp: quiet_def)
  from step.hyps(2) show ?case
  proof (cases rule: sys_step.cases)
    case (headers kvs fl)
    then show ?thesis
      using grow [OF quiet [OF silent.along_headers [OF headers(4)]] step.IH] by (simp add: absorb_def Let_def)
  next
    case (answered rs1 r rs2 content' event)
    then show ?thesis
      using grow [of "deliver event (sy_filter sy)" "rs1 @ rs2"] deliver_frame [of event "sy_filter sy"] step.IH
      by (auto simp: absorb_def Let_def)
  next
    case (scheduled n react fl)
    then show ?thesis
      using scheduled_issues [of cr react "sy_filter sy" fl] grow [of fl "sy_pending sy"] step.IH
      by (auto simp: absorb_def Let_def issues_def)
  next
    case (watermark k)
    then show ?thesis
      using grow [OF quiet [OF silent.along_watermark] step.IH] by (simp add: absorb_def Let_def)
  next
    case complete
    then show ?thesis
      using grow [of "on_stream_complete (sy_filter sy)" "sy_pending sy"] step.IH
      by (simp add: absorb_def Let_def on_stream_complete_def emit_def)
  qed
qed

lemma pending_reads_in_word:
  assumes "sys_reach cr c sy" and "RRead h off len seq \<in> set (sy_pending sy)"
  shows "unat off + len < 2 ^ 64"
proof -
  have "ReadFile h off len seq \<in> set (fl_out (sy_filter sy))"
    using pending_from_trace [OF assms(1)] assms(2) request_in_trace(1) by blast
  then show ?thesis using read_bounded [OF assms(1)] by simp
qed

section \<open>Where the served content is from\<close>

text \<open>No file has been handed to the stream yet.\<close>

definition pristine :: "slot \<Rightarrow> bool" where
  "pristine sl \<longleftrightarrow> starts (fl_out (sl_filter sl)) = 0 \<and> serving_handles (bridge_contents (fl_bridge (sl_filter sl))) = {#}"

lemma serving_none: "serving_handles evs = {#} \<longleftrightarrow> (\<forall>ev \<in> set evs. serving_handle ev = {#})"
  by (induction evs) auto

lemma slot_step_pristine:
  assumes "slot_step cr sl sl'" and "pristine sl"
  shows "pristine sl'"
  using callback_issues [OF assms(1)] assms(2) by (auto simp: pristine_def issues_def serving_none)

lemma delivered_pristine:
  assumes "pristine sl" and "serving_handle ev = {#}"
  shows "pristine (delivered ev sl)"
proof -
  obtain acts where out: "fl_out (deliver ev (sl_filter sl)) = fl_out (sl_filter sl) @ acts" "list_all neutral_action acts"
    using deliver_frame [of ev "sl_filter sl"] by blast
  then have "starts acts = 0" using action_kinds(2) by blast
  then show ?thesis
    using assms delivered_contents [of ev sl] out(1) by (auto simp: pristine_def serving_none delivered_def Let_def)
qed

text \<open>The content is that of a file which the stream asked for and which lies under the document root.\<close>

definition origin :: "'f os_calls \<Rightarrow> ('f \<Rightarrow> bytes) \<Rightarrow> stream_filter \<Rightarrow> bytes \<Rightarrow> bool" where
  "origin os content_of fl content \<longleftrightarrow>
     (\<exists>req ctx f b p. OpenFile req ctx \<in> set (fl_out fl) \<and> open_final os req = Inr (f, b) \<and> content_of f = content \<and>
        os_canonicalize os (or_path req) = Inr p \<and> path_starts_with p (cfg_root (fl_config fl)))"

lemma origin_mono:
  "origin os content_of fl content \<Longrightarrow> set (fl_out fl) \<subseteq> set (fl_out fl') \<Longrightarrow> fl_config fl' = fl_config fl \<Longrightarrow>
     origin os content_of fl' content"
  unfolding origin_def by (metis subsetD)

lemma delivered_out: "set (fl_out (sl_filter sl)) \<subseteq> set (fl_out (sl_filter (delivered ev sl)))"
  using deliver_frame [of ev "sl_filter sl"] by (auto simp: delivered_def Let_def)

end
