(* ===== verification/Server_Refinement.thy ===== *)
theory Server_Refinement
  imports Server_Engine Server_Slots
begin

text \<open>
  Every stream of a running server is a stream of \<open>Stream_System\<close>: the other streams and the shared engine
  are, for it, the environment that theory describes. The simulation relation \<open>slot_ok\<close> says which
  requests a stream has out, and that the handles it may still use lead to the file it serves.
\<close>

section \<open>The simulation relation\<close>

definition asked :: "nat \<Rightarrow> slot \<Rightarrow> ('f, tag) engine \<Rightarrow> request multiset" where
  "asked i sl eng = image_mset snd (filter_mset (\<lambda>k. fst k = i) (outstanding eng)) + mset (requests_of (sl_outbox sl))"

text \<open>What stream \<open>i\<close>, which serves \<open>content\<close>, needs of the engine for the handles \<open>U\<close>.\<close>

definition engine_part :: "('f \<Rightarrow> bytes) \<Rightarrow> ('f, tag) engine \<Rightarrow> nat \<Rightarrow> bytes \<Rightarrow> file_handle set \<Rightarrow> bool" where
  "engine_part content_of eng i content U \<longleftrightarrow>
     (\<forall>h \<in> U. h \<noteq> 0 \<longrightarrow> unat h < unat (eng_next_id eng) \<and> h \<notin> set (open_ids eng) \<and>
        (\<forall>fl. map_of (eng_files eng) h = Some fl \<longrightarrow> content_of fl = content)) \<and>
     (\<forall>fl off len r. ReadTask (Some fl) off len (i, r) \<in> set (eng_tasks eng) \<longrightarrow> content_of fl = content)"

definition slot_ok ::
  "'f os_calls \<Rightarrow> ('f \<Rightarrow> bytes) \<Rightarrow> ('h, 't) crates \<Rightarrow> ('f, tag) engine \<Rightarrow> nat \<Rightarrow> slot \<Rightarrow> bytes \<Rightarrow> request list \<Rightarrow> bool" where
  "slot_ok os content_of cr eng i sl content pending \<longleftrightarrow>
     config_ok (fl_config (sl_filter sl)) \<and>
     sys_reach cr (fl_config (sl_filter sl)) (view content pending sl) \<and>
     asked i sl eng \<subseteq># mset pending \<and> (eng_running eng \<longrightarrow> asked i sl eng = mset pending) \<and>
     engine_part content_of eng i content (uses sl pending) \<and>
     (origin os content_of (sl_filter sl) content \<or> pristine sl)"

definition simulated :: "'f os_calls \<Rightarrow> ('f \<Rightarrow> bytes) \<Rightarrow> ('h, 't) crates \<Rightarrow> ('f, tag) engine \<Rightarrow> nat \<Rightarrow> slot \<Rightarrow> bool" where
  "simulated os content_of cr eng i sl \<longleftrightarrow> (\<exists>content pending. slot_ok os content_of cr eng i sl content pending)"

definition server_ok :: "'f os_calls \<Rightarrow> ('f \<Rightarrow> bytes) \<Rightarrow> ('h, 't) crates \<Rightarrow> nat \<Rightarrow> 'f server \<Rightarrow> bool" where
  "server_ok os content_of cr n sv \<longleftrightarrow> engine_ok n (length (sv_slots sv)) (sv_engine sv) \<and> cache_ok os (eng_cache (sv_engine sv)) \<and>
     (\<forall>i < length (sv_slots sv). simulated os content_of cr (sv_engine sv) i (sv_slots sv ! i))"

lemma engine_part_subset: "engine_part content_of eng i content U \<Longrightarrow> U' \<subseteq> U \<Longrightarrow> engine_part content_of eng i content U'"
  unfolding engine_part_def by blast

lemma slot_ok_engine:
  assumes "slot_ok os content_of cr eng i sl content pending"
    and "filter_mset (\<lambda>k. fst k = i) (outstanding eng') \<subseteq># filter_mset (\<lambda>k. fst k = i) (outstanding eng)"
    and "eng_running eng' \<Longrightarrow> eng_running eng \<and>
      filter_mset (\<lambda>k. fst k = i) (outstanding eng') = filter_mset (\<lambda>k. fst k = i) (outstanding eng)"
    and "engine_part content_of eng' i content (uses sl pending)"
  shows "slot_ok os content_of cr eng' i sl content pending"
proof -
  have "asked i sl eng' \<subseteq># asked i sl eng"
    unfolding asked_def using image_mset_subseteq_mono [OF assms(2), of snd] by (rule subset_mset.add_right_mono)
  moreover have "asked i sl eng' = asked i sl eng" if "eng_running eng'"
    using assms(3) [OF that] by (simp add: asked_def)
  ultimately show ?thesis
    using assms unfolding slot_ok_def by (auto intro: subset_mset.order_trans)
qed

section \<open>Submissions\<close>

lemma perform_tags:
  "outstanding (perform i a eng) =
     outstanding eng + (if eng_running eng then image_mset (Pair i) (mset (action_request a)) else {#})"
  "eng_running (perform i a eng) = eng_running eng"
proof -
  show "eng_running (perform i a eng) = eng_running eng"
    by (cases a) (auto simp: engine_open_stat_def engine_read_def engine_read_dir_def drop_handle_def try_send_def)
  have "outstanding (eng\<lparr>eng_next_id := n\<rparr>) = outstanding eng" for n
    by (simp add: outstanding_def)
  then show "outstanding (perform i a eng) =
      outstanding eng + (if eng_running eng then image_mset (Pair i) (mset (action_request a)) else {#})"
    by (cases a) (simp_all add: engine_open_stat_def engine_read_def engine_read_dir_def drop_handle_def
        outstanding_try_send)
qed

lemma filter_tags_of [simp]:
  "filter_mset (\<lambda>k. fst k = j) (image_mset (Pair i) M) = (if i = j then image_mset (Pair i) M else {#})"
  by (auto simp: filter_mset_image_mset)

lemma requests_of_tags [simp]: "image_mset snd (image_mset (Pair i) M) = M"
  by (simp add: image_mset.compositionality comp_def)

lemma perform_other:
  "i \<noteq> j \<Longrightarrow> filter_mset (\<lambda>k. fst k = j) (outstanding (perform i a eng)) = filter_mset (\<lambda>k. fst k = j) (outstanding eng)"
  using filter_tags_of [of j i "mset (action_request a)"] by (simp add: perform_tags del: filter_tags_of)

lemma engine_part_send:
  "engine_part content_of eng i content U \<Longrightarrow> command_id c = [] \<Longrightarrow> engine_part content_of (try_send c eng) i content U"
  by (auto simp: engine_part_def try_send_def open_ids_def)

lemma engine_part_perform:
  assumes "engine_ok n m eng" and "n + 2 < 2 ^ 64" and "engine_part content_of eng j content U"
  shows "engine_part content_of (perform i a eng) j content U"
proof (cases a)
  case (OpenFile req ctx)
  let ?h = "eng_next_id eng"
  have after: "unat (?h + 1) = unat ?h + 1"
    using assms(1,2) unat_plus_u64 [of ?h 1] by (simp add: engine_ok_def)
  have "unat h < unat ?h + 1 \<and> h \<noteq> ?h" if "h \<in> U" "h \<noteq> 0" for h
  proof -
    have "unat h < unat ?h" using assms(3) that unfolding engine_part_def by blast
    then show ?thesis by auto
  qed
  then show ?thesis
    using OpenFile assms(3) after
    by (auto simp: engine_part_def engine_open_stat_def try_send_def open_ids_def)
qed (use assms(3) in \<open>auto simp: engine_read_def engine_read_dir_def drop_handle_def intro: engine_part_send\<close>)

text \<open>The worker of stream \<open>i\<close> hands over its next action.\<close>

lemma submit_own:
  assumes "engine_ok n m eng" and "n + 2 < 2 ^ 64" and "slot_ok os content_of cr eng i sl content pending"
    and "sl_outbox sl = a # rest"
  shows "slot_ok os content_of cr (perform i a eng) i (sl\<lparr>sl_outbox := rest\<rparr>) content pending"
proof -
  have "asked i (sl\<lparr>sl_outbox := rest\<rparr>) (perform i a eng) + (if eng_running eng then {#} else mset (action_request a)) =
      asked i sl eng"
    using assms(4) by (simp add: asked_def perform_tags)
  then have "asked i (sl\<lparr>sl_outbox := rest\<rparr>) (perform i a eng) \<subseteq># asked i sl eng"
    "eng_running eng \<Longrightarrow> asked i (sl\<lparr>sl_outbox := rest\<rparr>) (perform i a eng) = asked i sl eng"
    by (metis mset_subset_eq_add_left, simp)
  moreover have "engine_part content_of (perform i a eng) i content (uses sl pending)"
    using engine_part_perform [OF assms(1,2)] assms(3) by (simp add: slot_ok_def)
  ultimately show ?thesis
    using assms(3) by (auto simp: slot_ok_def perform_tags uses_def pristine_def intro: subset_mset.order_trans)
qed

lemma submit_other:
  assumes "engine_ok n m eng" and "n + 2 < 2 ^ 64" and "slot_ok os content_of cr eng j sl content pending" and "i \<noteq> j"
  shows "slot_ok os content_of cr (perform i a eng) j sl content pending"
proof (rule slot_ok_engine [OF assms(3)])
  show "engine_part content_of (perform i a eng) j content (uses sl pending)"
    using engine_part_perform [OF assms(1,2)] assms(3) by (simp add: slot_ok_def)
qed (use assms(4) in \<open>simp_all add: perform_other perform_tags(2)\<close>)

text \<open>Commits and dropped handles change nothing for any stream.\<close>

lemma neutral_slot_ok:
  "slot_ok os content_of cr eng j sl content pending \<Longrightarrow> list_all neutral_action acts \<Longrightarrow>
     slot_ok os content_of cr (fold (perform i) acts eng) j sl content pending"
proof (induction acts arbitrary: eng)
  case (Cons a acts)
  have "slot_ok os content_of cr (perform i a eng) j sl content pending"
  proof (rule slot_ok_engine [OF Cons.prems(1)])
    have part: "engine_part content_of eng j content (uses sl pending)" using Cons.prems(1) by (simp add: slot_ok_def)
    show "engine_part content_of (perform i a eng) j content (uses sl pending)"
      using part Cons.prems(2) engine_part_send [OF part] by (cases a) (simp_all add: drop_handle_def)
    have "action_request a = []" using Cons.prems(2) by (cases a) auto
    then show "filter_mset (\<lambda>k. fst k = j) (outstanding (perform i a eng)) \<subseteq># filter_mset (\<lambda>k. fst k = j) (outstanding eng)"
      "eng_running (perform i a eng) \<Longrightarrow> eng_running eng \<and>
        filter_mset (\<lambda>k. fst k = j) (outstanding (perform i a eng)) = filter_mset (\<lambda>k. fst k = j) (outstanding eng)"
      by (simp_all add: perform_tags)
  qed
  then show ?case using Cons by simp
qed simp

section \<open>The reactor\<close>

lemma asked_pending:
  assumes "slot_ok os content_of cr eng i sl content pending" and "(i, r) \<in># outstanding eng"
  shows "r \<in> set pending"
proof -
  have "r \<in># image_mset snd (filter_mset (\<lambda>k. fst k = i) (outstanding eng))" using assms(2) by force
  then have "r \<in># asked i sl eng" by (simp add: asked_def)
  then show ?thesis using assms(1) by (auto simp: slot_ok_def dest: mset_subset_eqD)
qed

lemma react_slot_ok:
  assumes "engine_ok n m eng" and "slot_ok os content_of cr eng i sl content pending"
  shows "slot_ok os content_of cr (run_reactor eng) i sl content pending"
proof (cases "eng_running eng \<and> eng_commands eng \<noteq> []")
  case False
  then show ?thesis using assms(2) by (auto simp: run_reactor_def split: list.split)
next
  case True
  then obtain c rest where c: "eng_commands eng = c # rest" by (cases "eng_commands eng") auto
  have part: "engine_part content_of eng i content (uses sl pending)" using assms(2) by (simp add: slot_ok_def)
  have read: "content_of fl = content"
    if "c = ReadCommand h off len (i, r)" "map_of (eng_files eng) h = Some fl" for h off len r fl
  proof -
    have "(i, r) \<in># outstanding eng" using c that(1) by (simp add: outstanding_def)
    then have "r \<in> set pending" by (rule asked_pending [OF assms(2)])
    moreover have "command_ok m (ReadCommand h off len (i, r))" using assms(1) c that(1) by (simp add: engine_ok_def)
    then obtain seq where "r = RRead h off len seq" by auto
    ultimately have "h \<in> uses sl pending" by (auto simp: uses_def pending_handles_def)
    moreover have "h \<noteq> 0" using assms(1) that(2) unfolding engine_ok_def by blast
    ultimately show ?thesis using part that(2) unfolding engine_part_def by blast
  qed
  show ?thesis
  proof (rule slot_ok_engine [OF assms(2)])
    show "filter_mset (\<lambda>k. fst k = i) (outstanding (run_reactor eng)) \<subseteq># filter_mset (\<lambda>k. fst k = i) (outstanding eng)"
      "eng_running (run_reactor eng) \<Longrightarrow> eng_running eng \<and>
        filter_mset (\<lambda>k. fst k = i) (outstanding (run_reactor eng)) = filter_mset (\<lambda>k. fst k = i) (outstanding eng)"
      using True c by (cases c; auto simp: run_reactor_def outstanding_def)+
    show "engine_part content_of (run_reactor eng) i content (uses sl pending)"
    proof (cases c)
      case (ReadCommand h off len k)
      then show ?thesis
        using True c part read [of h off len] by (cases k) (auto simp: run_reactor_def engine_part_def open_ids_def)
    next
      case (CloseCommand h)
      then show ?thesis
        using True c part by (auto simp: run_reactor_def engine_part_def open_ids_def map_of_delete)
    qed (use True c part in \<open>auto simp: run_reactor_def engine_part_def open_ids_def\<close>)
  qed
qed

section \<open>Completions\<close>

text \<open>What finishing a task of stream \<open>i\<close> can be.\<close>

lemma finished_task:
  assumes "engine_ok n m eng" and "run_task os j eng = (eng', [((i, r), result)])" and "completed r result = Some ev"
  obtains
    (opens) h req ctx res files cache where "ROpen req ctx = r" "eng_tasks eng ! j = OpenTask h req (i, r)"
      "open_stat os h req (eng_files eng) (eng_cache eng) = (res, files, cache)" "ev = open_event ctx res"
      "eng' = eng\<lparr>eng_tasks := take j (eng_tasks eng) @ drop (Suc j) (eng_tasks eng), eng_files := files, eng_cache := cache\<rparr>"
  | (reads) fl off len h seq where "RRead h off len seq = r" "eng_tasks eng ! j = ReadTask fl off len (i, r)"
      "ev = ReadEvent seq (read_at os fl off len)"
      "eng' = eng\<lparr>eng_tasks := take j (eng_tasks eng) @ drop (Suc j) (eng_tasks eng)\<rparr>"
  | (lists) p res where "RDir p = r" "ev = DirEvent res"
      "eng' = eng\<lparr>eng_tasks := take j (eng_tasks eng) @ drop (Suc j) (eng_tasks eng)\<rparr>"
proof -
  have j: "j < length (eng_tasks eng)" using assms(2) by (auto simp: run_task_def split: if_splits)
  then have ok: "task_ok m (eng_tasks eng ! j)" using assms(1) by (simp add: engine_ok_def list_all_length)
  show thesis
  proof (cases "eng_tasks eng ! j")
    case (OpenTask h req k)
    obtain res files cache where o: "open_stat os h req (eng_files eng) (eng_cache eng) = (res, files, cache)"
      by (metis prod.collapse)
    then have k: "k = (i, r)" "result = OpenDone res"
      "eng' = eng\<lparr>eng_tasks := take j (eng_tasks eng) @ drop (Suc j) (eng_tasks eng), eng_files := files, eng_cache := cache\<rparr>"
      using assms(2) j OpenTask by (auto simp: run_task_def Let_def)
    moreover obtain ctx where "r = ROpen req ctx" using ok OpenTask k(1) by auto
    ultimately show thesis using opens [of req ctx h res files cache] OpenTask o assms(3) by simp
  next
    case (ReadTask fl off len k)
    then have k: "k = (i, r)" "result = ReadDone (read_at os fl off len)"
      "eng' = eng\<lparr>eng_tasks := take j (eng_tasks eng) @ drop (Suc j) (eng_tasks eng)\<rparr>"
      using assms(2) j by (auto simp: run_task_def Let_def)
    moreover obtain h seq where "r = RRead h off len seq" using ok ReadTask k(1) by auto
    ultimately show thesis using reads [of h off len seq fl] ReadTask assms(3) by simp
  next
    case (ReadDirTask p k)
    then have k: "k = (i, r)" "\<exists>res. result = ReadDirDone res"
      "eng' = eng\<lparr>eng_tasks := take j (eng_tasks eng) @ drop (Suc j) (eng_tasks eng)\<rparr>"
      using assms(2) j by (auto simp: run_task_def Let_def)
    moreover have "r = RDir p" using ok ReadDirTask k(1) by simp
    ultimately show thesis using lists [of p] assms(3) by auto
  qed
qed

lemma kept_tasks: "set (take j ts @ drop (Suc j) ts) \<subseteq> set ts"
  by (auto dest: in_set_takeD in_set_dropD)

text \<open>The ids of the opens that are still out after a task has run.\<close>

lemma kept_ids:
  assumes "engine_ok n m eng" and "j < length (eng_tasks eng)"
    and "eng_commands eng' = eng_commands eng" and "eng_tasks eng' = take j (eng_tasks eng) @ drop (Suc j) (eng_tasks eng)"
  shows "set (open_ids eng') \<subseteq> set (open_ids eng)" "set (task_id (eng_tasks eng ! j)) \<subseteq> set (open_ids eng)"
    "set (task_id (eng_tasks eng ! j)) \<inter> set (open_ids eng') = {}"
proof -
  have split: "mset (open_ids eng) = mset (task_id (eng_tasks eng ! j) @ open_ids eng')"
    using task_ids [OF assms(2)] by (simp add: open_ids_def assms(3,4))
  then have "set (open_ids eng) = set (task_id (eng_tasks eng ! j)) \<union> set (open_ids eng')"
    by (metis set_append set_mset_mset)
  then show "set (open_ids eng') \<subseteq> set (open_ids eng)" "set (task_id (eng_tasks eng ! j)) \<subseteq> set (open_ids eng)" by simp_all
  have "distinct (task_id (eng_tasks eng ! j) @ open_ids eng')"
    using assms(1) split by (metis engine_ok_def mset_eq_imp_distinct_iff)
  then show "set (task_id (eng_tasks eng ! j)) \<inter> set (open_ids eng') = {}" by simp
qed

text \<open>Another stream's part is untouched: the id of a finished open is not one it uses.\<close>

lemma task_part:
  assumes "engine_ok n m eng" and "run_task os j eng = (eng', out)" and "engine_part content_of eng i content U"
  shows "engine_part content_of eng' i content U"
proof (cases "j < length (eng_tasks eng)")
  case False
  then show ?thesis using assms by (simp add: run_task_def)
next
  case True
  let ?t = "eng_tasks eng ! j"
  have same: "eng_commands eng' = eng_commands eng" "eng_next_id eng' = eng_next_id eng"
    "eng_tasks eng' = take j (eng_tasks eng) @ drop (Suc j) (eng_tasks eng)"
    using assms(2) True by (cases ?t; auto simp: run_task_def Let_def split: prod.splits)+
  note ids = kept_ids [OF assms(1) True same(1,3)]
  have "map_of (eng_files eng') h = map_of (eng_files eng) h" if "h \<notin> set (task_id ?t)" for h
  proof (cases ?t)
    case (OpenTask hid req k)
    obtain res files cache where o: "open_stat os hid req (eng_files eng) (eng_cache eng) = (res, files, cache)"
      by (metis prod.collapse)
    then have "eng_files eng' = files" using assms(2) True OpenTask by (auto simp: run_task_def Let_def)
    with open_stat_files [OF o] OpenTask that show ?thesis by (auto simp: map_of_update)
  qed (use assms(2) True in \<open>auto simp: run_task_def Let_def\<close>)
  note kept = this
  have tasks: "\<forall>fl off len r. ReadTask (Some fl) off len (i, r) \<in> set (eng_tasks eng') \<longrightarrow> content_of fl = content"
    using assms(3) kept_tasks [of j "eng_tasks eng"] unfolding same(3) engine_part_def by blast
  have "unat h < unat (eng_next_id eng) \<and> h \<notin> set (open_ids eng') \<and>
      (\<forall>fl. map_of (eng_files eng') h = Some fl \<longrightarrow> content_of fl = content)" if "h \<in> U" "h \<noteq> 0" for h
  proof -
    have h: "unat h < unat (eng_next_id eng)" "h \<notin> set (open_ids eng)"
      "\<forall>fl. map_of (eng_files eng) h = Some fl \<longrightarrow> content_of fl = content"
      using assms(3) that unfolding engine_part_def by blast+
    then have "h \<notin> set (task_id ?t)" using ids(2) by blast
    then show ?thesis using h ids(1) kept by auto
  qed
  then show ?thesis using tasks unfolding engine_part_def same(2) by blast
qed

lemma task_running: "run_task os j eng = (eng', out) \<Longrightarrow> eng_running eng' = eng_running eng"
  by (auto simp: run_task_def Let_def split: if_splits task.splits prod.splits)

lemma finish_other:
  assumes "engine_ok n m eng" and "run_task os j eng = (eng', [((i', r), result)])" and "i' \<noteq> i"
    and "slot_ok os content_of cr eng i sl content pending"
  shows "slot_ok os content_of cr eng' i sl content pending"
proof (rule slot_ok_engine [OF assms(4)])
  have "filter_mset (\<lambda>k. fst k = i) (outstanding eng') = filter_mset (\<lambda>k. fst k = i) (outstanding eng)"
    using run_task_tags [of eng os j] assms(2,3) by simp
  then show "filter_mset (\<lambda>k. fst k = i) (outstanding eng') \<subseteq># filter_mset (\<lambda>k. fst k = i) (outstanding eng)"
    "eng_running eng' \<Longrightarrow> eng_running eng \<and>
      filter_mset (\<lambda>k. fst k = i) (outstanding eng') = filter_mset (\<lambda>k. fst k = i) (outstanding eng)"
    using task_running [OF assms(2)] by simp_all
  show "engine_part content_of eng' i content (uses sl pending)"
    by (rule task_part [OF assms(1,2)]) (use assms(4) in \<open>simp add: slot_ok_def\<close>)
qed

text \<open>The stream that is answered goes on with what the engine found.\<close>

lemma answered_slot_ok:
  assumes "slot_ok os content_of cr eng i sl content (rs1 @ r # rs2)" and "run_task os j eng = (eng', [((i, r), result)])"
    and "engine_answer content r content' ev"
    and "engine_part content_of eng' i content' (uses (delivered ev sl) (rs1 @ rs2))"
    and "serving_handle ev = {#} \<and> content' = content \<or> origin os content_of (sl_filter sl) content'"
  shows "slot_ok os content_of cr eng' i (delivered ev sl) content' (rs1 @ rs2)"
proof -
  have "asked i sl eng = add_mset r (asked i (delivered ev sl) eng')"
    using run_task_tags [of eng os j] assms(2) by (simp add: asked_def delivered_fields)
  moreover have "origin os content_of (sl_filter (delivered ev sl)) content' \<or> pristine (delivered ev sl)"
    using assms(1,5) origin_mono [OF _ delivered_out delivered_fields(4)] delivered_pristine by (auto simp: slot_ok_def)
  ultimately show ?thesis
    using assms(1,4) task_running [OF assms(2)] delivered_reach [OF _ assms(3), of cr _ rs1 rs2 sl]
    by (auto simp: slot_ok_def delivered_fields)
qed

lemma answered_same:
  assumes "engine_ok n m eng" and ok: "slot_ok os content_of cr eng i sl content (rs1 @ r # rs2)"
    and run: "run_task os j eng = (eng', [((i, r), result)])"
    and "engine_answer content r content ev" and "serving_handle ev = {#}"
  shows "slot_ok os content_of cr eng' i (delivered ev sl) content (rs1 @ rs2)"
proof (rule answered_slot_ok [OF ok run assms(4)])
  have "engine_part content_of eng' i content (uses sl (rs1 @ r # rs2))"
    by (rule task_part [OF assms(1) run]) (use ok in \<open>simp add: slot_ok_def\<close>)
  moreover have "uses (delivered ev sl) (rs1 @ rs2) \<subseteq> uses sl (rs1 @ r # rs2)"
    using delivered_uses [of ev sl rs1 rs2 r] assms(5) by simp
  ultimately show "engine_part content_of eng' i content (uses (delivered ev sl) (rs1 @ rs2))"
    by (rule engine_part_subset)
qed (use assms(5) in simp)

text \<open>A read gives what the file of its stream holds.\<close>

lemma read_task_answers:
  assumes "engine_ok n m eng" and "stable_files os content_of" and ok: "slot_ok os content_of cr eng i sl content pending"
    and "RRead h off len seq \<in> set pending" and "j < length (eng_tasks eng)"
    and "eng_tasks eng ! j = ReadTask fl off len (i, RRead h off len seq)"
  shows "engine_answer content (RRead h off len seq) content (ReadEvent seq (read_at os fl off len))"
proof (rule read_answered [OF assms(2)])
  show "content_of f = content" if "fl = Some f" for f
  proof -
    have "ReadTask (Some f) off len (i, RRead h off len seq) \<in> set (eng_tasks eng)" using assms(5,6) that by (metis nth_mem)
    then show ?thesis using ok unfolding slot_ok_def engine_part_def by blast
  qed
  have "sys_reach cr (fl_config (sl_filter sl)) (view content pending sl)" using ok by (simp add: slot_ok_def)
  then show "unat off + len < 2 ^ 64" using pending_reads_in_word assms(4) by fastforce
qed

text \<open>An open finds a file below the root of its stream, or leaves the stream with what it has.\<close>

lemma pending_open:
  assumes "slot_ok os content_of cr eng i sl content pending" and "ROpen req ctx \<in> set pending"
  shows "OpenFile req ctx \<in> set (fl_out (sl_filter sl))"
    and "or_containment_root req = Some (cfg_root (fl_config (sl_filter sl)))"
    and "\<exists>rd. fl_request (sl_filter sl) = Some rd \<and> or_prefetch_len req = prefetch_of (fl_config (sl_filter sl)) rd"
proof -
  have reach: "sys_reach cr (fl_config (sl_filter sl)) (view content pending sl)" using assms(1) by (simp add: slot_ok_def)
  have "ROpen req ctx \<in> set (requests_of (fl_out (sl_filter sl)))"
    using pending_from_trace [OF reach] assms(2) by auto
  then show asked: "OpenFile req ctx \<in> set (fl_out (sl_filter sl))" by (simp add: request_in_trace)
  show "or_containment_root req = Some (cfg_root (fl_config (sl_filter sl)))"
    using opened_confined [OF reach] asked by simp
  show "\<exists>rd. fl_request (sl_filter sl) = Some rd \<and> or_prefetch_len req = prefetch_of (fl_config (sl_filter sl)) rd"
    using opened_prefetch [OF reach] asked by simp
qed

lemma opened_origin:
  assumes ok: "slot_ok os content_of cr eng i sl content pending" and op: "ROpen req ctx \<in> set pending"
    and "nofollow_contract os" and "cache_ok os cache"
    and "open_stat os h req files cache = (Inr (h', stat, pf), files', cache')"
    and "open_final os req = Inr (f, b)"
  shows "origin os content_of (sl_filter sl) (content_of f)"
  using open_stat_under_root [OF assms(3,4) pending_open(2) [OF ok op] assms(5)] pending_open(1) [OF ok op] assms(6)
  by (auto simp: origin_def)

text \<open>The only handle the stream then uses is that of the open, which no other task knows.\<close>

lemma opened_part:
  assumes "engine_ok n m eng" and ok: "slot_ok os content_of cr eng i sl content [ROpen req ctx]"
    and j: "j < length (eng_tasks eng)" and task: "eng_tasks eng ! j = OpenTask h req (i, ROpen req ctx)"
    and res: "open_stat os h req (eng_files eng) (eng_cache eng) = (res, files, cache)"
    and eng': "eng' = eng\<lparr>eng_tasks := take j (eng_tasks eng) @ drop (Suc j) (eng_tasks eng), eng_files := files, eng_cache := cache\<rparr>"
    and found: "\<forall>h' stat pf fl. res = Inr (h', stat, pf) \<longrightarrow> \<not> st_is_dir stat \<longrightarrow> h' \<noteq> 0 \<longrightarrow> map_of files h' = Some fl \<longrightarrow>
          content_of fl = content'"
  shows "engine_part content_of eng' i content' (set_mset (serving_handle (open_event ctx res)))"
proof -
  have id: "h \<in> set (open_ids eng)" "h \<notin> set (open_ids eng')"
    using kept_ids [OF assms(1) j, of eng'] task eng' by auto
  then have hid: "h \<noteq> 0" "unat h < unat (eng_next_id eng)" using assms(1) unfolding engine_ok_def by blast+
  have no_reads: "ReadTask fl off len (i, r) \<notin> set (eng_tasks eng)" for fl off len r
  proof
    assume t: "ReadTask fl off len (i, r) \<in> set (eng_tasks eng)"
    then have "(i, r) \<in># outstanding eng" by (force simp: outstanding_def)
    then have "r = ROpen req ctx" using asked_pending [OF ok] by simp
    moreover have "task_ok m (ReadTask fl off len (i, r))" using assms(1) t by (auto simp: engine_ok_def list_all_iff)
    ultimately show False by auto
  qed
  show ?thesis
  proof (cases "\<exists>h' stat pf. res = Inr (h', stat, pf) \<and> \<not> st_is_dir stat \<and> h' \<noteq> 0")
    case True
    then obtain h' stat pf where r: "res = Inr (h', stat, pf)" "\<not> st_is_dir stat" "h' \<noteq> 0" by blast
    have "h' = h" using open_stat_files [OF res] r by auto
    then show ?thesis
      using r found id(2) hid no_reads kept_tasks [of j "eng_tasks eng"] eng'
      by (auto simp: engine_part_def open_event_def)
  next
    case False
    then have "serving_handle (open_event ctx res) = {#} \<or> serving_handle (open_event ctx res) = {#0#}"
      by (auto simp: open_event_def split: sum.splits)
    then show ?thesis
      using no_reads kept_tasks [of j "eng_tasks eng"] eng' by (auto simp: engine_part_def)
  qed
qed

lemma finish_open:
  assumes "engine_ok n m eng" and "stable_files os content_of"
    and ok: "slot_ok os content_of cr eng i sl content (rs1 @ ROpen req ctx # rs2)"
    and run: "run_task os j eng = (eng', [((i, ROpen req ctx), result)])"
    and "nofollow_contract os" and "cache_ok os (eng_cache eng)" and j: "j < length (eng_tasks eng)"
    and task: "eng_tasks eng ! j = OpenTask h req (i, ROpen req ctx)"
    and res: "open_stat os h req (eng_files eng) (eng_cache eng) = (res, files, cache)"
    and eng': "eng' = eng\<lparr>eng_tasks := take j (eng_tasks eng) @ drop (Suc j) (eng_tasks eng), eng_files := files, eng_cache := cache\<rparr>"
  shows "\<exists>content'. engine_answer content (ROpen req ctx) content' (open_event ctx res) \<and>
    slot_ok os content_of cr eng' i (delivered (open_event ctx res) sl) content' (rs1 @ rs2)"
proof -
  let ?ev = "open_event ctx res"
  have reach: "sys_reach cr (fl_config (sl_filter sl)) (view content (rs1 @ ROpen req ctx # rs2) sl)"
    "config_ok (fl_config (sl_filter sl))"
    using ok by (simp_all add: slot_ok_def)
  have "only_opening (view content (rs1 @ ROpen req ctx # rs2) sl)"
    by (rule opening_alone [OF reach, of req ctx]) simp
  then have alone: "rs1 = []" "rs2 = []" "uses sl [] = {}" by (auto simp: only_opening_def uses_def)
  have "h \<noteq> 0" using kept_ids [OF assms(1) j, of eng'] task eng' assms(1) by (auto simp: engine_ok_def)
  then obtain content' where answer: "engine_answer content (ROpen req ctx) content' ?ev"
      "(\<exists>h stat pf fl b. res = Inr (h, stat, pf) \<and> \<not> st_is_dir stat \<and> open_final os req = Inr (fl, b) \<and> content_of fl = content') \<or>
       (\<forall>h stat pf. res = Inr (h, stat, pf) \<longrightarrow> st_is_dir stat) \<and> content' = content"
      "\<forall>h' stat pf fl. res = Inr (h', stat, pf) \<longrightarrow> \<not> st_is_dir stat \<longrightarrow> h' \<noteq> 0 \<longrightarrow> map_of files h' = Some fl \<longrightarrow>
        content_of fl = content'"
    using open_answered [OF assms(2) _ res, of content ctx] by blast
  have "slot_ok os content_of cr eng i sl content [ROpen req ctx]" using ok alone by simp
  from opened_part [OF assms(1) this j task res eng' answer(3)]
  have part: "engine_part content_of eng' i content' (uses (delivered ?ev sl) (rs1 @ rs2))"
    by (rule engine_part_subset) (use delivered_uses [of ?ev sl "[]" "[]" "ROpen req ctx"] alone in \<open>auto simp: uses_def\<close>)
  have "serving_handle ?ev = {#} \<and> content' = content \<or> origin os content_of (sl_filter sl) content'"
    using answer(2)
  proof
    assume "\<exists>h stat pf fl b. res = Inr (h, stat, pf) \<and> \<not> st_is_dir stat \<and> open_final os req = Inr (fl, b) \<and> content_of fl = content'"
    then obtain h' stat pf fl b where r: "res = Inr (h', stat, pf)" "open_final os req = Inr (fl, b)" "content_of fl = content'"
      by blast
    have "origin os content_of (sl_filter sl) (content_of fl)"
      by (rule opened_origin [OF ok _ assms(5,6) res [unfolded r(1)] r(2), of ctx]) simp
    then show ?thesis using r(3) by simp
  qed (auto simp: open_event_def split: sum.splits)
  from answered_slot_ok [OF ok run answer(1) part this] answer(1) show ?thesis by blast
qed

lemma finish_own:
  assumes "engine_ok n m eng" and "stable_files os content_of" and ok: "slot_ok os content_of cr eng i sl content pending"
    and run: "run_task os j eng = (eng', [((i, r), result)])" and "completed r result = Some ev"
    and "nofollow_contract os" and "cache_ok os (eng_cache eng)"
  shows "\<exists>rs1 rs2 content'. pending = rs1 @ r # rs2 \<and> engine_answer content r content' ev \<and>
    slot_ok os content_of cr eng' i (delivered ev sl) content' (rs1 @ rs2)"
proof -
  have j: "j < length (eng_tasks eng)" using run by (auto simp: run_task_def split: if_splits)
  have "(i, r) \<in># outstanding eng" using run_task_tags [of eng os j] run by simp
  then have r: "r \<in> set pending" by (rule asked_pending [OF ok])
  then obtain rs1 rs2 where split: "pending = rs1 @ r # rs2" by (auto dest: split_list)
  note same = answered_same [OF assms(1) ok [unfolded split] run]
  from assms(1) run assms(5) show ?thesis
  proof (cases rule: finished_task)
    case (lists p res)
    have "engine_answer content r content ev" using listed lists(1,2) by metis
    then show ?thesis using same [of ev] lists(2) split by fastforce
  next
    case (reads fl off len h seq)
    have "engine_answer content r content ev"
      using read_task_answers [OF assms(1,2) ok _ j, of h off len seq fl] r reads(1,2,3) by simp
    then show ?thesis using same [of ev] reads(3) split by fastforce
  next
    case (opens h req ctx res files cache)
    from finish_open [OF assms(1,2) _ _ assms(6,7) j _ opens(3,5), of cr i sl content rs1 ctx rs2 result]
    show ?thesis using ok run split opens(1,2,4) by auto
  qed
qed

section \<open>Runs of the server\<close>

text \<open>The engine answers only streams there are.\<close>

lemma outstanding_slot:
  assumes "engine_ok n m eng" and "k \<in># outstanding eng"
  shows "fst k < m"
proof -
  have cmds: "\<exists>c \<in> set (eng_commands eng). k \<in> set (command_tag c)" if "k \<notin> task_tag ` set (eng_tasks eng)"
    using that assms(2) by (auto simp: outstanding_def)
  have "command_ok m c \<Longrightarrow> k \<in> set (command_tag c) \<Longrightarrow> fst k < m" for c by (cases c) auto
  moreover have "task_ok m t \<Longrightarrow> k = task_tag t \<Longrightarrow> fst k < m" for t :: "('a, tag) task" by (cases t) auto
  ultimately show ?thesis using assms(1) cmds unfolding engine_ok_def list_all_iff by blast
qed

text \<open>A stream that has just been accepted.\<close>

lemma connected_slot_ok:
  assumes "engine_ok n m eng" and "config_ok c"
  shows "slot_ok os content_of cr eng m (slot_new c) [] []"
proof -
  have "\<not> fst k = m" if "k \<in># outstanding eng" for k using outstanding_slot [OF assms(1) that] by simp
  then have none: "filter_mset (\<lambda>k. fst k = m) (outstanding eng) = {#}" by (auto intro: multiset_eqI)
  have "ReadTask fl off len (m, r) \<notin> set (eng_tasks eng)" for fl off len r
    using assms(1) by (fastforce simp: engine_ok_def list_all_iff)
  then show ?thesis
    using assms(2) none sys_reach.start [of cr c]
    by (simp add: slot_ok_def asked_def engine_part_def uses_def pristine_def slot_new_def view_def sys_init_def
        filter_new_def bridge_new_def)
qed

lemma callback_slot_ok:
  assumes "slot_step cr sl sl'" and "slot_ok os content_of cr eng i sl content pending"
  shows "slot_ok os content_of cr eng i sl' content (pending @ requests_of (sl_outbox sl'))"
proof -
  let ?c = "fl_config (sl_filter sl)"
  have reach: "sys_reach cr ?c (view content (pending @ requests_of (sl_outbox sl')) sl')"
    using slot_step_reach [OF assms(1)] assms(2) by (simp add: slot_ok_def)
  then have config: "fl_config (sl_filter sl') = ?c"
    using reachable_ok assms(2) by (fastforce simp: slot_ok_def sys_ok_def)
  have "asked i sl' eng = asked i sl eng + mset (requests_of (sl_outbox sl'))"
    using slot_step_callback [OF assms(1)] by (simp add: asked_def)
  moreover have "engine_part content_of eng i content (uses sl' (pending @ requests_of (sl_outbox sl')))"
    using assms(2) engine_part_subset [OF _ slot_step_uses [OF assms(1)]] unfolding slot_ok_def by blast
  moreover have "origin os content_of (sl_filter sl') content" if "origin os content_of (sl_filter sl) content"
    using that by (rule origin_mono) (use slot_step_out [OF assms(1)] config in simp_all)
  moreover have "origin os content_of (sl_filter sl) content \<or> pristine sl" using assms(2) by (simp add: slot_ok_def)
  ultimately have "origin os content_of (sl_filter sl') content \<or> pristine sl'"
    using slot_step_pristine [OF assms(1)] by blast
  with \<open>asked i sl' eng = asked i sl eng + mset (requests_of (sl_outbox sl'))\<close>
    \<open>engine_part content_of eng i content (uses sl' (pending @ requests_of (sl_outbox sl')))\<close> show ?thesis using assms(2) reach config by (auto simp: slot_ok_def)
qed

text \<open>The slots of a server, one of them replaced, for an engine that has moved on.\<close>

lemma server_ok_replaced:
  assumes "i < length (sv_slots sv)" and "engine_ok n (length (sv_slots sv)) eng'" and "cache_ok os (eng_cache eng')"
    and "simulated os content_of cr eng' i sl"
    and "\<And>k. k < length (sv_slots sv) \<Longrightarrow> k \<noteq> i \<Longrightarrow> simulated os content_of cr eng' k (sv_slots sv ! k)"
  shows "server_ok os content_of cr n (sv\<lparr>sv_engine := eng', sv_slots := (sv_slots sv)[i := sl]\<rparr>)"
  using assms by (auto simp: server_ok_def nth_list_update)

lemma server_ok_parts:
  assumes "server_ok os content_of cr n sv"
  shows "engine_ok n (length (sv_slots sv)) (sv_engine sv)" and "cache_ok os (eng_cache (sv_engine sv))"
    and "i < length (sv_slots sv) \<Longrightarrow> simulated os content_of cr (sv_engine sv) i (sv_slots sv ! i)"
  using assms by (simp_all add: server_ok_def)

lemma connect_ok:
  assumes "server_ok os content_of cr n sv" and "config_ok c"
  shows "server_ok os content_of cr (Suc n) (sv\<lparr>sv_slots := sv_slots sv @ [slot_new c]\<rparr>)"
proof -
  let ?m = "length (sv_slots sv)"
  note ok = server_ok_parts [OF assms(1)]
  have "simulated os content_of cr (sv_engine sv) ?m (slot_new c)"
    using connected_slot_ok [OF ok(1) assms(2)] unfolding simulated_def by blast
  then have "simulated os content_of cr (sv_engine sv) i ((sv_slots sv @ [slot_new c]) ! i)" if "i < Suc ?m" for i
    using ok(3) [of i] that by (cases "i = ?m") (auto simp: nth_append)
  then show ?thesis using engine_ok_mono [OF ok(1), of "Suc n" "Suc ?m"] ok(2) by (simp add: server_ok_def)
qed

lemma callback_ok:
  assumes "server_ok os content_of cr n sv" and "i < length (sv_slots sv)" and "slot_step cr (sv_slots sv ! i) sl"
  shows "server_ok os content_of cr (Suc n) (sv\<lparr>sv_slots := (sv_slots sv)[i := sl]\<rparr>)"
proof -
  note ok = server_ok_parts [OF assms(1)]
  have "simulated os content_of cr (sv_engine sv) i sl"
    using ok(3) [OF assms(2)] callback_slot_ok [OF assms(3)] unfolding simulated_def by blast
  from server_ok_replaced [OF assms(2) engine_ok_mono [OF ok(1)] ok(2) this ok(3), of "Suc n"]
  show ?thesis by simp
qed

text \<open>The drop of a filter is a submission still to come; nothing of the stream's past changes.\<close>

lemma destroyed_slot_ok:
  "slot_ok os content_of cr eng i sl content pending \<Longrightarrow> sl_outbox sl = [] \<Longrightarrow>
     slot_ok os content_of cr eng i (destroyed sl) content pending"
  by (simp add: slot_ok_def asked_def uses_def pristine_def)

lemma destroy_ok:
  assumes "server_ok os content_of cr n sv" and "i < length (sv_slots sv)" and "sl_outbox (sv_slots sv ! i) = []"
  shows "server_ok os content_of cr (Suc n) (sv\<lparr>sv_slots := (sv_slots sv)[i := destroyed (sv_slots sv ! i)]\<rparr>)"
proof -
  note ok = server_ok_parts [OF assms(1)]
  have "simulated os content_of cr (sv_engine sv) i (destroyed (sv_slots sv ! i))"
    using ok(3) [OF assms(2)] destroyed_slot_ok [OF _ assms(3)] unfolding simulated_def by blast
  from server_ok_replaced [OF assms(2) engine_ok_mono [OF ok(1)] ok(2) this ok(3), of "Suc n"]
  show ?thesis by simp
qed

lemma submit_ok:
  assumes "server_ok os content_of cr n sv" and "n + 2 < 2 ^ 64" and i: "i < length (sv_slots sv)"
    and "sl_outbox (sv_slots sv ! i) = a # rest"
  shows "server_ok os content_of cr (Suc n) (sv\<lparr>sv_engine := perform i a (sv_engine sv),
    sv_slots := (sv_slots sv)[i := (sv_slots sv ! i)\<lparr>sl_outbox := rest\<rparr>]\<rparr>)"
proof -
  note ok = server_ok_parts [OF assms(1)]
  have "simulated os content_of cr (perform i a (sv_engine sv)) i ((sv_slots sv ! i)\<lparr>sl_outbox := rest\<rparr>)"
    using ok(3) [OF i] submit_own [OF ok(1) assms(2) _ assms(4)] unfolding simulated_def by blast
  moreover have "simulated os content_of cr (perform i a (sv_engine sv)) j (sv_slots sv ! j)"
    if "j < length (sv_slots sv)" "j \<noteq> i" for j
    using ok(3) [OF that(1)] submit_other [OF ok(1) assms(2)] that(2) unfolding simulated_def by metis
  ultimately show ?thesis
    by (intro server_ok_replaced [OF i engine_ok_perform [OF ok(1) i assms(2)]]) (simp_all add: cache_perform ok(2))
qed

lemma react_ok:
  assumes "server_ok os content_of cr n sv"
  shows "server_ok os content_of cr (Suc n) (sv\<lparr>sv_engine := run_reactor (sv_engine sv)\<rparr>)"
proof -
  note ok = server_ok_parts [OF assms]
  have "simulated os content_of cr (run_reactor (sv_engine sv)) i (sv_slots sv ! i)" if "i < length (sv_slots sv)" for i
    using ok(3) [OF that] react_slot_ok [OF ok(1)] unfolding simulated_def by blast
  then show ?thesis
    using engine_ok_mono [OF engine_ok_react [OF ok(1)], of "Suc n"] cache_ok_react [OF ok(2)] by (simp add: server_ok_def)
qed

lemma finish_ok:
  assumes "server_ok os content_of cr n sv" and "stable_files os content_of" and "nofollow_contract os"
    and run: "run_task os j (sv_engine sv) = (eng', [((i, r), result)])" and i: "i < length (sv_slots sv)"
    and ev: "completed r result = Some ev"
  shows "server_ok os content_of cr (Suc n) (sv\<lparr>sv_engine := fold (perform i) (delivery_actions ev (sv_slots sv ! i)) eng',
    sv_slots := (sv_slots sv)[i := delivered ev (sv_slots sv ! i)]\<rparr>)"
proof -
  let ?eng = "fold (perform i) (delivery_actions ev (sv_slots sv ! i)) eng'"
  note ok = server_ok_parts [OF assms(1)]
  obtain content pending where "slot_ok os content_of cr (sv_engine sv) i (sv_slots sv ! i) content pending"
    using ok(3) [OF i] unfolding simulated_def by blast
  from finish_own [OF ok(1) assms(2) this run ev assms(3) ok(2)]
  have "simulated os content_of cr ?eng i (delivered ev (sv_slots sv ! i))"
    using neutral_slot_ok [OF _ delivery_neutral] unfolding simulated_def by blast
  moreover have "simulated os content_of cr ?eng k (sv_slots sv ! k)" if "k < length (sv_slots sv)" "k \<noteq> i" for k
    using ok(3) [OF that(1)] finish_other [OF ok(1) run] neutral_slot_ok [OF _ delivery_neutral] that(2)
    unfolding simulated_def by metis
  moreover have "cache_ok os (eng_cache ?eng)" using cache_ok_task [OF ok(2), of j] run by (simp add: cache_performs)
  moreover have "engine_ok (Suc n) (length (sv_slots sv)) ?eng"
    using engine_ok_mono [OF engine_ok_neutral [OF engine_ok_task [OF ok(1) run] delivery_neutral]] by simp
  ultimately show ?thesis using server_ok_replaced [OF i] by blast
qed

lemma shutdown_slot_ok:
  assumes "slot_ok os content_of cr eng i sl content pending"
  shows "slot_ok os content_of cr (engine_shutdown eng) i sl content pending"
proof (rule slot_ok_engine [OF assms])
  have "outstanding (engine_shutdown eng) = outstanding eng" "eng_running (engine_shutdown eng) = eng_running eng"
    by (simp_all add: engine_shutdown_def outstanding_try_send) (simp add: try_send_def)
  then show "filter_mset (\<lambda>k. fst k = i) (outstanding (engine_shutdown eng)) \<subseteq># filter_mset (\<lambda>k. fst k = i) (outstanding eng)"
    "eng_running (engine_shutdown eng) \<Longrightarrow> eng_running eng \<and>
      filter_mset (\<lambda>k. fst k = i) (outstanding (engine_shutdown eng)) = filter_mset (\<lambda>k. fst k = i) (outstanding eng)"
    by simp_all
  have "engine_part content_of eng i content (uses sl pending)" using assms by (simp add: slot_ok_def)
  then show "engine_part content_of (engine_shutdown eng) i content (uses sl pending)"
    unfolding engine_shutdown_def by (rule engine_part_send) simp
qed

lemma shutdown_ok:
  assumes "server_ok os content_of cr n sv"
  shows "server_ok os content_of cr (Suc n) (sv\<lparr>sv_engine := engine_shutdown (sv_engine sv)\<rparr>)"
proof -
  note ok = server_ok_parts [OF assms]
  have "simulated os content_of cr (engine_shutdown (sv_engine sv)) i (sv_slots sv ! i)" if "i < length (sv_slots sv)" for i
    using ok(3) [OF that] shutdown_slot_ok unfolding simulated_def by blast
  moreover have "eng_cache (engine_shutdown (sv_engine sv)) = eng_cache (sv_engine sv)"
    by (simp add: engine_shutdown_def try_send_def)
  ultimately show ?thesis
    using engine_ok_mono [OF engine_ok_send [OF ok(1), of ShutdownCommand], of "Suc n"] ok(2)
    by (simp add: server_ok_def engine_shutdown_def)
qed

lemma server_ok_step:
  assumes "server_step os cr sv sv'" and "server_ok os content_of cr n sv" and "stable_files os content_of"
    and "nofollow_contract os" and "n + 2 < 2 ^ 64"
  shows "server_ok os content_of cr (Suc n) sv'"
  using assms(1)
  by (cases rule: server_step.cases)
     (simp_all add: connect_ok [OF assms(2)] callback_ok [OF assms(2)] destroy_ok [OF assms(2)] submit_ok [OF assms(2,5)] react_ok [OF assms(2)]
        finish_ok [OF assms(2-4)] shutdown_ok [OF assms(2)])

lemma server_reachable_ok:
  "server_run os cr n sv \<Longrightarrow> stable_files os content_of \<Longrightarrow> nofollow_contract os \<Longrightarrow> n + 1 < 2 ^ 64 \<Longrightarrow>
     server_ok os content_of cr n sv"
proof (induction rule: server_run.induct)
  case begins
  then show ?case by (simp add: server_ok_def server_init_def engine_ok_new) (simp add: engine_new_def cache_ok_Nil)
next
  case (goes_on n sv sv')
  then show ?case using server_ok_step [OF goes_on.hyps(2)] by simp
qed

end
