(* ===== verification/Server_Handles.thy ===== *)
theory Server_Handles
  imports Server_Refinement
begin

text \<open>
  File handles in the whole server. Every id of an open has at most one place: an open that is still out, a
  stream that owns the handle, or a close on its way to the reactor. The files the engine keeps open are
  exactly those with an owner or a close on its way, and a read always overtakes the close of its
  handle: so no descriptor leaks, and no read finds its file closed.
\<close>

section \<open>Places\<close>

fun close_id :: "'k command \<Rightarrow> u64 list" where
  "close_id (CloseCommand h) = [h]"
| "close_id _ = []"

definition close_ids :: "('f, 'k) engine \<Rightarrow> u64 list" where
  "close_ids eng = concat (map close_id (eng_commands eng))"

text \<open>
  What a stream owns: the file it streams from, until its filter is destroyed, opens in its mailbox, and
  drops not yet handed over.
\<close>

definition kept :: "slot \<Rightarrow> file_handle multiset" where
  "kept sl = (if sl_destroyed sl then {#} else held (fl_phase (sl_filter sl))) +
     event_handles (bridge_contents (fl_bridge (sl_filter sl)))"

lemma kept_outbox [simp]: "kept (sl\<lparr>sl_outbox := acts\<rparr>) = kept sl"
  by (simp add: kept_def)

definition owned :: "slot \<Rightarrow> file_handle multiset" where
  "owned sl = kept sl + dropped_handles (sl_outbox sl)"

definition owners :: "slot list \<Rightarrow> file_handle \<Rightarrow> nat" where
  "owners slots h = sum_list (map (\<lambda>sl. count (owned sl) h) slots)"

definition places :: "'f server \<Rightarrow> file_handle \<Rightarrow> nat" where
  "places sv h = count_list (open_ids (sv_engine sv)) h + count_list (close_ids (sv_engine sv)) h + owners (sv_slots sv) h"

text \<open>A read in a queue comes before the close of its handle, which is still owned then or closed later.\<close>

fun reads_first :: "(file_handle \<Rightarrow> bool) \<Rightarrow> 'k command list \<Rightarrow> bool" where
  "reads_first live [] \<longleftrightarrow> True"
| "reads_first live (ReadCommand h off len k # rest) \<longleftrightarrow> (h \<noteq> 0 \<longrightarrow> live h) \<and> reads_first live rest"
| "reads_first live (CloseCommand h # rest) \<longleftrightarrow> reads_first (\<lambda>h'. h' \<noteq> h \<and> live h') rest"
| "reads_first live (_ # rest) \<longleftrightarrow> reads_first live rest"

fun outbox_ok :: "file_handle multiset \<Rightarrow> action list \<Rightarrow> bool" where
  "outbox_ok M [] \<longleftrightarrow> True"
| "outbox_ok M (ReadFile h off len seq # rest) \<longleftrightarrow> h \<in># M + dropped_handles rest \<and> outbox_ok M rest"
| "outbox_ok M (_ # rest) \<longleftrightarrow> outbox_ok M rest"

definition places_ok :: "'f server \<Rightarrow> bool" where
  "places_ok sv \<longleftrightarrow> (\<forall>h. h \<noteq> 0 \<longrightarrow> places sv h \<le> 1 \<and> (0 < places sv h \<longrightarrow> unat h < unat (eng_next_id (sv_engine sv))))"

definition registered :: "('f, 'k) engine \<Rightarrow> file_handle \<Rightarrow> bool" where
  "registered eng h \<longleftrightarrow> map_of (eng_files eng) h \<noteq> None"

lemma registered_fields [simp]: "registered (eng\<lparr>eng_commands := cs, eng_tasks := ts\<rparr>) = registered eng"
  by (simp add: registered_def fun_eq_iff)

definition table_ok :: "'f server \<Rightarrow> bool" where
  "table_ok sv \<longleftrightarrow>
     (if eng_running (sv_engine sv)
      then (\<forall>h. h \<noteq> 0 \<longrightarrow> (registered (sv_engine sv) h \<longleftrightarrow>
          0 < count_list (close_ids (sv_engine sv)) h + owners (sv_slots sv) h)) \<and>
        reads_first (registered (sv_engine sv)) (eng_commands (sv_engine sv))
      else eng_commands (sv_engine sv) = [] \<and> eng_tasks (sv_engine sv) = [] \<and> eng_files (sv_engine sv) = [])"

definition slot_outbox_ok :: "slot \<Rightarrow> bool" where
  "slot_outbox_ok sl \<longleftrightarrow> outbox_ok (kept sl) (sl_outbox sl) \<and> (sl_destroyed sl \<longrightarrow> \<not> sl_alive sl)"

definition handles_ok :: "'f server \<Rightarrow> bool" where
  "handles_ok sv \<longleftrightarrow> places_ok sv \<and> table_ok sv \<and> list_all slot_outbox_ok (sv_slots sv)"

section \<open>Queues\<close>

lemma reads_first_cong:
  "(\<And>h. h \<noteq> 0 \<Longrightarrow> live h \<Longrightarrow> live' h) \<Longrightarrow> reads_first live cs \<Longrightarrow> reads_first live' cs"
  by (induction live cs arbitrary: live' rule: reads_first.induct) auto

lemma reads_first_append:
  "reads_first live (cs @ cs') \<longleftrightarrow> reads_first live cs \<and>
     reads_first (\<lambda>h. live h \<and> h \<notin> set (concat (map close_id cs))) cs'"
proof (induction live cs rule: reads_first.induct)
  case (3 live h rest)
  have "(\<lambda>h'. (h' \<noteq> h \<and> live h') \<and> h' \<notin> set (concat (map close_id rest))) =
      (\<lambda>h'. live h' \<and> h' \<notin> set (concat (map close_id (CloseCommand h # rest))))" by auto
  then show ?case using 3 by simp
qed auto

lemma reads_first_queue:
  "reads_first live (eng_commands eng @ cs) \<longleftrightarrow> reads_first live (eng_commands eng) \<and>
     reads_first (\<lambda>h. live h \<and> h \<notin> set (close_ids eng)) cs"
  unfolding reads_first_append close_ids_def by (rule refl)

lemma outbox_ok_reads:
  "(\<And>h off len seq. ReadFile h off len seq \<in> set acts \<Longrightarrow> h \<in># M) \<Longrightarrow> outbox_ok M acts"
proof (induction M acts rule: outbox_ok.induct)
  case (2 M h off len seq rest)
  then show ?case by fastforce
qed auto

lemma outbox_ok_mono: "outbox_ok M acts \<Longrightarrow> M \<subseteq># M' \<Longrightarrow> outbox_ok M' acts"
proof (induction M acts rule: outbox_ok.induct)
  case (2 M h off len seq rest)
  then show ?case by (auto dest: mset_subset_eqD)
qed auto

lemma outbox_ok_tail: "outbox_ok M (a # rest) \<Longrightarrow> outbox_ok M rest"
  by (cases a) auto

lemma owners_update:
  "i < length slots \<Longrightarrow> owners (slots[i := sl]) h + count (owned (slots ! i)) h = owners slots h + count (owned sl) h"
  unfolding owners_def
proof (induction slots arbitrary: i)
  case (Cons x slots)
  then show ?case by (cases i) auto
qed simp

lemma owner_counts: "i < length slots \<Longrightarrow> count (owned (slots ! i)) h \<le> owners slots h"
  unfolding owners_def using elem_le_sum_list [of i "map (\<lambda>sl. count (owned sl) h) slots"] by simp

section \<open>The steps of a stream\<close>

lemma step_destroyed: "slot_step cr sl sl' \<Longrightarrow> sl_alive sl \<and> sl_destroyed sl' = sl_destroyed sl"
  by (cases rule: slot_step.cases) (auto simp: moved_def Let_def)

lemma callback_owned:
  assumes "slot_step cr sl sl'" and "slot_outbox_ok sl"
  shows "owned sl' = owned sl"
proof -
  have "sl_outbox sl = [] \<and> handles (sl_filter sl') = handles (sl_filter sl)"
    using slot_step_callback [OF assms(1), of "[]" "[]"] callback_step by fastforce
  moreover have "\<not> sl_destroyed sl" "\<not> sl_destroyed sl'"
    using step_destroyed [OF assms(1)] assms(2) by (simp_all add: slot_outbox_ok_def)
  ultimately show ?thesis
    using slot_step_out [OF assms(1)] by (simp add: handles_def owned_def kept_def ac_simps)
qed

lemma callback_outbox:
  assumes "slot_step cr sl sl'" and "slot_outbox_ok sl"
  shows "slot_outbox_ok sl'"
proof -
  have alive: "\<not> sl_destroyed sl'" using step_destroyed [OF assms(1)] assms(2) by (simp add: slot_outbox_ok_def)
  have "h \<in># kept sl'" if "ReadFile h off len seq \<in> set (sl_outbox sl')" for h off len seq
  proof -
    have "held (fl_phase (sl_filter sl')) = {#h#}"
      using callback_issues [OF assms(1)] slot_step_out [OF assms(1)] that by (auto simp: issues_def)
    then show ?thesis using alive by (simp add: kept_def)
  qed
  then have "outbox_ok (kept sl') (sl_outbox sl')" by (rule outbox_ok_reads)
  then show ?thesis using alive by (simp add: slot_outbox_ok_def)
qed

text \<open>Destroying a filter only moves its handle to the drops.\<close>

lemma drop_handles_held [simp]: "dropped_handles (filter_drop fl) = held (fl_phase fl)"
  by (simp add: filter_drop_def)

lemma destroyed_owned:
  assumes "\<not> sl_destroyed sl" and "sl_outbox sl = []"
  shows "owned (destroyed sl) = owned sl"
  using assms by (simp add: owned_def kept_def)

lemma destroyed_outbox:
  assumes "\<not> sl_alive sl"
  shows "slot_outbox_ok (destroyed sl)"
proof -
  have "outbox_ok M (filter_drop fl)" for M fl unfolding filter_drop_def by (cases "fl_phase fl") simp_all
  then show ?thesis using assms by (simp add: slot_outbox_ok_def)
qed

lemma delivered_destroyed [simp]: "sl_destroyed (delivered ev sl) = sl_destroyed sl"
  by (simp add: delivered_def Let_def)

lemma delivered_owned: "owned (delivered ev sl) + dropped_handles (delivery_actions ev sl) = owned sl + event_handle ev"
proof -
  obtain acts where "fl_out (deliver ev (sl_filter sl)) = fl_out (sl_filter sl) @ acts"
    using deliver_frame [of ev "sl_filter sl"] by blast
  then show ?thesis
    using handles_deliver [of ev "sl_filter sl"] delivered_fields [of ev sl]
    by (simp add: handles_def owned_def kept_def delivered_def delivery_actions_def new_actions_def Let_def ac_simps)
qed

section \<open>The steps of the server\<close>

text \<open>What a submission does to the ids in the engine's queues.\<close>

lemma send_ids:
  "open_ids (try_send c eng) = (if eng_running eng
     then concat (map command_id (eng_commands eng)) @ command_id c @ concat (map task_id (eng_tasks eng)) else open_ids eng)"
  "close_ids (try_send c eng) = close_ids eng @ (if eng_running eng then close_id c else [])"
  by (simp_all add: open_ids_def close_ids_def try_send_def)

lemma send_counts:
  "count_list (open_ids (try_send c eng)) h = count_list (open_ids eng) h + (if eng_running eng then count_list (command_id c) h else 0)"
  "count_list (close_ids (try_send c eng)) h = count_list (close_ids eng) h + (if eng_running eng then count_list (close_id c) h else 0)"
  by (simp_all add: open_ids_def close_ids_def try_send_def)

lemma send_fields:
  "eng_running (try_send c eng) = eng_running eng" "registered (try_send c eng) = registered eng"
  "eng_next_id (try_send c eng) = eng_next_id eng" "eng_tasks (try_send c eng) = eng_tasks eng"
  "eng_files (try_send c eng) = eng_files eng"
  "eng_commands (try_send c eng) = eng_commands eng @ (if eng_running eng then [c] else [])"
  by (simp_all add: try_send_def registered_def fun_eq_iff)

lemma places_ok_fewer:
  "places_ok sv \<Longrightarrow> (\<And>h. h \<noteq> 0 \<Longrightarrow> places sv' h \<le> places sv h) \<Longrightarrow>
     eng_next_id (sv_engine sv') = eng_next_id (sv_engine sv) \<Longrightarrow> places_ok sv'"
  unfolding places_ok_def by (metis le_trans less_le_trans)

lemma slots_updated: "list_all P xs \<Longrightarrow> P x \<Longrightarrow> list_all P (xs[i := x])"
  by (cases "i < length xs") (auto simp: list_all_length nth_list_update)

text \<open>A command for which the order is right joins the queue.\<close>

lemma handles_ok_send:
  assumes ok: "handles_ok sv" and "command_id c = []" and i: "i < length (sv_slots sv)"
    and less: "\<And>h. h \<noteq> 0 \<Longrightarrow> count (owned sl) h \<le> count (owned (sv_slots sv ! i)) h"
    and closed: "\<And>h. h \<noteq> 0 \<Longrightarrow> eng_running (sv_engine sv) \<Longrightarrow>
      count_list (close_id c) h + count (owned sl) h = count (owned (sv_slots sv ! i)) h"
    and order: "eng_running (sv_engine sv) \<Longrightarrow>
      reads_first (\<lambda>h. registered (sv_engine sv) h \<and> h \<notin> set (close_ids (sv_engine sv))) [c]"
    and "slot_outbox_ok sl"
  shows "handles_ok (sv\<lparr>sv_engine := try_send c (sv_engine sv), sv_slots := (sv_slots sv)[i := sl]\<rparr>)" (is "handles_ok ?sv'")
proof -
  let ?e = "sv_engine sv"
  have fewer: "owners ((sv_slots sv)[i := sl]) h \<le> owners (sv_slots sv) h" if "h \<noteq> 0" for h
    using owners_update [OF i, of sl h] less [OF that] by simp
  have same: "count_list (close_ids (try_send c ?e)) h + owners ((sv_slots sv)[i := sl]) h =
      count_list (close_ids ?e) h + owners (sv_slots sv) h" if "h \<noteq> 0" "eng_running ?e" for h
    using owners_update [OF i, of sl h] closed [OF that] that(2) by (simp add: send_counts)
  have "places_ok ?sv'"
  proof (rule places_ok_fewer)
    show "places ?sv' h \<le> places sv h" if "h \<noteq> 0" for h
      using fewer [OF that] same [OF that] assms(2)
      by (cases "eng_running ?e") (simp_all add: places_def send_counts)
  qed (use ok in \<open>simp_all add: handles_ok_def send_fields\<close>)
  moreover have "table_ok ?sv'"
  proof (cases "eng_running ?e")
    case True
    then have "\<forall>h. h \<noteq> 0 \<longrightarrow> registered ?e h = (0 < count_list (close_ids (try_send c ?e)) h + owners ((sv_slots sv)[i := sl]) h)"
      using ok same by (simp add: handles_ok_def table_ok_def)
    then show ?thesis
      using ok order True by (simp add: handles_ok_def table_ok_def send_fields reads_first_queue)
  qed (use ok in \<open>simp add: handles_ok_def table_ok_def send_fields\<close>)
  ultimately show ?thesis using ok assms(7) by (simp add: handles_ok_def slots_updated)
qed

text \<open>A new open gets an id that has no place yet.\<close>

lemma handles_ok_open:
  assumes ok: "handles_ok sv" and eng: "engine_ok n m (sv_engine sv)" and n: "n + 2 < 2 ^ 64"
  shows "handles_ok (sv\<lparr>sv_engine := engine_open_stat req k (sv_engine sv)\<rparr>)" (is "handles_ok ?sv'")
proof -
  let ?e = "sv_engine sv" and ?e' = "engine_open_stat req k (sv_engine sv)"
  let ?h = "eng_next_id ?e"
  have "?h \<noteq> 0" using eng by (auto simp: engine_ok_def)
  then have "0 < places sv ?h \<longrightarrow> unat ?h < unat ?h" using ok unfolding handles_ok_def places_ok_def by blast
  then have fresh: "places sv ?h = 0" by simp
  have after: "unat (?h + 1) = unat ?h + 1" using eng n unat_plus_u64 [of ?h 1] by (simp add: engine_ok_def)
  have e': "eng_next_id ?e' = ?h + 1" "eng_running ?e' = eng_running ?e" "registered ?e' = registered ?e"
    "close_ids ?e' = close_ids ?e" "eng_files ?e' = eng_files ?e" "eng_tasks ?e' = eng_tasks ?e"
    "eng_commands ?e' = eng_commands ?e @ (if eng_running ?e then [OpenCommand ?h req k] else [])"
    "count_list (open_ids ?e') h = count_list (open_ids ?e) h + (if eng_running ?e \<and> h = ?h then 1 else 0)" for h
    by (simp_all add: engine_open_stat_def try_send_def registered_def fun_eq_iff close_ids_def open_ids_def)
  have places: "places ?sv' h = places sv h + (if eng_running ?e \<and> h = ?h then 1 else 0)" for h
    by (simp add: places_def e')
  have "places_ok ?sv'" unfolding places_ok_def
  proof (intro allI impI)
    fix h :: u64 assume "h \<noteq> 0"
    then have old: "places sv h \<le> 1" "0 < places sv h \<longrightarrow> unat h < unat ?h"
      using ok unfolding handles_ok_def places_ok_def by blast+
    show "places ?sv' h \<le> 1 \<and> (0 < places ?sv' h \<longrightarrow> unat h < unat (eng_next_id (sv_engine ?sv')))"
      using old fresh after unfolding places by (cases "h = ?h") (auto simp: e'(1))
  qed
  moreover have "table_ok ?sv'"
  proof (cases "eng_running ?e")
    case True
    then show ?thesis using ok by (simp add: handles_ok_def table_ok_def e' reads_first_queue)
  qed (use ok in \<open>simp add: handles_ok_def table_ok_def e'\<close>)
  ultimately show ?thesis using ok by (simp add: handles_ok_def)
qed

lemma handles_ok_pop:
  assumes ok: "handles_ok sv" and i: "i < length (sv_slots sv)" and "owned (sv_slots sv ! i) = owned sl + dropped_handle a"
    and "slot_outbox_ok sl" and "\<And>h. h \<noteq> 0 \<Longrightarrow> h \<notin># dropped_handle a"
  shows "handles_ok (sv\<lparr>sv_slots := (sv_slots sv)[i := sl]\<rparr>)"
proof -
  have "owners ((sv_slots sv)[i := sl]) h = owners (sv_slots sv) h" if "h \<noteq> 0" for h
    using owners_update [OF i, of sl h] assms(3) assms(5) [OF that] by (simp add: not_in_iff)
  then show ?thesis
    using ok assms(4) slots_updated by (auto simp: handles_ok_def places_ok_def places_def table_ok_def)
qed

text \<open>What a stream owns is in the engine's table, and no close of it is under way.\<close>

lemma owned_registered:
  assumes ok: "handles_ok sv" and i: "i < length (sv_slots sv)" and "h \<in># owned (sv_slots sv ! i)"
    and "h \<noteq> 0" and "eng_running (sv_engine sv)"
  shows "registered (sv_engine sv) h \<and> h \<notin> set (close_ids (sv_engine sv))"
proof -
  have "0 < owners (sv_slots sv) h"
    using owner_counts [OF i, of h] assms(3) by (simp add: count_greater_zero_iff [symmetric] del: count_greater_zero_iff)
  moreover have "places sv h \<le> 1"
    "registered (sv_engine sv) h \<longleftrightarrow> 0 < count_list (close_ids (sv_engine sv)) h + owners (sv_slots sv) h"
    using ok assms(4,5) by (simp_all add: handles_ok_def places_ok_def table_ok_def)
  ultimately show ?thesis by (auto simp: places_def count_list_0_iff [symmetric])
qed

lemma submit_handles_ok:
  assumes ok: "handles_ok sv" and eng: "engine_ok n m (sv_engine sv)" and n: "n + 2 < 2 ^ 64"
    and i: "i < length (sv_slots sv)" and out: "sl_outbox (sv_slots sv ! i) = a # rest"
  shows "handles_ok (sv\<lparr>sv_engine := perform i a (sv_engine sv),
    sv_slots := (sv_slots sv)[i := (sv_slots sv ! i)\<lparr>sl_outbox := rest\<rparr>]\<rparr>)"
proof -
  let ?e = "sv_engine sv" and ?sl = "sv_slots sv ! i" and ?sl' = "(sv_slots sv ! i)\<lparr>sl_outbox := rest\<rparr>"
  have own: "owned ?sl = owned ?sl' + dropped_handle a" using out by (simp add: owned_def ac_simps)
  have "slot_outbox_ok ?sl" using ok i by (simp add: handles_ok_def list_all_length)
  then have box: "slot_outbox_ok ?sl'" using outbox_ok_tail [of "kept ?sl" a rest] out by (simp add: slot_outbox_ok_def)
  have sent: "handles_ok (sv\<lparr>sv_engine := try_send c ?e, sv_slots := (sv_slots sv)[i := ?sl']\<rparr>)"
    if "command_id c = []" "close_id c = []" "dropped_handle a = {#}"
      "eng_running ?e \<Longrightarrow> reads_first (\<lambda>h. registered ?e h \<and> h \<notin> set (close_ids ?e)) [c]" for c
    by (rule handles_ok_send [OF ok that(1) i _ _ that(4) box]) (use own that(2,3) in simp_all)
  note still = handles_ok_pop [OF ok i own box]
  show ?thesis
  proof (cases a)
    case (OpenFile req ctx)
    have "handles_ok (sv\<lparr>sv_slots := (sv_slots sv)[i := ?sl']\<rparr>)" using still OpenFile by simp
    from handles_ok_open [OF this _ n, of m req "(i, ROpen req ctx)"] show ?thesis
      using OpenFile eng by (cases sv) simp
  next
    case (ReadFile h off len seq)
    have "h \<in># owned ?sl" using \<open>slot_outbox_ok ?sl\<close> out ReadFile by (auto simp: slot_outbox_ok_def owned_def)
    then show ?thesis
      using owned_registered [OF ok i, of h] sent [of "ReadCommand h off len (i, RRead h off len seq)"] ReadFile by (simp add: engine_read_def)
  next
    case (DropFile h)
    show ?thesis
    proof (cases "h = 0")
      case True
      then show ?thesis using still DropFile by (simp add: drop_handle_def)
    next
      case False
      have "handles_ok (sv\<lparr>sv_engine := try_send (CloseCommand h) ?e, sv_slots := (sv_slots sv)[i := ?sl']\<rparr>)"
        by (rule handles_ok_send [OF ok _ i _ _ _ box]) (use own DropFile in simp_all)
      then show ?thesis using DropFile False by (simp add: drop_handle_def)
    qed
  next
    case (ReadDirectory p)
    then show ?thesis using sent [of "ReadDirCommand p (i, RDir p)"] by (simp add: engine_read_dir_def)
  qed (use still in simp_all)
qed

lemma submit_all_handles_ok:
  assumes "handles_ok (sv\<lparr>sv_engine := eng, sv_slots := (sv_slots sv)[i := sl\<lparr>sl_outbox := acts @ rest\<rparr>]\<rparr>)"
    and "engine_ok n m eng" and "n + 2 < 2 ^ 64" and "i < length (sv_slots sv)" and "list_all neutral_action acts"
  shows "handles_ok (sv\<lparr>sv_engine := fold (perform i) acts eng, sv_slots := (sv_slots sv)[i := sl\<lparr>sl_outbox := rest\<rparr>]\<rparr>)"
  using assms
proof (induction acts arbitrary: eng)
  case (Cons a acts)
  let ?sv = "sv\<lparr>sv_engine := eng, sv_slots := (sv_slots sv)[i := sl\<lparr>sl_outbox := a # acts @ rest\<rparr>]\<rparr>"
  have "handles_ok (?sv\<lparr>sv_engine := perform i a (sv_engine ?sv),
      sv_slots := (sv_slots ?sv)[i := (sv_slots ?sv ! i)\<lparr>sl_outbox := acts @ rest\<rparr>]\<rparr>)"
    by (rule submit_handles_ok [of _ n m]) (use Cons.prems in simp_all)
  then have "handles_ok (sv\<lparr>sv_engine := perform i a eng, sv_slots := (sv_slots sv)[i := sl\<lparr>sl_outbox := acts @ rest\<rparr>]\<rparr>)"
    using Cons.prems(4) by simp
  moreover have "engine_ok n m (perform i a eng)"
    using engine_ok_neutral [OF Cons.prems(2), of "[a]" i] Cons.prems(5) by simp
  ultimately show ?case using Cons by simp
qed simp

lemma react_handles_ok:
  assumes ok: "handles_ok sv" and eng: "engine_ok n m (sv_engine sv)"
  shows "handles_ok (sv\<lparr>sv_engine := run_reactor (sv_engine sv)\<rparr>)" (is "handles_ok ?sv'")
proof (cases "eng_running (sv_engine sv) \<and> eng_commands (sv_engine sv) \<noteq> []")
  case False
  then have "run_reactor (sv_engine sv) = sv_engine sv" by (auto simp: run_reactor_def split: list.split)
  then show ?thesis using ok by simp
next
  case True
  let ?e = "sv_engine sv"
  obtain c rest where c: "eng_commands ?e = c # rest" using True by (cases "eng_commands ?e") auto
  have parts: "places_ok sv" "table_ok sv" "list_all slot_outbox_ok (sv_slots sv)" using ok by (simp_all add: handles_ok_def)
  have fewer: "places ?sv' h \<le> places sv h" for h
    using True c by (cases c) (auto simp: places_def run_reactor_def open_ids_def close_ids_def)
  have "eng_next_id (run_reactor ?e) = eng_next_id ?e" using True c by (cases c) (simp_all add: run_reactor_def)
  then have "places_ok ?sv'" using places_ok_fewer [OF parts(1) fewer] by simp
  moreover have "table_ok ?sv'"
  proof (cases c)
    case (CloseCommand h)
    have "h \<noteq> 0" using eng c CloseCommand by (simp add: engine_ok_def)
    then have "places sv h \<le> 1" using parts(1) unfolding places_ok_def by blast
    then have none: "count_list (close_ids (run_reactor ?e)) h + owners (sv_slots sv) h = 0"
      using True c CloseCommand by (simp add: places_def run_reactor_def close_ids_def)
    have reg: "registered (run_reactor ?e) h' = (h' \<noteq> h \<and> registered ?e h')" for h'
      using True c CloseCommand by (auto simp: run_reactor_def registered_def map_of_delete)
    have counts: "count_list (close_ids ?e) h' = count_list (close_ids (run_reactor ?e)) h' + (if h' = h then 1 else 0)" for h'
      using True c CloseCommand by (simp add: run_reactor_def close_ids_def)
    have "registered (run_reactor ?e) h' \<longleftrightarrow> 0 < count_list (close_ids (run_reactor ?e)) h' + owners (sv_slots sv) h'"
      if "h' \<noteq> 0" for h'
      using parts(2) that True counts [of h'] none reg [of h'] by (cases "h' = h") (auto simp: table_ok_def)
    moreover have "reads_first (registered (run_reactor ?e)) rest"
      using parts(2) True c CloseCommand by (simp add: table_ok_def reg [abs_def])
    ultimately show ?thesis
      using True c CloseCommand by (simp add: table_ok_def) (simp add: run_reactor_def)
  qed (use parts(2) True c in \<open>auto simp: table_ok_def run_reactor_def close_ids_def\<close>)
  ultimately show ?thesis using parts(3) by (simp add: handles_ok_def)
qed

lemma delivered_outbox:
  assumes "slot_outbox_ok sl"
  shows "slot_outbox_ok ((delivered ev sl)\<lparr>sl_outbox := delivery_actions ev sl @ sl_outbox sl\<rparr>)"
proof -
  have more: "outbox_ok M acts \<Longrightarrow> list_all neutral_action acts' \<Longrightarrow> outbox_ok M (acts' @ acts)" for M acts acts'
  proof (induction acts')
    case (Cons a acts')
    then show ?case by (cases a) auto
  qed simp
  have "event_handles (bridge_contents (fl_bridge (sl_filter sl))) \<subseteq>#
      event_handles (bridge_contents (fl_bridge (sl_filter (delivered ev sl))))"
    by (cases "fl_bridge (sl_filter sl)") (simp_all add: delivered_def deliver_def emit_def Let_def)
  then have "kept sl \<subseteq># kept (delivered ev sl)" by (simp add: kept_def delivered_fields)
  then have "outbox_ok (kept (delivered ev sl)) (delivery_actions ev sl @ sl_outbox sl)"
    using assms by (intro more [OF outbox_ok_mono delivery_neutral]) (simp_all add: slot_outbox_ok_def)
  then show ?thesis using assms by (simp add: slot_outbox_ok_def delivered_fields)
qed

text \<open>A finished task hands over at most the handle it was to register, and has registered what it hands over.\<close>

lemma finished_registers:
  assumes "engine_ok n m eng" and "run_task os j eng = (eng', [((i, r), result)])" and "completed r result = Some ev" and "h \<noteq> 0"
  shows "count (event_handle ev) h \<le> count_list (task_id (eng_tasks eng ! j)) h \<and>
    (registered eng' h \<longleftrightarrow> registered eng h \<or> h \<in># event_handle ev)"
  using assms(1-3)
proof (cases rule: finished_task)
  case (opens hid req ctx res files cache)
  from open_stat_files [OF opens(3)] show ?thesis
    using opens(2,4,5) assms(4) by (auto simp: open_event_def registered_def map_of_update split: sum.splits)
qed (simp_all add: registered_def)

lemma finish_handles_ok:
  assumes ok: "handles_ok sv" and eng: "engine_ok n m (sv_engine sv)" and n: "n + 2 < 2 ^ 64"
    and run: "run_task os j (sv_engine sv) = (eng', [((i, r), result)])" and i: "i < length (sv_slots sv)"
    and ev: "completed r result = Some ev"
  shows "handles_ok (sv\<lparr>sv_engine := fold (perform i) (delivery_actions ev (sv_slots sv ! i)) eng',
      sv_slots := (sv_slots sv)[i := delivered ev (sv_slots sv ! i)]\<rparr>)"
proof -
  let ?e = "sv_engine sv" and ?sl = "sv_slots sv ! i"
  define sl where "sl = (delivered ev ?sl)\<lparr>sl_outbox := delivery_actions ev ?sl @ sl_outbox ?sl\<rparr>"
  let ?sv = "sv\<lparr>sv_engine := eng', sv_slots := (sv_slots sv)[i := sl]\<rparr>"
  have j: "j < length (eng_tasks ?e)" using run by (auto simp: run_task_def split: if_splits)
  have parts: "places_ok sv" "table_ok sv" "list_all slot_outbox_ok (sv_slots sv)" using ok by (simp_all add: handles_ok_def)
  have running: "eng_running ?e" using parts(2) j by (auto simp: table_ok_def split: if_splits)
  have "owned sl = owned ?sl + event_handle ev"
    using delivered_owned [of ev ?sl] by (simp add: sl_def owned_def delivered_fields ac_simps)
  then have owners: "owners ((sv_slots sv)[i := sl]) h = owners (sv_slots sv) h + count (event_handle ev) h" for h
    using owners_update [OF i, of sl h] by simp
  have "slot_outbox_ok sl" unfolding sl_def using parts(3) i by (intro delivered_outbox) (simp add: list_all_length)
  then have boxes: "list_all slot_outbox_ok (sv_slots ?sv)" using parts(3) by (simp add: slots_updated)
  have same: "eng_commands eng' = eng_commands ?e" "eng_next_id eng' = eng_next_id ?e" "eng_running eng'"
    "eng_tasks eng' = take j (eng_tasks ?e) @ drop (Suc j) (eng_tasks ?e)"
    using eng run ev running by (cases rule: finished_task; simp)+
  have ids: "count_list (open_ids ?e) h = count_list (task_id (eng_tasks ?e ! j)) h + count_list (open_ids eng') h" for h
    using arg_cong [OF task_ids [OF j], of "\<lambda>M. count M h"] by (simp add: open_ids_def same flip: count_mset)
  note found = finished_registers [OF eng run ev]
  have "places_ok ?sv"
  proof (rule places_ok_fewer [OF parts(1)])
    show "places ?sv h \<le> places sv h" if "h \<noteq> 0" for h
      using found [OF that] ids [of h] by (simp add: places_def owners close_ids_def same)
  qed (simp add: same)
  moreover have "table_ok ?sv"
  proof -
    have "registered eng' h \<longleftrightarrow> 0 < count_list (close_ids eng') h + owners ((sv_slots sv)[i := sl]) h" if "h \<noteq> 0" for h
      using parts(2) running found [OF that] that by (auto simp: table_ok_def owners close_ids_def same)
    moreover have "reads_first (registered ?e) (eng_commands eng')"
      using parts(2) running by (simp add: table_ok_def same)
    then have "reads_first (registered eng') (eng_commands eng')"
      by (rule reads_first_cong [rotated]) (use found in blast)
    ultimately show ?thesis using same(3) by (simp add: table_ok_def)
  qed
  ultimately have "handles_ok ?sv" using boxes by (simp add: handles_ok_def)
  then have "handles_ok (sv\<lparr>sv_engine := fold (perform i) (delivery_actions ev ?sl) eng',
      sv_slots := (sv_slots sv)[i := (delivered ev ?sl)\<lparr>sl_outbox := sl_outbox ?sl\<rparr>]\<rparr>)"
    unfolding sl_def by (rule submit_all_handles_ok [OF _ engine_ok_task [OF eng run] n i delivery_neutral])
  then show ?thesis by (simp add: delivered_fields(1) [of ev ?sl, symmetric])
qed

text \<open>A step of one stream that moves no handle.\<close>

lemma same_owned:
  assumes "handles_ok sv" and "i < length (sv_slots sv)" and "owned sl = owned (sv_slots sv ! i)" and "slot_outbox_ok sl"
  shows "handles_ok (sv\<lparr>sv_slots := (sv_slots sv)[i := sl]\<rparr>)"
proof -
  have "owners ((sv_slots sv)[i := sl]) h = owners (sv_slots sv) h" for h
    using owners_update [OF assms(2), of sl h] assms(3) by simp
  then show ?thesis
    using assms(1,4) by (simp add: handles_ok_def places_ok_def places_def table_ok_def slots_updated)
qed

lemma handles_ok_step:
  assumes "server_step os cr sv sv'" and ok: "handles_ok sv" and eng: "engine_ok n (length (sv_slots sv)) (sv_engine sv)"
    and n: "n + 2 < 2 ^ 64"
  shows "handles_ok sv'"
  using assms(1)
proof (cases rule: server_step.cases)
  case (connect c)
  have "owned (slot_new c) = {#}" by (simp add: owned_def kept_def slot_new_def filter_new_def bridge_new_def)
  then have "owners (sv_slots sv @ [slot_new c]) h = owners (sv_slots sv) h" for h by (simp add: owners_def)
  moreover have "slot_outbox_ok (slot_new c)" by (simp add: slot_outbox_ok_def slot_new_def)
  ultimately show ?thesis using ok connect by (simp add: handles_ok_def places_ok_def places_def table_ok_def)
next
  case (callback i sl)
  have "slot_outbox_ok (sv_slots sv ! i)" using ok callback(2) by (simp add: handles_ok_def list_all_length)
  then show ?thesis
    using same_owned [OF ok callback(2) callback_owned [OF callback(3)] callback_outbox [OF callback(3)]] callback(1) by simp
next
  case (destroy i)
  then show ?thesis using same_owned [OF ok destroy(2) destroyed_owned destroyed_outbox] by simp
next
  case (submit i a rest)
  then show ?thesis using submit_handles_ok [OF ok eng n] by simp
next
  case react
  then show ?thesis using react_handles_ok [OF ok eng] by simp
next
  case (finish j eng' i r result ev)
  then show ?thesis using finish_handles_ok [OF ok eng n] by simp
next
  case shutdown
  have "places (sv\<lparr>sv_engine := engine_shutdown (sv_engine sv)\<rparr>) h = places sv h" for h
    by (simp add: places_def engine_shutdown_def send_counts)
  moreover have "count_list (close_ids (engine_shutdown (sv_engine sv))) h = count_list (close_ids (sv_engine sv)) h" for h
    by (simp add: engine_shutdown_def send_counts)
  ultimately show ?thesis
    using ok shutdown
    by (simp add: handles_ok_def places_ok_def table_ok_def) (simp add: engine_shutdown_def send_fields reads_first_append)
qed

lemma server_reachable_handles:
  assumes "server_run os cr n sv" and "stable_files os content_of" and "nofollow_contract os" and "n + 1 < 2 ^ 64"
  shows "handles_ok sv"
  using assms
proof (induction rule: server_run.induct)
  case begins
  then show ?case
    by (simp add: handles_ok_def places_ok_def places_def table_ok_def server_init_def engine_new_def owners_def
        open_ids_def close_ids_def registered_def)
next
  case (goes_on n sv sv')
  then have "server_ok os content_of cr n sv" using server_reachable_ok [OF goes_on.hyps(1)] by simp
  then show ?case
    using goes_on.IH goes_on.prems handles_ok_step [OF goes_on.hyps(2), of n] by (simp add: server_ok_def)
qed

section \<open>The files of the engine\<close>

lemma close_ids_iff: "0 < count_list (close_ids eng) h \<longleftrightarrow> CloseCommand h \<in> set (eng_commands eng)"
proof -
  have "h \<in> set (concat (map close_id cs)) \<longleftrightarrow> CloseCommand h \<in> set cs" for cs :: "'k command list"
  proof (induction cs)
    case (Cons c cs)
    then show ?case by (cases c) auto
  qed simp
  then show ?thesis by (metis close_ids_def count_list_0_iff neq0_conv)
qed

lemma owners_iff: "0 < owners slots h \<longleftrightarrow> (\<exists>sl \<in> set slots. h \<in># owned sl)"
  by (induction slots) (auto simp: owners_def)

lemma registered_owned:
  assumes "handles_ok sv" and "eng_running (sv_engine sv)" and "h \<noteq> 0"
  shows "registered (sv_engine sv) h \<longleftrightarrow>
    CloseCommand h \<in> set (eng_commands (sv_engine sv)) \<or> (\<exists>sl \<in> set (sv_slots sv). h \<in># owned sl)"
  using assms close_ids_iff [of "sv_engine sv" h] owners_iff [of "sv_slots sv" h]
  by (simp add: handles_ok_def table_ok_def)

text \<open>The mailbox of an ended stream is closed, so a destroyed filter that has handed over its drops owns nothing.\<close>

lemma destroyed_owns_nothing:
  assumes "server_ok os content_of cr n sv" and "handles_ok sv" and "sl \<in> set (sv_slots sv)"
    and "sl_destroyed sl \<and> sl_outbox sl = []"
  shows "owned sl = {#}"
proof -
  obtain i where i: "i < length (sv_slots sv)" "sl = sv_slots sv ! i" using assms(3) by (auto simp: in_set_conv_nth)
  obtain content pending where "slot_ok os content_of cr (sv_engine sv) i sl content pending"
    using server_ok_parts(3) [OF assms(1) i(1)] i(2) unfolding simulated_def by blast
  then have "sys_reach cr (fl_config (sl_filter sl)) (view content pending sl)" by (simp add: slot_ok_def)
  moreover have "\<not> sl_alive sl" using assms(2-4) by (auto simp: handles_ok_def slot_outbox_ok_def list_all_iff)
  ultimately have "fl_bridge (sl_filter sl) = Closed" using closed_after_end by fastforce
  then show ?thesis using assms(4) by (simp add: owned_def kept_def)
qed

end
