(* ===== verification/Server_Sample.thy ===== *)
theory Server_Sample
  imports Server_Handles
begin

text \<open>
  A run of the whole server for closed examples: one stream gets a page of 5000 bytes in chunks of 4096,
  so that the first is prefetched by the open and the second is read from the engine (the first as well,
  a second time: see \<open>Stream_Window\<close>).
\<close>

definition page :: bytes where
  "page = replicate 5000 (CHR ''x'')"

lemma page_length [simp]: "length page = 5000"
  by (simp add: page_def)

definition page_os :: "unit os_calls" where
  "page_os = sample_os\<lparr>os_metadata_of := \<lambda>_. Inr \<lparr>md_len = 5000, md_is_dir = False, md_modified = Inr (7, 0)\<rparr>,
     os_pread := \<lambda>_ i off n. Inr (slice page (unat off) n)\<rparr>"

definition page_stat :: file_stat where
  "page_stat = \<lparr>st_size = 5000, st_mtime_unix = 7, st_mtime_nanos = 0, st_is_dir = False\<rparr>"

definition page_headers :: "header list" where
  "page_headers = [(''content-type'', ''application/octet-stream''), (''accept-ranges'', ''bytes''),
     (''content-length'', ''5000'')]"

definition small_config :: config where
  "small_config = sample_config\<lparr>cfg_chunk_size := 4096\<rparr>"

definition small_request :: open_request where
  "small_request = \<lparr>or_path = ''/srv/a'', or_containment_root = Some ''/srv'', or_deny_symlinks = False,
     or_prefetch_len = 4096\<rparr>"

definition small_filter :: "phase \<Rightarrow> io_event bridge \<Rightarrow> action list \<Rightarrow> stream_filter" where
  "small_filter p b out = \<lparr>fl_config = small_config, fl_bridge = b, fl_waker = True,
     fl_request = Some sample_rd, fl_phase = p, fl_out = out\<rparr>"

definition small_chunks :: "chunk list" where
  "small_chunks = [FileChunk 0 4096, FileChunk 4096 904]"

definition small_streaming :: streaming where
  "small_streaming = \<lparr>sm_handle = 1, sm_chunks = small_chunks, sm_ready = [], sm_next_send = 1,
     sm_issue_cursor = 2, sm_inflight = 2, sm_watermark_depth = 0\<rparr>"

definition small_start :: "action list" where
  "small_start = [OpenFile small_request sample_ctx, Commit]"

definition small_answer :: "action list" where
  "small_answer = [SendHeaders (('':status'', ''200'') # page_headers) False, SendData (take 4096 page) False,
     ReadFile 1 0 4096 0, ReadFile 1 4096 904 1]"

lemma small_config_ok: "config_ok small_config"
  by (simp add: small_config_def config_ok_def sample_config_def default_config_def)

lemma small_requested: "on_request_headers sample_cr sample_get (filter_new small_config) =
    Some (small_filter (ResolvingFile []) Empty [OpenFile small_request sample_ctx])"
proof -
  have fields: "cfg_strip_prefix small_config = None" "cfg_serve_dotfiles small_config = False"
    "cfg_root small_config = ''/srv''" "cfg_follow_symlinks_within_root small_config"
    "cfg_chunk_size small_config = 4096" "cr_percent_decode sample_cr = Some"
    by (simp_all add: small_config_def sample_config_def default_config_def sample_cr_def)
  have "build_file_candidates sample_cr small_config ''a'' False None = build_file_candidates sample_cr sample_config ''a'' False None"
    by (simp add: build_file_candidates_def small_config_def)
  then show ?thesis
    by (simp add: on_request_headers_def sample_headers raw_empty_def filter_new_def fields sample_resolve
        sample_candidates open_next_candidate_def submit_open_def set_phase_def emit_def small_filter_def
        bridge_new_def small_request_def sample_ctx_def sample_rd_def)
qed

lemma small_chunks: "file_chunks small_config 0 5000 = Some small_chunks"
  by (simp add: file_chunks_def small_config_def small_chunks_def file_chunks_loop.simps min_def)

lemma page_plan: "plan_response sample_crate (request_facts_of small_config sample_rd page_stat sample_ctx)
    (file_meta_of page_stat) =
    Some \<lparr>plan_status = 200, plan_headers = page_headers, plan_body = WholeBody 5000\<rparr>"
proof -
  define facts where "facts = request_facts_of small_config sample_rd page_stat sample_ctx"
  have facts: "rf_range_header facts = None" "rf_conditionals facts = no_conditionals" "\<not> rf_etag_enabled facts"
    "\<not> rf_last_modified_enabled facts" "rf_content_encoding facts = None" "\<not> rf_add_vary facts"
    "rf_cache_control facts = None" "rf_content_type facts = ''application/octet-stream''" "\<not> rf_method_head facts"
    by (simp_all add: facts_def request_facts_of_def sample_rd_def small_config_def sample_config_def default_config_def
        sample_ctx_def)
  have "evaluate_conditionals sample_crate (effective_conditionals facts) v = Proceed" for v
    by (simp add: effective_conditionals_def facts evaluate_conditionals_def decode_def)
  moreover have "to_radix 10 5000 = ''5000''"
    by (simp add: to_radix.simps digit_char_def char_of_def bit_Suc_0_iff)
  then have "whole_plan sample_crate facts (file_meta_of page_stat) =
      Some \<lparr>plan_status = 200, plan_headers = page_headers, plan_body = WholeBody 5000\<rparr>"
    by (simp add: whole_plan_def facts push_validator_headers_def push_encoding_headers_def header_value_def
        page_headers_def file_meta_of_def page_stat_def dec_u64_def)
       (simp add: sample_crate_def)
  ultimately show ?thesis
    by (simp add: plan_response_eq effective_ranges_def facts_def [symmetric] facts(1))
qed

lemma small_served:
  "on_scheduled sample_cr (\<lambda>out. []) (small_filter (ResolvingFile []) (OneEvent (Opened 1 page_stat sample_ctx (take 4096 page))) small_start) =
    Some (small_filter (Streaming small_streaming) Empty (small_start @ small_answer))"
proof -
  have plan: "plan_response (cr_headers sample_cr)
      (request_facts_of small_config sample_rd page_stat sample_ctx) (file_meta_of page_stat) =
      Some \<lparr>plan_status = 200, plan_headers = page_headers, plan_body = WholeBody 5000\<rparr>"
    using page_plan by (simp add: sample_cr_def)
  define s0 where "s0 = \<lparr>sm_handle = 1, sm_chunks = small_chunks, sm_ready = [(0, take 4096 page)], sm_next_send = 0,
     sm_issue_cursor = 0, sm_inflight = 0, sm_watermark_depth = 0\<rparr>"
  have "handle_event sample_cr (Opened 1 page_stat sample_ctx (take 4096 page)) (small_filter (ResolvingFile []) Empty small_start) =
      Some (small_filter (Streaming s0) Empty (small_start @ take 1 small_answer), False)"
    using plan small_chunks
    by (simp add: handle_event_def handle_opened_def page_stat_def [THEN arg_cong [of _ _ st_is_dir]] serve_file_def sample_texts
        small_filter_def execute_plan_def begin_streaming_def seed_prefetch_def small_answer_def small_chunks_def
        set_phase_def emit_def s0_def)
  moreover have "pump (\<lambda>out. []) (small_filter (Streaming s0) Empty (small_start @ take 1 small_answer)) =
      Some (small_filter (Streaming small_streaming) Empty (small_start @ small_answer))"
    by (simp add: pump_def flush_loop.simps issue_loop.simps small_filter_def s0_def small_chunks_def send_data_def
        small_streaming_def small_answer_def emit_def small_config_def sample_config_def default_config_def usize_sub_def)
  ultimately show ?thesis
    by (simp add: on_scheduled_def small_filter_def)
qed

section \<open>The run\<close>

definition small_slot :: "phase \<Rightarrow> io_event bridge \<Rightarrow> action list \<Rightarrow> nat \<Rightarrow> action list \<Rightarrow> slot" where
  "small_slot p b out n box = \<lparr>sl_filter = small_filter p b out, sl_scheduled = n, sl_alive = True, sl_outbox = box,
     sl_destroyed = False\<rparr>"

definition small_engine :: "tag command list \<Rightarrow> (unit, tag) task list \<Rightarrow> unit file_table \<Rightarrow> canon_cache \<Rightarrow> (unit, tag) engine" where
  "small_engine cmds tasks files cache = \<lparr>eng_next_id = 2, eng_commands = cmds, eng_tasks = tasks, eng_files = files,
     eng_cache = cache, eng_running = True\<rparr>"

definition small_server :: "(unit, tag) engine \<Rightarrow> slot \<Rightarrow> unit server" where
  "small_server eng sl = \<lparr>sv_engine = eng, sv_slots = [sl]\<rparr>"

abbreviation small_tag :: tag where
  "small_tag \<equiv> (0, ROpen small_request sample_ctx)"

definition small_reads :: "tag command list" where
  "small_reads = [ReadCommand 1 0 4096 (0, RRead 1 0 4096 0), ReadCommand 1 4096 904 (0, RRead 1 4096 904 1)]"

definition small_reading :: "unit server" where
  "small_reading = small_server (small_engine small_reads [] [(1, ())] [(''/srv'', ''/srv'')])
     (small_slot (Streaming small_streaming) Empty (small_start @ small_answer) 0 [])"

lemma same_canonical: "os_canonicalize page_os = os_canonicalize sample_os"
  "parent_cached_canonicalize page_os p cache = parent_cached_canonicalize sample_os p cache"
proof -
  show same: "os_canonicalize page_os = os_canonicalize sample_os" by (simp add: page_os_def)
  show "parent_cached_canonicalize page_os p cache = parent_cached_canonicalize sample_os p cache"
    unfolding parent_cached_canonicalize_def same by (rule refl)
qed

lemma small_open: "open_stat page_os 1 small_request [] [] = (Inr (1, page_stat, take 4096 page), [(1, ())], [(''/srv'', ''/srv'')])"
proof -
  have "open_final page_os small_request = Inr ((), False)"
    by (simp add: open_final_def open_final_unix_def page_os_def sample_os_def small_request_def)
  moreover have "os_metadata_of page_os () = Inr \<lparr>md_len = 5000, md_is_dir = False, md_modified = Inr (7, 0)\<rparr>"
    by (simp add: page_os_def)
  moreover have "check_containment page_os small_request False [] = (Inr (), [(''/srv'', ''/srv'')])"
    using sample_canonical sample_under_root same_canonical
    by (simp add: check_containment_def small_request_def)
  moreover have "read_at page_os (Some ()) 0 4096 = Inr (take 4096 page)"
    by (simp add: read_at_def page_os_def slice_def)
  ultimately show ?thesis
    by (simp add: open_stat_def stat_from_metadata_def mtime_parts_def small_request_def page_stat_def)
qed

lemma run_more: "server_run os cr n sv \<Longrightarrow> server_step os cr sv sv' \<Longrightarrow> sv' = sv'' \<Longrightarrow> m = Suc n \<Longrightarrow> server_run os cr m sv''"
  by (auto intro: server_run.intros)

lemma small_asked: "server_run page_os sample_cr 3 (small_server
    (small_engine [OpenCommand 1 small_request small_tag] [] [] [])
    (small_slot (ResolvingFile []) Empty [OpenFile small_request sample_ctx] 0 []))"
proof -
  let ?s1 = "server_init\<lparr>sv_slots := [slot_new small_config]\<rparr> :: unit server"
  have 1: "server_run page_os sample_cr 1 ?s1"
    by (rule run_more [OF server_run.begins connect [OF small_config_ok]]) (simp_all add: server_init_def)
  let ?sl = "small_slot (ResolvingFile []) Empty [OpenFile small_request sample_ctx] 0 [OpenFile small_request sample_ctx]"
  have "slot_step sample_cr (slot_new small_config) (moved (small_filter (ResolvingFile []) Empty [OpenFile small_request sample_ctx]) (slot_new small_config))"
    by (rule slot_step.headers [where kvs = sample_get]) (simp_all add: slot_new_def small_requested, simp add: filter_new_def)
  moreover have "moved (small_filter (ResolvingFile []) Empty [OpenFile small_request sample_ctx]) (slot_new small_config) = ?sl"
    by (simp add: moved_def slot_new_def new_actions_def small_slot_def filter_new_def small_filter_def Let_def)
  ultimately have "slot_step sample_cr (slot_new small_config) ?sl" by simp
  then have 2: "server_run page_os sample_cr 2 (server_init\<lparr>sv_slots := [?sl]\<rparr>)"
    by (intro run_more [OF 1 callback [of 0 ?s1]]) simp_all
  show ?thesis
    by (rule run_more [OF 2 submit [of 0 _ "OpenFile small_request sample_ctx" "[]"]])
       (simp_all add: small_slot_def server_init_def engine_new_def engine_open_stat_def try_send_def
         small_server_def small_engine_def)
qed

abbreviation small_opening :: "unit server" where
  "small_opening \<equiv> small_server (small_engine [] [OpenTask 1 small_request small_tag] [] [])
     (small_slot (ResolvingFile []) Empty [OpenFile small_request sample_ctx] 0 [])"

lemma small_opens: "server_run page_os sample_cr 4 small_opening"
  by (rule run_more [OF small_asked react]) (simp_all add: small_server_def small_engine_def run_reactor_def)

lemma small_task: "run_task page_os 0 (sv_engine small_opening) = (small_engine [] [] [(1, ())] [(''/srv'', ''/srv'')],
    [(small_tag, OpenDone (Inr (1, page_stat, take 4096 page)))])"
  by (simp add: run_task_def small_server_def small_engine_def small_open)

lemma small_opened: "server_run page_os sample_cr 5 (small_server
    (small_engine [] [] [(1, ())] [(''/srv'', ''/srv'')])
    (small_slot (ResolvingFile []) (OneEvent (Opened 1 page_stat sample_ctx (take 4096 page))) small_start 1 []))"
proof -
  let ?sl = "small_slot (ResolvingFile []) Empty [OpenFile small_request sample_ctx] 0 []"
  let ?ev = "Opened 1 page_stat sample_ctx (take 4096 page)"
  have acts: "delivery_actions ?ev ?sl = [Commit]"
    "delivered ?ev ?sl = small_slot (ResolvingFile []) (OneEvent ?ev) small_start 1 []"
    by (simp_all add: delivery_actions_def new_actions_def small_slot_def small_filter_def deliver_def emit_def
        delivered_def small_start_def)
  show ?thesis
    by (rule run_more [OF small_opens finish [OF small_task, of ?ev]])
       (simp_all add: small_server_def acts open_event_def)
qed

lemma small_answering: "server_run page_os sample_cr 6 (small_server
    (small_engine [] [] [(1, ())] [(''/srv'', ''/srv'')])
    (small_slot (Streaming small_streaming) Empty (small_start @ small_answer) 0 small_answer))"
proof -
  let ?sl = "small_slot (ResolvingFile []) (OneEvent (Opened 1 page_stat sample_ctx (take 4096 page))) small_start 1 []"
  let ?fl = "small_filter (Streaming small_streaming) Empty (small_start @ small_answer)"
  have "slot_step sample_cr ?sl (moved ?fl (?sl\<lparr>sl_scheduled := 0\<rparr>))"
    by (rule slot_step.scheduled [where react = "\<lambda>out. []"]) (simp_all add: small_slot_def small_served)
  moreover have "moved ?fl (?sl\<lparr>sl_scheduled := 0\<rparr>) =
      small_slot (Streaming small_streaming) Empty (small_start @ small_answer) 0 small_answer"
    by (simp add: moved_def new_actions_def small_slot_def small_filter_def small_answer_def Let_def)
  ultimately show ?thesis
    by (intro run_more [OF small_opened callback [of 0]]) (simp_all add: small_server_def)
qed

lemma small_run: "server_run page_os sample_cr 10 small_reading"
proof -
  let ?e = "small_engine [] [] [(1, ())] [(''/srv'', ''/srv'')]"
  define s where "s = (\<lambda>e box. small_server e (small_slot (Streaming small_streaming) Empty (small_start @ small_answer) 0 box))"
  have more: "server_run page_os sample_cr (Suc n) (s (perform 0 a e) box)"
    if "server_run page_os sample_cr n (s e (a # box))" for n a e box
    by (rule run_more [OF that submit [of 0 _ a box]]) (simp_all add: s_def small_server_def small_slot_def)
  have "server_run page_os sample_cr 6 (s ?e small_answer)" unfolding s_def by (rule small_answering)
  from more [OF more [OF more [OF more [OF this [unfolded small_answer_def]]]]] show ?thesis
    by (simp add: small_reading_def engine_read_def try_send_def small_engine_def small_reads_def small_answer_def s_def)
qed

lemma small_nofollow: "nofollow_contract page_os"
proof -
  have "direct_canonicalize page_os p = direct_canonicalize sample_os p" for p
    unfolding direct_canonicalize_def same_canonical(1) by (rule refl)
  moreover have "os_open_nofollow page_os = os_open_nofollow sample_os" "os_is_symlink page_os = os_is_symlink sample_os"
    by (simp_all add: page_os_def)
  ultimately show ?thesis using sample_nofollow by (simp add: nofollow_contract_def same_canonical)
qed

lemma small_files: "stable_files page_os (\<lambda>fl. page)"
  by (auto simp: stable_files_def page_os_def reads_content_def)

end
