(* ===== verification/Server_Inert.thy ===== *)
theory Server_Inert
  imports Server_Handles
begin

text \<open>
  The inert handle 0. The engine hands it out, instead of a registered file, when the prefetch of an open was the
  whole file; the stream then never reads. A stream that streams from it has its only chunk ready
  from the start, and nothing is issued before that chunk is sent. So every read the engine is given names a
  registered file, and every read task has the file.
\<close>

section \<open>What an inert handle comes with\<close>

text \<open>The whole file, no longer than what the open was asked to prefetch.\<close>

fun whole_file :: "config \<Rightarrow> request_data option \<Rightarrow> io_event \<Rightarrow> bool" where
  "whole_file c r (Opened h stat ctx prefetch) \<longleftrightarrow>
     (h = 0 \<and> \<not> st_is_dir stat \<longrightarrow> st_size stat = of_nat (length prefetch) \<and>
        (\<exists>rd. r = Some rd \<and> length prefetch \<le> prefetch_of c rd))"
| "whole_file c r _ \<longleftrightarrow> True"

definition only_chunk :: "streaming \<Rightarrow> bool" where
  "only_chunk s \<longleftrightarrow> length (sm_chunks s) = 1 \<and> sm_next_send s = 0 \<and> sm_issue_cursor s = 0 \<and> map_of (sm_ready s) 0 \<noteq> None"

definition inert_phase :: "phase \<Rightarrow> bool" where
  "inert_phase p \<longleftrightarrow> (\<forall>s. p = Streaming s \<longrightarrow> sm_handle s = 0 \<longrightarrow> only_chunk s)"

definition no_inert_reads :: "action list \<Rightarrow> bool" where
  "no_inert_reads acts \<longleftrightarrow> (\<forall>off len seq. ReadFile 0 off len seq \<notin> set acts)"

definition inert_ok :: "stream_filter \<Rightarrow> bool" where
  "inert_ok fl \<longleftrightarrow> inert_phase (fl_phase fl) \<and> no_inert_reads (fl_out fl) \<and>
     list_all (whole_file (fl_config fl) (fl_request fl)) (bridge_contents (fl_bridge fl))"

lemma no_inert_reads_simps [simp]:
  "no_inert_reads []" "no_inert_reads (acts @ acts') \<longleftrightarrow> no_inert_reads acts \<and> no_inert_reads acts'"
  by (auto simp: no_inert_reads_def)

lemma no_reads_no_inert: "\<not> list_ex reads_file acts \<Longrightarrow> no_inert_reads acts"
  by (fastforce simp: no_inert_reads_def list_ex_iff)

lemma neutral_no_inert: "list_all neutral_action acts \<Longrightarrow> no_inert_reads acts"
  by (fastforce simp: no_inert_reads_def list_all_iff)

lemma inert_unheld [simp]: "held p = {#} \<Longrightarrow> inert_phase p"
  by (auto simp: inert_phase_def)

lemma inert_held: "held p = {#h#} \<Longrightarrow> h \<noteq> 0 \<Longrightarrow> inert_phase p"
  by (auto simp: inert_phase_def)

section \<open>Serving from it\<close>

lemma full_body:
  assumes "plan_response hc facts meta = Some plan" and "rf_range_header facts = None"
  shows "plan_body plan = EmptyBody \<or> plan_body plan = WholeBody (fm_size meta)"
  using assms
  by (auto simp: plan_response_eq effective_ranges_def split: condition.splits if_splits dest!: whole_planD(3))

lemma one_file_chunk:
  assumes "0 < unat len" and "unat len \<le> cfg_chunk_size c" and "config_ok c"
  shows "file_chunks c 0 len = Some [FileChunk 0 (unat len)]"
proof -
  have "unat (of_nat (cfg_chunk_size c) :: u64) = cfg_chunk_size c"
    using assms(3) by (simp add: config_ok_def unat_of_nat_u64)
  then have "min len (of_nat (cfg_chunk_size c)) = len"
    using assms(2) by (simp add: min_def word_le_nat_alt)
  moreover have "0 < len" using assms(1) by (simp add: word_less_nat_alt)
  ultimately show ?thesis by (simp add: file_chunks_def file_chunks_loop.simps)
qed

text \<open>The chunks of a body that is all in the prefetch: none, or one that is ready.\<close>

lemma ranges_of_nothing: "\<forall>x \<in> set xs. range_ok (of_nat (length ([] :: bytes))) (f x) \<Longrightarrow> xs = []"
  by (cases xs) (auto simp: range_ok_def)

lemma prefetched_chunks:
  assumes "plan_response hc (request_facts_of c rd stat ctx) (file_meta_of stat) = Some plan"
    and "st_size stat = of_nat (length (prefetch :: bytes))" and "length prefetch \<le> prefetch_of c rd" and "config_ok c"
    and "body_chunks c (plan_body plan) = Some chunks"
  shows "chunks = [] \<or> (\<exists>bs. chunks = [Inline bs]) \<or>
    chunks = [FileChunk 0 (length prefetch)] \<and> plan_body plan = WholeBody (st_size stat)"
proof -
  have short: "length prefetch \<le> cfg_chunk_size c" using assms(3) by (simp add: prefetch_of_def split: if_splits)
  then have bound: "length prefetch < 2 ^ 64" using assms(4) by (simp add: config_ok_def)
  have body: "body_ok prefetch (plan_body plan)"
    by (rule plan_body_ok [OF assms(1)]) (use assms(2) bound in \<open>simp_all add: file_meta_of_def\<close>)
  show ?thesis
  proof (cases "prefetch = []")
    case True
    have "chunks = [] \<or> (\<exists>bs. chunks = [Inline bs])"
    proof (cases "plan_body plan")
      case (WholeBody len)
      then have "len = 0" using body True by (simp add: unat_eq_0)
      then show ?thesis using assms(5) WholeBody by (simp add: file_chunks_def file_chunks_loop.simps)
    next
      case (SegmentsBody rs)
      then have "rs = []" using body True ranges_of_nothing [of rs "\<lambda>r. r"] by simp
      then show ?thesis using assms(5) SegmentsBody by simp
    next
      case (MultipartBody parts tm cl)
      then have "parts = []" using body True ranges_of_nothing [of parts part_range] by simp
      then show ?thesis using assms(5) MultipartBody by auto
    qed (use assms(5) in simp)
    then show ?thesis by blast
  next
    case False
    then have "rd_range_header rd = None" using assms(3) by (auto simp: prefetch_of_def split: if_splits)
    then have "rf_range_header (request_facts_of c rd stat ctx) = None" by (simp add: request_facts_of_def)
    moreover have "plan_body plan \<noteq> EmptyBody" using assms(5) by auto
    ultimately have "plan_body plan = WholeBody (st_size stat)"
      using full_body [OF assms(1)] by (simp add: file_meta_of_def)
    moreover have "unat (st_size stat) = length prefetch" using assms(2) bound by (simp add: unat_of_nat_u64)
    ultimately show ?thesis
      using one_file_chunk [of "st_size stat" c] assms(4,5) short False by simp
  qed
qed

lemma begin_inert:
  assumes "begin_streaming headers h chunks pf fl = (fl', e)"
    and "chunks = [] \<or> (\<exists>bs. chunks = [Inline bs]) \<or> chunks = [FileChunk 0 (length pf)]"
  shows "inert_phase (fl_phase fl')"
  using assms by (auto simp: begin_streaming_def inert_phase_def only_chunk_def set_phase_def emit_def seed_prefetch_def
      map_of_update split: if_splits)

lemma serve_inert:
  assumes "serve_file cr 0 stat ctx prefetch fl = Some (fl', e)" and "config_ok (fl_config fl)"
    and "\<not> st_is_dir stat" and "whole_file (fl_config fl) (fl_request fl) (Opened 0 stat ctx prefetch)"
  shows "inert_phase (fl_phase fl')"
proof -
  let ?c = "fl_config fl"
  obtain rd where rd: "fl_request fl = Some rd" "length prefetch \<le> prefetch_of ?c rd" "st_size stat = of_nat (length prefetch)"
    using assms(3,4) by auto
  obtain plan where plan: "plan_response (cr_headers cr) (request_facts_of ?c rd stat ctx) (file_meta_of stat) = Some plan"
      "execute_plan plan 0 prefetch fl = Some (fl', e)"
    using assms(1) rd(1) by (auto simp: serve_file_def bind_eq_Some_conv)
  show ?thesis
  proof (cases "plan_body plan = EmptyBody")
    case True
    then show ?thesis using plan(2) by (auto simp: execute_plan_def set_phase_def emit_def)
  next
    case False
    define pf where "pf = (case plan_body plan of WholeBody _ \<Rightarrow> prefetch | _ \<Rightarrow> [])"
    obtain chunks headers where chunks: "body_chunks ?c (plan_body plan) = Some chunks"
        "begin_streaming headers 0 chunks pf fl = (fl', e)"
      using plan(2) False by (auto simp: execute_plan_def Let_def bind_eq_Some_conv pf_def)
    show ?thesis
      by (rule begin_inert [OF chunks(2)])
         (use prefetched_chunks [OF plan(1) rd(3,2) assms(2) chunks(1)] in \<open>auto simp: pf_def\<close>)
  qed
qed

text \<open>A pump sends the only chunk, or does nothing while Envoy holds the stream.\<close>

lemma inert_pump:
  assumes "fl_phase fl = Streaming s" and "only_chunk s" and "pump react fl = Some fl'"
  shows "inert_phase (fl_phase fl') \<and> (\<exists>acts. fl_out fl' = fl_out fl @ acts \<and> no_inert_reads acts)"
proof (cases "sm_watermark_depth s = 0")
  case True
  then show ?thesis
    using assms
    by (auto simp: pump_def flush_loop.simps only_chunk_def usize_sub_def Let_def set_phase_def emit_def no_inert_reads_def)
next
  case False
  then have "fl' = fl" using assms by (simp add: pump_def flush_loop.simps)
  then show ?thesis using assms(1,2) by (auto simp: inert_phase_def intro: exI [of _ "[]"])
qed

section \<open>The callbacks of a stream\<close>

lemma quiet_inert:
  assumes "quiet {#} fl fl'" and "held (fl_phase fl) = {#}" and "inert_ok fl" and "bridge_contents (fl_bridge fl) = []"
  shows "inert_ok fl'"
  using assms by (auto simp: quiet_def inert_ok_def no_reads_no_inert)

text \<open>What a served event leads to: an inert handle is only ever pumped with its one chunk.\<close>

lemma event_inert:
  assumes "handle_event cr ev fl = Some (fl', e)" and "held (fl_phase fl) = {#}" and "config_ok (fl_config fl)"
    and "whole_file (fl_config fl) (fl_request fl) ev"
  shows "inert_phase (fl_phase fl')"
proof (cases "\<exists>stat ctx pf. ev = Opened 0 stat ctx pf \<and> \<not> st_is_dir stat")
  case True
  then obtain stat ctx pf where ev: "ev = Opened 0 stat ctx pf" "\<not> st_is_dir stat" by blast
  then have "serve_file cr 0 stat ctx pf fl = Some (fl', e)"
    using assms(1) by (simp add: handle_event_def handle_opened_def)
  then show ?thesis by (rule serve_inert) (use assms ev in simp_all)
next
  case False
  have "held (fl_phase fl') \<subseteq># serving_handle ev"
    using event_serving [OF assms(1)] assms(2) by (simp add: quiet_def)
  moreover have "0 \<notin># serving_handle ev" using False by (cases ev) auto
  ultimately show ?thesis by (fastforce simp: inert_phase_def dest: mset_subset_eqD)
qed

text \<open>The pump, from a phase that is right.\<close>

lemma pump_inert:
  assumes "pump react fl = Some fl'" and "inert_phase (fl_phase fl)"
  shows "inert_phase (fl_phase fl') \<and> (\<exists>acts. fl_out fl' = fl_out fl @ acts \<and> no_inert_reads acts)"
proof (cases "\<exists>s. fl_phase fl = Streaming s \<and> sm_handle s = 0")
  case True
  then show ?thesis using inert_pump [OF _ _ assms(1)] assms(2) by (auto simp: inert_phase_def)
next
  case False
  then have no: "0 \<notin># held (fl_phase fl)" by (cases "fl_phase fl") auto
  from pump_issues [OF assms(1)] obtain acts where acts: "held (fl_phase fl') \<subseteq># held (fl_phase fl)"
      "fl_out fl' = fl_out fl @ acts" "\<forall>h off len seq. ReadFile h off len seq \<in> set acts \<longrightarrow> held (fl_phase fl') = {#h#}"
    by (auto simp: issues_def)
  then have "0 \<notin># held (fl_phase fl')" using no by (auto dest: mset_subset_eqD)
  then show ?thesis using acts by (fastforce simp: inert_phase_def no_inert_reads_def)
qed

lemma nothing_out:
  assumes "live_ok c sy" and "fl_phase (sy_filter sy) = Streaming s" and "sm_issue_cursor s = 0"
  shows "bridge_contents (fl_bridge (sy_filter sy)) = []"
proof -
  have "\<forall>i \<in> set (map event_seq (bridge_contents (fl_bridge (sy_filter sy)))). i < 0"
    using assms by (simp add: live_ok_def Let_def stream_ok_def)
  then show ?thesis by (cases "bridge_contents (fl_bridge (sy_filter sy))") auto
qed

lemma scheduled_inert:
  assumes "sys_ok cr c sy" and "sy_alive sy" and "config_ok c" and "inert_ok (sy_filter sy)"
    and s: "on_scheduled cr react (sy_filter sy) = Some fl'"
  shows "inert_ok fl'"
proof -
  let ?fl = "sy_filter sy"
  have live: "live_ok c sy" and c: "fl_config ?fl = c" using assms(1,2) by (simp_all add: sys_ok_def)
  have old: "inert_phase (fl_phase ?fl)" "no_inert_reads (fl_out ?fl)"
    "list_all (whole_file c (fl_request ?fl)) (bridge_contents (fl_bridge ?fl))"
    using assms(4) c by (simp_all add: inert_ok_def)
  have none: "bridge_contents (fl_bridge fl') = []" using scheduled_issues [OF s] by blast
  have "inert_phase (fl_phase fl') \<and> no_inert_reads (fl_out fl')"
    using live c assms(3) s
  proof (cases rule: callback_cases)
    case drains
    then show ?thesis using old by (simp add: drained_def)
  next
    case (resolves fl0 fl1 e ev)
    have fl0: "held (fl_phase fl0) = {#}" "fl_config fl0 = c" "fl_request fl0 = fl_request ?fl" "fl_out fl0 = fl_out ?fl"
      using resolves(1,7) c by (cases "fl_phase ?fl"; simp add: drained_def)+
    have p1: "inert_phase (fl_phase fl1)"
      by (rule event_inert [OF resolves(6) fl0(1)]) (use fl0 assms(3) old(3) resolves(4) in simp_all)
    obtain acts where acts: "fl_out fl1 = fl_out ?fl @ acts" "no_inert_reads acts"
      using event_serving [OF resolves(6)] fl0(4) no_reads_no_inert by (auto simp: quiet_def)
    from resolves(9) pump_inert [OF _ p1, of react fl'] p1 old(2) acts show ?thesis
      by (auto split: if_splits phase.splits)
  next
    case (fails s fl0 acts)
    have "no_inert_reads acts" using fails(10) request_in_trace(1) [of _ _ _ _ acts] by (auto simp: no_inert_reads_def)
    then show ?thesis using fails(4,5) old(2) by simp
  next
    case (pumps st s1 fl0 fl1)
    show ?thesis
    proof (cases "sm_handle st = 0")
      case True
      then have chunk: "only_chunk st" using old(1) pumps(1) by (simp add: inert_phase_def)
      have evs: "bridge_contents (fl_bridge ?fl) = []" by (rule nothing_out [OF live pumps(1)]) (use chunk in \<open>simp add: only_chunk_def\<close>)
      obtain b evs where b: "bridge_process (fl_bridge ?fl) = (b, evs)" by fastforce
      then have "evs = []" using process_contents [OF b] evs by simp
      then have "pump react (?fl\<lparr>fl_bridge := b\<rparr>) = Some fl'"
        using s b pumps(1) by (simp add: on_scheduled_def)
      from pump_inert [OF this] show ?thesis using old by auto
    next
      case False
      have "list_all (read_event_ok (sy_content sy) (sm_chunks st)) (bridge_contents (fl_bridge ?fl))"
        using live pumps(1) by (simp add: live_ok_def Let_def)
      moreover have "read_event_ok (sy_content sy) (sm_chunks st) ev \<Longrightarrow> serving_handle ev = {#}" for ev by (cases ev) auto
      ultimately have "serving_handles (bridge_contents (fl_bridge ?fl)) = {#}"
        unfolding serving_none list_all_iff by blast
      then obtain acts where acts: "held (fl_phase fl') \<subseteq># {#sm_handle st#}" "fl_out fl' = fl_out ?fl @ acts"
          "\<forall>h off len seq. ReadFile h off len seq \<in> set acts \<longrightarrow> held (fl_phase fl') = {#h#}"
        using scheduled_issues [OF s] pumps(1) by (auto simp: issues_def)
      then have "0 \<notin># held (fl_phase fl')" using False by (auto dest: mset_subset_eqD)
      then show ?thesis using acts old(2) by (fastforce simp: inert_phase_def no_inert_reads_def)
    qed
  qed
  then show ?thesis using none by (simp add: inert_ok_def)
qed

lemma watermark_inert: "inert_ok fl \<Longrightarrow> inert_ok (on_watermark k fl)"
  by (cases k; cases "fl_phase fl")
     (auto simp: inert_ok_def on_watermark_def on_above_high_watermark_def on_below_low_watermark_def inert_phase_def
       only_chunk_def emit_def Let_def no_inert_reads_def)

lemma complete_inert: "inert_ok fl \<Longrightarrow> inert_ok (on_stream_complete fl)"
  by (simp add: inert_ok_def on_stream_complete_def emit_def bridge_close_def neutral_no_inert [OF dropped_events_neutral])

lemma slot_step_inert:
  assumes "slot_step cr sl sl'" and "sys_reach cr c (view content pending sl)" and "config_ok c" and "inert_ok (sl_filter sl)"
  shows "inert_ok (sl_filter sl')"
proof -
  have ok: "sys_ok cr c (view content pending sl)" using reachable_ok [OF assms(2,3)] .
  from assms(1) show ?thesis
  proof (cases rule: slot_step.cases)
    case (headers kvs fl)
    have "live_ok c (view content pending sl)" using ok headers(2) by (simp add: sys_ok_def)
    then have "bridge_contents (fl_bridge (sl_filter sl)) = []" using headers(4) by (simp add: live_ok_def Let_def)
    then show ?thesis
      using quiet_inert [OF silent.along_headers [OF headers(5)]] headers(4) assms(4) headers(1)
      by (simp add: moved_def Let_def)
  next
    case (scheduled n react fl)
    then show ?thesis
      using scheduled_inert [OF ok _ assms(3), of react fl] assms(4) by (simp add: moved_def Let_def)
  next
    case (watermark k)
    then show ?thesis using watermark_inert [OF assms(4)] by (simp add: moved_def Let_def)
  next
    case complete
    then show ?thesis using complete_inert [OF assms(4)] by (simp add: moved_def Let_def)
  qed
qed

lemma delivered_inert:
  assumes "inert_ok (sl_filter sl)" and "whole_file (fl_config (sl_filter sl)) (fl_request (sl_filter sl)) ev"
  shows "inert_ok (sl_filter (delivered ev sl))"
  using assms deliver_frame [of ev "sl_filter sl"] delivered_contents [of ev sl]
  by (auto simp: inert_ok_def delivered_def Let_def neutral_no_inert list_all_iff)

section \<open>The whole server\<close>

definition slot_inert :: "slot \<Rightarrow> bool" where
  "slot_inert sl \<longleftrightarrow> inert_ok (sl_filter sl) \<and> no_inert_reads (sl_outbox sl)"

fun live_command :: "'k command \<Rightarrow> bool" where
  "live_command (ReadCommand h off len k) \<longleftrightarrow> h \<noteq> 0"
| "live_command _ \<longleftrightarrow> True"

fun live_task :: "('f, 'k) task \<Rightarrow> bool" where
  "live_task (ReadTask file off len k) \<longleftrightarrow> file \<noteq> None"
| "live_task _ \<longleftrightarrow> True"

definition engine_inert :: "('f, 'k) engine \<Rightarrow> bool" where
  "engine_inert eng \<longleftrightarrow> list_all live_command (eng_commands eng) \<and> list_all live_task (eng_tasks eng)"

definition server_inert :: "'f server \<Rightarrow> bool" where
  "server_inert sv \<longleftrightarrow> list_all slot_inert (sv_slots sv) \<and> engine_inert (sv_engine sv)"

lemma engine_inert_send: "engine_inert eng \<Longrightarrow> live_command c \<Longrightarrow> engine_inert (try_send c eng)"
  by (simp add: engine_inert_def try_send_def)

lemma engine_inert_perform: "engine_inert eng \<Longrightarrow> no_inert_reads [a] \<Longrightarrow> engine_inert (perform i a eng)"
  by (cases a)
     (simp_all add: engine_open_stat_def engine_read_def engine_read_dir_def drop_handle_def no_inert_reads_def engine_inert_def
       try_send_def)

lemma engine_inert_performs:
  "engine_inert eng \<Longrightarrow> no_inert_reads acts \<Longrightarrow> engine_inert (fold (perform i) acts eng)"
proof (induction acts arbitrary: eng)
  case (Cons a acts)
  have "no_inert_reads [a]" "no_inert_reads acts" using Cons.prems(2) by (simp_all add: no_inert_reads_def)
  then show ?case using Cons.IH [OF engine_inert_perform [OF Cons.prems(1)]] by simp
qed simp

text \<open>The reactor finds the file of every read, because no close of its handle is before it in the queue.\<close>

lemma engine_inert_react:
  assumes "handles_ok sv" and "engine_inert (sv_engine sv)"
  shows "engine_inert (run_reactor (sv_engine sv))"
proof (cases "eng_running (sv_engine sv) \<and> eng_commands (sv_engine sv) \<noteq> []")
  case False
  then show ?thesis using assms(2) by (auto simp: run_reactor_def split: list.split)
next
  case True
  let ?e = "sv_engine sv"
  obtain c rest where c: "eng_commands ?e = c # rest" using True by (cases "eng_commands ?e") auto
  have first: "reads_first (registered ?e) (c # rest)" using assms(1) True c by (simp add: handles_ok_def table_ok_def)
  show ?thesis
  proof (cases c)
    case (ReadCommand h off len k)
    have "h \<noteq> 0" using assms(2) c ReadCommand by (simp add: engine_inert_def)
    then have "map_of (eng_files ?e) h \<noteq> None" using first ReadCommand by (simp add: registered_def)
    then show ?thesis using assms(2) True c ReadCommand by (simp add: engine_inert_def run_reactor_def)
  qed (use assms(2) True c in \<open>simp_all add: engine_inert_def run_reactor_def\<close>)
qed

text \<open>A finished open that hands over the inert handle hands over the whole file with it.\<close>

lemma opened_whole:
  assumes "engine_ok n m eng" and "stable_files os content_of"
    and ok: "slot_ok os content_of cr eng i sl content pending"
    and run: "run_task os j eng = (eng', [((i, r), result)])" and "completed r result = Some ev"
  shows "whole_file (fl_config (sl_filter sl)) (fl_request (sl_filter sl)) ev"
  using assms(1) run assms(5)
proof (cases rule: finished_task)
  case (opens hid req ctx res files cache)
  have j: "j < length (eng_tasks eng)" using run by (auto simp: run_task_def split: if_splits)
  have "hid \<in> set (open_ids eng)"
    using kept_ids(2) [OF assms(1) j, of "eng\<lparr>eng_tasks := take j (eng_tasks eng) @ drop (Suc j) (eng_tasks eng)\<rparr>"] opens(2) by simp
  then have hid: "hid \<noteq> 0" using assms(1) unfolding engine_ok_def by blast
  have "(i, r) \<in># outstanding eng" using run_task_tags [of eng os j] run by simp
  then have "ROpen req ctx \<in> set pending" using asked_pending [OF ok] opens(1) by simp
  then obtain rd where rd: "fl_request (sl_filter sl) = Some rd" "or_prefetch_len req = prefetch_of (fl_config (sl_filter sl)) rd"
    using pending_open(3) [OF ok] by blast
  have "st_size stat = of_nat (length pf) \<and> length pf \<le> or_prefetch_len req"
    if r: "res = Inr (0, stat, pf)" "\<not> st_is_dir stat" for stat pf
  proof -
    obtain fl b md where o: "open_final os req = Inr (fl, b)" "os_metadata_of os fl = Inr md" "stat = stat_from_metadata md"
      using opens(3) r(1) by (auto simp: open_stat_def Let_def split: sum.splits prod.splits if_splits)
    have st: "st_is_dir stat = md_is_dir md" "st_size stat = md_len md"
      by (simp_all add: o(3) stat_from_metadata_def case_prod_unfold Let_def)
    have fl: "reads_content (os_pread os fl) (content_of fl)" "length (content_of fl) < 2 ^ 64"
        "st_size stat = of_nat (length (content_of fl))"
      using assms(2) o(2) st r(2) unfolding stable_files_def by auto
    from opened_handle [OF opens(3) [unfolded r(1)] o(1) hid fl]
    have "pf = content_of fl" "pf = [] \<or> pf = take (or_prefetch_len req) (content_of fl)" by auto
    then show ?thesis using fl(3) by (metis length_take list.size(3) min.cobounded2 le0)
  qed
  then show ?thesis using opens(4) rd by (auto simp: open_event_def split: sum.splits)
qed simp_all

lemma finish_inert:
  assumes inert: "server_inert sv" and ok: "server_ok os content_of cr n sv" and "stable_files os content_of"
    and run: "run_task os j (sv_engine sv) = (eng', [((i, r), result)])" and i: "i < length (sv_slots sv)"
    and ev: "completed r result = Some ev"
  shows "server_inert (sv\<lparr>sv_engine := fold (perform i) (delivery_actions ev (sv_slots sv ! i)) eng',
      sv_slots := (sv_slots sv)[i := delivered ev (sv_slots sv ! i)]\<rparr>)"
proof -
  let ?sl = "sv_slots sv ! i"
  have sl: "slot_inert ?sl" using inert i by (simp add: server_inert_def list_all_length)
  obtain content pending where "slot_ok os content_of cr (sv_engine sv) i ?sl content pending"
    using server_ok_parts(3) [OF ok i] unfolding simulated_def by blast
  from opened_whole [OF server_ok_parts(1) [OF ok] assms(3) this run ev]
  have "slot_inert (delivered ev ?sl)"
    using sl delivered_inert by (simp add: slot_inert_def delivered_fields)
  moreover have "engine_inert eng'"
  proof -
    have j: "j < length (eng_tasks (sv_engine sv))" using run by (auto simp: run_task_def split: if_splits)
    have "eng_commands eng' = eng_commands (sv_engine sv)"
      "eng_tasks eng' = take j (eng_tasks (sv_engine sv)) @ drop (Suc j) (eng_tasks (sv_engine sv))"
      using run j by (cases "eng_tasks (sv_engine sv) ! j"; auto simp: run_task_def Let_def split: prod.splits)+
    then show ?thesis
      using inert kept_tasks [of j "eng_tasks (sv_engine sv)"] unfolding server_inert_def engine_inert_def list_all_iff by auto
  qed
  then have "engine_inert (fold (perform i) (delivery_actions ev ?sl) eng')"
    using engine_inert_performs neutral_no_inert [OF delivery_neutral] by blast
  ultimately show ?thesis using inert by (simp add: server_inert_def slots_updated)
qed

lemma server_inert_step:
  assumes "server_step os cr sv sv'" and inert: "server_inert sv" and ok: "server_ok os content_of cr n sv" and "handles_ok sv"
    and "stable_files os content_of"
  shows "server_inert sv'"
  using assms(1)
proof (cases rule: server_step.cases)
  case (connect c)
  have "slot_inert (slot_new c)" by (simp add: slot_inert_def slot_new_def inert_ok_def filter_new_def bridge_new_def)
  then show ?thesis using inert connect by (simp add: server_inert_def)
next
  case (callback i sl)
  have old: "slot_inert (sv_slots sv ! i)" using inert callback(2) by (simp add: server_inert_def list_all_length)
  obtain content pending where s: "slot_ok os content_of cr (sv_engine sv) i (sv_slots sv ! i) content pending"
    using server_ok_parts(3) [OF ok callback(2)] unfolding simulated_def by blast
  have new: "inert_ok (sl_filter sl)"
    by (rule slot_step_inert [OF callback(3)]) (use s old in \<open>auto simp: slot_ok_def slot_inert_def\<close>)
  then have "slot_inert sl" using slot_step_out [OF callback(3)] by (simp add: slot_inert_def inert_ok_def)
  then show ?thesis using inert callback(1) by (simp add: server_inert_def slots_updated)
next
  case (destroy i)
  have "no_inert_reads (filter_drop fl)" for fl unfolding filter_drop_def by (cases "fl_phase fl") (simp_all add: no_inert_reads_def)
  then have "slot_inert (destroyed (sv_slots sv ! i))"
    using inert destroy(2) by (simp add: server_inert_def slot_inert_def list_all_length)
  then show ?thesis using inert destroy(1) by (simp add: server_inert_def slots_updated)
next
  case (submit i a rest)
  have "slot_inert (sv_slots sv ! i)" using inert submit(2) by (simp add: server_inert_def list_all_length)
  then have "no_inert_reads [a]" "slot_inert ((sv_slots sv ! i)\<lparr>sl_outbox := rest\<rparr>)"
    using submit(3) by (simp_all add: slot_inert_def no_inert_reads_def)
  moreover from this(1) have "engine_inert (perform i a (sv_engine sv))"
    by (rule engine_inert_perform [rotated]) (use inert in \<open>simp add: server_inert_def\<close>)
  ultimately show ?thesis using inert submit(1) by (simp add: server_inert_def slots_updated)
next
  case react
  then show ?thesis using engine_inert_react [OF assms(4)] inert by (simp add: server_inert_def)
next
  case (finish j eng' i r result ev)
  then show ?thesis using finish_inert [OF inert ok assms(5)] by simp
next
  case shutdown
  then show ?thesis using inert by (simp add: server_inert_def engine_shutdown_def engine_inert_send)
qed

lemma server_reachable_inert:
  assumes "server_run os cr n sv" and "stable_files os content_of" and "nofollow_contract os" and "n + 1 < 2 ^ 64"
  shows "server_inert sv"
  using assms
proof (induction rule: server_run.induct)
  case begins
  then show ?case by (simp add: server_inert_def server_init_def engine_inert_def engine_new_def)
next
  case (goes_on n sv sv')
  have "server_ok os content_of cr n sv" using server_reachable_ok [OF goes_on.hyps(1)] goes_on.prems by simp
  moreover have "handles_ok sv" using server_reachable_handles [OF goes_on.hyps(1)] goes_on.prems by simp
  ultimately show ?case using server_inert_step [OF goes_on.hyps(2)] goes_on.IH goes_on.prems by simp
qed

end
