(* ===== verification/Server_Properties.thy ===== *)
theory Server_Properties
  imports Server_Sample Server_Inert Stream_Properties
begin

text \<open>What holds of every run of the whole server, however its streams and the engine interleave.\<close>

section \<open>Each stream on its own\<close>

text \<open>
  C2: Refinement: a server in which any number of streams share one engine is, for each of its streams, the
  system of that stream alone: the state of the stream is reachable there, and while the engine runs its
  outstanding requests are exactly those that the engine, its tasks and the stream's outbox hold for
  it. So what is proved of a single stream holds of each stream of the server.
\<close>

theorem server_refines_streams:
  assumes "server_run os cr n sv" and "n + 1 < 2 ^ 64" and "stable_files os content_of" and "nofollow_contract os"
    and "i < length (sv_slots sv)"
  shows "\<exists>content pending. sys_reach cr (fl_config (sl_filter (sv_slots sv ! i))) (view content pending (sv_slots sv ! i)) \<and>
    config_ok (fl_config (sl_filter (sv_slots sv ! i))) \<and>
    asked i (sv_slots sv ! i) (sv_engine sv) \<subseteq># mset pending \<and>
    (eng_running (sv_engine sv) \<longrightarrow> asked i (sv_slots sv ! i) (sv_engine sv) = mset pending)"
proof -
  have "simulated os content_of cr (sv_engine sv) i (sv_slots sv ! i)"
    using server_reachable_ok [OF assms(1,3,4,2)] assms(5) by (simp add: server_ok_def)
  then show ?thesis unfolding simulated_def slot_ok_def by blast
qed

theorem server_refines_streams_witness:
  "\<exists>content pending. sys_reach sample_cr small_config (view content pending (sv_slots small_reading ! 0)) \<and>
    {#RRead 1 0 4096 0, RRead 1 4096 904 1#} = mset pending"
proof -
  have "asked 0 (sv_slots small_reading ! 0) (sv_engine small_reading) = {#RRead 1 0 4096 0, RRead 1 4096 904 1#}"
    by (simp add: asked_def small_reading_def small_server_def small_engine_def small_slot_def small_reads_def outstanding_def)
  then show ?thesis
    using server_refines_streams [OF small_run _ small_files small_nofollow, of 0]
    by (simp add: small_reading_def small_server_def small_engine_def small_slot_def small_filter_def) blast
qed

text \<open>
  C1: What a client gets from the server: once a stream has sent headers with a body, there is a file that this
  stream asked to open, whose canonical path is under its document root, such that the bytes sent are a
  prefix of the planned body, cut from that file; they are all of it when the response has ended without a
  read error. No byte is another stream's or another file's, whatever the interleaving of the streams, the
  workers' submissions and the engine's tasks.
\<close>

theorem server_serves_files:
  assumes "server_run os cr n sv" and "n + 1 < 2 ^ 64" and "stable_files os content_of" and "nofollow_contract os"
    and "i < length (sv_slots sv)" and "starts (fl_out (sl_filter (sv_slots sv ! i))) = 1"
  shows "\<exists>req ctx f b p body. OpenFile req ctx \<in> set (fl_out (sl_filter (sv_slots sv ! i))) \<and>
    open_final os req = Inr (f, b) \<and> os_canonicalize os (or_path req) = Inr p \<and>
    path_starts_with p (cfg_root (fl_config (sl_filter (sv_slots sv ! i)))) \<and>
    started cr (content_of f) (sl_filter (sv_slots sv ! i)) body \<and>
    prefix (data_of (fl_out (sl_filter (sv_slots sv ! i)))) (body_bytes (content_of f) body) \<and>
    (fl_phase (sl_filter (sv_slots sv ! i)) = Done \<and> logs (fl_out (sl_filter (sv_slots sv ! i))) = 0 \<longrightarrow>
      data_of (fl_out (sl_filter (sv_slots sv ! i))) = body_bytes (content_of f) body)"
proof -
  let ?sl = "sv_slots sv ! i"
  obtain content pending where ok: "slot_ok os content_of cr (sv_engine sv) i ?sl content pending"
    using server_reachable_ok [OF assms(1,3,4,2)] assms(5) by (auto simp: server_ok_def simulated_def)
  then have "origin os content_of (sl_filter ?sl) content" using assms(6) by (auto simp: slot_ok_def pristine_def)
  then obtain req ctx f b p where f: "OpenFile req ctx \<in> set (fl_out (sl_filter ?sl))" "open_final os req = Inr (f, b)"
      "content_of f = content" "os_canonicalize os (or_path req) = Inr p" "path_starts_with p (cfg_root (fl_config (sl_filter ?sl)))"
    unfolding origin_def by blast
  have "sys_reach cr (fl_config (sl_filter ?sl)) (view content pending ?sl)" "config_ok (fl_config (sl_filter ?sl))"
    using ok by (simp_all add: slot_ok_def)
  from sent_of_body [OF this] assms(6) obtain body where
    "started cr content (sl_filter ?sl) body" "prefix (data_of (fl_out (sl_filter ?sl))) (body_bytes content body)"
    "fl_phase (sl_filter ?sl) = Done \<and> logs (fl_out (sl_filter ?sl)) = 0 \<longrightarrow>
      data_of (fl_out (sl_filter ?sl)) = body_bytes content body"
    by auto
  then show ?thesis using f by blast
qed

theorem server_serves_files_witness:
  "\<exists>body. started sample_cr page (sl_filter (sv_slots small_reading ! 0)) body \<and>
    prefix (take 4096 page) (body_bytes page body)"
proof -
  have "starts (fl_out (sl_filter (sv_slots small_reading ! 0))) = 1"
    "data_of (fl_out (sl_filter (sv_slots small_reading ! 0))) = take 4096 page"
    by (simp_all add: small_reading_def small_server_def small_slot_def small_filter_def small_start_def small_answer_def)
  then show ?thesis
    using server_serves_files [OF small_run _ small_files small_nofollow, of 0]
    by (simp add: small_reading_def small_server_def) blast
qed

section \<open>The files of the engine\<close>

lemma reads_first_before:
  "reads_first live (cs @ ReadCommand h off len k # cs') \<Longrightarrow> h \<noteq> 0 \<Longrightarrow> live h \<and> CloseCommand h \<notin> set cs"
  by (auto simp: reads_first_append)

text \<open>
  C5: No read comes too late or without a file: a read that waits in the engine's queue is never of the inert
  handle, is never preceded by the close of its handle, and the handle is registered; and every read the
  reactor has taken has found its file. This holds whatever the streams do meanwhile: a filter may have
  been destroyed, which drops its handle and sends its close, while its reads are still queued.
\<close>

theorem reads_find_files:
  assumes "server_run os cr n sv" and "n + 1 < 2 ^ 64" and "stable_files os content_of" and "nofollow_contract os"
  shows "(\<forall>cs h off len k cs'. eng_commands (sv_engine sv) = cs @ ReadCommand h off len k # cs' \<longrightarrow>
      h \<noteq> 0 \<and> map_of (eng_files (sv_engine sv)) h \<noteq> None \<and> CloseCommand h \<notin> set cs) \<and>
    (\<forall>f off len k. ReadTask f off len k \<in> set (eng_tasks (sv_engine sv)) \<longrightarrow> f \<noteq> None)"
proof (intro conjI allI impI)
  have inert: "engine_inert (sv_engine sv)"
    using server_reachable_inert [OF assms(1,3,4,2)] by (simp add: server_inert_def)
  show "f \<noteq> None" if "ReadTask f off len k \<in> set (eng_tasks (sv_engine sv))" for f off len k
    using inert that by (auto simp: engine_inert_def list_all_iff)
  fix cs h off len k cs' assume queue: "eng_commands (sv_engine sv) = cs @ ReadCommand h off len k # cs'"
  show "h \<noteq> 0" using inert queue by (simp add: engine_inert_def)
  have "reads_first (registered (sv_engine sv)) (cs @ ReadCommand h off len k # cs')"
    using server_reachable_handles [OF assms(1,3,4,2)] queue by (auto simp: handles_ok_def table_ok_def split: if_splits)
  from reads_first_before [OF this \<open>h \<noteq> 0\<close>]
  show "map_of (eng_files (sv_engine sv)) h \<noteq> None" "CloseCommand h \<notin> set cs" by (simp_all add: registered_def)
qed

theorem reads_find_files_witness:
  "map_of (eng_files (sv_engine small_reading)) 1 \<noteq> None \<and> CloseCommand 1 \<notin> set [ReadCommand 1 0 4096 (0 :: nat, RRead 1 0 4096 0)]"
proof -
  have "eng_commands (sv_engine small_reading) = [ReadCommand 1 0 4096 (0, RRead 1 0 4096 0)] @
      ReadCommand 1 4096 904 (0, RRead 1 4096 904 1) # []"
    by (simp add: small_reading_def small_server_def small_engine_def small_reads_def)
  then show ?thesis
    using reads_find_files [OF small_run _ small_files small_nofollow] by fastforce
qed



end
