(* ===== verification/Server_Liveness.thy ===== *)
theory Server_Liveness
  imports Server_Sample Stream_Resolution
begin

text \<open>
  Liveness of the whole server. Left to run, that is as long as the workers hand over what their streams ask
  for, the reactor turns, tasks finish, scheduled callbacks are run and Envoy drains what it has been sent, in any
  order, the server settles: the engine is idle and every response has ended. Every stream has a rank, which
  the completions and callbacks of that stream lower and those of the others leave alone; the ranks of all
  streams are compared position by position, so that their order is well-founded whatever their number.
\<close>

section \<open>The rank of a stream\<close>

definition life_order :: "((nat \<times> nat \<times> nat) \<times> (nat \<times> nat \<times> nat)) set" where
  "life_order = less_than <*lex*> less_than <*lex*> less_than"

lemma wf_life_order: "wf life_order"
  by (simp add: life_order_def wf_lex_prod)

text \<open>
  First the stage of the stream: it looks for a file, streams, or has nothing of its own left to do; then
  its rank within the stage.
\<close>

definition life_rank :: "config \<Rightarrow> sys \<Rightarrow> nat \<times> nat \<times> nat" where
  "life_rank c sy =
     (if sy_alive sy \<and> resolving (fl_phase (sy_filter sy)) then (2, resolution_rank c sy)
      else if sy_alive sy \<and> (\<exists>s. fl_phase (sy_filter sy) = Streaming s) then (1, stream_rank sy)
      else (0, 0, 2 * length (sy_pending sy) + sy_scheduled sy))"

lemma life_stages:
  "sy_alive sy \<Longrightarrow> resolving (fl_phase (sy_filter sy)) \<Longrightarrow> life_rank c sy = (2, resolution_rank c sy)"
  "sy_alive sy \<Longrightarrow> fl_phase (sy_filter sy) = Streaming s \<Longrightarrow> life_rank c sy = (1, stream_rank sy)"
  "fl_phase (sy_filter sy) = Done \<Longrightarrow> life_rank c sy = (0, 0, 2 * length (sy_pending sy) + sy_scheduled sy)"
  "\<not> sy_alive sy \<Longrightarrow> life_rank c sy = (0, 0, 2 * length (sy_pending sy) + sy_scheduled sy)"
  by (simp_all add: life_rank_def)

lemma life_rank_requests:
  assumes "mset rs = mset rs'"
  shows "life_rank c (view content rs sl) = life_rank c (view content' rs' sl)"
proof -
  have "length rs = length rs'" using assms by (rule mset_eq_length)
  moreover have "opens rs = opens rs'"
    unfolding opens_def using assms by (metis mset_eq_length mset_filter)
  ultimately show ?thesis
    by (simp add: life_rank_def resolution_rank_def stream_rank_def cong: phase.case_cong)
qed

text \<open>An answer lowers it, also the answer to a stream that is gone; so does a scheduled callback.\<close>

lemma answer_lowers:
  assumes "sys_reach cr c sy" and "config_ok c" and "sy_pending sy = rs1 @ r # rs2"
    and "engine_answer (sy_content sy) r content' ev"
    and "t = absorb (deliver ev (sy_filter sy)) (sy\<lparr>sy_pending := rs1 @ rs2, sy_content := content'\<rparr>)"
  shows "(life_rank c t, life_rank c sy) \<in> life_order"
proof -
  have alive: "sy_alive t = sy_alive sy" and phase: "fl_phase (sy_filter t) = fl_phase (sy_filter sy)"
    using deliver_frame [of ev "sy_filter sy"] unfolding assms(5) by (simp_all add: absorb_fields)
  consider (resolving) "sy_alive sy" "resolving (fl_phase (sy_filter sy))"
    | (streaming) s where "sy_alive sy" "fl_phase (sy_filter sy) = Streaming s"
    | (rest) "life_rank c sy = (0, 0, 2 * length (sy_pending sy) + sy_scheduled sy)"
        "life_rank c t = (0, 0, 2 * length (sy_pending t) + sy_scheduled t)"
    by (cases "sy_alive sy \<and> resolving (fl_phase (sy_filter sy))";
        cases "sy_alive sy \<and> (\<exists>s. fl_phase (sy_filter sy) = Streaming s)") (auto simp: life_rank_def alive phase)
  then show ?thesis
  proof cases
    case resolving
    then show ?thesis
      using answer_shortens [OF assms(1,2) resolving assms(3-5)] alive by (simp add: life_stages life_order_def)
  next
    case streaming
    then show ?thesis
      using answer_decreases [OF assms(1,2) streaming assms(3), of ev content'] alive phase
      unfolding assms(5) [symmetric] by (simp add: life_stages life_order_def)
  next
    case rest
    obtain acts where acts: "fl_out (deliver ev (sy_filter sy)) = fl_out (sy_filter sy) @ acts" "requests_of acts = []"
        "commits_of acts \<le> 1"
    proof (cases "bridge_open (fl_bridge (sy_filter sy))")
      case True
      then show thesis using that [of "[Commit]"] deliver_open [OF True, of ev] by simp
    next
      case False
      then show thesis using that [of "dropped_with_event ev"] bridge.send_closed [OF False, of ev]
        by (cases ev) (simp_all add: deliver_def emit_def)
    qed
    then show ?thesis
      using rest assms(3) unfolding assms(5) by (simp add: life_order_def absorb_def)
  qed
qed

lemma wake_lowers:
  assumes "sys_reach cr c sy" and "config_ok c" and "sy_alive sy" and "no_index_directory (sy_filter sy)"
    and "sy_scheduled sy = Suc n" and "on_scheduled cr react (sy_filter sy) = Some fl"
    and "t = absorb fl (sy\<lparr>sy_scheduled := n\<rparr>)"
  shows "(life_rank c t, life_rank c sy) \<in> life_order"
proof -
  have t: "sy_filter t = fl" "sy_alive t" using assms(3) unfolding assms(7) by (simp_all add: absorb_fields)
  consider (resolving) "resolving (fl_phase (sy_filter sy))" | (streaming) s where "fl_phase (sy_filter sy) = Streaming s"
    | (rest) "fl_phase (sy_filter sy) = Idle \<or> fl_phase (sy_filter sy) = Done"
    by (cases "fl_phase (sy_filter sy)") auto
  then show ?thesis
  proof cases
    case resolving
    then show ?thesis
      using wake_shortens [OF assms(1-3) resolving assms(5,4,6)] assms(3) t
      unfolding assms(7) [symmetric] by (auto simp: life_stages life_order_def)
  next
    case streaming
    then show ?thesis
      using wake_decreases [OF assms(1-3) streaming assms(5,6)] assms(3) t
      unfolding assms(7) [symmetric] by (auto simp: life_stages life_order_def)
  next
    case rest
    have "live_ok c sy" "fl_config (sy_filter sy) = c"
      using reachable_ok [OF assms(1,2)] assms(3) by (simp_all add: sys_ok_def)
    then have "drained (sy_filter sy) fl" using assms(2,6)
      by (cases rule: callback_cases) (use rest in auto)
    then have "t = sy\<lparr>sy_scheduled := n, sy_filter := fl\<rparr>" "fl_phase fl = fl_phase (sy_filter sy)"
      unfolding assms(7) by (simp_all add: absorb_def drained_def)
    then show ?thesis using rest assms(5) by (auto simp: life_rank_def life_order_def)
  qed
qed

text \<open>And so does Envoy's low watermark, while it holds the stream.\<close>

lemma drain_lowers:
  assumes "sy_alive sy" and "fl_phase (sy_filter sy) = Streaming s" and "sm_watermark_depth s \<noteq> 0"
    and "t = absorb (on_watermark BelowLow (sy_filter sy)) sy"
  shows "(life_rank c t, life_rank c sy) \<in> life_order"
proof -
  define acts where "acts = (if sm_watermark_depth s - 1 = 0 \<and> fl_waker (sy_filter sy) then [Commit] else [])"
  have fl: "fl_phase (on_watermark BelowLow (sy_filter sy)) = Streaming (s\<lparr>sm_watermark_depth := sm_watermark_depth s - 1\<rparr>)"
    "fl_out (on_watermark BelowLow (sy_filter sy)) = fl_out (sy_filter sy) @ acts"
    using assms(2) by (simp_all add: on_watermark_def on_below_low_watermark_def Let_def emit_def acts_def)
  have "requests_of acts = []" "commits_of acts \<le> 1" by (simp_all add: acts_def)
  then show ?thesis
    using assms fl by (simp add: life_stages life_order_def stream_rank_def absorb_def)
qed

section \<open>Driving the server\<close>

text \<open>
  The steps that make progress with what there is: no new connection or request, no teardown and no shutdown.
  Envoy may hold a stream at any time while data is sent to it; a stream it holds, it may let go.
\<close>

inductive server_drive :: "'f os_calls \<Rightarrow> ('h, 't) crates \<Rightarrow> 'f server \<Rightarrow> 'f server \<Rightarrow> bool" for os cr where
  hand_over: "i < length (sv_slots sv) \<Longrightarrow> sl_outbox (sv_slots sv ! i) = a # rest \<Longrightarrow>
    server_drive os cr sv (sv\<lparr>sv_engine := perform i a (sv_engine sv),
      sv_slots := (sv_slots sv)[i := (sv_slots sv ! i)\<lparr>sl_outbox := rest\<rparr>]\<rparr>)"
| turn: "eng_commands (sv_engine sv) \<noteq> [] \<Longrightarrow> server_drive os cr sv (sv\<lparr>sv_engine := run_reactor (sv_engine sv)\<rparr>)"
| complete_task: "run_task os j (sv_engine sv) = (eng, [((i, r), result)]) \<Longrightarrow> i < length (sv_slots sv) \<Longrightarrow>
    completed r result = Some ev \<Longrightarrow>
    server_drive os cr sv (sv\<lparr>sv_engine := fold (perform i) (delivery_actions ev (sv_slots sv ! i)) eng,
      sv_slots := (sv_slots sv)[i := delivered ev (sv_slots sv ! i)]\<rparr>)"
| wake_up: "i < length (sv_slots sv) \<Longrightarrow> sl = sv_slots sv ! i \<Longrightarrow> sl_alive sl \<Longrightarrow> sl_outbox sl = [] \<Longrightarrow>
    sl_scheduled sl = Suc m \<Longrightarrow> on_scheduled cr react (sl_filter sl) = Some fl \<Longrightarrow>
    server_drive os cr sv (sv\<lparr>sv_slots := (sv_slots sv)[i := moved fl (sl\<lparr>sl_scheduled := m\<rparr>)]\<rparr>)"
| drain: "i < length (sv_slots sv) \<Longrightarrow> sl = sv_slots sv ! i \<Longrightarrow> sl_alive sl \<Longrightarrow> sl_outbox sl = [] \<Longrightarrow>
    fl_phase (sl_filter sl) = Streaming s \<Longrightarrow> sm_watermark_depth s \<noteq> 0 \<Longrightarrow>
    server_drive os cr sv (sv\<lparr>sv_slots := (sv_slots sv)[i := moved (on_watermark BelowLow (sl_filter sl)) sl]\<rparr>)"

lemma drive_is_step: "server_drive os cr sv sv' \<Longrightarrow> server_step os cr sv sv'"
proof (induction rule: server_drive.induct)
  case (wake_up i sv sl m react fl)
  then show ?case by (auto intro: server_step.callback slot_step.scheduled)
next
  case (drain i sv sl s)
  then show ?case by (auto intro: server_step.callback slot_step.watermark)
qed (auto intro: server_step.intros)

text \<open>The ranks of all streams, and what is left to hand over.\<close>

definition asked_list :: "nat \<Rightarrow> slot \<Rightarrow> ('f, tag) engine \<Rightarrow> request list" where
  "asked_list i sl eng =
     map snd (filter (\<lambda>k. fst k = i) (concat (map command_tag (eng_commands eng)) @ map task_tag (eng_tasks eng))) @
       requests_of (sl_outbox sl)"

lemma mset_asked_list: "mset (asked_list i sl eng) = asked i sl eng"
  by (simp add: asked_list_def asked_def outstanding_def)

definition slot_rank :: "('f, tag) engine \<Rightarrow> nat \<Rightarrow> slot \<Rightarrow> nat \<times> nat \<times> nat" where
  "slot_rank eng i sl = life_rank (fl_config (sl_filter sl)) (view [] (asked_list i sl eng) sl)"

definition backlog :: "'f server \<Rightarrow> nat" where
  "backlog sv = 2 * sum_list (map (\<lambda>sl. length (sl_outbox sl)) (sv_slots sv)) + length (eng_commands (sv_engine sv))"

definition server_rank :: "'f server \<Rightarrow> (nat \<times> nat \<times> nat) list \<times> nat" where
  "server_rank sv =
     (map (\<lambda>i. slot_rank (sv_engine sv) i (sv_slots sv ! i)) [0..<length (sv_slots sv)], backlog sv)"

definition server_order :: "(((nat \<times> nat \<times> nat) list \<times> nat) \<times> ((nat \<times> nat \<times> nat) list \<times> nat)) set" where
  "server_order = lex life_order <*lex*> less_than"

lemma wf_server_order: "wf server_order"
  by (simp add: server_order_def wf_lex_prod wf_lex wf_life_order)

lemma slot_rank_asked:
  "asked i sl eng = asked i sl' eng' \<Longrightarrow> sl_filter sl' = sl_filter sl \<Longrightarrow> sl_scheduled sl' = sl_scheduled sl \<Longrightarrow>
     sl_alive sl' = sl_alive sl \<Longrightarrow> slot_rank eng' i sl' = slot_rank eng i sl"
  using life_rank_requests [of "asked_list i sl' eng'" "asked_list i sl eng" _ "[]" sl "[]"]
  by (simp add: slot_rank_def mset_asked_list view_def)

lemma slot_rank_pending:
  "slot_ok os content_of cr eng i sl content pending \<Longrightarrow> eng_running eng \<Longrightarrow>
     slot_rank eng i sl = life_rank (fl_config (sl_filter sl)) (view content pending sl)"
  unfolding slot_rank_def by (rule life_rank_requests) (simp add: mset_asked_list slot_ok_def)

lemma list_update_lex:
  "i < length xs \<Longrightarrow> (a, xs ! i) \<in> r \<Longrightarrow> (xs[i := a], xs) \<in> lex r"
  by (induction xs arbitrary: i) (auto simp: less_Suc_eq_0_disj)

text \<open>A step that lowers the rank of one stream and leaves the others alone lowers the rank of the server.\<close>

lemma one_slot_lowers:
  assumes "i < length (sv_slots sv)" and "sv_slots sv' = (sv_slots sv)[i := sl]"
    and "(slot_rank (sv_engine sv') i sl, slot_rank (sv_engine sv) i (sv_slots sv ! i)) \<in> life_order"
    and "\<And>k. k < length (sv_slots sv) \<Longrightarrow> k \<noteq> i \<Longrightarrow>
      slot_rank (sv_engine sv') k (sv_slots sv ! k) = slot_rank (sv_engine sv) k (sv_slots sv ! k)"
  shows "(server_rank sv', server_rank sv) \<in> server_order"
proof -
  let ?old = "map (\<lambda>k. slot_rank (sv_engine sv) k (sv_slots sv ! k)) [0..<length (sv_slots sv)]"
  have "map (\<lambda>k. slot_rank (sv_engine sv') k (sv_slots sv' ! k)) [0..<length (sv_slots sv')] =
      ?old[i := slot_rank (sv_engine sv') i sl]"
    using assms(1,2,4) by (intro nth_equalityI) (auto simp: nth_list_update)
  then show ?thesis
    using list_update_lex [of i ?old "slot_rank (sv_engine sv') i sl" life_order] assms(1,3)
    by (simp add: server_rank_def server_order_def)
qed

text \<open>A step that leaves all of them alone lowers it by the backlog.\<close>

lemma backlog_lowers:
  assumes "length (sv_slots sv') = length (sv_slots sv)" and "backlog sv' < backlog sv"
    and "\<And>k. k < length (sv_slots sv) \<Longrightarrow>
      slot_rank (sv_engine sv') k (sv_slots sv' ! k) = slot_rank (sv_engine sv) k (sv_slots sv ! k)"
  shows "(server_rank sv', server_rank sv) \<in> server_order"
  using assms by (simp add: server_rank_def server_order_def cong: map_cong)

section \<open>Every step of a drive counts\<close>

text \<open>The engine runs, and has not been told to stop.\<close>

definition going :: "('f, tag) engine \<Rightarrow> bool" where
  "going eng \<longleftrightarrow> eng_running eng \<and> ShutdownCommand \<notin> set (eng_commands eng)"

lemma going_perform: "going eng \<Longrightarrow> going (perform i a eng)"
  by (cases a) (auto simp: going_def engine_open_stat_def engine_read_def engine_read_dir_def drop_handle_def try_send_def)

lemma going_performs: "going eng \<Longrightarrow> going (fold (perform i) acts eng)"
  by (induction acts arbitrary: eng) (simp_all add: going_perform)

lemma going_react: "going eng \<Longrightarrow> going (run_reactor eng)"
  by (auto simp: going_def run_reactor_def Let_def split: list.split command.split)

lemma going_task: "going eng \<Longrightarrow> run_task os j eng = (eng', out) \<Longrightarrow> going eng'"
  by (auto simp: going_def run_task_def Let_def split: if_splits task.splits prod.splits)

lemma drive_going: "server_drive os cr sv sv' \<Longrightarrow> going (sv_engine sv) \<Longrightarrow> going (sv_engine sv')"
  by (induction rule: server_drive.induct) (auto intro: going_perform going_performs going_react going_task)

text \<open>What the engine owes to each stream after each of its operations.\<close>

lemma react_outstanding: "going eng \<Longrightarrow> outstanding (run_reactor eng) = outstanding eng"
  by (auto simp: going_def run_reactor_def outstanding_def Let_def split: list.split command.split)

lemma react_commands: "going eng \<Longrightarrow> length (eng_commands (run_reactor eng)) = length (eng_commands eng) - 1"
  by (auto simp: going_def run_reactor_def Let_def split: list.split command.split)

lemma perform_commands: "length (eng_commands (perform i a eng)) \<le> Suc (length (eng_commands eng))"
  by (cases a) (auto simp: engine_open_stat_def engine_read_def engine_read_dir_def drop_handle_def try_send_def)

lemma neutral_outstanding: "list_all neutral_action acts \<Longrightarrow> outstanding (fold (perform i) acts eng) = outstanding eng"
proof (induction acts arbitrary: eng)
  case (Cons a acts)
  then have "action_request a = []" by (cases a) auto
  then show ?case using Cons by (simp add: perform_tags)
qed simp

lemma asked_by_others:
  "filter_mset (\<lambda>k. fst k = j) (outstanding eng') = filter_mset (\<lambda>k. fst k = j) (outstanding eng) \<Longrightarrow>
     slot_rank eng' j sl = slot_rank eng j sl"
  by (rule slot_rank_asked) (simp_all add: asked_def)

lemma sum_list_exchange:
  "i < length xs \<Longrightarrow> sum_list (map f (xs[i := y])) + f (xs ! i) = sum_list (map f xs) + (f y :: nat)"
  by (induction xs arbitrary: i) (auto simp: less_Suc_eq_0_disj)

lemma hand_over_lowers:
  assumes "i < length (sv_slots sv)" and "sl_outbox (sv_slots sv ! i) = a # rest" and "going (sv_engine sv)"
  shows "(server_rank (sv\<lparr>sv_engine := perform i a (sv_engine sv),
      sv_slots := (sv_slots sv)[i := (sv_slots sv ! i)\<lparr>sl_outbox := rest\<rparr>]\<rparr>), server_rank sv) \<in> server_order"
proof (rule backlog_lowers)
  let ?sl = "(sv_slots sv ! i)\<lparr>sl_outbox := rest\<rparr>" and ?eng = "perform i a (sv_engine sv)"
  have "asked i ?sl ?eng = asked i (sv_slots sv ! i) (sv_engine sv)"
    using assms(2,3) by (simp add: asked_def perform_tags going_def)
  then have "slot_rank ?eng i ?sl = slot_rank (sv_engine sv) i (sv_slots sv ! i)"
    by (intro slot_rank_asked) simp_all
  moreover have "slot_rank ?eng k (sv_slots sv ! k) = slot_rank (sv_engine sv) k (sv_slots sv ! k)" if "k \<noteq> i" for k
    by (rule asked_by_others) (use that in \<open>simp add: perform_other\<close>)
  ultimately show "slot_rank (sv_engine (sv\<lparr>sv_engine := ?eng, sv_slots := (sv_slots sv)[i := ?sl]\<rparr>)) k
      (sv_slots (sv\<lparr>sv_engine := ?eng, sv_slots := (sv_slots sv)[i := ?sl]\<rparr>) ! k) =
      slot_rank (sv_engine sv) k (sv_slots sv ! k)" if "k < length (sv_slots sv)" for k
    using that assms(1) by (cases "k = i") simp_all
  have "sum_list (map (\<lambda>sl. length (sl_outbox sl)) (sv_slots sv)) =
      Suc (sum_list (map (\<lambda>sl. length (sl_outbox sl)) ((sv_slots sv)[i := ?sl])))"
    using sum_list_exchange [OF assms(1), of "\<lambda>sl. length (sl_outbox sl)" ?sl] assms(2) by simp
  then show "backlog (sv\<lparr>sv_engine := ?eng, sv_slots := (sv_slots sv)[i := ?sl]\<rparr>) < backlog sv"
    using perform_commands [of i a "sv_engine sv"] by (simp add: backlog_def)
qed simp

lemma turn_lowers:
  assumes "eng_commands (sv_engine sv) \<noteq> []" and "going (sv_engine sv)"
  shows "(server_rank (sv\<lparr>sv_engine := run_reactor (sv_engine sv)\<rparr>), server_rank sv) \<in> server_order"
proof (rule backlog_lowers)
  show "backlog (sv\<lparr>sv_engine := run_reactor (sv_engine sv)\<rparr>) < backlog sv"
    using assms react_commands [OF assms(2)] by (cases "eng_commands (sv_engine sv)") (simp_all add: backlog_def)
qed (use assms(2) in \<open>auto intro: asked_by_others simp: react_outstanding\<close>)

text \<open>A completion lowers the rank of the stream it is for.\<close>

lemma completion_lowers:
  assumes "server_ok os content_of cr n sv" and "stable_files os content_of" and "nofollow_contract os"
    and going: "going (sv_engine sv)" and run: "run_task os j (sv_engine sv) = (eng, [((i, r), result)])"
    and i: "i < length (sv_slots sv)" and ev: "completed r result = Some ev"
  shows "(server_rank (sv\<lparr>sv_engine := fold (perform i) (delivery_actions ev (sv_slots sv ! i)) eng,
      sv_slots := (sv_slots sv)[i := delivered ev (sv_slots sv ! i)]\<rparr>), server_rank sv) \<in> server_order"
proof (rule one_slot_lowers [OF i])
  let ?sl = "sv_slots sv ! i" and ?eng = "fold (perform i) (delivery_actions ev (sv_slots sv ! i)) eng"
  have eng: "engine_ok n (length (sv_slots sv)) (sv_engine sv)" "cache_ok os (eng_cache (sv_engine sv))"
    using assms(1) by (simp_all add: server_ok_def)
  obtain content pending where ok: "slot_ok os content_of cr (sv_engine sv) i ?sl content pending"
    using assms(1) i by (auto simp: server_ok_def simulated_def)
  from finish_own [OF eng(1) assms(2) ok run ev assms(3) eng(2)] obtain rs1 rs2 content' where
    split: "pending = rs1 @ r # rs2" and answer: "engine_answer content r content' ev" and
    "slot_ok os content_of cr eng i (delivered ev ?sl) content' (rs1 @ rs2)" by blast
  then have ok': "slot_ok os content_of cr ?eng i (delivered ev ?sl) content' (rs1 @ rs2)"
    by (intro neutral_slot_ok delivery_neutral)
  have running: "eng_running (sv_engine sv)" "eng_running ?eng"
    using going going_performs [OF going_task [OF going run]] by (simp_all add: going_def)
  have "sys_reach cr (fl_config (sl_filter ?sl)) (view content (rs1 @ r # rs2) ?sl)" "config_ok (fl_config (sl_filter ?sl))"
    using ok split by (simp_all add: slot_ok_def)
  moreover have "view content' (rs1 @ rs2) (delivered ev ?sl) =
      absorb (deliver ev (sy_filter (view content (rs1 @ r # rs2) ?sl)))
        ((view content (rs1 @ r # rs2) ?sl)\<lparr>sy_pending := rs1 @ rs2, sy_content := content'\<rparr>)"
    unfolding view_simps by (rule view_delivered)
  ultimately have "(life_rank (fl_config (sl_filter ?sl)) (view content' (rs1 @ rs2) (delivered ev ?sl)),
      life_rank (fl_config (sl_filter ?sl)) (view content (rs1 @ r # rs2) ?sl)) \<in> life_order"
    using answer by (intro answer_lowers) simp_all
  then show "(slot_rank (sv_engine (sv\<lparr>sv_engine := ?eng, sv_slots := (sv_slots sv)[i := delivered ev ?sl]\<rparr>)) i (delivered ev ?sl),
      slot_rank (sv_engine sv) i ?sl) \<in> life_order"
    using slot_rank_pending [OF ok running(1)] slot_rank_pending [OF ok' running(2)] split
    by (simp add: delivered_fields)
  fix k assume "k < length (sv_slots sv)" and "k \<noteq> i"
  have "outstanding ?eng = outstanding eng" by (rule neutral_outstanding [OF delivery_neutral])
  then have "filter_mset (\<lambda>t. fst t = k) (outstanding ?eng) = filter_mset (\<lambda>t. fst t = k) (outstanding (sv_engine sv))"
    using run_task_tags [of "sv_engine sv" os j] run \<open>k \<noteq> i\<close> by simp
  from asked_by_others [OF this]
  show "slot_rank (sv_engine (sv\<lparr>sv_engine := ?eng, sv_slots := (sv_slots sv)[i := delivered ev ?sl]\<rparr>)) k (sv_slots sv ! k) =
      slot_rank (sv_engine sv) k (sv_slots sv ! k)" by simp
qed simp

text \<open>So does a callback of Envoy's that lowers the rank of the stream alone.\<close>

lemma callback_lowers:
  assumes "server_ok os content_of cr n sv" and going: "going (sv_engine sv)" and i: "i < length (sv_slots sv)"
    and sl: "sl = sv_slots sv ! i" and step: "slot_step cr sl sl'"
    and less: "\<And>content pending. sys_reach cr (fl_config (sl_filter sl)) (view content pending sl) \<Longrightarrow>
      config_ok (fl_config (sl_filter sl)) \<Longrightarrow>
      (life_rank (fl_config (sl_filter sl)) (view content (pending @ requests_of (sl_outbox sl')) sl'),
       life_rank (fl_config (sl_filter sl)) (view content pending sl)) \<in> life_order"
  shows "(server_rank (sv\<lparr>sv_slots := (sv_slots sv)[i := sl']\<rparr>), server_rank sv) \<in> server_order"
proof (rule one_slot_lowers [OF i])
  obtain content pending where ok: "slot_ok os content_of cr (sv_engine sv) i sl content pending"
    using assms(1) i sl by (auto simp: server_ok_def simulated_def)
  note ok' = callback_slot_ok [OF step ok]
  have reach: "sys_reach cr (fl_config (sl_filter sl)) (view content pending sl)" "config_ok (fl_config (sl_filter sl))"
    using ok by (simp_all add: slot_ok_def)
  have "fl_config (sl_filter sl') = fl_config (sl_filter sl)"
    using reachable_ok [OF slot_step_reach [OF step reach(1)] reach(2)] by (simp add: sys_ok_def)
  then show "(slot_rank (sv_engine (sv\<lparr>sv_slots := (sv_slots sv)[i := sl']\<rparr>)) i sl',
      slot_rank (sv_engine sv) i (sv_slots sv ! i)) \<in> life_order"
    using less [OF reach] slot_rank_pending [OF ok] slot_rank_pending [OF ok'] going sl by (simp add: going_def)
qed simp_all

lemma wake_up_lowers:
  assumes "server_ok os content_of cr n sv" and "going (sv_engine sv)" and "i < length (sv_slots sv)"
    and sl: "sl = sv_slots sv ! i" "sl_alive sl" "sl_outbox sl = []" "sl_scheduled sl = Suc m"
    and on: "on_scheduled cr react (sl_filter sl) = Some fl" and quiet: "no_index_directory (sl_filter sl)"
  shows "(server_rank (sv\<lparr>sv_slots := (sv_slots sv)[i := moved fl (sl\<lparr>sl_scheduled := m\<rparr>)]\<rparr>), server_rank sv) \<in> server_order"
proof (rule callback_lowers [OF assms(1-3) sl(1) slot_step.scheduled [OF sl(2-4) on]])
  let ?sl = "moved fl (sl\<lparr>sl_scheduled := m\<rparr>)"
  fix content pending
  assume reach: "sys_reach cr (fl_config (sl_filter sl)) (view content pending sl)" "config_ok (fl_config (sl_filter sl))"
  have "view content (pending @ requests_of (sl_outbox ?sl)) ?sl = absorb fl ((view content pending sl)\<lparr>sy_scheduled := m\<rparr>)"
    using view_moved [of content pending "sl\<lparr>sl_scheduled := m\<rparr>" fl] sl(3)
    by (simp add: moved_def Let_def) (simp add: view_def)
  from wake_lowers [OF reach _ _ _ _ this] sl(2,4) on quiet
  show "(life_rank (fl_config (sl_filter sl)) (view content (pending @ requests_of (sl_outbox ?sl)) ?sl),
      life_rank (fl_config (sl_filter sl)) (view content pending sl)) \<in> life_order" by simp
qed

lemma drained_lowers:
  assumes "server_ok os content_of cr n sv" and "going (sv_engine sv)" and "i < length (sv_slots sv)"
    and sl: "sl = sv_slots sv ! i" "sl_alive sl" "sl_outbox sl = []"
    and held: "fl_phase (sl_filter sl) = Streaming s" "sm_watermark_depth s \<noteq> 0"
  shows "(server_rank (sv\<lparr>sv_slots := (sv_slots sv)[i := moved (on_watermark BelowLow (sl_filter sl)) sl]\<rparr>), server_rank sv)
    \<in> server_order"
proof (rule callback_lowers [OF assms(1-3) sl(1) slot_step.watermark [OF sl(2,3)]])
  let ?sl = "moved (on_watermark BelowLow (sl_filter sl)) sl"
  fix content pending
  have "view content (pending @ requests_of (sl_outbox ?sl)) ?sl =
      absorb (on_watermark BelowLow (sy_filter (view content pending sl))) (view content pending sl)"
    using view_moved [of content pending sl "on_watermark BelowLow (sl_filter sl)"] sl(3) by (simp add: moved_def Let_def)
  from drain_lowers [OF _ _ held(2) this] sl(2) held(1)
  show "(life_rank (fl_config (sl_filter sl)) (view content (pending @ requests_of (sl_outbox ?sl)) ?sl),
      life_rank (fl_config (sl_filter sl)) (view content pending sl)) \<in> life_order" by simp
qed

lemma drive_lowers:
  assumes "server_drive os cr sv sv'" and "server_ok os content_of cr n sv" and "stable_files os content_of"
    and "nofollow_contract os" and "going (sv_engine sv)"
    and "\<forall>sl \<in> set (sv_slots sv). no_index_directory (sl_filter sl)"
  shows "(server_rank sv', server_rank sv) \<in> server_order"
  using assms(1)
proof cases
  case (hand_over i a rest)
  then show ?thesis using hand_over_lowers assms(5) by simp
next
  case turn
  then show ?thesis using turn_lowers assms(5) by simp
next
  case (complete_task j eng i r result ev)
  then show ?thesis using completion_lowers [OF assms(2-5)] by simp
next
  case (wake_up i sl m react fl)
  then show ?thesis using wake_up_lowers [OF assms(2,5)] assms(6) by simp
next
  case (drain i sl s)
  then show ?thesis using drained_lowers [OF assms(2,5)] by simp
qed

section \<open>There is always something to run\<close>

text \<open>
  The engine is idle, everything has been handed over, and every stream that is still alive has not asked, has
  ended its response, or waits with an answer that brings a value which is not valid.
\<close>

definition answered :: "('h, 't) crates \<Rightarrow> stream_filter \<Rightarrow> bool" where
  "answered cr fl \<longleftrightarrow>
     (case fl_phase fl of Idle \<Rightarrow> True | Done \<Rightarrow> True | Streaming s \<Rightarrow> False | _ \<Rightarrow> invalid_value cr fl)"

definition server_settled :: "('h, 't) crates \<Rightarrow> 'f server \<Rightarrow> bool" where
  "server_settled cr sv \<longleftrightarrow> eng_commands (sv_engine sv) = [] \<and> eng_tasks (sv_engine sv) = [] \<and>
     (\<forall>sl \<in> set (sv_slots sv). sl_outbox sl = [] \<and> (sl_alive sl \<longrightarrow> answered cr (sl_filter sl)))"

lemma task_completes:
  assumes "engine_ok n m eng" and "eng_tasks eng \<noteq> []"
  obtains eng' i r result ev where "run_task os 0 eng = (eng', [((i, r), result)])" "i < m" "completed r result = Some ev"
proof -
  obtain t ts where t: "eng_tasks eng = t # ts" using assms(2) by (cases "eng_tasks eng") auto
  then have ok: "task_ok m t" using assms(1) by (simp add: engine_ok_def)
  show thesis
  proof (cases t)
    case (OpenTask h req k)
    then show thesis using that t ok by (cases k) (fastforce simp: run_task_def split: prod.splits)
  qed (use that t ok in \<open>fastforce simp: run_task_def\<close>)+
qed

text \<open>A stream with nothing out, not answered and not held, has a callback scheduled, and it returns.\<close>

lemma unsettled_wakes:
  assumes "sys_reach cr c sy" and "config_ok c" and "sy_alive sy" and "sy_pending sy = []"
    and "\<not> answered cr (sy_filter sy)" and "\<And>s. fl_phase (sy_filter sy) = Streaming s \<Longrightarrow> sm_watermark_depth s = 0"
    and "values_contract (cr_headers cr)"
  obtains m fl where "sy_scheduled sy = Suc m" "on_scheduled cr react (sy_filter sy) = Some fl"
proof (cases "\<exists>s. fl_phase (sy_filter sy) = Streaming s")
  case True
  then obtain s where s: "fl_phase (sy_filter sy) = Streaming s" by blast
  then have "sy_scheduled sy \<noteq> 0" using streaming_facts(8) [OF assms(1-3) s assms(4)] assms(6) [OF s] by auto
  moreover obtain fl where "on_scheduled cr react (sy_filter sy) = Some fl"
    by (rule streaming_wakes [OF assms(1-3) s, of react])
  ultimately show thesis using that by (cases "sy_scheduled sy") auto
next
  case False
  then have search: "resolving (fl_phase (sy_filter sy))" "\<not> invalid_value cr (sy_filter sy)"
    using assms(5) by (cases "fl_phase (sy_filter sy)"; simp add: answered_def)+
  note f = resolving_facts [OF assms(1-3) search(1)]
  have "0 < sy_scheduled sy" using f(4,7) assms(4) by (cases "bridge_contents (fl_bridge (sy_filter sy))") auto
  then show thesis using that wake_total [OF assms(1-3) search assms(7), of react] by (cases "sy_scheduled sy") auto
qed

lemma unsettled_drives:
  assumes "server_ok os content_of cr n sv" and "going (sv_engine sv)" and "\<not> server_settled cr sv"
    and "values_contract (cr_headers cr)"
  shows "\<exists>sv'. server_drive os cr sv sv'"
proof -
  have eng: "engine_ok n (length (sv_slots sv)) (sv_engine sv)" using assms(1) by (simp add: server_ok_def)
  consider (commands) "eng_commands (sv_engine sv) \<noteq> []" | (tasks) "eng_tasks (sv_engine sv) \<noteq> []"
    | (outbox) i where "i < length (sv_slots sv)" "sl_outbox (sv_slots sv ! i) \<noteq> []"
    | (slot) i where "eng_commands (sv_engine sv) = []" "eng_tasks (sv_engine sv) = []" "i < length (sv_slots sv)"
        "sl_outbox (sv_slots sv ! i) = []" "sl_alive (sv_slots sv ! i)" "\<not> answered cr (sl_filter (sv_slots sv ! i))"
    using assms(3) by (force simp: server_settled_def in_set_conv_nth)
  then show ?thesis
  proof cases
    case commands
    then show ?thesis by (blast intro: server_drive.turn)
  next
    case tasks
    then show ?thesis by (rule task_completes [OF eng]) (blast intro: server_drive.complete_task)
  next
    case outbox
    then show ?thesis by (cases "sl_outbox (sv_slots sv ! i)") (auto intro: server_drive.hand_over)
  next
    case slot
    let ?sl = "sv_slots sv ! i"
    show ?thesis
    proof (cases "\<exists>s. fl_phase (sl_filter ?sl) = Streaming s \<and> sm_watermark_depth s \<noteq> 0")
      case True
      then show ?thesis using server_drive.drain [OF slot(3) refl slot(5,4)] by blast
    next
      case False
      obtain content pending where ok: "slot_ok os content_of cr (sv_engine sv) i ?sl content pending"
        using assms(1) slot(3) by (auto simp: server_ok_def simulated_def)
      have "asked i ?sl (sv_engine sv) = {#}" using slot(1,2,4) by (simp add: asked_def outstanding_def)
      then have "pending = []" using ok assms(2) by (simp add: slot_ok_def going_def)
      then have "sys_reach cr (fl_config (sl_filter ?sl)) (view content [] ?sl)" "config_ok (fl_config (sl_filter ?sl))"
        using ok by (simp_all add: slot_ok_def)
      then obtain m fl where "sl_scheduled ?sl = Suc m" "on_scheduled cr (\<lambda>_. []) (sl_filter ?sl) = Some fl"
        by (rule unsettled_wakes [where react = "\<lambda>_. []", unfolded view_simps]) (use slot(5,6) False assms(4) in auto)
      then show ?thesis using server_drive.wake_up [OF slot(3) refl slot(5,4)] by blast
    qed
  qed
qed

section \<open>The server settles\<close>

text \<open>
  C3: The whole server brings every request to its end: from any state it can reach, with any number of streams,
  left to run in any order, as long as its engine runs and Envoy lets go of the streams it holds, after
  finitely many steps the engine has nothing left to do and every stream that is alive is at the end of its response;
  until then there is always something to run. The exceptions, and there are no others: an index file turns out to be a
  directory; a stream waits with an answer whose content type or cache control is no valid header value, or whose
  file time has no HTTP date; and 2^64 steps have been made, so that ids of opens may run out.
\<close>

theorem server_settles:
  assumes "server_run os cr n sv" and "stable_files os content_of" and "nofollow_contract os"
    and "eng_running (sv_engine sv)" and "ShutdownCommand \<notin> set (eng_commands (sv_engine sv))"
    and "values_contract (cr_headers cr)"
  shows "inevitable (\<lambda>(n, sv) (m, sv'). m = Suc n \<and> server_drive os cr sv sv')
    (\<lambda>(n, sv). server_settled cr sv \<or> (\<exists>sl \<in> set (sv_slots sv). \<not> no_index_directory (sl_filter sl)) \<or> 2 ^ 64 \<le> n + 1)
    (n, sv)"
proof (rule inevitable_by_wf [OF wf_server_order,
      where I = "\<lambda>(n, sv). server_run os cr n sv \<and> going (sv_engine sv)" and rank = "\<lambda>(n, sv). server_rank sv"])
  show "case (n, sv) of (n, sv) \<Rightarrow> server_run os cr n sv \<and> going (sv_engine sv)"
    using assms(1,4,5) by (simp add: going_def)
next
  fix s assume "case s of (n, sv) \<Rightarrow> server_run os cr n sv \<and> going (sv_engine sv)"
    and "\<not> (case s of (n, sv) \<Rightarrow> server_settled cr sv \<or>
      (\<exists>sl \<in> set (sv_slots sv). \<not> no_index_directory (sl_filter sl)) \<or> 2 ^ 64 \<le> n + 1)"
  then show "\<exists>t. (case s of (n, sv) \<Rightarrow> \<lambda>(m, sv'). m = Suc n \<and> server_drive os cr sv sv') t"
    using unsettled_drives [OF server_reachable_ok [OF _ assms(2,3)] _ _ assms(6)] by (cases s) fastforce
next
  fix s t assume i: "case s of (n, sv) \<Rightarrow> server_run os cr n sv \<and> going (sv_engine sv)"
    and g: "\<not> (case s of (n, sv) \<Rightarrow> server_settled cr sv \<or>
      (\<exists>sl \<in> set (sv_slots sv). \<not> no_index_directory (sl_filter sl)) \<or> 2 ^ 64 \<le> n + 1)"
    and d: "(case s of (n, sv) \<Rightarrow> \<lambda>(m, sv'). m = Suc n \<and> server_drive os cr sv sv') t"
  obtain n sv where s: "s = (n, sv)" by (cases s)
  obtain sv' where t: "t = (Suc n, sv')" and drive: "server_drive os cr sv sv'" using d s by (cases t) simp
  have "server_ok os content_of cr n sv" by (rule server_reachable_ok [OF _ assms(2,3)]) (use i g s in auto)
  from drive_lowers [OF drive this assms(2,3)] i g s
  have "(server_rank sv', server_rank sv) \<in> server_order" by auto
  moreover have "server_run os cr (Suc n) sv'" "going (sv_engine sv')"
    using i s server_run.goes_on [OF _ drive_is_step [OF drive]] drive_going [OF drive] by auto
  ultimately show "(case t of (n, sv) \<Rightarrow> server_settled cr sv \<or>
        (\<exists>sl \<in> set (sv_slots sv). \<not> no_index_directory (sl_filter sl)) \<or> 2 ^ 64 \<le> n + 1) \<or>
      (case t of (n, sv) \<Rightarrow> server_run os cr n sv \<and> going (sv_engine sv)) \<and>
      (case t of (n, sv) \<Rightarrow> server_rank sv, case s of (n, sv) \<Rightarrow> server_rank sv) \<in> server_order"
    using s t by simp
qed

theorem server_settles_witness:
  "\<not> server_settled sample_cr small_reading \<and>
   inevitable (\<lambda>(n, sv) (m, sv'). m = Suc n \<and> server_drive page_os sample_cr sv sv')
    (\<lambda>(n, sv). server_settled sample_cr sv \<or> (\<exists>sl \<in> set (sv_slots sv). \<not> no_index_directory (sl_filter sl)) \<or> 2 ^ 64 \<le> n + 1)
    (10, small_reading)"
proof
  show "\<not> server_settled sample_cr small_reading"
    by (simp add: server_settled_def small_reading_def small_server_def small_engine_def small_reads_def)
  show "inevitable (\<lambda>(n, sv) (m, sv'). m = Suc n \<and> server_drive page_os sample_cr sv sv')
    (\<lambda>(n, sv). server_settled sample_cr sv \<or> (\<exists>sl \<in> set (sv_slots sv). \<not> no_index_directory (sl_filter sl)) \<or> 2 ^ 64 \<le> n + 1)
    (10, small_reading)"
    by (rule server_settles [OF small_run small_files small_nofollow])
       (simp_all add: sample_values sample_cr_def [THEN arg_cong [of _ _ cr_headers]] small_reading_def small_server_def small_engine_def small_reads_def)
qed

end
