(* ===== verification/Tests_Ranges.thy ===== *)
theory Tests_Ranges
  imports Ranges
begin

text \<open>
  The unit tests of src/crates/envoy-files-core/src/range.rs, each as the truth value of its
  assertions on the definitions of \<^theory_text>\<open>Ranges\<close>; the last section runs them. A panic is a failed test.
\<close>

section \<open>Fixtures\<close>

definition policy :: "bool \<Rightarrow> nat \<Rightarrow> range_policy" where
  "policy allow parts = \<lparr>allow_multi = allow, max_parts = parts\<rparr>"

definition default_policy :: range_policy where
  "default_policy = policy True 50"

fun single :: "range_outcome \<Rightarrow> byte_range option" where
  "single (Single r) = Some r"
| "single _ = None"

definition bytes_at :: "u64 \<Rightarrow> u64 \<Rightarrow> byte_range" where
  "bytes_at s e = \<lparr>range_start = s, range_end = e\<rparr>"

section \<open>Single ranges\<close>

definition full_byte_at_start :: bool where
  [unit_tests]: "full_byte_at_start \<longleftrightarrow> single (plan_ranges ''bytes=0-0'' 10000 default_policy) = Some (bytes_at 0 0)"

definition simple_prefix_range :: bool where
  [unit_tests]: "simple_prefix_range \<longleftrightarrow> single (plan_ranges ''bytes=0-499'' 10000 default_policy) = Some (bytes_at 0 499)"

definition simple_middle_range :: bool where
  [unit_tests]: "simple_middle_range \<longleftrightarrow> single (plan_ranges ''bytes=500-999'' 10000 default_policy) = Some (bytes_at 500 999)"

definition suffix_range :: bool where
  [unit_tests]: "suffix_range \<longleftrightarrow> single (plan_ranges ''bytes=-500'' 10000 default_policy) = Some (bytes_at 9500 9999)"

definition open_ended_range_near_end :: bool where
  [unit_tests]: "open_ended_range_near_end \<longleftrightarrow>
     single (plan_ranges ''bytes=9500-'' 10000 default_policy) = Some (bytes_at 9500 9999)"

definition open_ended_range_from_start :: bool where
  [unit_tests]: "open_ended_range_from_start \<longleftrightarrow> single (plan_ranges ''bytes=0-'' 10000 default_policy) = Some (bytes_at 0 9999)"

definition suffix_zero_is_unsatisfiable :: bool where
  [unit_tests]: "suffix_zero_is_unsatisfiable \<longleftrightarrow> plan_ranges ''bytes=-0'' 10000 default_policy = Unsatisfiable"

definition start_past_end_is_unsatisfiable :: bool where
  [unit_tests]: "start_past_end_is_unsatisfiable \<longleftrightarrow> plan_ranges ''bytes=99999-'' 10000 default_policy = Unsatisfiable"

definition suffix_larger_than_total_covers_whole_file :: bool where
  [unit_tests]: "suffix_larger_than_total_covers_whole_file \<longleftrightarrow>
     single (plan_ranges ''bytes=-999999'' 10000 default_policy) = Some (bytes_at 0 9999)"

definition zero_total_length_is_unsatisfiable :: bool where
  [unit_tests]: "zero_total_length_is_unsatisfiable \<longleftrightarrow>
     plan_ranges ''bytes=0-0'' 0 default_policy = Unsatisfiable \<and>
     plan_ranges ''bytes=-1'' 0 default_policy = Unsatisfiable \<and>
     plan_ranges ''bytes=0-'' 0 default_policy = Unsatisfiable"

definition end_less_than_start_is_unsatisfiable :: bool where
  [unit_tests]: "end_less_than_start_is_unsatisfiable \<longleftrightarrow> plan_ranges ''bytes=500-100'' 10000 default_policy = Unsatisfiable"

definition end_beyond_total_is_clamped :: bool where
  [unit_tests]: "end_beyond_total_is_clamped \<longleftrightarrow>
     single (plan_ranges ''bytes=0-999999'' 10000 default_policy) = Some (bytes_at 0 9999)"

section \<open>Several ranges\<close>

text \<open>The header \<^verbatim>\<open>bytes=0-0,1-1,...\<close> of one-byte ranges.\<close>

definition one_byte_specs :: "nat \<Rightarrow> string" where
  "one_byte_specs n =
     ''bytes='' @ join_with '','' (map (\<lambda>i. dec_u64 (of_nat i) @ ''-'' @ dec_u64 (of_nat i)) [0..<n])"

definition ascending_multi_range :: bool where
  [unit_tests]: "ascending_multi_range \<longleftrightarrow>
     (case plan_ranges ''bytes=0-0,-1'' 10000 default_policy of
        Multi ranges \<Rightarrow> ranges = [bytes_at 0 0, bytes_at 9999 9999]
      | _ \<Rightarrow> False)"

definition overlapping_multi_range_falls_back_to_full :: bool where
  [unit_tests]: "overlapping_multi_range_falls_back_to_full \<longleftrightarrow> plan_ranges ''bytes=0-10,5-15'' 10000 default_policy = Full"

definition descending_multi_range_falls_back_to_full :: bool where
  [unit_tests]: "descending_multi_range_falls_back_to_full \<longleftrightarrow> plan_ranges ''bytes=10-20,0-5'' 10000 default_policy = Full"

definition too_many_parts_falls_back_to_full :: bool where
  [unit_tests]: "too_many_parts_falls_back_to_full \<longleftrightarrow> plan_ranges (one_byte_specs 51) 10000 default_policy = Full"

definition exactly_max_parts_is_multi :: bool where
  [unit_tests]: "exactly_max_parts_is_multi \<longleftrightarrow>
     (case plan_ranges (one_byte_specs 50) 10000 default_policy of
        Multi ranges \<Rightarrow> length ranges = 50
      | _ \<Rightarrow> False)"

definition multi_disallowed_by_policy_falls_back_to_full :: bool where
  [unit_tests]: "multi_disallowed_by_policy_falls_back_to_full \<longleftrightarrow> plan_ranges ''bytes=0-0,-1'' 10000 (policy False 50) = Full"

definition malformed_syntax_falls_back_to_full :: bool where
  [unit_tests]: "malformed_syntax_falls_back_to_full \<longleftrightarrow> plan_ranges ''bytes=abc'' 10000 default_policy = Full"

definition wrong_unit_falls_back_to_full :: bool where
  [unit_tests]: "wrong_unit_falls_back_to_full \<longleftrightarrow> plan_ranges ''octets=0-1'' 10000 default_policy = Full"

definition empty_specs_falls_back_to_full :: bool where
  [unit_tests]: "empty_specs_falls_back_to_full \<longleftrightarrow> plan_ranges ''bytes='' 10000 default_policy = Full"

definition whitespace_after_comma_is_tolerated :: bool where
  [unit_tests]: "whitespace_after_comma_is_tolerated \<longleftrightarrow>
     single (plan_ranges ''bytes=0-0'' 10000 default_policy) = Some (bytes_at 0 0) \<and>
     (case plan_ranges ''bytes=0-0, 9999-9999'' 10000 default_policy of
        Multi ranges \<Rightarrow> length ranges = 2
      | _ \<Rightarrow> False)"

section \<open>Headers and framing\<close>

definition content_range_header_format :: bool where
  [unit_tests]: "content_range_header_format \<longleftrightarrow> content_range (bytes_at 0 499) 10000 = ''bytes 0-499/10000''"

definition content_range_unsatisfied_format :: bool where
  [unit_tests]: "content_range_unsatisfied_format \<longleftrightarrow> content_range_unsatisfied 10000 = ''bytes */10000''"

definition multipart_single_part_framing_and_length :: bool where
  [unit_tests]: "multipart_single_part_framing_and_length \<longleftrightarrow>
     (case multipart_parts [bytes_at 0 4] ''text/plain'' 100 ''BOUNDARY'' of
        (parts, terminator, content_length) \<Rightarrow>
          length parts = 1 \<and>
          part_header (hd parts) = ''--BOUNDARY'' @ crlf @ ''Content-Type: text/plain'' @ crlf @
            ''Content-Range: bytes 0-4/100'' @ crlf @ crlf \<and>
          terminator = crlf @ ''--BOUNDARY--'' @ crlf \<and>
          of_nat (length (concat (map (\<lambda>p. part_header p @ replicate 5 (CHR ''x'')) parts) @ terminator)) =
            content_length)"

definition every_byte :: bytes where
  "every_byte = map char_of [0..<256::nat]"

text \<open>The inclusive slice \<open>file[start..=end]\<close>.\<close>

definition inclusive :: "bytes \<Rightarrow> byte_range \<Rightarrow> bytes" where
  "inclusive content r = drop (unat (range_start r)) (take (unat (range_end r) + 1) content)"

definition multipart_multi_part_content_length_matches_assembled_bytes :: bool where
  [unit_tests]: "multipart_multi_part_content_length_matches_assembled_bytes \<longleftrightarrow>
     (case multipart_parts [bytes_at 0 9, bytes_at 100 149, bytes_at 200 255] ''application/octet-stream''
             (of_nat (length every_byte)) ''B123'' of
        (parts, terminator, content_length) \<Rightarrow>
          length parts = 3 \<and>
          prefix (''--B123'' @ crlf) (part_header (parts ! 0)) \<and>
          prefix (crlf @ ''--B123'' @ crlf) (part_header (parts ! 1)) \<and>
          prefix (crlf @ ''--B123'' @ crlf) (part_header (parts ! 2)) \<and>
          of_nat (length (concat (map (\<lambda>p. part_header p @ inclusive every_byte (part_range p)) parts) @ terminator)) =
            content_length)"

section \<open>The tests pass\<close>

lemmas fixtures = policy_def default_policy_def bytes_at_def

lemmas range_eval = fixtures plan_ranges_def parse_one_spec_def parse_suffix_spec_def open_ended_spec_def
  is_all_ascii_digits_def word_le_nat_alt word_less_nat_alt std_simps

lemma single_range_tests:
  full_byte_at_start simple_prefix_range simple_middle_range suffix_range open_ended_range_near_end
  open_ended_range_from_start suffix_zero_is_unsatisfiable start_past_end_is_unsatisfiable
  suffix_larger_than_total_covers_whole_file zero_total_length_is_unsatisfiable
  end_less_than_start_is_unsatisfiable end_beyond_total_is_clamped
  by (simp_all add: unit_tests range_eval)

lemma several_range_tests:
  ascending_multi_range overlapping_multi_range_falls_back_to_full descending_multi_range_falls_back_to_full
  multi_disallowed_by_policy_falls_back_to_full malformed_syntax_falls_back_to_full
  wrong_unit_falls_back_to_full empty_specs_falls_back_to_full whitespace_after_comma_is_tolerated
  by (simp_all add: unit_tests range_eval)

lemma framing_tests: content_range_header_format content_range_unsatisfied_format
  by (simp_all add: unit_tests fixtures content_range_def content_range_unsatisfied_def std_simps)

lemma one_byte_specs_map:
  "n < 2 ^ 64 \<Longrightarrow> one_byte_specs n =
     ''bytes='' @ join_with '','' (map (\<lambda>i. to_radix 10 i @ ''-'' @ to_radix 10 i) [0..<n])"
  by (auto simp: one_byte_specs_def dec_u64_def unat_of_nat_u64 intro!: arg_cong2 [of _ _ _ _ join_with] map_cong)

lemma many_parts_tests: too_many_parts_falls_back_to_full exactly_max_parts_is_multi
  by (simp_all add: unit_tests one_byte_specs_map range_eval upt_rec)

lemma multipart_tests: multipart_single_part_framing_and_length multipart_multi_part_content_length_matches_assembled_bytes
  by (simp_all add: unit_tests multipart_parts_def multipart_header_def content_range_def range_len_def bytes_at_def
      crlf_def std_simps inclusive_def every_byte_def)

end
