(* ===== verification/Tests_Path.thy ===== *)
theory Tests_Path
  imports Request_Path
begin

text \<open>
  The unit tests of src/crates/envoy-files-core/src/path.rs, each as the truth value of its assertions on the
  definitions of \<^theory_text>\<open>Request_Path\<close>, for any percent decoder that does what the crate
  documents; the last section runs them. A panic is a failed test.
\<close>

section \<open>The percent decoder\<close>

text \<open>
  What the documentation of percent-encoding and UTF-8 say of decoding a segment: an ASCII character stands for
  itself, an escape for its byte, a percent sign that begins no escape for itself; the byte FF is never UTF-8.
\<close>

fun begins_escape :: "string \<Rightarrow> bool" where
  "begins_escape (h # l # s) \<longleftrightarrow> hex_digit_value h \<noteq> None \<and> hex_digit_value l \<noteq> None"
| "begins_escape _ \<longleftrightarrow> False"

definition percent_decoding :: "(string \<Rightarrow> string option) \<Rightarrow> bool" where
  "percent_decoding dec \<longleftrightarrow>
     dec [] = Some [] \<and>
     (\<forall>c s. c \<noteq> CHR ''%'' \<and> (of_char c :: nat) < 128 \<longrightarrow> dec (c # s) = map_option ((#) c) (dec s)) \<and>
     (\<forall>h l s a b. hex_digit_value h = Some a \<and> hex_digit_value l = Some b \<and> a < 8 \<longrightarrow>
        dec (CHR ''%'' # h # l # s) = map_option ((#) (char_of (16 * a + b))) (dec s)) \<and>
     (\<forall>s. \<not> begins_escape s \<longrightarrow> dec (CHR ''%'' # s) = map_option ((#) (CHR ''%'')) (dec s)) \<and>
     (\<forall>h l s. hex_digit_value h = Some 15 \<and> hex_digit_value l = Some 15 \<longrightarrow> dec (CHR ''%'' # h # l # s) = None)"

lemma percent_decoding_sample: "percent_decoding sample_decode"
  unfolding percent_decoding_def
proof (intro conjI allI impI)
  fix s assume plain: "\<not> begins_escape s"
  have "sample_decode (CHR ''%'' # s) = map_option ((#) (CHR ''%'')) (sample_decode s) \<or> begins_escape s"
    by (subst sample_decode.simps(2), cases s rule: begins_escape.cases)
       (auto simp del: sample_decode.simps split: option.splits)
  with plain show "sample_decode (CHR ''%'' # s) = map_option ((#) (CHR ''%'')) (sample_decode s)" by blast
qed simp_all

text \<open>The laws as rewrite rules.\<close>

lemma decoding_rules:
  assumes "percent_decoding dec"
  shows "dec [] = Some []"
    and "c \<noteq> CHR ''%'' \<Longrightarrow> (of_char c :: nat) < 128 \<Longrightarrow> dec (c # s) = map_option ((#) c) (dec s)"
    and "hex_digit_value h = Some a \<Longrightarrow> hex_digit_value l = Some b \<Longrightarrow> a < 8 \<Longrightarrow>
      dec (CHR ''%'' # h # l # s) = map_option ((#) (char_of (16 * a + b))) (dec s)"
    and "\<not> begins_escape s \<Longrightarrow> dec (CHR ''%'' # s) = map_option ((#) (CHR ''%'')) (dec s)"
    and "hex_digit_value h = Some 15 \<Longrightarrow> hex_digit_value l = Some 15 \<Longrightarrow> dec (CHR ''%'' # h # l # s) = None"
  using assms by (auto simp: percent_decoding_def)

section \<open>Fixtures\<close>

definition policy_for :: "bool \<Rightarrow> path_policy" where
  "policy_for dotfiles = \<lparr>pol_serve_dotfiles = dotfiles, pol_max_path_len = 4096\<rparr>"

definition resolve_ok ::
  "(string \<Rightarrow> string option) \<Rightarrow> string \<Rightarrow> path_policy \<Rightarrow> (string \<times> bool) option" where
  "resolve_ok dec raw pol =
     (case resolve_request_path dec raw pol of
        PathOk relative trailing_slash \<Rightarrow> Some (relative, trailing_slash)
      | Reject reason \<Rightarrow> None)"

definition resolve_reject ::
  "(string \<Rightarrow> string option) \<Rightarrow> string \<Rightarrow> path_policy \<Rightarrow> reject_reason option" where
  "resolve_reject dec raw pol =
     (case resolve_request_path dec raw pol of
        PathOk relative trailing_slash \<Rightarrow> None
      | Reject reason \<Rightarrow> Some reason)"

section \<open>Paths that resolve\<close>

definition root_path_is_empty_with_trailing_slash :: "(string \<Rightarrow> string option) \<Rightarrow> bool" where
  [unit_tests]: "root_path_is_empty_with_trailing_slash dec \<longleftrightarrow>
     resolve_ok dec ''/'' (policy_for False) = Some ([], True)"

definition valid_simple_path :: "(string \<Rightarrow> string option) \<Rightarrow> bool" where
  [unit_tests]: "valid_simple_path dec \<longleftrightarrow>
     resolve_ok dec ''/valid/path.txt'' (policy_for False) = Some (''valid/path.txt'', False)"

definition double_slash_collapses :: "(string \<Rightarrow> string option) \<Rightarrow> bool" where
  [unit_tests]: "double_slash_collapses dec \<longleftrightarrow>
     map_option fst (resolve_ok dec ''/a//b'' (policy_for False)) = Some ''a/b''"

definition dot_segment_is_dropped :: "(string \<Rightarrow> string option) \<Rightarrow> bool" where
  [unit_tests]: "dot_segment_is_dropped dec \<longleftrightarrow>
     map_option fst (resolve_ok dec ''/./a'' (policy_for False)) = Some ''a''"

definition trailing_slash_preserved :: "(string \<Rightarrow> string option) \<Rightarrow> bool" where
  [unit_tests]: "trailing_slash_preserved dec \<longleftrightarrow>
     resolve_ok dec ''/a/'' (policy_for False) = Some (''a'', True)"

definition query_string_is_stripped :: "(string \<Rightarrow> string option) \<Rightarrow> bool" where
  [unit_tests]: "query_string_is_stripped dec \<longleftrightarrow>
     resolve_ok dec ''/a/b?x=1&y=2'' (policy_for False) = Some (''a/b'', False)"

definition fragment_is_stripped :: "(string \<Rightarrow> string option) \<Rightarrow> bool" where
  [unit_tests]: "fragment_is_stripped dec \<longleftrightarrow>
     map_option fst (resolve_ok dec ''/a/b#section'' (policy_for False)) = Some ''a/b''"

definition percent_decoding_inside_segment :: "(string \<Rightarrow> string option) \<Rightarrow> bool" where
  [unit_tests]: "percent_decoding_inside_segment dec \<longleftrightarrow>
     map_option fst (resolve_ok dec ''/hello%20world.txt'' (policy_for False)) = Some ''hello world.txt''"

definition dotfiles_allowed_when_policy_enables :: "(string \<Rightarrow> string option) \<Rightarrow> bool" where
  [unit_tests]: "dotfiles_allowed_when_policy_enables dec \<longleftrightarrow>
     map_option fst (resolve_ok dec ''/.well-known/foo'' (policy_for True)) = Some ''.well-known/foo''"

definition similar_but_not_reserved_name_is_fine :: "(string \<Rightarrow> string option) \<Rightarrow> bool" where
  [unit_tests]: "similar_but_not_reserved_name_is_fine dec \<longleftrightarrow>
     map_option fst (resolve_ok dec ''/console.txt'' (policy_for False)) = Some ''console.txt''"

definition malformed_escape_passes_through_literally :: "(string \<Rightarrow> string option) \<Rightarrow> bool" where
  [unit_tests]: "malformed_escape_passes_through_literally dec \<longleftrightarrow>
     map_option fst (resolve_ok dec ''/%zz'' (policy_for False)) = Some ''%zz'' \<and>
     map_option fst (resolve_ok dec ''/%2'' (policy_for False)) = Some ''%2'' \<and>
     map_option fst (resolve_ok dec ''/%'' (policy_for False)) = Some ''%''"

definition single_dot_segment_is_not_treated_as_dotfile :: "(string \<Rightarrow> string option) \<Rightarrow> bool" where
  [unit_tests]: "single_dot_segment_is_not_treated_as_dotfile dec \<longleftrightarrow>
     map_option fst (resolve_ok dec ''/./valid.txt'' (policy_for False)) = Some ''valid.txt''"

section \<open>Traversals and dotfiles\<close>

definition dotfiles_rejected_by_default :: "(string \<Rightarrow> string option) \<Rightarrow> bool" where
  [unit_tests]: "dotfiles_rejected_by_default dec \<longleftrightarrow>
     resolve_reject dec ''/.well-known/foo'' (policy_for False) = Some Dotfile"

definition simple_traversal_rejected :: "(string \<Rightarrow> string option) \<Rightarrow> bool" where
  [unit_tests]: "simple_traversal_rejected dec \<longleftrightarrow>
     resolve_reject dec ''/../etc/passwd'' (policy_for False) = Some Traversal"

definition nested_traversal_rejected :: "(string \<Rightarrow> string option) \<Rightarrow> bool" where
  [unit_tests]: "nested_traversal_rejected dec \<longleftrightarrow>
     resolve_reject dec ''/a/../../b'' (policy_for False) = Some Traversal"

definition encoded_traversal_lowercase_rejected :: "(string \<Rightarrow> string option) \<Rightarrow> bool" where
  [unit_tests]: "encoded_traversal_lowercase_rejected dec \<longleftrightarrow>
     resolve_reject dec ''/a/%2e%2e/b'' (policy_for False) = Some Traversal"

definition encoded_traversal_uppercase_rejected :: "(string \<Rightarrow> string option) \<Rightarrow> bool" where
  [unit_tests]: "encoded_traversal_uppercase_rejected dec \<longleftrightarrow>
     resolve_reject dec ''/a/%2E%2E/b'' (policy_for False) = Some Traversal"

definition fully_encoded_traversal_rejected :: "(string \<Rightarrow> string option) \<Rightarrow> bool" where
  [unit_tests]: "fully_encoded_traversal_rejected dec \<longleftrightarrow>
     resolve_reject dec ''/%2e%2e%2f'' (policy_for False) = Some Traversal"

definition encoded_slash_before_traversal_rejected :: "(string \<Rightarrow> string option) \<Rightarrow> bool" where
  [unit_tests]: "encoded_slash_before_traversal_rejected dec \<longleftrightarrow>
     resolve_reject dec ''/a/..%2fb'' (policy_for False) = Some Traversal"

definition encoded_slash_prefix_rejected :: "(string \<Rightarrow> string option) \<Rightarrow> bool" where
  [unit_tests]: "encoded_slash_prefix_rejected dec \<longleftrightarrow>
     resolve_reject dec ''/a%2f..%2fb'' (policy_for False) = Some Traversal"

definition dotfile_deep_path_rejected :: "(string \<Rightarrow> string option) \<Rightarrow> bool" where
  [unit_tests]: "dotfile_deep_path_rejected dec \<longleftrightarrow>
     resolve_reject dec ''/a/.git/config'' (policy_for False) = Some Dotfile"

definition double_dot_alone_is_traversal_even_with_dotfiles_allowed :: "(string \<Rightarrow> string option) \<Rightarrow> bool" where
  [unit_tests]: "double_dot_alone_is_traversal_even_with_dotfiles_allowed dec \<longleftrightarrow>
     resolve_reject dec ''/..'' (policy_for True) = Some Traversal"

section \<open>Names and characters that are refused\<close>

definition windows_reserved_name_bare :: "(string \<Rightarrow> string option) \<Rightarrow> bool" where
  [unit_tests]: "windows_reserved_name_bare dec \<longleftrightarrow>
     resolve_reject dec ''/a/con.txt'' (policy_for False) = Some BadCharacter \<and>
     resolve_reject dec ''/a/aux'' (policy_for False) = Some BadCharacter \<and>
     resolve_reject dec ''/lpt9.tar.gz'' (policy_for False) = Some BadCharacter \<and>
     resolve_reject dec ''/CON'' (policy_for False) = Some BadCharacter \<and>
     resolve_reject dec ''/com1.tar.gz'' (policy_for False) = Some BadCharacter"

definition backslash_rejected :: "(string \<Rightarrow> string option) \<Rightarrow> bool" where
  [unit_tests]: "backslash_rejected dec \<longleftrightarrow>
     resolve_reject dec (''/a'' @ [CHR 0x5C] @ ''b'') (policy_for False) = Some BadCharacter"

definition encoded_backslash_rejected :: "(string \<Rightarrow> string option) \<Rightarrow> bool" where
  [unit_tests]: "encoded_backslash_rejected dec \<longleftrightarrow>
     resolve_reject dec ''/a%5cb'' (policy_for False) = Some BadCharacter"

definition ntfs_ads_colon_rejected :: "(string \<Rightarrow> string option) \<Rightarrow> bool" where
  [unit_tests]: "ntfs_ads_colon_rejected dec \<longleftrightarrow>
     resolve_reject dec ''/file.txt:$DATA'' (policy_for False) = Some BadCharacter"

definition nul_byte_rejected :: "(string \<Rightarrow> string option) \<Rightarrow> bool" where
  [unit_tests]: "nul_byte_rejected dec \<longleftrightarrow>
     resolve_reject dec ''/%00'' (policy_for False) = Some BadCharacter \<and>
     resolve_reject dec ''/a%00b'' (policy_for False) = Some BadCharacter"

definition too_long_path_rejected :: "(string \<Rightarrow> string option) \<Rightarrow> bool" where
  [unit_tests]: "too_long_path_rejected dec \<longleftrightarrow>
     resolve_reject dec (''/'' @ replicate 5000 (CHR ''a'')) (policy_for False) = Some TooLong"

definition segment_ending_in_dot_rejected :: "(string \<Rightarrow> string option) \<Rightarrow> bool" where
  [unit_tests]: "segment_ending_in_dot_rejected dec \<longleftrightarrow>
     resolve_reject dec ''/foo./bar'' (policy_for False) = Some BadCharacter"

definition segment_ending_in_space_rejected :: "(string \<Rightarrow> string option) \<Rightarrow> bool" where
  [unit_tests]: "segment_ending_in_space_rejected dec \<longleftrightarrow>
     resolve_reject dec ''/foo /bar'' (policy_for False) = Some BadCharacter"

definition control_char_rejected :: "(string \<Rightarrow> string option) \<Rightarrow> bool" where
  [unit_tests]: "control_char_rejected dec \<longleftrightarrow>
     resolve_reject dec ''/a%01b'' (policy_for False) = Some BadCharacter"

definition invalid_utf8_after_decode_rejected :: "(string \<Rightarrow> string option) \<Rightarrow> bool" where
  [unit_tests]: "invalid_utf8_after_decode_rejected dec \<longleftrightarrow>
     resolve_reject dec ''/%ff'' (policy_for False) = Some BadEncoding"

section \<open>The tests pass\<close>

lemmas path_eval = policy_for_def resolve_ok_def resolve_reject_def resolve_request_path_def strip_query_and_fragment_def
  percent_decode_segment_def hex_digit_value_def reject_reason_for_segment_def ends_with_char_def starts_with_char_def
  is_windows_reserved_name_def RESERVED_def eq_ignore_ascii_case_def to_ascii_lowercase_def to_ascii_lower_def
  char_of_def bit_Suc_0_iff

lemma resolved_path_tests:
  assumes "percent_decoding dec"
  shows "root_path_is_empty_with_trailing_slash dec"
    and "valid_simple_path dec"
    and "double_slash_collapses dec"
    and "dot_segment_is_dropped dec"
    and "trailing_slash_preserved dec"
    and "query_string_is_stripped dec"
    and "fragment_is_stripped dec"
    and "percent_decoding_inside_segment dec"
    and "dotfiles_allowed_when_policy_enables dec"
    and "similar_but_not_reserved_name_is_fine dec"
    and "malformed_escape_passes_through_literally dec"
    and "single_dot_segment_is_not_treated_as_dotfile dec"
  by (simp_all add: unit_tests path_eval decoding_rules [OF assms])

lemma traversal_path_tests:
  assumes "percent_decoding dec"
  shows "dotfiles_rejected_by_default dec"
    and "simple_traversal_rejected dec"
    and "nested_traversal_rejected dec"
    and "encoded_traversal_lowercase_rejected dec"
    and "encoded_traversal_uppercase_rejected dec"
    and "fully_encoded_traversal_rejected dec"
    and "encoded_slash_before_traversal_rejected dec"
    and "encoded_slash_prefix_rejected dec"
    and "dotfile_deep_path_rejected dec"
    and "double_dot_alone_is_traversal_even_with_dotfiles_allowed dec"
  by (simp_all add: unit_tests path_eval decoding_rules [OF assms])

lemma refused_name_path_tests:
  assumes "percent_decoding dec"
  shows "windows_reserved_name_bare dec"
    and "backslash_rejected dec"
    and "encoded_backslash_rejected dec"
    and "ntfs_ads_colon_rejected dec"
    and "nul_byte_rejected dec"
    and "too_long_path_rejected dec"
    and "segment_ending_in_dot_rejected dec"
    and "segment_ending_in_space_rejected dec"
    and "control_char_rejected dec"
    and "invalid_utf8_after_decode_rejected dec"
  by (simp_all add: unit_tests path_eval decoding_rules [OF assms])

end
