(* ===== verification/Tests_Mime.thy ===== *)
theory Tests_Mime
  imports Mime
begin

text \<open>
  The unit tests of src/crates/envoy-files-core/src/mime.rs, each as the truth value of its assertions on
  \<^theory_text>\<open>Mime\<close>, for any built-in table with the entries the tests name; the last section runs them.
\<close>

section \<open>Fixtures\<close>

definition DEFAULT :: string where
  "DEFAULT = ''application/octet-stream''"

text \<open>The entries of the table of new-mime-guess that the tests name, by their first raw type.\<close>

definition built_in_types :: "(string \<Rightarrow> string option) \<Rightarrow> bool" where
  "built_in_types guess \<longleftrightarrow>
     guess ''html'' = Some ''text/html'' \<and>
     guess ''js'' = Some ''text/javascript'' \<and>
     guess ''mjs'' = Some ''application/javascript'' \<and>
     guess ''json'' = Some ''application/json'' \<and>
     guess ''map'' = Some ''application/json'' \<and>
     guess ''svg'' = Some ''image/svg+xml'' \<and>
     guess ''wasm'' = Some ''application/wasm'' \<and>
     guess ''png'' = Some ''image/png'' \<and>
     guess ''gz'' = Some ''application/gzip'' \<and>
     guess ''md'' = Some ''text/markdown'' \<and>
     guess ''yaml'' = Some ''text/yaml'' \<and>
     guess ''yml'' = Some ''text/yaml'' \<and>
     guess ''zzz'' = None"

section \<open>Built-in types\<close>

definition html_content_type :: "(string \<Rightarrow> string option) \<Rightarrow> bool" where
  [unit_tests]: "html_content_type guess \<longleftrightarrow>
     content_type_for guess ''index.html'' [] DEFAULT = ''text/html''"

definition js_and_mjs_content_type :: "(string \<Rightarrow> string option) \<Rightarrow> bool" where
  [unit_tests]: "js_and_mjs_content_type guess \<longleftrightarrow>
     content_type_for guess ''app.js'' [] DEFAULT = ''text/javascript'' \<and>
     content_type_for guess ''app.mjs'' [] DEFAULT = ''application/javascript''"

definition json_content_type :: "(string \<Rightarrow> string option) \<Rightarrow> bool" where
  [unit_tests]: "json_content_type guess \<longleftrightarrow>
     content_type_for guess ''data.json'' [] DEFAULT = ''application/json''"

definition svg_content_type :: "(string \<Rightarrow> string option) \<Rightarrow> bool" where
  [unit_tests]: "svg_content_type guess \<longleftrightarrow>
     content_type_for guess ''icon.svg'' [] DEFAULT = ''image/svg+xml''"

definition wasm_has_no_charset :: "(string \<Rightarrow> string option) \<Rightarrow> bool" where
  [unit_tests]: "wasm_has_no_charset guess \<longleftrightarrow>
     content_type_for guess ''module.wasm'' [] DEFAULT = ''application/wasm''"

definition png_binary_has_no_charset :: "(string \<Rightarrow> string option) \<Rightarrow> bool" where
  [unit_tests]: "png_binary_has_no_charset guess \<longleftrightarrow>
     content_type_for guess ''photo.png'' [] DEFAULT = ''image/png''"

definition case_insensitive_extension_match :: "(string \<Rightarrow> string option) \<Rightarrow> bool" where
  [unit_tests]: "case_insensitive_extension_match guess \<longleftrightarrow>
     content_type_for guess ''IMAGE.PNG'' [] DEFAULT = ''image/png'' \<and>
     content_type_for guess ''INDEX.HTML'' [] DEFAULT = ''text/html''"

definition path_with_directories_uses_final_segment :: "(string \<Rightarrow> string option) \<Rightarrow> bool" where
  [unit_tests]: "path_with_directories_uses_final_segment guess \<longleftrightarrow>
     content_type_for guess ''a/b/c/index.html'' [] DEFAULT = ''text/html''"

definition multiple_dots_uses_last_extension :: "(string \<Rightarrow> string option) \<Rightarrow> bool" where
  [unit_tests]: "multiple_dots_uses_last_extension guess \<longleftrightarrow>
     content_type_for guess ''archive.tar.gz'' [] DEFAULT = ''application/gzip''"

definition markdown_extension :: "(string \<Rightarrow> string option) \<Rightarrow> bool" where
  [unit_tests]: "markdown_extension guess \<longleftrightarrow>
     content_type_for guess ''README.md'' [] DEFAULT = ''text/markdown''"

definition yaml_and_yml :: "(string \<Rightarrow> string option) \<Rightarrow> bool" where
  [unit_tests]: "yaml_and_yml guess \<longleftrightarrow>
     content_type_for guess ''a.yaml'' [] DEFAULT = ''text/yaml'' \<and>
     content_type_for guess ''a.yml'' [] DEFAULT = ''text/yaml''"

definition map_is_json :: "(string \<Rightarrow> string option) \<Rightarrow> bool" where
  [unit_tests]: "map_is_json guess \<longleftrightarrow>
     content_type_for guess ''app.js.map'' [] DEFAULT = ''application/json''"

section \<open>The default type\<close>

definition extensionless_uses_default :: "(string \<Rightarrow> string option) \<Rightarrow> bool" where
  [unit_tests]: "extensionless_uses_default guess \<longleftrightarrow> content_type_for guess ''README'' [] DEFAULT = DEFAULT"

definition unknown_extension_uses_default :: "(string \<Rightarrow> string option) \<Rightarrow> bool" where
  [unit_tests]: "unknown_extension_uses_default guess \<longleftrightarrow>
     content_type_for guess ''file.zzz'' [] DEFAULT = DEFAULT"

definition dotfile_with_no_other_dot_is_extensionless :: "(string \<Rightarrow> string option) \<Rightarrow> bool" where
  [unit_tests]: "dotfile_with_no_other_dot_is_extensionless guess \<longleftrightarrow>
     content_type_for guess ''.gitignore'' [] DEFAULT = DEFAULT"

definition trailing_dot_has_empty_extension :: "(string \<Rightarrow> string option) \<Rightarrow> bool" where
  [unit_tests]: "trailing_dot_has_empty_extension guess \<longleftrightarrow>
     content_type_for guess ''weird.'' [] DEFAULT = DEFAULT"

section \<open>Overrides\<close>

definition override_without_dot_prefix_matches :: "(string \<Rightarrow> string option) \<Rightarrow> bool" where
  [unit_tests]: "override_without_dot_prefix_matches guess \<longleftrightarrow>
     content_type_for guess ''module.wasm'' [(''wasm'', ''application/x-custom-wasm'')] DEFAULT = ''application/x-custom-wasm''"

definition override_with_dot_prefix_matches :: "(string \<Rightarrow> string option) \<Rightarrow> bool" where
  [unit_tests]: "override_with_dot_prefix_matches guess \<longleftrightarrow>
     content_type_for guess ''module.wasm'' [(''.wasm'', ''application/x-custom-wasm'')] DEFAULT = ''application/x-custom-wasm''"

definition override_takes_priority_over_builtin :: "(string \<Rightarrow> string option) \<Rightarrow> bool" where
  [unit_tests]: "override_takes_priority_over_builtin guess \<longleftrightarrow>
     content_type_for guess ''index.html'' [(''html'', ''text/plain'')] DEFAULT = ''text/plain''"

definition override_is_case_insensitive_on_key :: "(string \<Rightarrow> string option) \<Rightarrow> bool" where
  [unit_tests]: "override_is_case_insensitive_on_key guess \<longleftrightarrow>
     content_type_for guess ''index.html'' [(''HTML'', ''text/plain'')] DEFAULT = ''text/plain''"

section \<open>The tests pass\<close>

lemmas mime_eval = built_in_types_def DEFAULT_def content_type_for_def extract_extension_def path_extension_def
  path_file_name_def components_def rsplit_once_def eq_ignore_ascii_case_def to_ascii_lowercase_def to_ascii_lower_def
  char_of_def bit_Suc_0_iff Let_def

lemma built_in_type_tests:
  assumes "built_in_types guess"
  shows "html_content_type guess"
    and "js_and_mjs_content_type guess"
    and "json_content_type guess"
    and "svg_content_type guess"
    and "wasm_has_no_charset guess"
    and "png_binary_has_no_charset guess"
    and "case_insensitive_extension_match guess"
    and "path_with_directories_uses_final_segment guess"
    and "multiple_dots_uses_last_extension guess"
    and "markdown_extension guess"
    and "yaml_and_yml guess"
    and "map_is_json guess"
  using assms by (simp_all add: unit_tests mime_eval)

lemma default_type_tests:
  assumes "built_in_types guess"
  shows "extensionless_uses_default guess"
    and "unknown_extension_uses_default guess"
    and "dotfile_with_no_other_dot_is_extensionless guess"
    and "trailing_dot_has_empty_extension guess"
  using assms by (simp_all add: unit_tests mime_eval)

lemma override_tests:
  assumes "built_in_types guess"
  shows "override_without_dot_prefix_matches guess"
    and "override_with_dot_prefix_matches guess"
    and "override_takes_priority_over_builtin guess"
    and "override_is_case_insensitive_on_key guess"
  using assms by (simp_all add: unit_tests mime_eval)

end
