(* ===== verification/Tests_Encoding.thy ===== *)
theory Tests_Encoding
  imports Encoding
begin

text \<open>
  The unit tests of src/crates/envoy-files-core/src/encoding.rs, each as the truth value of its assertions on
  \<^theory_text>\<open>Encoding\<close>; the last section runs them.
\<close>

section \<open>Fixtures\<close>

definition ALL_ENCODINGS :: "encoding list" where
  "ALL_ENCODINGS = [BROTLI, GZIP, ZSTD]"

section \<open>The tests\<close>

definition no_header_returns_empty :: bool where
  [unit_tests]: "no_header_returns_empty \<longleftrightarrow> negotiate_precompressed None ALL_ENCODINGS = []"

definition simple_gzip_only :: bool where
  [unit_tests]: "simple_gzip_only \<longleftrightarrow> negotiate_precompressed (Some ''gzip'') ALL_ENCODINGS = [GZIP]"

definition multiple_codings_sorted_by_server_preference_when_q_tied :: bool where
  [unit_tests]: "multiple_codings_sorted_by_server_preference_when_q_tied \<longleftrightarrow>
     negotiate_precompressed (Some ''gzip, br'') ALL_ENCODINGS = [BROTLI, GZIP]"

definition q_values_reorder_preference :: bool where
  [unit_tests]: "q_values_reorder_preference \<longleftrightarrow>
     negotiate_precompressed (Some ''br;q=0.2, gzip;q=0.8'') ALL_ENCODINGS = [GZIP, BROTLI]"

definition q_zero_excludes_coding :: bool where
  [unit_tests]: "q_zero_excludes_coding \<longleftrightarrow>
     negotiate_precompressed (Some ''gzip;q=0, br'') ALL_ENCODINGS = [BROTLI]"

definition wildcard_allows_unlisted_coding :: bool where
  [unit_tests]: "wildcard_allows_unlisted_coding \<longleftrightarrow>
     length (negotiate_precompressed (Some ''*;q=0.5'') ALL_ENCODINGS) = 3"

definition wildcard_zero_excludes_all_unlisted :: bool where
  [unit_tests]: "wildcard_zero_excludes_all_unlisted \<longleftrightarrow>
     negotiate_precompressed (Some ''*;q=0'') ALL_ENCODINGS = []"

definition explicit_zero_overrides_wildcard :: bool where
  [unit_tests]: "explicit_zero_overrides_wildcard \<longleftrightarrow>
     negotiate_precompressed (Some ''*;q=1, gzip;q=0'') ALL_ENCODINGS = [BROTLI, ZSTD]"

definition server_order_restricts_candidates :: bool where
  [unit_tests]: "server_order_restricts_candidates \<longleftrightarrow>
     negotiate_precompressed (Some ''gzip, br, zstd'') [GZIP] = [GZIP]"

definition case_insensitive_coding_names :: bool where
  [unit_tests]: "case_insensitive_coding_names \<longleftrightarrow>
     length (negotiate_precompressed (Some ''GZIP'') ALL_ENCODINGS) = 1 \<and>
     content_encoding (negotiate_precompressed (Some ''GZIP'') ALL_ENCODINGS ! 0) = ''gzip''"

definition malformed_q_value_yields_empty :: bool where
  [unit_tests]: "malformed_q_value_yields_empty \<longleftrightarrow>
     negotiate_precompressed (Some ''gzip;q=notanumber'') ALL_ENCODINGS = []"

definition empty_header_yields_empty :: bool where
  [unit_tests]: "empty_header_yields_empty \<longleftrightarrow> negotiate_precompressed (Some '''') ALL_ENCODINGS = []"

definition whitespace_tolerant :: bool where
  [unit_tests]: "whitespace_tolerant \<longleftrightarrow>
     negotiate_precompressed (Some '' gzip ; q=0.5 , br ; q=1.0 '') ALL_ENCODINGS = [BROTLI, GZIP]"

section \<open>The tests pass\<close>

lemmas encoding_eval = ALL_ENCODINGS_def BROTLI_def GZIP_def ZSTD_def negotiate_precompressed_def parse_accept_encoding_def
  parse_item_def acceptance_for_def compare_scored_def total_cmp_def total_key_def f32_positive_def F32_ONE_def
  F32_INFINITY_def sort_by_def cmp_of_def eq_ignore_ascii_case_def to_ascii_lowercase_def to_ascii_lower_def
  char_of_def bit_Suc_0_iff std_simps

lemma negotiation_tests:
  no_header_returns_empty simple_gzip_only multiple_codings_sorted_by_server_preference_when_q_tied
  q_values_reorder_preference q_zero_excludes_coding wildcard_allows_unlisted_coding
  wildcard_zero_excludes_all_unlisted explicit_zero_overrides_wildcard server_order_restricts_candidates
  case_insensitive_coding_names malformed_q_value_yields_empty empty_header_yields_empty whitespace_tolerant
  by (simp_all add: unit_tests encoding_eval)

end
