(* ===== verification/Tests_Error.thy ===== *)
theory Tests_Error
  imports Io_Error
begin

text \<open>
  The unit tests of src/crates/envoy-files-core/src/error.rs, each as the truth value of its assertions on
  \<^theory_text>\<open>Io_Error\<close>, on every target the source distinguishes; the last section runs them.
\<close>

section \<open>The tests\<close>

definition not_found_maps_to_404 :: "target_os \<Rightarrow> bool" where
  [unit_tests]: "not_found_maps_to_404 os \<longleftrightarrow> status_for_io_error os NotFound None = STATUS_NOT_FOUND"

definition permission_denied_maps_to_403 :: "target_os \<Rightarrow> bool" where
  [unit_tests]: "permission_denied_maps_to_403 os \<longleftrightarrow>
     status_for_io_error os PermissionDenied None = STATUS_FORBIDDEN"

definition not_a_directory_maps_to_404 :: "target_os \<Rightarrow> bool" where
  [unit_tests]: "not_a_directory_maps_to_404 os \<longleftrightarrow>
     status_for_io_error os NotADirectory None = STATUS_NOT_FOUND"

definition is_a_directory_maps_to_403 :: "target_os \<Rightarrow> bool" where
  [unit_tests]: "is_a_directory_maps_to_403 os \<longleftrightarrow>
     status_for_io_error os IsADirectory None = STATUS_FORBIDDEN"

definition eloop_errno_maps_to_403 :: "target_os \<Rightarrow> bool" where
  [unit_tests]: "eloop_errno_maps_to_403 os \<longleftrightarrow>
     status_for_io_error os Other (Some (ELOOP os)) = STATUS_FORBIDDEN"

definition unknown_error_maps_to_500 :: "target_os \<Rightarrow> bool" where
  [unit_tests]: "unknown_error_maps_to_500 os \<longleftrightarrow>
     status_for_io_error os Other None = STATUS_INTERNAL_SERVER_ERROR \<and>
     status_for_io_error os Other (Some 9999) = STATUS_INTERNAL_SERVER_ERROR"

definition unrelated_kind_with_eloop_errno_still_maps_via_kind_first :: "target_os \<Rightarrow> bool" where
  [unit_tests]: "unrelated_kind_with_eloop_errno_still_maps_via_kind_first os \<longleftrightarrow>
     status_for_io_error os NotFound (Some (ELOOP os)) = STATUS_NOT_FOUND"

section \<open>The tests pass\<close>

lemma io_error_tests:
  shows "not_found_maps_to_404 os"
    and "permission_denied_maps_to_403 os"
    and "not_a_directory_maps_to_404 os"
    and "is_a_directory_maps_to_403 os"
    and "eloop_errno_maps_to_403 os"
    and "unknown_error_maps_to_500 os"
    and "unrelated_kind_with_eloop_errno_still_maps_via_kind_first os"
  by (simp_all add: unit_tests status_for_io_error_def ELOOP_def split: target_os.split)

end
