(* ===== verification/Preconditions.thy ===== *)
theory Preconditions
  imports Validators
begin

text \<open>
  Conditional requests against the rules of RFC 9110, section 13.2.2: what the typed-header crate documents of
  its headers (\<open>typed_headers\<close>), the conditions of a request as a client means them (tags, dates, or
  something unreadable), and the outcome these rules give for a file.
\<close>

section \<open>The crates\<close>

text \<open>An entity tag, strong or weak, without a comma, as it stands in a list of tags.\<close>

definition entity_tag :: "string \<Rightarrow> bool" where
  "entity_tag s \<longleftrightarrow> (strong_tag s \<or> (\<exists>a. s = ''W/'' @ a \<and> strong_tag a)) \<and> CHR '','' \<notin> set s"

definition opaque_tag :: "string \<Rightarrow> string" where
  "opaque_tag s = (case strip_prefix_of ''W/'' s of Some a \<Rightarrow> a | None \<Rightarrow> s)"

definition printable :: "string \<Rightarrow> bool" where
  "printable s \<longleftrightarrow> list_all (\<lambda>c. 32 \<le> (of_char c :: nat) \<and> (of_char c :: nat) \<le> 126) s"

text \<open>
  What the crates document: printable text is a header value; \<^verbatim>\<open>*\<close> is any tag; If-Match compares a list of
  tags strongly, If-None-Match weakly; a weak tag never satisfies If-Range; a printed date is read back.
\<close>

definition typed_headers :: "('h, 't) headers_crate \<Rightarrow> bool" where
  "typed_headers hc \<longleftrightarrow>
     (\<forall>s. printable s \<longrightarrow> hc_str_ok hc s \<and> hc_value_ok hc s) \<and>
     (\<forall>a. strong_tag a \<longrightarrow> hc_etag_from_str hc a \<noteq> None) \<and>
     (\<exists>h. hc_decode hc IfMatch ''*'' = Some h \<and> (\<forall>t. hc_if_match_passes hc h t)) \<and>
     (\<exists>h. hc_decode hc IfNoneMatch ''*'' = Some h \<and> (\<forall>t. \<not> hc_if_none_match_passes hc h t)) \<and>
     (\<forall>tags. tags \<noteq> [] \<and> list_all entity_tag tags \<longrightarrow>
       (\<exists>h. hc_decode hc IfMatch (join_with '', '' tags) = Some h \<and>
          (\<forall>b t. strong_tag b \<and> hc_etag_from_str hc b = Some t \<longrightarrow> hc_if_match_passes hc h t = (b \<in> set tags))) \<and>
       (\<exists>h. hc_decode hc IfNoneMatch (join_with '', '' tags) = Some h \<and>
          (\<forall>b t. strong_tag b \<and> hc_etag_from_str hc b = Some t \<longrightarrow>
             hc_if_none_match_passes hc h t = (b \<notin> opaque_tag ` set tags)))) \<and>
     (\<forall>a. entity_tag a \<longrightarrow> (\<exists>h. hc_decode hc IfRange a = Some h \<and>
        (\<forall>b t d. strong_tag b \<and> hc_etag_from_str hc b = Some t \<longrightarrow>
           hc_if_range_is_modified hc h (Some t) d = (a \<noteq> b)))) \<and>
     (\<forall>n d. hc_fmt_http_date hc n = Some d \<longrightarrow> printable d \<and>
       (\<exists>h. hc_decode hc IfUnmodifiedSince d = Some h \<and> (\<forall>m. hc_if_unmodified_since_passes hc h m = (m \<le> n))) \<and>
       (\<exists>h. hc_decode hc IfModifiedSince d = Some h \<and> (\<forall>m. hc_if_modified_since_is_modified hc h m = (n < m))) \<and>
       (\<exists>h. hc_decode hc IfRange d = Some h \<and> (\<forall>t m. hc_if_range_is_modified hc h t (Some m) = (n < m)))) \<and>
     hc_fmt_http_date hc 0 = Some ''Thu, 01 Jan 1970 00:00:00 GMT'' \<and>
     hc_fmt_http_date hc 784111777 = Some ''Sun, 06 Nov 1994 08:49:37 GMT'' \<and>
     hc_decode hc IfModifiedSince ''garbage'' = None"

lemma typed_text: "typed_headers hc \<Longrightarrow> printable s \<Longrightarrow> hc_str_ok hc s \<and> hc_value_ok hc s"
  unfolding typed_headers_def by (elim conjE allE [of _ s]) blast

lemma typed_etag:
  assumes "typed_headers hc" and "strong_tag b"
  obtains t where "hc_etag_from_str hc b = Some t"
proof -
  have "\<forall>a. strong_tag a \<longrightarrow> hc_etag_from_str hc a \<noteq> None"
    using assms(1) unfolding typed_headers_def by (elim conjE)
  with assms(2) that show ?thesis by blast
qed

lemma typed_star:
  assumes "typed_headers hc"
  obtains h n where "hc_decode hc IfMatch ''*'' = Some h" and "\<forall>t. hc_if_match_passes hc h t"
    and "hc_decode hc IfNoneMatch ''*'' = Some n" and "\<forall>t. \<not> hc_if_none_match_passes hc n t"
proof -
  have "\<exists>h. hc_decode hc IfMatch ''*'' = Some h \<and> (\<forall>t. hc_if_match_passes hc h t)"
    using assms unfolding typed_headers_def by (elim conjE)
  moreover have "\<exists>h. hc_decode hc IfNoneMatch ''*'' = Some h \<and> (\<forall>t. \<not> hc_if_none_match_passes hc h t)"
    using assms unfolding typed_headers_def by (elim conjE)
  ultimately show ?thesis using that by blast
qed

lemma typed_list:
  assumes "typed_headers hc" and "tags \<noteq> []" and "list_all entity_tag tags" and "raw = join_with '', '' tags"
    and "strong_tag b" and "hc_etag_from_str hc b = Some t"
  obtains h n where "hc_decode hc IfMatch raw = Some h" and "hc_if_match_passes hc h t = (b \<in> set tags)"
    and "hc_decode hc IfNoneMatch raw = Some n" and "hc_if_none_match_passes hc n t = (b \<notin> opaque_tag ` set tags)"
proof -
  have "\<forall>tags. tags \<noteq> [] \<and> list_all entity_tag tags \<longrightarrow>
       (\<exists>h. hc_decode hc IfMatch (join_with '', '' tags) = Some h \<and>
          (\<forall>b t. strong_tag b \<and> hc_etag_from_str hc b = Some t \<longrightarrow> hc_if_match_passes hc h t = (b \<in> set tags))) \<and>
       (\<exists>h. hc_decode hc IfNoneMatch (join_with '', '' tags) = Some h \<and>
          (\<forall>b t. strong_tag b \<and> hc_etag_from_str hc b = Some t \<longrightarrow>
             hc_if_none_match_passes hc h t = (b \<notin> opaque_tag ` set tags)))"
    using assms(1) unfolding typed_headers_def by (elim conjE)
  note * = this [THEN spec, THEN mp, OF conjI, OF assms(2,3), folded assms(4)]
  obtain h where h: "hc_decode hc IfMatch raw = Some h"
    "\<forall>b t. strong_tag b \<and> hc_etag_from_str hc b = Some t \<longrightarrow> hc_if_match_passes hc h t = (b \<in> set tags)"
    using * [THEN conjunct1] by blast
  obtain n where n: "hc_decode hc IfNoneMatch raw = Some n"
    "\<forall>b t. strong_tag b \<and> hc_etag_from_str hc b = Some t \<longrightarrow> hc_if_none_match_passes hc n t = (b \<notin> opaque_tag ` set tags)"
    using * [THEN conjunct2] by blast
  show ?thesis using that [OF h(1) _ n(1)] h(2) n(2) assms(5,6) by blast
qed

lemma typed_if_range:
  assumes "typed_headers hc" and "entity_tag a" and "strong_tag b" and "hc_etag_from_str hc b = Some t"
  obtains h where "hc_decode hc IfRange a = Some h" and "\<forall>d. hc_if_range_is_modified hc h (Some t) d = (a \<noteq> b)"
proof -
  have "\<forall>a. entity_tag a \<longrightarrow> (\<exists>h. hc_decode hc IfRange a = Some h \<and>
        (\<forall>b t d. strong_tag b \<and> hc_etag_from_str hc b = Some t \<longrightarrow> hc_if_range_is_modified hc h (Some t) d = (a \<noteq> b)))"
    using assms(1) unfolding typed_headers_def by (elim conjE)
  from this [THEN spec, of a] obtain h where "hc_decode hc IfRange a = Some h"
    "\<forall>b t d. strong_tag b \<and> hc_etag_from_str hc b = Some t \<longrightarrow> hc_if_range_is_modified hc h (Some t) d = (a \<noteq> b)"
    using assms(2) by blast
  then show ?thesis using that assms(3,4) by blast
qed

lemma typed_date:
  assumes "typed_headers hc" and "hc_fmt_http_date hc n = Some d"
  obtains u i r where "printable d"
    and "hc_decode hc IfUnmodifiedSince d = Some u" and "\<forall>m. hc_if_unmodified_since_passes hc u m = (m \<le> n)"
    and "hc_decode hc IfModifiedSince d = Some i" and "\<forall>m. hc_if_modified_since_is_modified hc i m = (n < m)"
    and "hc_decode hc IfRange d = Some r" and "\<forall>t m. hc_if_range_is_modified hc r t (Some m) = (n < m)"
proof -
  have "\<forall>n d. hc_fmt_http_date hc n = Some d \<longrightarrow> printable d \<and>
       (\<exists>h. hc_decode hc IfUnmodifiedSince d = Some h \<and> (\<forall>m. hc_if_unmodified_since_passes hc h m = (m \<le> n))) \<and>
       (\<exists>h. hc_decode hc IfModifiedSince d = Some h \<and> (\<forall>m. hc_if_modified_since_is_modified hc h m = (n < m))) \<and>
       (\<exists>h. hc_decode hc IfRange d = Some h \<and> (\<forall>t m. hc_if_range_is_modified hc h t (Some m) = (n < m)))"
    using assms(1) unfolding typed_headers_def by (elim conjE)
  from this [THEN spec, THEN spec, THEN mp, OF assms(2)] show ?thesis using that by blast
qed

lemma typed_dates:
  assumes "typed_headers hc"
  shows "hc_fmt_http_date hc 0 = Some ''Thu, 01 Jan 1970 00:00:00 GMT''"
    and "hc_fmt_http_date hc 784111777 = Some ''Sun, 06 Nov 1994 08:49:37 GMT''"
    and "hc_decode hc IfModifiedSince ''garbage'' = None"
proof -
  show "hc_fmt_http_date hc 0 = Some ''Thu, 01 Jan 1970 00:00:00 GMT''"
    using assms unfolding typed_headers_def by (elim conjE)
  show "hc_fmt_http_date hc 784111777 = Some ''Sun, 06 Nov 1994 08:49:37 GMT''"
    using assms unfolding typed_headers_def by (elim conjE)
  show "hc_decode hc IfModifiedSince ''garbage'' = None"
    using assms unfolding typed_headers_def by (elim conjE)
qed

text \<open>The tags of a list, and whether text is a tag, as computations.\<close>

definition tags_in :: "string \<Rightarrow> string list" where
  "tags_in raw = map trim (split_on (CHR '','') raw)"

lemma strong_tag_eval:
  "strong_tag s \<longleftrightarrow> (case s of [] \<Rightarrow> False | c # r \<Rightarrow>
     c = CHR 0x22 \<and> r \<noteq> [] \<and> last r = CHR 0x22 \<and> list_all (\<lambda>c. ascii_graphic c \<and> c \<noteq> CHR 0x22) (butlast r))"
proof (cases s)
  case (Cons c r)
  then show ?thesis
    by (cases r rule: rev_cases) (auto simp: strong_tag_def list_all_iff)
qed (simp add: strong_tag_def)

lemma entity_tag_eval:
  "entity_tag s \<longleftrightarrow>
     (strong_tag s \<or> (case strip_prefix_of ''W/'' s of Some a \<Rightarrow> strong_tag a | None \<Rightarrow> False)) \<and> CHR '','' \<notin> set s"
  by (auto simp: entity_tag_def simp del: append_Cons split: option.splits)

text \<open>What a tag condition, a date condition and If-Range decide.\<close>

definition if_match_row :: "('h, 't) headers_crate \<Rightarrow> string \<Rightarrow> validators \<Rightarrow> bool option" where
  "if_match_row hc raw v =
     Option.bind (decode hc IfMatch raw) (\<lambda>d. map_option (hc_if_match_passes hc d) (resource_etag hc v))"

definition if_none_match_row :: "('h, 't) headers_crate \<Rightarrow> string \<Rightarrow> validators \<Rightarrow> bool option" where
  "if_none_match_row hc raw v =
     Option.bind (decode hc IfNoneMatch raw) (\<lambda>d. map_option (hc_if_none_match_passes hc d) (resource_etag hc v))"

lemma tag_decodes:
  assumes "typed_headers hc" and "strong_tag (val_etag v)" and "printable raw"
  obtains t where "resource_etag hc v = Some t" "hc_etag_from_str hc (val_etag v) = Some t"
    and "\<forall>kind. decode hc kind raw = hc_decode hc kind raw"
proof -
  obtain t where "hc_etag_from_str hc (val_etag v) = Some t" using typed_etag [OF assms(1,2)] .
  then show ?thesis using that typed_text [OF assms(1,3)] by (simp add: resource_etag_def decode_def)
qed

lemma star_rows:
  assumes "typed_headers hc" and "strong_tag (val_etag v)"
  shows "if_match_row hc ''*'' v = Some True" and "if_none_match_row hc ''*'' v = Some False"
proof -
  have "printable ''*''" by (simp add: printable_def)
  then obtain t where t: "resource_etag hc v = Some t" "\<forall>kind. decode hc kind ''*'' = hc_decode hc kind ''*''"
    using tag_decodes [OF assms, of "''*''"] by blast
  obtain h n where "hc_decode hc IfMatch ''*'' = Some h" "\<forall>t. hc_if_match_passes hc h t"
    "hc_decode hc IfNoneMatch ''*'' = Some n" "\<forall>t. \<not> hc_if_none_match_passes hc n t"
    using typed_star [OF assms(1)] .
  with t show "if_match_row hc ''*'' v = Some True" "if_none_match_row hc ''*'' v = Some False"
    by (simp_all add: if_match_row_def if_none_match_row_def)
qed

lemma tag_rows:
  assumes "typed_headers hc" and "strong_tag (val_etag v)" and "printable raw"
    and "list_all entity_tag (tags_in raw)" and "raw = join_with '', '' (tags_in raw)"
  shows "if_match_row hc raw v = Some (val_etag v \<in> set (tags_in raw))"
    and "if_none_match_row hc raw v = Some (val_etag v \<notin> opaque_tag ` set (tags_in raw))"
proof -
  obtain t where t: "resource_etag hc v = Some t" "hc_etag_from_str hc (val_etag v) = Some t"
    "\<forall>kind. decode hc kind raw = hc_decode hc kind raw" using tag_decodes [OF assms(1-3)] .
  have ne: "tags_in raw \<noteq> []" by (simp add: tags_in_def)
  obtain h n where
    "hc_decode hc IfMatch raw = Some h" "hc_if_match_passes hc h t = (val_etag v \<in> set (tags_in raw))"
    "hc_decode hc IfNoneMatch raw = Some n"
    "hc_if_none_match_passes hc n t = (val_etag v \<notin> opaque_tag ` set (tags_in raw))"
    using typed_list [OF assms(1) ne assms(4,5,2) t(2)] .
  with t show "if_match_row hc raw v = Some (val_etag v \<in> set (tags_in raw))"
    "if_none_match_row hc raw v = Some (val_etag v \<notin> opaque_tag ` set (tags_in raw))"
    by (simp_all add: if_match_row_def if_none_match_row_def)
qed

lemma if_range_row:
  assumes "typed_headers hc" and "strong_tag (val_etag v)" and "printable raw" and "entity_tag raw"
  shows "if_range_matches hc raw v \<longleftrightarrow> raw = val_etag v"
proof -
  obtain t where t: "resource_etag hc v = Some t" "hc_etag_from_str hc (val_etag v) = Some t"
    "\<forall>kind. decode hc kind raw = hc_decode hc kind raw" using tag_decodes [OF assms(1-3)] .
  obtain h where "hc_decode hc IfRange raw = Some h" "\<forall>d. hc_if_range_is_modified hc h (Some t) d = (raw \<noteq> val_etag v)"
    using typed_if_range [OF assms(1,4,2) t(2)] .
  then show ?thesis by (simp add: if_range_matches_def t)
qed

lemma date_rows:
  assumes "typed_headers hc" and "hc_fmt_http_date hc n = Some raw"
  shows "map_option (\<lambda>d. hc_if_unmodified_since_passes hc d m) (decode hc IfUnmodifiedSince raw) = Some (m \<le> n)"
    and "map_option (\<lambda>d. hc_if_modified_since_is_modified hc d m) (decode hc IfModifiedSince raw) = Some (n < m)"
    and "if_range_matches hc raw v \<longleftrightarrow> sint (val_last_modified_unix v) \<le> n"
proof -
  obtain u i r where d: "printable raw"
    "hc_decode hc IfUnmodifiedSince raw = Some u" "\<forall>m. hc_if_unmodified_since_passes hc u m = (m \<le> n)"
    "hc_decode hc IfModifiedSince raw = Some i" "\<forall>m. hc_if_modified_since_is_modified hc i m = (n < m)"
    "hc_decode hc IfRange raw = Some r" "\<forall>t m. hc_if_range_is_modified hc r t (Some m) = (n < m)"
    using typed_date [OF assms] .
  have dec: "decode hc kind raw = hc_decode hc kind raw" for kind
    using typed_text [OF assms(1) d(1)] by (simp add: decode_def)
  show "map_option (\<lambda>d. hc_if_unmodified_since_passes hc d m) (decode hc IfUnmodifiedSince raw) = Some (m \<le> n)"
    "map_option (\<lambda>d. hc_if_modified_since_is_modified hc d m) (decode hc IfModifiedSince raw) = Some (n < m)"
    "if_range_matches hc raw v \<longleftrightarrow> sint (val_last_modified_unix v) \<le> n"
    by (simp_all add: dec d if_range_matches_def system_time_sint not_less)
qed

lemma unread_date_row: "typed_headers hc \<Longrightarrow> decode hc IfModifiedSince ''garbage'' = None"
  by (simp add: typed_dates decode_def)

section \<open>Crates that do so\<close>

text \<open>Headers and tags as their text, for which the hypothesis holds.\<close>

definition sample_date :: "string \<Rightarrow> int" where
  "sample_date h = (if h = ''Sun, 06 Nov 1994 08:49:37 GMT'' then 784111777 else 0)"

definition typed_sample :: "(string, string) headers_crate" where
  "typed_sample =
     \<lparr>hc_value_ok = printable, hc_str_ok = printable,
      hc_decode = (\<lambda>kind s. if kind = IfModifiedSince \<and> s = ''garbage'' then None else Some s),
      hc_etag_from_str = Some,
      hc_if_match_passes = (\<lambda>h t. h = ''*'' \<or> t \<in> set (tags_in h)),
      hc_if_none_match_passes = (\<lambda>h t. \<not> (h = ''*'' \<or> t \<in> opaque_tag ` set (tags_in h))),
      hc_if_unmodified_since_passes = (\<lambda>h m. m \<le> sample_date h),
      hc_if_modified_since_is_modified = (\<lambda>h m. sample_date h < m),
      hc_if_range_is_modified = (\<lambda>h t m.
        if CHR '','' \<in> set h then (case m of Some m \<Rightarrow> sample_date h < m | None \<Rightarrow> True) else t \<noteq> Some h),
      hc_fmt_http_date = (\<lambda>n. if n = 0 then Some ''Thu, 01 Jan 1970 00:00:00 GMT''
        else if n = 784111777 then Some ''Sun, 06 Nov 1994 08:49:37 GMT'' else None)\<rparr>"

lemma trim_entity_tag: "entity_tag s \<Longrightarrow> trim s = s"
proof (rule trim_graphic)
  assume "entity_tag s"
  then have "\<exists>p b. s = p @ [CHR 0x22] @ b @ [CHR 0x22] \<and> (p = [] \<or> p = ''W/'')"
    unfolding entity_tag_def strong_tag_def by (metis append_Nil append_assoc)
  then show "s \<noteq> []" "ascii_graphic (hd s)" "ascii_graphic (last s)" by (auto simp: ascii_graphic_def)
qed

lemma entity_tag_not_star: "entity_tag s \<Longrightarrow> s \<noteq> ''*''"
  by (auto simp: entity_tag_def strong_tag_def)

lemma tags_in_join:
  assumes "tags \<noteq> []" and "list_all entity_tag tags"
  shows "tags_in (join_with '', '' tags) = tags" and "join_with '', '' tags \<noteq> ''*''"
proof -
  have space: "join_with '','' ((CHR '' '' # y) # zs) = CHR '' '' # join_with '','' (y # zs)" for y zs
    by (cases zs) simp_all
  have comma: "join_with '', '' (x # xs) = join_with '','' (x # map (\<lambda>s. '' '' @ s) xs)" for x xs
  proof (induction xs arbitrary: x)
    case (Cons y ys)
    then show ?case by (simp add: space)
  qed simp
  obtain x xs where tags: "tags = x # xs" using assms(1) by (cases tags) auto
  have "\<forall>s \<in> set (x # map (\<lambda>s. '' '' @ s) xs). CHR '','' \<notin> set s"
    using assms(2) by (auto simp: tags list_all_iff entity_tag_def)
  then have "split_on (CHR '','') (join_with '', '' tags) = x # map (\<lambda>s. '' '' @ s) xs"
    unfolding tags comma by (intro split_on_join) simp_all
  moreover have "map (\<lambda>s. trim (CHR '' '' # s)) xs = xs" "trim x = x"
    using assms(2) by (auto simp: tags list_all_iff trim_entity_tag trim_leading_space intro: map_idI)
  ultimately show eq: "tags_in (join_with '', '' tags) = tags"
    by (simp add: tags_in_def tags comp_def)
  show "join_with '', '' tags \<noteq> ''*''"
  proof
    assume "join_with '', '' tags = ''*''"
    with eq have "tags_in ''*'' = tags" by simp
    then show False using assms(2) entity_tag_not_star [of "''*''"] by (auto simp: tags_in_def trim_graphic ascii_graphic_def)
  qed
qed

lemma typed_sample: "typed_headers typed_sample"
  unfolding typed_headers_def
proof (intro conjI allI impI)
  fix tags assume "tags \<noteq> [] \<and> list_all entity_tag tags"
  then have "tags \<noteq> []" "list_all entity_tag tags" by simp_all
  note t = tags_in_join [OF this]
  show "\<exists>h. hc_decode typed_sample IfMatch (join_with '', '' tags) = Some h \<and>
      (\<forall>b t. strong_tag b \<and> hc_etag_from_str typed_sample b = Some t \<longrightarrow> hc_if_match_passes typed_sample h t = (b \<in> set tags))"
    using t by (simp add: typed_sample_def)
  show "\<exists>h. hc_decode typed_sample IfNoneMatch (join_with '', '' tags) = Some h \<and>
      (\<forall>b t. strong_tag b \<and> hc_etag_from_str typed_sample b = Some t \<longrightarrow>
         hc_if_none_match_passes typed_sample h t = (b \<notin> opaque_tag ` set tags))"
    using t by (simp add: typed_sample_def)
next
  fix n d assume "hc_fmt_http_date typed_sample n = Some d"
  then have "n = 0 \<and> d = ''Thu, 01 Jan 1970 00:00:00 GMT'' \<or> n = 784111777 \<and> d = ''Sun, 06 Nov 1994 08:49:37 GMT''"
    by (auto simp: typed_sample_def split: if_splits)
  then have d: "printable d" "CHR '','' \<in> set d" "d \<noteq> ''garbage''" "sample_date d = n"
    by (auto simp: printable_def sample_date_def)
  show "printable d" by (rule d)
  show "\<exists>h. hc_decode typed_sample IfUnmodifiedSince d = Some h \<and>
      (\<forall>m. hc_if_unmodified_since_passes typed_sample h m = (m \<le> n))"
    using d(4) by (simp add: typed_sample_def)
  show "\<exists>h. hc_decode typed_sample IfModifiedSince d = Some h \<and>
      (\<forall>m. hc_if_modified_since_is_modified typed_sample h m = (n < m))"
    using d(3,4) by (simp add: typed_sample_def)
  show "\<exists>h. hc_decode typed_sample IfRange d = Some h \<and>
      (\<forall>t m. hc_if_range_is_modified typed_sample h t (Some m) = (n < m))"
    using d(2,4) by (simp add: typed_sample_def)
qed (auto simp: typed_sample_def entity_tag_def)

section \<open>The rules of RFC 9110\<close>

text \<open>
  A condition as the client means it. A field may be absent, or present with a value its grammar does not
  allow. Tags are compared strongly by If-Match and weakly by If-None-Match; the tag of a file is strong.
\<close>

datatype 'a field = Absent | Unreadable | Given 'a

datatype tag_condition = AnyTag | OneOf "string list"

record preconditions =
  pc_match :: "tag_condition field"
  pc_unmodified_since :: "int field"
  pc_none_match :: "tag_condition field"
  pc_modified_since :: "int field"

fun names_strongly :: "tag_condition \<Rightarrow> string \<Rightarrow> bool" where
  "names_strongly AnyTag tag \<longleftrightarrow> True"
| "names_strongly (OneOf tags) tag \<longleftrightarrow> tag \<in> set tags"

fun names_weakly :: "tag_condition \<Rightarrow> string \<Rightarrow> bool" where
  "names_weakly AnyTag tag \<longleftrightarrow> True"
| "names_weakly (OneOf tags) tag \<longleftrightarrow> tag \<in> set tags \<or> ''W/'' @ tag \<in> set tags"

text \<open>
  Whether a precondition is false (412), and whether the client's copy is current (304), for a file with this
  tag, last modified then. A date is looked at only when its tag condition is absent.
\<close>

fun precondition_false :: "preconditions \<Rightarrow> string \<Rightarrow> int \<Rightarrow> bool" where
  "precondition_false pc tag modified \<longleftrightarrow>
     (\<exists>c. pc_match pc = Given c \<and> \<not> names_strongly c tag) \<or>
     (pc_match pc = Absent \<and> (\<exists>d. pc_unmodified_since pc = Given d \<and> d < modified))"

fun copy_current :: "preconditions \<Rightarrow> string \<Rightarrow> int \<Rightarrow> bool" where
  "copy_current pc tag modified \<longleftrightarrow>
     (\<exists>c. pc_none_match pc = Given c \<and> names_weakly c tag) \<or>
     (pc_none_match pc = Absent \<and> (\<exists>d. pc_modified_since pc = Given d \<and> modified \<le> d))"

section \<open>The headers of a request\<close>

fun printed_tags :: "tag_condition \<Rightarrow> string" where
  "printed_tags AnyTag = ''*''"
| "printed_tags (OneOf tags) = join_with '', '' tags"

fun tags_wf :: "tag_condition \<Rightarrow> bool" where
  "tags_wf AnyTag \<longleftrightarrow> True"
| "tags_wf (OneOf tags) \<longleftrightarrow> tags \<noteq> [] \<and> list_all entity_tag tags"

text \<open>The header line of a field: none, one the crate does not read, or the printed value.\<close>

fun tag_line :: "('h, 't) headers_crate \<Rightarrow> header_kind \<Rightarrow> tag_condition field \<Rightarrow> string option \<Rightarrow> bool" where
  "tag_line hc kind Absent line \<longleftrightarrow> line = None"
| "tag_line hc kind Unreadable line \<longleftrightarrow> (\<exists>raw. line = Some raw \<and> decode hc kind raw = None)"
| "tag_line hc kind (Given c) line \<longleftrightarrow> line = Some (printed_tags c) \<and> tags_wf c"

fun date_line :: "('h, 't) headers_crate \<Rightarrow> header_kind \<Rightarrow> int field \<Rightarrow> string option \<Rightarrow> bool" where
  "date_line hc kind Absent line \<longleftrightarrow> line = None"
| "date_line hc kind Unreadable line \<longleftrightarrow> (\<exists>raw. line = Some raw \<and> decode hc kind raw = None)"
| "date_line hc kind (Given d) line \<longleftrightarrow> (\<exists>raw. line = Some raw \<and> hc_fmt_http_date hc d = Some raw)"

definition sent_as :: "('h, 't) headers_crate \<Rightarrow> preconditions \<Rightarrow> conditional_headers \<Rightarrow> bool" where
  "sent_as hc pc h \<longleftrightarrow>
     tag_line hc IfMatch (pc_match pc) (ch_if_match h) \<and>
     date_line hc IfUnmodifiedSince (pc_unmodified_since pc) (ch_if_unmodified_since h) \<and>
     tag_line hc IfNoneMatch (pc_none_match pc) (ch_if_none_match h) \<and>
     date_line hc IfModifiedSince (pc_modified_since pc) (ch_if_modified_since h)"

lemma entity_tag_printable: "entity_tag s \<Longrightarrow> printable s"
  by (fastforce simp: entity_tag_def strong_tag_def printable_def list_all_iff ascii_graphic_def)

lemma printed_tags_printable: "tags_wf c \<Longrightarrow> printable (printed_tags c)"
proof (cases c)
  case (OneOf tags)
  assume "tags_wf c"
  then have "\<forall>s \<in> set tags. printable s" using entity_tag_printable by (simp add: OneOf list_all_iff)
  moreover have "set (join_with '', '' tags) \<subseteq> set '', '' \<union> \<Union> (set ` set tags)" by (rule set_join_with)
  ultimately show ?thesis by (fastforce simp: OneOf printable_def list_all_iff)
qed (simp add: printable_def)

lemma opaque_tag_eq:
  assumes "strong_tag b" and "entity_tag a"
  shows "opaque_tag a = b \<longleftrightarrow> a = b \<or> a = ''W/'' @ b"
proof -
  have none: "strip_prefix_of ''W/'' s = None" if "strong_tag s" for s
    using that by (cases "strip_prefix_of ''W/'' s") (auto simp: strong_tag_def)
  from assms(2) consider "strong_tag a" | a' where "a = ''W/'' @ a'" "strong_tag a'" by (auto simp: entity_tag_def)
  then show ?thesis
  proof cases
    case 1
    then have "a \<noteq> ''W/'' @ b" by (auto simp: strong_tag_def)
    then show ?thesis using none [OF 1] by (simp add: opaque_tag_def)
  next
    case 2
    then have "a \<noteq> b" using assms(1) by (auto simp: strong_tag_def)
    then show ?thesis using 2 by (auto simp: opaque_tag_def simp del: append_Cons)
  qed
qed

text \<open>What the tag conditions decide.\<close>

lemma tag_line_rows:
  assumes "typed_headers hc" and "strong_tag (val_etag v)" and "tags_wf c"
  shows "if_match_row hc (printed_tags c) v = Some (names_strongly c (val_etag v))"
    and "if_none_match_row hc (printed_tags c) v = Some (\<not> names_weakly c (val_etag v))"
proof -
  have "if_match_row hc (printed_tags c) v = Some (names_strongly c (val_etag v)) \<and>
      if_none_match_row hc (printed_tags c) v = Some (\<not> names_weakly c (val_etag v))"
  proof (cases c)
    case AnyTag
    then show ?thesis using star_rows [OF assms(1,2)] by simp
  next
    case (OneOf tags)
    then have wf: "tags \<noteq> []" "list_all entity_tag tags" using assms(3) by simp_all
    have "tags_in (join_with '', '' tags) = tags" using tags_in_join(1) [OF wf] .
    with tag_rows [OF assms(1,2) printed_tags_printable [OF assms(3)]] OneOf wf
    have "if_match_row hc (printed_tags c) v = Some (val_etag v \<in> set tags)"
      "if_none_match_row hc (printed_tags c) v = Some (val_etag v \<notin> opaque_tag ` set tags)" by simp_all
    moreover have "val_etag v \<in> opaque_tag ` set tags \<longleftrightarrow> (\<exists>a \<in> set tags. a = val_etag v \<or> a = ''W/'' @ val_etag v)"
    proof -
      have "opaque_tag a = val_etag v \<longleftrightarrow> a = val_etag v \<or> a = ''W/'' @ val_etag v" if "a \<in> set tags" for a
        using that wf(2) opaque_tag_eq [OF assms(2)] unfolding list_all_iff by blast
      moreover have "val_etag v \<in> opaque_tag ` set tags \<longleftrightarrow> (\<exists>a \<in> set tags. opaque_tag a = val_etag v)"
        unfolding image_iff by (simp add: eq_commute [of "val_etag v"])
      ultimately show ?thesis by blast
    qed
    moreover have "names_weakly c (val_etag v) \<longleftrightarrow> (\<exists>a \<in> set tags. a = val_etag v \<or> a = ''W/'' @ val_etag v)"
      and "names_strongly c (val_etag v) \<longleftrightarrow> val_etag v \<in> set tags"
      unfolding OneOf by (auto simp del: append_Cons)
    ultimately show ?thesis by simp
  qed
  then show "if_match_row hc (printed_tags c) v = Some (names_strongly c (val_etag v))"
    "if_none_match_row hc (printed_tags c) v = Some (\<not> names_weakly c (val_etag v))" by simp_all
qed

text \<open>The two halves of the evaluation, each with its header lines.\<close>

definition match_decides :: "('h, 't) headers_crate \<Rightarrow> conditional_headers \<Rightarrow> validators \<Rightarrow> bool" where
  "match_decides hc h v \<longleftrightarrow> (case ch_if_match h of
     Some raw \<Rightarrow> if_match_row hc raw v = Some False
   | None \<Rightarrow> (case ch_if_unmodified_since h of
       Some raw \<Rightarrow> map_option (\<lambda>d. hc_if_unmodified_since_passes hc d (sint (val_last_modified_unix v)))
         (decode hc IfUnmodifiedSince raw) = Some False
     | None \<Rightarrow> False))"

definition none_match_decides :: "('h, 't) headers_crate \<Rightarrow> conditional_headers \<Rightarrow> validators \<Rightarrow> bool" where
  "none_match_decides hc h v \<longleftrightarrow> (case ch_if_none_match h of
     Some raw \<Rightarrow> if_none_match_row hc raw v = Some False
   | None \<Rightarrow> (case ch_if_modified_since h of
       Some raw \<Rightarrow> map_option (\<lambda>d. hc_if_modified_since_is_modified hc d (sint (val_last_modified_unix v)))
         (decode hc IfModifiedSince raw) = Some False
     | None \<Rightarrow> False))"

lemma conditionals_in_two:
  "evaluate_conditionals hc h v =
     (if match_decides hc h v then PreconditionFailed else if none_match_decides hc h v then NotModified else Proceed)"
  unfolding evaluate_conditionals_def match_decides_def none_match_decides_def if_match_row_def if_none_match_row_def
    Let_def system_time_sint
  by (simp split: option.splits)

lemma match_decides_rfc:
  assumes "typed_headers hc" and "strong_tag (val_etag v)" and "sent_as hc pc h"
  shows "match_decides hc h v \<longleftrightarrow> precondition_false pc (val_etag v) (sint (val_last_modified_unix v))"
proof (cases "pc_match pc")
  case Absent
  then have "ch_if_match h = None" "date_line hc IfUnmodifiedSince (pc_unmodified_since pc) (ch_if_unmodified_since h)"
    using assms(3) by (simp_all add: sent_as_def)
  then show ?thesis
  proof (cases "pc_unmodified_since pc")
    case (Given d)
    then obtain raw where "ch_if_unmodified_since h = Some raw" "hc_fmt_http_date hc d = Some raw"
      using \<open>date_line hc _ _ _\<close> by auto
    then show ?thesis
      using date_rows(1) [OF assms(1), of d raw] Absent Given \<open>ch_if_match h = None\<close>
      by (simp add: match_decides_def not_le del: map_option_eq_Some)
  qed (use Absent in \<open>auto simp: match_decides_def\<close>)
next
  case Unreadable
  then show ?thesis using assms(3) by (auto simp: sent_as_def match_decides_def if_match_row_def)
next
  case (Given c)
  then have "ch_if_match h = Some (printed_tags c)" "tags_wf c" using assms(3) by (simp_all add: sent_as_def)
  then show ?thesis using Given tag_line_rows(1) [OF assms(1,2)] by (simp add: match_decides_def)
qed

lemma none_match_decides_rfc:
  assumes "typed_headers hc" and "strong_tag (val_etag v)" and "sent_as hc pc h"
  shows "none_match_decides hc h v \<longleftrightarrow> copy_current pc (val_etag v) (sint (val_last_modified_unix v))"
proof (cases "pc_none_match pc")
  case Absent
  then have "ch_if_none_match h = None" "date_line hc IfModifiedSince (pc_modified_since pc) (ch_if_modified_since h)"
    using assms(3) by (simp_all add: sent_as_def)
  then show ?thesis
  proof (cases "pc_modified_since pc")
    case (Given d)
    then obtain raw where "ch_if_modified_since h = Some raw" "hc_fmt_http_date hc d = Some raw"
      using \<open>date_line hc _ _ _\<close> by auto
    then show ?thesis
      using date_rows(2) [OF assms(1), of d raw] Absent Given \<open>ch_if_none_match h = None\<close>
      by (simp add: none_match_decides_def not_less del: map_option_eq_Some)
  qed (use Absent in \<open>auto simp: none_match_decides_def\<close>)
next
  case Unreadable
  then show ?thesis using assms(3) by (auto simp: sent_as_def none_match_decides_def if_none_match_row_def)
next
  case (Given c)
  then have "ch_if_none_match h = Some (printed_tags c)" "tags_wf c" using assms(3) by (simp_all add: sent_as_def)
  then show ?thesis using Given tag_line_rows(2) [OF assms(1,2)] by (simp add: none_match_decides_def)
qed

text \<open>
  C34: Conditional requests have the outcome RFC 9110 gives them: for every way a client may combine the four
  headers (a list of strong and weak tags, \<^verbatim>\<open>*\<close>, a date, a value that cannot be read, or none), the answer
  is 412 exactly when If-Match names no strongly equal tag or, only without If-Match, the file has been modified
  since; else 304 exactly when If-None-Match names a weakly equal tag or, only without If-None-Match, the
  file has not been modified since. A header that cannot be read decides nothing itself, but a date
  is not looked at beside an unreadable tag header either.
\<close>

theorem conditionals_rfc_order:
  assumes "typed_headers hc" and "sent_as hc pc h" and "now = validators_of sz secs nanos"
  shows "evaluate_conditionals hc h now =
     (if precondition_false pc (make_etag sz secs nanos) (sint secs) then PreconditionFailed
      else if copy_current pc (make_etag sz secs nanos) (sint secs) then NotModified else Proceed)"
proof -
  have "strong_tag (val_etag now)" by (simp add: assms(3) make_etag_strong)
  from match_decides_rfc [OF assms(1) this assms(2)] none_match_decides_rfc [OF assms(1) this assms(2)]
  show ?thesis by (simp add: conditionals_in_two assms(3))
qed

theorem conditionals_rfc_order_witness:
  "evaluate_conditionals typed_sample
     (no_conditionals\<lparr>ch_if_none_match := Some (printed_tags (OneOf [''\"x\"'', ''W/\"a-5.0\"''])),
        ch_if_modified_since := Some ''Thu, 01 Jan 1970 00:00:00 GMT''\<rparr>)
     (validators_of 10 5 0) = NotModified"
proof -
  let ?c = "OneOf [''\"x\"'', ''W/\"a-5.0\"'']"
  let ?pc = "\<lparr>pc_match = Absent, pc_unmodified_since = Absent, pc_none_match = Given ?c, pc_modified_since = Given 0\<rparr>"
  let ?h = "no_conditionals\<lparr>ch_if_none_match := Some (printed_tags ?c),
        ch_if_modified_since := Some ''Thu, 01 Jan 1970 00:00:00 GMT''\<rparr>"
  have tag: "make_etag 10 5 0 = ''\"a-5.0\"''" by (simp add: make_etag_def std_simps)
  have "tags_wf ?c" by (simp add: entity_tag_eval strong_tag_eval ascii_graphic_def)
  then have "sent_as typed_sample ?pc ?h" by (simp add: sent_as_def typed_sample_def)
  from conditionals_rfc_order [OF typed_sample this refl, of 10 5 0] show ?thesis by (simp add: tag)
qed

text \<open>
  Ignored is not absent: beside an If-None-Match that cannot be read, the If-Modified-Since of a client whose copy is
  current is not looked at, and the file is sent again.
\<close>

lemma unreadable_suppresses_date:
  assumes "decode hc IfNoneMatch raw = None"
  shows "evaluate_conditionals hc (no_conditionals\<lparr>ch_if_none_match := Some raw, ch_if_modified_since := Some d\<rparr>) v = Proceed"
  using assms by (simp add: evaluate_conditionals_def)

end
