(* ===== verification/Tests_Validators.thy ===== *)
theory Tests_Validators
  imports Preconditions
begin

text \<open>
  The unit tests of src/crates/envoy-files-core/src/validators.rs, each as the truth value of its assertions on
  \<^theory_text>\<open>Validators\<close>, for any typed-header and date crates that do what they document; the last section
  runs them.
\<close>

section \<open>Fixtures\<close>

definition validators_at :: "string \<Rightarrow> i64 \<Rightarrow> validators" where
  "validators_at etag last_modified_unix =
     \<lparr>val_etag = etag, val_last_modified_unix = last_modified_unix\<rparr>"

section \<open>Tags and dates\<close>

definition make_etag_format :: bool where
  [unit_tests]: "make_etag_format \<longleftrightarrow>
     make_etag 0x64 0x3e8 0x1f4 = ''\"64-3e8.1f4\"'' \<and>
     make_etag 0 0 0 = ''\"0-0.0\"''"

definition format_http_date_epoch :: "('h, 't) headers_crate \<Rightarrow> bool" where
  [unit_tests]: "format_http_date_epoch hc \<longleftrightarrow>
     format_http_date hc 0 = Some ''Thu, 01 Jan 1970 00:00:00 GMT''"

definition format_http_date_known :: "('h, 't) headers_crate \<Rightarrow> bool" where
  [unit_tests]: "format_http_date_known hc \<longleftrightarrow>
     format_http_date hc 784111777 = Some ''Sun, 06 Nov 1994 08:49:37 GMT''"

section \<open>If-Match and If-Unmodified-Since\<close>

definition if_match_star_proceeds :: "('h, 't) headers_crate \<Rightarrow> bool" where
  [unit_tests]: "if_match_star_proceeds hc \<longleftrightarrow>
     evaluate_conditionals hc (no_conditionals\<lparr>ch_if_match := Some ''*''\<rparr>)
       (validators_at ''\"abc\"'' 1000) = Proceed"

definition if_match_mismatch_fails_precondition :: "('h, 't) headers_crate \<Rightarrow> bool" where
  [unit_tests]: "if_match_mismatch_fails_precondition hc \<longleftrightarrow>
     evaluate_conditionals hc (no_conditionals\<lparr>ch_if_match := Some ''\"other\"''\<rparr>)
       (validators_at ''\"abc\"'' 1000) = PreconditionFailed"

definition if_match_list_with_match_proceeds :: "('h, 't) headers_crate \<Rightarrow> bool" where
  [unit_tests]: "if_match_list_with_match_proceeds hc \<longleftrightarrow>
     evaluate_conditionals hc (no_conditionals\<lparr>ch_if_match := Some ''\"x\", \"abc\", \"y\"''\<rparr>)
       (validators_at ''\"abc\"'' 1000) = Proceed"

definition if_match_uses_strong_comparison_weak_etag_fails :: "('h, 't) headers_crate \<Rightarrow> bool" where
  [unit_tests]: "if_match_uses_strong_comparison_weak_etag_fails hc \<longleftrightarrow>
     evaluate_conditionals hc (no_conditionals\<lparr>ch_if_match := Some ''W/\"abc\"''\<rparr>)
       (validators_at ''\"abc\"'' 1000) = PreconditionFailed"

definition if_unmodified_since_only_checked_without_if_match :: "('h, 't) headers_crate \<Rightarrow> bool" where
  [unit_tests]: "if_unmodified_since_only_checked_without_if_match hc \<longleftrightarrow>
     evaluate_conditionals hc (no_conditionals\<lparr>ch_if_unmodified_since := Some ''Sun, 06 Nov 1994 08:49:37 GMT''\<rparr>)
       (validators_at ''\"abc\"'' 784111778) = PreconditionFailed"

definition if_unmodified_since_ignored_when_if_match_present :: "('h, 't) headers_crate \<Rightarrow> bool" where
  [unit_tests]: "if_unmodified_since_ignored_when_if_match_present hc \<longleftrightarrow>
     evaluate_conditionals hc (no_conditionals\<lparr>ch_if_match := Some ''*'', ch_if_unmodified_since := Some ''Sun, 06 Nov 1994 08:49:37 GMT''\<rparr>)
       (validators_at ''\"abc\"'' 784111778) = Proceed"

definition if_unmodified_since_not_modified_proceeds :: "('h, 't) headers_crate \<Rightarrow> bool" where
  [unit_tests]: "if_unmodified_since_not_modified_proceeds hc \<longleftrightarrow>
     evaluate_conditionals hc (no_conditionals\<lparr>ch_if_unmodified_since := Some ''Sun, 06 Nov 1994 08:49:37 GMT''\<rparr>)
       (validators_at ''\"abc\"'' 784111777) = Proceed"

section \<open>If-None-Match and If-Modified-Since\<close>

definition if_none_match_star_not_modified :: "('h, 't) headers_crate \<Rightarrow> bool" where
  [unit_tests]: "if_none_match_star_not_modified hc \<longleftrightarrow>
     evaluate_conditionals hc (no_conditionals\<lparr>ch_if_none_match := Some ''*''\<rparr>)
       (validators_at ''\"abc\"'' 1000) = NotModified"

definition if_none_match_weak_comparison_matches :: "('h, 't) headers_crate \<Rightarrow> bool" where
  [unit_tests]: "if_none_match_weak_comparison_matches hc \<longleftrightarrow>
     evaluate_conditionals hc (no_conditionals\<lparr>ch_if_none_match := Some ''W/\"abc\"''\<rparr>)
       (validators_at ''\"abc\"'' 1000) = NotModified"

definition if_none_match_list_multiple_etags :: "('h, 't) headers_crate \<Rightarrow> bool" where
  [unit_tests]: "if_none_match_list_multiple_etags hc \<longleftrightarrow>
     evaluate_conditionals hc (no_conditionals\<lparr>ch_if_none_match := Some ''\"x\", \"y\", \"abc\"''\<rparr>)
       (validators_at ''\"abc\"'' 1000) = NotModified"

definition if_none_match_no_match_proceeds :: "('h, 't) headers_crate \<Rightarrow> bool" where
  [unit_tests]: "if_none_match_no_match_proceeds hc \<longleftrightarrow>
     evaluate_conditionals hc (no_conditionals\<lparr>ch_if_none_match := Some ''\"x\", \"y\"''\<rparr>)
       (validators_at ''\"abc\"'' 1000) = Proceed"

definition if_modified_since_only_checked_without_if_none_match :: "('h, 't) headers_crate \<Rightarrow> bool" where
  [unit_tests]: "if_modified_since_only_checked_without_if_none_match hc \<longleftrightarrow>
     evaluate_conditionals hc (no_conditionals\<lparr>ch_if_modified_since := Some ''Sun, 06 Nov 1994 08:49:37 GMT''\<rparr>)
       (validators_at ''\"abc\"'' 784111777) = NotModified"

definition if_modified_since_ignored_when_if_none_match_present :: "('h, 't) headers_crate \<Rightarrow> bool" where
  [unit_tests]: "if_modified_since_ignored_when_if_none_match_present hc \<longleftrightarrow>
     evaluate_conditionals hc (no_conditionals\<lparr>ch_if_none_match := Some ''\"other\"'', ch_if_modified_since := Some ''Sun, 06 Nov 1994 08:49:37 GMT''\<rparr>)
       (validators_at ''\"abc\"'' 784111777) = Proceed"

definition if_modified_since_modified_after_proceeds :: "('h, 't) headers_crate \<Rightarrow> bool" where
  [unit_tests]: "if_modified_since_modified_after_proceeds hc \<longleftrightarrow>
     evaluate_conditionals hc (no_conditionals\<lparr>ch_if_modified_since := Some ''Sun, 06 Nov 1994 08:49:37 GMT''\<rparr>)
       (validators_at ''\"abc\"'' 784111778) = Proceed"

definition unparseable_if_modified_since_is_ignored :: "('h, 't) headers_crate \<Rightarrow> bool" where
  [unit_tests]: "unparseable_if_modified_since_is_ignored hc \<longleftrightarrow>
     evaluate_conditionals hc (no_conditionals\<lparr>ch_if_modified_since := Some ''garbage''\<rparr>)
       (validators_at ''\"abc\"'' 1000) = Proceed"

definition no_conditionals_proceeds :: "('h, 't) headers_crate \<Rightarrow> bool" where
  [unit_tests]: "no_conditionals_proceeds hc \<longleftrightarrow>
     evaluate_conditionals hc no_conditionals
       (validators_at ''\"abc\"'' 1000) = Proceed"

section \<open>If-Range\<close>

definition if_range_strong_etag_match :: "('h, 't) headers_crate \<Rightarrow> bool" where
  [unit_tests]: "if_range_strong_etag_match hc \<longleftrightarrow>
     if_range_matches hc ''\"abc\"'' (validators_at ''\"abc\"'' 1000)"

definition if_range_weak_etag_never_matches :: "('h, 't) headers_crate \<Rightarrow> bool" where
  [unit_tests]: "if_range_weak_etag_never_matches hc \<longleftrightarrow>
     \<not> if_range_matches hc ''W/\"abc\"'' (validators_at ''\"abc\"'' 1000)"

definition if_range_etag_mismatch :: "('h, 't) headers_crate \<Rightarrow> bool" where
  [unit_tests]: "if_range_etag_mismatch hc \<longleftrightarrow>
     \<not> if_range_matches hc ''\"xyz\"'' (validators_at ''\"abc\"'' 1000)"

definition if_range_date_not_older_serves_range :: "('h, 't) headers_crate \<Rightarrow> bool" where
  [unit_tests]: "if_range_date_not_older_serves_range hc \<longleftrightarrow>
     if_range_matches hc ''Sun, 06 Nov 1994 08:49:37 GMT'' (validators_at ''\"abc\"'' 784111777)"

definition if_range_date_modified_since_serves_full :: "('h, 't) headers_crate \<Rightarrow> bool" where
  [unit_tests]: "if_range_date_modified_since_serves_full hc \<longleftrightarrow>
     \<not> if_range_matches hc ''Sun, 06 Nov 1994 08:49:37 GMT'' (validators_at ''\"abc\"'' 784111778)"

section \<open>The tests pass\<close>

text \<open>The conditions in order, and what computes them.\<close>

lemma precondition_rows_eval:
  "evaluate_conditionals hc h v =
     (case find (\<lambda>(test, _). test = Some False)
         [(Option.bind (ch_if_match h) (\<lambda>raw. if_match_row hc raw v), PreconditionFailed),
          (if ch_if_match h = None then Option.bind (ch_if_unmodified_since h) (\<lambda>raw.
             map_option (\<lambda>d. hc_if_unmodified_since_passes hc d (sint (val_last_modified_unix v)))
               (decode hc IfUnmodifiedSince raw)) else None, PreconditionFailed),
          (Option.bind (ch_if_none_match h) (\<lambda>raw. if_none_match_row hc raw v), NotModified),
          (if ch_if_none_match h = None then Option.bind (ch_if_modified_since h) (\<lambda>raw.
             map_option (\<lambda>d. hc_if_modified_since_is_modified hc d (sint (val_last_modified_unix v)))
               (decode hc IfModifiedSince raw)) else None, NotModified)] of
        Some (_, outcome) \<Rightarrow> outcome
      | None \<Rightarrow> Proceed)"
  unfolding evaluate_conditionals_def if_match_row_def if_none_match_row_def Let_def system_time_sint
  by (simp split: option.splits)

lemmas tag_eval = tags_in_def strong_tag_eval entity_tag_eval opaque_tag_def printable_def ascii_graphic_def
  trim_graphic trim_leading_space

lemmas conditional_eval = precondition_rows_eval validators_at_def tag_eval

lemma format_tests:
  assumes "typed_headers hc"
  shows "make_etag_format"
    and "format_http_date_epoch hc"
    and "format_http_date_known hc"
  by (simp_all add: unit_tests make_etag_def std_simps format_http_date_def system_time_sint typed_dates [OF assms])

lemma if_match_tests:
  assumes "typed_headers hc"
  shows "if_match_star_proceeds hc"
    and "if_match_mismatch_fails_precondition hc"
    and "if_match_list_with_match_proceeds hc"
    and "if_match_uses_strong_comparison_weak_etag_fails hc"
    and "if_unmodified_since_only_checked_without_if_match hc"
    and "if_unmodified_since_ignored_when_if_match_present hc"
    and "if_unmodified_since_not_modified_proceeds hc"
  by (simp_all add: unit_tests conditional_eval star_rows [OF assms] tag_rows [OF assms]
      if_range_row [OF assms] date_rows [OF assms typed_dates(2) [OF assms]] unread_date_row [OF assms])

lemma if_none_match_tests:
  assumes "typed_headers hc"
  shows "if_none_match_star_not_modified hc"
    and "if_none_match_weak_comparison_matches hc"
    and "if_none_match_list_multiple_etags hc"
    and "if_none_match_no_match_proceeds hc"
    and "if_modified_since_only_checked_without_if_none_match hc"
    and "if_modified_since_ignored_when_if_none_match_present hc"
    and "if_modified_since_modified_after_proceeds hc"
    and "unparseable_if_modified_since_is_ignored hc"
    and "no_conditionals_proceeds hc"
  by (simp_all add: unit_tests conditional_eval star_rows [OF assms] tag_rows [OF assms]
      if_range_row [OF assms] date_rows [OF assms typed_dates(2) [OF assms]] unread_date_row [OF assms])

lemma if_range_tests:
  assumes "typed_headers hc"
  shows "if_range_strong_etag_match hc"
    and "if_range_weak_etag_never_matches hc"
    and "if_range_etag_mismatch hc"
    and "if_range_date_not_older_serves_range hc"
    and "if_range_date_modified_since_serves_full hc"
  by (simp_all add: unit_tests conditional_eval star_rows [OF assms] tag_rows [OF assms]
      if_range_row [OF assms] date_rows [OF assms typed_dates(2) [OF assms]] unread_date_row [OF assms])

end
