(* ===== verification/Tests_Listing.thy ===== *)
theory Tests_Listing
  imports Listing Tests_Validators
begin

text \<open>
  The unit tests of src/crates/envoy-files-core/src/listing.rs, each as the truth value of its assertions on
  \<^theory_text>\<open>Listing\<close>, for any escaping, percent-encoding and date crates that do what they document; the
  last section runs them.
\<close>

section \<open>The crates\<close>

definition ascii :: "string \<Rightarrow> bool" where
  "ascii = list_all (\<lambda>c. (of_char c :: nat) < 128)"

definition is_alphanumeric :: "char \<Rightarrow> bool" where
  "is_alphanumeric c \<longleftrightarrow> is_ascii_digit c \<or>
     (65 \<le> (of_char c :: nat) \<and> (of_char c :: nat) \<le> 90) \<or> (97 \<le> (of_char c :: nat) \<and> (of_char c :: nat) \<le> 122)"

fun html_escaped :: "string \<Rightarrow> string" where
  "html_escaped [] = []"
| "html_escaped (c # s) =
     (if c = CHR ''&'' then ''&amp;'' else if c = CHR ''<'' then ''&lt;'' else if c = CHR ''>'' then ''&gt;'' else [c])
     @ html_escaped s"

definition upper_hex :: "nat \<Rightarrow> char" where
  "upper_hex d = ''0123456789ABCDEF'' ! d"

fun percent_escaped :: "(char \<Rightarrow> bool) \<Rightarrow> string \<Rightarrow> string" where
  "percent_escaped P [] = []"
| "percent_escaped P (c # s) =
     (if P c then [CHR ''%'', upper_hex (of_char c div 16), upper_hex (of_char c mod 16)] else [c])
     @ percent_escaped P s"

text \<open>What the crates and \<^verbatim>\<open>str::to_lowercase\<close> document, of ASCII text where that is enough.\<close>

definition text_documented :: "text_crates \<Rightarrow> bool" where
  "text_documented tc \<longleftrightarrow>
     (\<forall>s. tc_encode_text tc s = html_escaped s) \<and>
     (\<forall>P s. ascii s \<longrightarrow> tc_percent_encode tc s P = percent_escaped P s) \<and>
     (\<forall>c. ascii [c] \<longrightarrow> tc_non_alphanumeric tc c = (\<not> is_alphanumeric c)) \<and>
     (\<forall>s. ascii s \<longrightarrow> tc_to_lowercase tc s = to_ascii_lowercase s)"

section \<open>Fixtures\<close>

definition entry :: "string \<Rightarrow> bool \<Rightarrow> u64 \<Rightarrow> i64 \<Rightarrow> dir_entry" where
  "entry name is_dir sz mtime = \<lparr>de_name = name, de_is_dir = is_dir, de_size = sz, de_mtime_unix = mtime\<rparr>"

definition rendered ::
  "text_crates \<Rightarrow> ('h, 't) headers_crate \<Rightarrow> string \<Rightarrow> bool \<Rightarrow> dir_entry list \<Rightarrow> (string \<Rightarrow> bool) \<Rightarrow> bool" where
  "rendered tc hc url at_root entries P =
     (case render_listing tc hc url at_root entries of Some html \<Rightarrow> P html | None \<Rightarrow> False)"

text \<open>\<^verbatim>\<open>str::find\<close>, counting from a given position, and \<^verbatim>\<open>str::contains\<close>.\<close>

fun find_from :: "nat \<Rightarrow> string \<Rightarrow> string \<Rightarrow> nat option" where
  "find_from i [] pat = (if pat = [] then Some i else None)"
| "find_from i (c # s) pat = (if prefix pat (c # s) then Some i else find_from (i + 1) s pat)"

definition contains :: "string \<Rightarrow> string \<Rightarrow> bool" where
  "contains s pat \<longleftrightarrow> find_from 0 s pat \<noteq> None"

definition is_before :: "string \<Rightarrow> string \<Rightarrow> string \<Rightarrow> bool" where
  "is_before html a b \<longleftrightarrow>
     (case (find_from 0 html a, find_from 0 html b) of (Some i, Some j) \<Rightarrow> i < j | _ \<Rightarrow> False)"

section \<open>The parent link\<close>

definition root_path_has_no_parent_link :: "text_crates \<Rightarrow> ('h, 't) headers_crate \<Rightarrow> bool" where
  [unit_tests]: "root_path_has_no_parent_link tc hc \<longleftrightarrow>
     rendered tc hc ''/'' True [] (\<lambda>html.
       \<not> contains html ''../'')"

definition non_root_path_has_parent_link :: "text_crates \<Rightarrow> ('h, 't) headers_crate \<Rightarrow> bool" where
  [unit_tests]: "non_root_path_has_parent_link tc hc \<longleftrightarrow>
     rendered tc hc ''/sub/'' False [entry ''a.txt'' False 10 0] (\<lambda>html.
       contains html ''<a href=\"../\">../</a>'')"

definition root_at_non_slash_url_still_has_no_parent_link :: "text_crates \<Rightarrow> ('h, 't) headers_crate \<Rightarrow> bool" where
  [unit_tests]: "root_at_non_slash_url_still_has_no_parent_link tc hc \<longleftrightarrow>
     rendered tc hc ''/static/'' True [entry ''a.txt'' False 10 0] (\<lambda>html.
       \<not> contains html ''../'')"

section \<open>Order\<close>

definition directories_sort_before_files :: "text_crates \<Rightarrow> ('h, 't) headers_crate \<Rightarrow> bool" where
  [unit_tests]: "directories_sort_before_files tc hc \<longleftrightarrow>
     rendered tc hc ''/'' True [entry ''zeta.txt'' False 1 0, entry ''alpha_dir'' True 0 0] (\<lambda>html.
       is_before html ''alpha_dir'' ''zeta.txt'')"

definition case_insensitive_alphabetical_order :: "text_crates \<Rightarrow> ('h, 't) headers_crate \<Rightarrow> bool" where
  [unit_tests]: "case_insensitive_alphabetical_order tc hc \<longleftrightarrow>
     rendered tc hc ''/'' True [entry ''Banana.txt'' False 1 0, entry ''apple.txt'' False 1 0, entry ''Cherry.txt'' False 1 0] (\<lambda>html.
       is_before html ''apple.txt'' ''Banana.txt'' \<and>
       is_before html ''Banana.txt'' ''Cherry.txt'')"

section \<open>Names\<close>

definition directories_get_trailing_slash_in_name_and_href :: "text_crates \<Rightarrow> ('h, 't) headers_crate \<Rightarrow> bool" where
  [unit_tests]: "directories_get_trailing_slash_in_name_and_href tc hc \<longleftrightarrow>
     rendered tc hc ''/'' True [entry ''docs'' True 0 0] (\<lambda>html.
       contains html ''href=\"docs/\"'' \<and>
       contains html ''>docs/<'')"

definition xss_script_tag_name_is_escaped :: "text_crates \<Rightarrow> ('h, 't) headers_crate \<Rightarrow> bool" where
  [unit_tests]: "xss_script_tag_name_is_escaped tc hc \<longleftrightarrow>
     rendered tc hc ''/'' True [entry ''<script>alert(1)</script>'' False 1 0] (\<lambda>html.
       \<not> contains html ''<script>alert(1)</script>'' \<and>
       contains html ''&lt;script&gt;alert(1)&lt;/script&gt;'')"

definition quote_in_name_is_percent_encoded_in_href :: "text_crates \<Rightarrow> ('h, 't) headers_crate \<Rightarrow> bool" where
  [unit_tests]: "quote_in_name_is_percent_encoded_in_href tc hc \<longleftrightarrow>
     rendered tc hc ''/'' True [entry ''a\"b'' False 1 0] (\<lambda>html.
       contains html ''href=\"a%22b\"'' \<and>
       \<not> contains html ''href=\"a\"b\"'' \<and>
       contains html ''>a\"b<'')"

definition percent_in_name_is_percent_encoded :: "text_crates \<Rightarrow> ('h, 't) headers_crate \<Rightarrow> bool" where
  [unit_tests]: "percent_in_name_is_percent_encoded tc hc \<longleftrightarrow>
     rendered tc hc ''/'' True [entry ''100%.txt'' False 1 0] (\<lambda>html.
       contains html ''href=\"100%25.txt\"'' \<and>
       contains html ''>100%.txt<'')"

section \<open>Sizes, dates and empty directories\<close>

definition size_humanization :: bool where
  [unit_tests]: "size_humanization \<longleftrightarrow>
     humanize_size 0 = ''0 B'' \<and>
     humanize_size 1023 = ''1023 B'' \<and>
     humanize_size 1024 = ''1.0 KiB'' \<and>
     humanize_size 1536 = ''1.5 KiB'' \<and>
     humanize_size (1024 * 1024) = ''1.0 MiB'' \<and>
     humanize_size (1024 * 1024 * 1024) = ''1.0 GiB''"

definition mtime_uses_http_date_format :: "text_crates \<Rightarrow> ('h, 't) headers_crate \<Rightarrow> bool" where
  [unit_tests]: "mtime_uses_http_date_format tc hc \<longleftrightarrow>
     rendered tc hc ''/'' True [entry ''a.txt'' False 1 0] (\<lambda>html.
       contains html ''Thu, 01 Jan 1970 00:00:00 GMT'')"

definition empty_directory_renders_without_entries :: "text_crates \<Rightarrow> ('h, 't) headers_crate \<Rightarrow> bool" where
  [unit_tests]: "empty_directory_renders_without_entries tc hc \<longleftrightarrow>
     rendered tc hc ''/'' True [] (\<lambda>html.
       contains html ''<table>'' \<and>
       \<not> contains html ''<tr><td><a href=\"'')"

section \<open>The tests pass\<close>

lemma text_rules:
  assumes "text_documented tc"
  shows "tc_encode_text tc s = html_escaped s"
    and "ascii s \<Longrightarrow> tc_percent_encode tc s P = percent_escaped P s"
    and "ascii [c] \<Longrightarrow> tc_non_alphanumeric tc c = (\<not> is_alphanumeric c)"
    and "ascii s \<Longrightarrow> tc_to_lowercase tc s = to_ascii_lowercase s"
  using assms by (simp_all add: text_documented_def)

text \<open>Text that is computed already is not looked into again.\<close>

lemma text_cong: "i = j \<Longrightarrow> find_from i s pat = find_from j s pat" "prefix pat s = prefix pat s"
  by simp_all

lemma entry_simps [simp]:
  "de_name (entry n d sz m) = n" "de_is_dir (entry n d sz m) = d" "de_size (entry n d sz m) = sz"
  "de_mtime_unix (entry n d sz m) = m"
  by (simp_all add: entry_def)

lemma epoch_date: "typed_headers hc \<Longrightarrow> format_http_date hc 0 = Some ''Thu, 01 Jan 1970 00:00:00 GMT''"
  by (simp add: format_http_date_def system_time_sint typed_dates)

lemmas listing_eval = ascii_def is_alphanumeric_def upper_hex_def rendered_def contains_def is_before_def
  render_listing_def render_head_def render_row_def percent_encode_path_segment_def PATH_SEGMENT_def
  compare_entries_def cmp_of_def to_ascii_lowercase_def to_ascii_lower_def char_of_def bit_Suc_0_iff
  humanize_size_def humanize_loop.simps UNITS_def f64_of_u64_def word_less_nat_alt std_simps

lemma parent_link_tests:
  assumes "text_documented tc" and "typed_headers hc"
  shows "root_path_has_no_parent_link tc hc"
    and "non_root_path_has_parent_link tc hc"
    and "root_at_non_slash_url_still_has_no_parent_link tc hc"
  by (simp_all add: unit_tests listing_eval text_rules [OF assms(1)] epoch_date [OF assms(2)] cong: text_cong)

text \<open>The order of the names, computed on its own.\<close>

lemma sorted_entries:
  assumes "text_documented tc"
  shows "sort_by (compare_entries tc) [entry ''zeta.txt'' False 1 0, entry ''alpha_dir'' True 0 0] =
      [entry ''alpha_dir'' True 0 0, entry ''zeta.txt'' False 1 0]"
    and "sort_by (compare_entries tc)
        [entry ''Banana.txt'' False 1 0, entry ''apple.txt'' False 1 0, entry ''Cherry.txt'' False 1 0] =
      [entry ''apple.txt'' False 1 0, entry ''Banana.txt'' False 1 0, entry ''Cherry.txt'' False 1 0]"
  by (simp_all add: compare_entries_def cmp_of_def text_rules [OF assms] ascii_def to_ascii_lowercase_def
      to_ascii_lower_def char_of_def bit_Suc_0_iff)

lemma listing_order_tests:
  assumes "text_documented tc" and "typed_headers hc"
  shows "directories_sort_before_files tc hc"
    and "case_insensitive_alphabetical_order tc hc"
  by (simp_all add: unit_tests listing_eval text_rules [OF assms(1)] epoch_date [OF assms(2)]
      sorted_entries [OF assms(1)] del: sort_by_simps cong: text_cong)

lemma listed_name_tests:
  assumes "text_documented tc" and "typed_headers hc"
  shows "directories_get_trailing_slash_in_name_and_href tc hc"
    and "xss_script_tag_name_is_escaped tc hc"
    and "quote_in_name_is_percent_encoded_in_href tc hc"
    and "percent_in_name_is_percent_encoded tc hc"
  by (simp_all add: unit_tests listing_eval text_rules [OF assms(1)] epoch_date [OF assms(2)] cong: text_cong)

lemma listed_cell_tests:
  assumes "text_documented tc" and "typed_headers hc"
  shows "size_humanization"
    and "mtime_uses_http_date_format tc hc"
    and "empty_directory_renders_without_entries tc hc"
  by (simp_all add: unit_tests listing_eval text_rules [OF assms(1)] epoch_date [OF assms(2)] cong: text_cong)

end
