(* ===== verification/Tests_Response_Plan.thy ===== *)
theory Tests_Response_Plan
  imports Response_Plan Tests_Validators Utf8
begin

text \<open>
  The unit tests of src/crates/envoy-files-core/src/response_plan.rs, each as the truth value of its assertions
  on \<^theory_text>\<open>Response_Plan\<close>, for any header and date crates that do what they document; the last
  section runs them. A panic, of the planner too, is a failed test.
\<close>

section \<open>Fixtures\<close>

definition base_facts :: request_facts where
  "base_facts =
     \<lparr>rf_method_head = False, rf_conditionals = no_conditionals, rf_range_header = None,
      rf_content_type = ''text/plain; charset=utf-8'', rf_etag_enabled = True, rf_last_modified_enabled = True,
      rf_range_policy = \<lparr>allow_multi = True, max_parts = 50\<rparr>, rf_boundary = ''BOUNDARY'',
      rf_content_encoding = None, rf_add_vary = False, rf_cache_control = None\<rparr>"

definition base_meta :: file_meta where
  "base_meta = \<lparr>fm_size = 1000, fm_mtime_unix = 784111777, fm_mtime_nanos = 0, fm_is_dir = False\<rparr>"

definition planned ::
  "('h, 't) headers_crate \<Rightarrow> request_facts \<Rightarrow> file_meta \<Rightarrow> (response_plan \<Rightarrow> bool) \<Rightarrow> bool" where
  "planned hc facts meta P = (case plan_response hc facts meta of Some plan \<Rightarrow> P plan | None \<Rightarrow> False)"

section \<open>Whole responses\<close>

definition plain_get_returns_200_with_whole_body :: "('h, 't) headers_crate \<Rightarrow> bool" where
  [unit_tests]: "plain_get_returns_200_with_whole_body hc \<longleftrightarrow>
     planned hc base_facts base_meta (\<lambda>plan.
       plan_status plan = STATUS_OK \<and>
       header_of ''content-length'' plan = Some ''1000'' \<and>
       header_of ''content-type'' plan = Some ''text/plain; charset=utf-8'' \<and>
       header_of ''accept-ranges'' plan = Some ''bytes'' \<and>
       header_of ''etag'' plan \<noteq> None \<and>
       header_of ''last-modified'' plan \<noteq> None \<and>
       plan_body plan = WholeBody 1000)"

definition head_request_has_empty_body_but_same_headers :: "('h, 't) headers_crate \<Rightarrow> bool" where
  [unit_tests]: "head_request_has_empty_body_but_same_headers hc \<longleftrightarrow>
     planned hc (base_facts\<lparr>rf_method_head := True\<rparr>) base_meta (\<lambda>plan.
       plan_status plan = STATUS_OK \<and>
       header_of ''content-length'' plan = Some ''1000'' \<and>
       plan_body plan = EmptyBody)"

definition content_encoding_adds_vary_and_content_encoding_headers :: "('h, 't) headers_crate \<Rightarrow> bool" where
  [unit_tests]: "content_encoding_adds_vary_and_content_encoding_headers hc \<longleftrightarrow>
     planned hc (base_facts\<lparr>rf_content_encoding := Some ''gzip''\<rparr>) base_meta (\<lambda>plan.
       header_of ''content-encoding'' plan = Some ''gzip'' \<and>
       header_of ''vary'' plan = Some ''Accept-Encoding'')"

definition add_vary_flag_without_encoding_still_adds_vary :: "('h, 't) headers_crate \<Rightarrow> bool" where
  [unit_tests]: "add_vary_flag_without_encoding_still_adds_vary hc \<longleftrightarrow>
     planned hc (base_facts\<lparr>rf_add_vary := True\<rparr>) base_meta (\<lambda>plan.
       header_of ''content-encoding'' plan = None \<and>
       header_of ''vary'' plan = Some ''Accept-Encoding'')"

definition no_encoding_and_no_add_vary_omits_vary :: "('h, 't) headers_crate \<Rightarrow> bool" where
  [unit_tests]: "no_encoding_and_no_add_vary_omits_vary hc \<longleftrightarrow>
     planned hc base_facts base_meta (\<lambda>plan.
       header_of ''vary'' plan = None)"

section \<open>Conditions\<close>

definition if_none_match_star_yields_304_with_validators :: "('h, 't) headers_crate \<Rightarrow> bool" where
  [unit_tests]: "if_none_match_star_yields_304_with_validators hc \<longleftrightarrow>
     planned hc (base_facts\<lparr>rf_conditionals := no_conditionals\<lparr>ch_if_none_match := Some ''*''\<rparr>\<rparr>) base_meta (\<lambda>plan.
       plan_status plan = STATUS_NOT_MODIFIED \<and>
       header_of ''etag'' plan \<noteq> None \<and>
       header_of ''last-modified'' plan \<noteq> None \<and>
       plan_body plan = EmptyBody)"

definition if_match_mismatch_yields_412 :: "('h, 't) headers_crate \<Rightarrow> bool" where
  [unit_tests]: "if_match_mismatch_yields_412 hc \<longleftrightarrow>
     planned hc (base_facts\<lparr>rf_conditionals := no_conditionals\<lparr>ch_if_match := Some ''\"nonexistent\"''\<rparr>\<rparr>) base_meta (\<lambda>plan.
       plan_status plan = STATUS_PRECONDITION_FAILED \<and>
       plan_body plan = EmptyBody)"

definition disabled_etag_ignores_if_none_match_header :: "('h, 't) headers_crate \<Rightarrow> bool" where
  [unit_tests]: "disabled_etag_ignores_if_none_match_header hc \<longleftrightarrow>
     planned hc (base_facts\<lparr>rf_etag_enabled := False, rf_conditionals := no_conditionals\<lparr>ch_if_none_match := Some ''*''\<rparr>\<rparr>) base_meta (\<lambda>plan.
       plan_status plan = STATUS_OK \<and>
       header_of ''etag'' plan = None)"

definition disabled_last_modified_omits_header_and_ignores_conditional :: "('h, 't) headers_crate \<Rightarrow> bool" where
  [unit_tests]: "disabled_last_modified_omits_header_and_ignores_conditional hc \<longleftrightarrow>
     (case format_http_date hc 784111777 of None \<Rightarrow> False | Some formatted \<Rightarrow>
     planned hc (base_facts\<lparr>rf_last_modified_enabled := False, rf_conditionals := no_conditionals\<lparr>ch_if_modified_since := Some formatted\<rparr>\<rparr>) base_meta (\<lambda>plan.
       plan_status plan = STATUS_OK \<and>
       header_of ''last-modified'' plan = None))"

section \<open>Ranges\<close>

definition single_range_yields_206_with_content_range :: "('h, 't) headers_crate \<Rightarrow> bool" where
  [unit_tests]: "single_range_yields_206_with_content_range hc \<longleftrightarrow>
     planned hc (base_facts\<lparr>rf_range_header := Some ''bytes=0-499''\<rparr>) base_meta (\<lambda>plan.
       plan_status plan = STATUS_PARTIAL_CONTENT \<and>
       header_of ''content-range'' plan = Some ''bytes 0-499/1000'' \<and>
       header_of ''content-length'' plan = Some ''500'' \<and>
       plan_body plan = SegmentsBody [\<lparr>range_start = 0, range_end = 499\<rparr>])"

definition head_with_range_has_empty_body_but_range_headers :: "('h, 't) headers_crate \<Rightarrow> bool" where
  [unit_tests]: "head_with_range_has_empty_body_but_range_headers hc \<longleftrightarrow>
     planned hc (base_facts\<lparr>rf_method_head := True, rf_range_header := Some ''bytes=0-499''\<rparr>) base_meta (\<lambda>plan.
       plan_status plan = STATUS_PARTIAL_CONTENT \<and>
       header_of ''content-length'' plan = Some ''500'' \<and>
       plan_body plan = EmptyBody)"

definition unsatisfiable_range_yields_416 :: "('h, 't) headers_crate \<Rightarrow> bool" where
  [unit_tests]: "unsatisfiable_range_yields_416 hc \<longleftrightarrow>
     planned hc (base_facts\<lparr>rf_range_header := Some ''bytes=5000-6000''\<rparr>) base_meta (\<lambda>plan.
       plan_status plan = STATUS_RANGE_NOT_SATISFIABLE \<and>
       header_of ''content-range'' plan = Some ''bytes */1000'' \<and>
       plan_body plan = EmptyBody)"

definition multi_range_yields_206_multipart :: "('h, 't) headers_crate \<Rightarrow> bool" where
  [unit_tests]: "multi_range_yields_206_multipart hc \<longleftrightarrow>
     planned hc (base_facts\<lparr>rf_range_header := Some ''bytes=0-9,500-509''\<rparr>) base_meta (\<lambda>plan.
       plan_status plan = STATUS_PARTIAL_CONTENT \<and>
       (case header_of ''content-type'' plan of None \<Rightarrow> False | Some content_type \<Rightarrow>
          prefix ''multipart/byteranges; boundary=BOUNDARY'' (from_utf8_lossy content_type)) \<and>
       (case plan_body plan of
          MultipartBody parts terminator content_length \<Rightarrow>
            length parts = 2 \<and>
            map_option from_utf8_lossy (header_of ''content-length'' plan) = Some (dec_u64 content_length)
        | _ \<Rightarrow> False))"

definition range_falls_back_to_200_when_unparseable :: "('h, 't) headers_crate \<Rightarrow> bool" where
  [unit_tests]: "range_falls_back_to_200_when_unparseable hc \<longleftrightarrow>
     planned hc (base_facts\<lparr>rf_range_header := Some ''bytes=abc''\<rparr>) base_meta (\<lambda>plan.
       plan_status plan = STATUS_OK \<and>
       plan_body plan = WholeBody 1000)"

definition if_range_mismatch_falls_back_to_full_200 :: "('h, 't) headers_crate \<Rightarrow> bool" where
  [unit_tests]: "if_range_mismatch_falls_back_to_full_200 hc \<longleftrightarrow>
     planned hc (base_facts\<lparr>rf_range_header := Some ''bytes=0-499'', rf_conditionals := no_conditionals\<lparr>ch_if_range := Some ''\"stale-etag\"''\<rparr>\<rparr>) base_meta (\<lambda>plan.
       plan_status plan = STATUS_OK \<and>
       plan_body plan = WholeBody 1000)"

definition if_range_match_allows_range :: "('h, 't) headers_crate \<Rightarrow> bool" where
  [unit_tests]: "if_range_match_allows_range hc \<longleftrightarrow>
     planned hc (base_facts\<lparr>rf_range_header := Some ''bytes=0-499'', rf_conditionals := no_conditionals\<lparr>ch_if_range := Some (make_etag (fm_size base_meta) (fm_mtime_unix base_meta) (fm_mtime_nanos base_meta))\<rparr>\<rparr>) base_meta (\<lambda>plan.
       plan_status plan = STATUS_PARTIAL_CONTENT)"

section \<open>The tests pass\<close>

lemma typed_value: "typed_headers hc \<Longrightarrow> printable s \<Longrightarrow> header_value hc s = Some s"
  by (simp add: header_value_def typed_text)

lemma base_date: "typed_headers hc \<Longrightarrow> format_http_date hc 784111777 = Some ''Sun, 06 Nov 1994 08:49:37 GMT''"
  by (simp add: format_http_date_def system_time_sint typed_dates)

lemma base_etag: "make_etag 1000 784111777 0 = ''\"3e8-2ebc98a1.0\"''"
  by (simp add: make_etag_def std_simps)

lemmas plan_eval = base_facts_def base_meta_def planned_def plan_response_def effective_conditionals_def
  meta_validators_def base_etag whole_plan_def single_range_plan_def multi_range_plan_def unsatisfiable_plan_def
  push_validator_headers_def push_encoding_headers_def header_of_def content_range_def content_range_unsatisfied_def
  range_len_def multipart_parts_def multipart_header_def crlf_def plan_ranges_def parse_one_spec_def
  parse_suffix_spec_def open_ended_spec_def is_all_ascii_digits_def word_le_nat_alt word_less_nat_alt
  conditional_eval next_sequence_def sequence_width_def std_simps

lemmas typed_rules = typed_value base_date star_rows tag_rows if_range_row date_rows [OF _ typed_dates(2)]

lemma whole_response_tests:
  assumes "typed_headers hc"
  shows "plain_get_returns_200_with_whole_body hc"
    and "head_request_has_empty_body_but_same_headers hc"
    and "content_encoding_adds_vary_and_content_encoding_headers hc"
    and "add_vary_flag_without_encoding_still_adds_vary hc"
    and "no_encoding_and_no_add_vary_omits_vary hc"
  by (simp_all add: unit_tests plan_eval typed_rules [OF assms])

lemma condition_tests:
  assumes "typed_headers hc"
  shows "if_none_match_star_yields_304_with_validators hc"
    and "if_match_mismatch_yields_412 hc"
    and "disabled_etag_ignores_if_none_match_header hc"
    and "disabled_last_modified_omits_header_and_ignores_conditional hc"
  by (simp_all add: unit_tests plan_eval typed_rules [OF assms])

lemma range_response_tests:
  assumes "typed_headers hc"
  shows "single_range_yields_206_with_content_range hc"
    and "head_with_range_has_empty_body_but_range_headers hc"
    and "unsatisfiable_range_yields_416 hc"
    and "multi_range_yields_206_multipart hc"
    and "range_falls_back_to_200_when_unparseable hc"
    and "if_range_mismatch_falls_back_to_full_200 hc"
    and "if_range_match_allows_range hc"
  by (simp_all add: unit_tests plan_eval typed_rules [OF assms])

end
