(* ===== verification/Tests_Config.thy ===== *)
theory Tests_Config
  imports Config
begin

text \<open>
  The unit tests of src/crates/envoy-files-filter/src/config.rs, each as the truth value of its assertions on
  \<^theory_text>\<open>Config\<close>, for any YAML crate that reads JSON and any file system with a temporary directory;
  the last section runs them.
\<close>

section \<open>JSON documents\<close>

text \<open>Flat objects, as the tests write them, of texts that need no escape.\<close>

datatype json = JText string | JInt nat

type_synonym members = "(string \<times> json) list"

definition quoted :: "string \<Rightarrow> string" where
  "quoted s = [CHR 0x22] @ s @ [CHR 0x22]"

fun json_value :: "json \<Rightarrow> string" where
  "json_value (JText s) = quoted s"
| "json_value (JInt n) = to_radix 10 n"

definition json_object :: "members \<Rightarrow> string" where
  "json_object ms = ''{'' @ join_with '', '' (map (\<lambda>(k, v). quoted k @ '': '' @ json_value v) ms) @ ''}''"

definition plain_text :: "string \<Rightarrow> bool" where
  "plain_text = list_all (\<lambda>c. 32 \<le> (of_char c :: nat) \<and> (of_char c :: nat) < 127 \<and> c \<noteq> CHR 0x22 \<and> c \<noteq> CHR 0x5C)"

fun plain_json :: "json \<Rightarrow> bool" where
  "plain_json (JText s) \<longleftrightarrow> plain_text s"
| "plain_json (JInt n) \<longleftrightarrow> n < 2 ^ 63"

definition plain_members :: "members \<Rightarrow> bool" where
  "plain_members ms \<longleftrightarrow> list_all (\<lambda>(k, v). plain_text k \<and> plain_json v) ms \<and> distinct (map fst ms)"

section \<open>The crate\<close>

text \<open>The nodes of such a document, and what the crate's accessors say of them.\<close>

datatype node = Document members | Key string | Member "json option"

fun node_shape :: "node \<Rightarrow> node yaml_shape" where
  "node_shape (Document ms) = YHash (map (\<lambda>(k, v). (Key k, Member (Some v))) ms)"
| "node_shape (Key k) = YString k"
| "node_shape (Member None) = YBadValue"
| "node_shape (Member (Some (JText s))) = YString s"
| "node_shape (Member (Some (JInt n))) = YOther"

fun node_index :: "node \<Rightarrow> string \<Rightarrow> node" where
  "node_index (Document ms) key = Member (map_of ms key)"
| "node_index y key = Member None"

fun node_text :: "node \<Rightarrow> string option" where
  "node_text (Member (Some (JText s))) = Some s"
| "node_text (Key k) = Some k"
| "node_text y = None"

fun node_int :: "node \<Rightarrow> int option" where
  "node_int (Member (Some (JInt n))) = Some (int n)"
| "node_int y = None"

definition nodes :: "node yaml_crate" where
  "nodes = \<lparr>yc_load = (\<lambda>s. Inr []), yc_shape = node_shape, yc_index = node_index, yc_as_str = node_text,
     yc_as_i64 = node_int, yc_as_bool = (\<lambda>y. None)\<rparr>"

text \<open>A member of the crate's own nodes is read like that node: the shape has no nodes of its own.\<close>

fun same_shape :: "'y yaml_shape \<Rightarrow> node yaml_shape \<Rightarrow> bool" where
  "same_shape YBadValue YBadValue \<longleftrightarrow> True"
| "same_shape (YString s) (YString t) \<longleftrightarrow> s = t"
| "same_shape YOther YOther \<longleftrightarrow> True"
| "same_shape _ _ \<longleftrightarrow> False"

definition reads_as :: "'y yaml_crate \<Rightarrow> 'y \<Rightarrow> node \<Rightarrow> bool" where
  "reads_as yc y n \<longleftrightarrow> same_shape (yc_shape yc y) (node_shape n) \<and> yc_as_str yc y = node_text n \<and>
     yc_as_i64 yc y = node_int n \<and> yc_as_bool yc y = None"

text \<open>JSON is YAML: an object is one document, a map with its keys, whose members are found by name.\<close>

definition reads_json :: "'y yaml_crate \<Rightarrow> bool" where
  "reads_json yc \<longleftrightarrow>
     (\<forall>ms. plain_members ms \<longrightarrow> (\<exists>d kvs. yc_load yc (json_object ms) = Inr [d] \<and> yc_shape yc d = YHash kvs \<and>
        list_all2 (\<lambda>(y, _) (k, _). yc_shape yc y = YString k) kvs ms \<and>
        (\<forall>key. reads_as yc (yc_index yc d key) (Member (map_of ms key))))) \<and>
     (\<exists>d. yc_load yc ''[]'' = Inr [d] \<and> yc_shape yc d = YArray [])"

section \<open>Fixtures\<close>

definition temp_dir :: "config_fs \<Rightarrow> string \<Rightarrow> bool" where
  "temp_dir fs root \<longleftrightarrow> plain_text root \<and>
     (\<exists>dir. cfs_canonicalize fs root = Inr dir \<and> cfs_is_dir fs dir) \<and>
     (\<exists>e. cfs_canonicalize fs ''/definitely/not/a/real/dir'' = Inl e)"

fun accepted :: "config_error + config \<Rightarrow> (config \<Rightarrow> bool) \<Rightarrow> bool" where
  "accepted (Inr config) P \<longleftrightarrow> P config"
| "accepted (Inl e) P \<longleftrightarrow> False"

fun refused :: "config_error + config \<Rightarrow> bool" where
  "refused (Inr config) \<longleftrightarrow> False"
| "refused (Inl e) \<longleftrightarrow> True"

section \<open>The tests\<close>

definition defaults :: "'y yaml_crate \<Rightarrow> config_fs \<Rightarrow> string \<Rightarrow> bool" where
  [unit_tests]: "defaults yc fs root \<longleftrightarrow>
     accepted (parse_config yc fs (json_object [(''root'', JText root)])) (\<lambda>config.
       cfg_index_files config = [''index.html''] \<and>
       cfg_directory config = Index \<and>
       cfg_chunk_size config = 65536 \<and>
       cfg_max_inflight_reads config = 2 \<and>
       cfg_ranges config = MultiRange \<and>
       cfg_precompressed config = [BROTLI, GZIP] \<and>
       cfg_etag config \<and>
       \<not> cfg_serve_dotfiles config)"

definition json_is_accepted_as_yaml :: "'y yaml_crate \<Rightarrow> config_fs \<Rightarrow> string \<Rightarrow> bool" where
  [unit_tests]: "json_is_accepted_as_yaml yc fs root \<longleftrightarrow>
     accepted (parse_config yc fs (json_object [(''root'', JText root), (''directory'', JText ''listing''), (''ranges'', JText ''single''), (''chunk_size'', JInt 8192)])) (\<lambda>config.
       cfg_directory config = DirListing \<and>
       cfg_ranges config = SingleRange \<and>
       cfg_chunk_size config = 8192)"

definition strip_prefix_is_normalized :: "'y yaml_crate \<Rightarrow> config_fs \<Rightarrow> string \<Rightarrow> bool" where
  [unit_tests]: "strip_prefix_is_normalized yc fs root \<longleftrightarrow>
     accepted (parse_config yc fs (json_object [(''root'', JText root), (''strip_prefix'', JText ''/static/'')])) (\<lambda>config.
       cfg_strip_prefix config = Some ''/static'') \<and>
     accepted (parse_config yc fs (json_object [(''root'', JText root), (''strip_prefix'', JText ''/static'')])) (\<lambda>config.
       cfg_strip_prefix config = Some ''/static'') \<and>
     accepted (parse_config yc fs (json_object [(''root'', JText root), (''strip_prefix'', JText ''static'')])) (\<lambda>config.
       cfg_strip_prefix config = Some ''/static'') \<and>
     accepted (parse_config yc fs (json_object [(''root'', JText root), (''strip_prefix'', JText ''/a/b/'')])) (\<lambda>config.
       cfg_strip_prefix config = Some ''/a/b'') \<and>
     accepted (parse_config yc fs (json_object [(''root'', JText root)])) (\<lambda>config.
       cfg_strip_prefix config = None) \<and>
     refused (parse_config yc fs (json_object [(''root'', JText root), (''strip_prefix'', JText ''/'')]))"

definition rejections :: "'y yaml_crate \<Rightarrow> config_fs \<Rightarrow> string \<Rightarrow> bool" where
  [unit_tests]: "rejections yc fs root \<longleftrightarrow>
     refused (parse_config yc fs ''{}'') \<and>
     refused (parse_config yc fs ''[]'') \<and>
     refused (parse_config yc fs (json_object [(''root'', JText root), (''nope'', JInt 1)])) \<and>
     refused (parse_config yc fs (json_object [(''root'', JText root), (''chunk_size'', JInt 1)])) \<and>
     refused (parse_config yc fs (json_object [(''root'', JText root), (''directory'', JText ''bogus'')])) \<and>
     refused (parse_config yc fs (json_object [(''root'', JText ''/definitely/not/a/real/dir'')]))"

section \<open>The tests pass\<close>

lemma plain_text_simps [simp]:
  "plain_text []"
  "plain_text (c # s) \<longleftrightarrow> 32 \<le> (of_char c :: nat) \<and> (of_char c :: nat) < 127 \<and> c \<noteq> CHR 0x22 \<and> c \<noteq> CHR 0x5C \<and> plain_text s"
  by (simp_all add: plain_text_def)

lemma reads_as_cases:
  assumes "reads_as yc y (Member m)"
  obtains (is_absent) "m = None" "yc_shape yc y = YBadValue" "yc_as_str yc y = None" "yc_as_i64 yc y = None" "yc_as_bool yc y = None"
    | (is_text) s where "m = Some (JText s)" "yc_shape yc y = YString s" "yc_as_str yc y = Some s" "yc_as_i64 yc y = None"
      "yc_as_bool yc y = None"
    | (is_int) n where "m = Some (JInt n)" "yc_shape yc y = YOther" "yc_as_str yc y = None" "yc_as_i64 yc y = Some (int n)"
      "yc_as_bool yc y = None"
  using assms that
  by (cases m; cases "the m"; cases "yc_shape yc y") (auto simp: reads_as_def)

text \<open>The parsers do not tell the crate's nodes from these.\<close>

lemma member_parsers:
  assumes "\<And>key. reads_as yc (yc_index yc d key) (Member (map_of ms key))"
  shows "parse_root yc fs d = parse_root nodes fs (Document ms)"
    and "parse_strip_prefix yc d = parse_strip_prefix nodes (Document ms)"
    and "parse_index_files yc d = parse_index_files nodes (Document ms)"
    and "parse_directory yc d = parse_directory nodes (Document ms)"
    and "parse_ranges yc d = parse_ranges nodes (Document ms)"
    and "parse_precompressed yc d = parse_precompressed nodes (Document ms)"
    and "parse_mime_overrides yc d = parse_mime_overrides nodes (Document ms)"
    and "int_in_range yc d key dflt lo hi = int_in_range nodes (Document ms) key dflt lo hi"
    and "parse_blocking_threads yc d = parse_blocking_threads nodes (Document ms)"
    and "bool_or yc d key b = bool_or nodes (Document ms) key b"
    and "yc_as_str yc (yc_index yc d key) = yc_as_str nodes (yc_index nodes (Document ms) key)"
  subgoal by (rule reads_as_cases [OF assms [of "''root''"]]) (simp_all add: parse_root_def nodes_def)
  subgoal by (rule reads_as_cases [OF assms [of "''strip_prefix''"]]) (simp_all add: parse_strip_prefix_def nodes_def)
  subgoal by (rule reads_as_cases [OF assms [of "''index_files''"]]) (simp_all add: parse_index_files_def nodes_def)
  subgoal by (rule reads_as_cases [OF assms [of "''directory''"]]) (simp_all add: parse_directory_def nodes_def)
  subgoal by (rule reads_as_cases [OF assms [of "''ranges''"]]) (simp_all add: parse_ranges_def nodes_def)
  subgoal by (rule reads_as_cases [OF assms [of "''precompressed''"]]) (simp_all add: parse_precompressed_def nodes_def)
  subgoal by (rule reads_as_cases [OF assms [of "''mime_overrides''"]]) (simp_all add: parse_mime_overrides_def nodes_def)
  subgoal by (rule reads_as_cases [OF assms [of key]]) (simp_all add: int_in_range_def nodes_def)
  subgoal by (rule reads_as_cases [OF assms [of "''blocking_threads''"]]) (simp_all add: parse_blocking_threads_def nodes_def)
  subgoal by (rule reads_as_cases [OF assms [of key]]) (simp_all add: bool_or_def nodes_def)
  subgoal by (rule reads_as_cases [OF assms [of key]]) (simp_all add: nodes_def)
  done

lemma check_keys_nodes:
  "list_all2 (\<lambda>(y, _) (k, _). yc_shape yc y = YString k) kvs ms \<Longrightarrow>
     check_keys yc kvs = check_keys nodes (map (\<lambda>(k, v). (Key k, Member (Some v))) ms)"
  by (induction rule: list_all2_induct) (auto simp: nodes_def)

lemma plain_object_valid:
  assumes "plain_members ms"
  shows "from_utf8 (json_object ms) = Some (json_object ms)"
proof -
  have digits: "is_ascii_digit c" if "c \<in> set (to_radix 10 n)" for c n
    using that by (rule to_radix_digits [rotated 2]) (auto simp: is_ascii_digit_digit_char)
  have plain: "(of_char c :: nat) < 0x80" if "plain_text s" "c \<in> set s" for s c
  proof -
    have "\<forall>c \<in> set s. (of_char c :: nat) < 127" using that(1) by (simp add: plain_text_def list_all_iff)
    with that(2) have "(of_char c :: nat) < 127" by blast
    then show ?thesis by simp
  qed
  have json: "(of_char c :: nat) < 0x80" if "plain_json v" "c \<in> set (json_value v)" for v c
  proof (cases v)
    case (JText s)
    then show ?thesis using that plain [of s c] by (auto simp: quoted_def)
  next
    case (JInt n)
    then show ?thesis using that digits [of c n] by (simp add: is_ascii_digit_def)
  qed
  have member: "(of_char c :: nat) < 0x80" if "(k, v) \<in> set ms" "c \<in> set (quoted k @ '': '' @ json_value v)" for k v c
  proof -
    have "plain_text k" "plain_json v" using assms that(1) by (auto simp: plain_members_def list_all_iff)
    then show ?thesis using that(2) plain [of k c] json [of v c] by (auto simp: quoted_def)
  qed
  have "(of_char c :: nat) < 0x80" if "c \<in> set (json_object ms)" for c
  proof -
    let ?texts = "map (\<lambda>(k, v). quoted k @ '': '' @ json_value v) ms"
    have "c \<in> set ''{}'' \<or> c \<in> set (join_with '', '' ?texts)" using that by (auto simp: json_object_def)
    then have "c \<in> set ''{}, '' \<or> (\<exists>s \<in> set ?texts. c \<in> set s)"
      using set_join_with [of "'', ''" ?texts] by auto
    then show ?thesis using member by (elim disjE) auto
  qed
  then show ?thesis by (simp add: from_utf8_def ascii_valid)
qed

lemma parse_json:
  assumes "reads_json yc" and "plain_members ms"
  shows "parse_config yc fs (json_object ms) = parse_config_doc nodes fs (Document ms)"
proof -
  obtain d kvs where d: "yc_load yc (json_object ms) = Inr [d]" "yc_shape yc d = YHash kvs"
    "list_all2 (\<lambda>(y, _) (k, _). yc_shape yc y = YString k) kvs ms"
    "\<And>key. reads_as yc (yc_index yc d key) (Member (map_of ms key))"
    using assms unfolding reads_json_def by blast
  have "yc_shape nodes (Document ms) = YHash (map (\<lambda>(k, v). (Key k, Member (Some v))) ms)"
    by (simp add: nodes_def)
  then have "parse_config_doc yc fs d = parse_config_doc nodes fs (Document ms)"
    by (simp only: parse_config_doc_def d(2) yaml_shape.case check_keys_nodes [OF d(3)] member_parsers [OF d(4)])
  then show ?thesis by (simp add: parse_config_def plain_object_valid [OF assms(2)] d(1))
qed

lemma parse_empty:
  assumes "reads_json yc"
  shows "refused (parse_config yc fs ''[]'')"
    and "parse_config yc fs ''{}'' = parse_config_doc nodes fs (Document [])"
proof -
  obtain d where "yc_load yc ''[]'' = Inr [d]" "yc_shape yc d = YArray []"
    using assms unfolding reads_json_def by blast
  moreover have "utf8_valid ''[]''" by (rule ascii_valid) simp
  ultimately show "refused (parse_config yc fs ''[]'')"
    by (simp add: parse_config_def from_utf8_def parse_config_doc_def)
  have "json_object [] = ''{}''" by (simp add: json_object_def)
  then show "parse_config yc fs ''{}'' = parse_config_doc nodes fs (Document [])"
    using parse_json [OF assms, of "[]"] by (simp add: plain_members_def)
qed

lemmas config_eval = plain_members_def parse_config_doc_def nodes_def KNOWN_KEYS_def parse_root_def
  parse_strip_prefix_def trim_end_char_def parse_index_files_def parse_directory_def parse_ranges_def
  parse_precompressed_def parse_mime_overrides_def int_in_range_def parse_blocking_threads_def bool_or_def

lemma config_tests:
  assumes "reads_json yc" and "temp_dir fs root"
  shows "defaults yc fs root"
    and "json_is_accepted_as_yaml yc fs root"
    and "strip_prefix_is_normalized yc fs root"
    and "rejections yc fs root"
proof -
  obtain dir e where "plain_text root" "cfs_canonicalize fs root = Inr dir" "cfs_is_dir fs dir"
    "cfs_canonicalize fs ''/definitely/not/a/real/dir'' = Inl e"
    using assms(2) unfolding temp_dir_def by blast
  note fs = this
  show "defaults yc fs root"
    "json_is_accepted_as_yaml yc fs root"
    "strip_prefix_is_normalized yc fs root"
    "rejections yc fs root"
    by (simp_all add: unit_tests config_eval parse_json [OF assms(1)] parse_empty [OF assms(1)] fs)
qed

end
