(* ===== verification/Tests_Engine.thy ===== *)
theory Tests_Engine
  imports Filter_Module
begin

text \<open>
  The unit tests of src/crates/envoy-files-io/src/engine.rs, each as the truth value of its assertions on
  \<^theory_text>\<open>Io_Engine\<close> and the engine's start in \<^theory_text>\<open>Filter_Module\<close>, for any host that starts the
  runtime and any operating system that keeps the files the test has written; the last section runs them.
\<close>

section \<open>Fixtures\<close>

text \<open>
  A test waits on a channel per call, here its tag, while the reactor takes every queued command and the tasks
  finish in the order of the given positions.
\<close>

fun run_tasks :: "'f os_calls \<Rightarrow> nat list \<Rightarrow> ('f, 'k) engine \<Rightarrow> ('f, 'k) engine \<times> ('k \<times> completion) list" where
  "run_tasks os [] eng = (eng, [])"
| "run_tasks os (j # js) eng =
     (let (eng, received) = run_task os j eng; (eng, rest) = run_tasks os js eng in (eng, received @ rest))"

definition settle :: "'f os_calls \<Rightarrow> nat list \<Rightarrow> ('f, 'k) engine \<Rightarrow> ('f, 'k) engine \<times> ('k \<times> completion) list" where
  "settle os js eng = run_tasks os js ((run_reactor ^^ length (eng_commands eng)) eng)"

definition engine_under_test :: "host \<Rightarrow> io_error + ('f, nat) backend" where
  "engine_under_test host = try_new host 2 False"

definition plain_request :: "path \<Rightarrow> nat \<Rightarrow> open_request" where
  "plain_request path prefetch_len =
     \<lparr>or_path = path, or_containment_root = None, or_deny_symlinks = False, or_prefetch_len = prefetch_len\<rparr>"

section \<open>The tests\<close>

definition open_stat_and_out_of_order_reads :: "host \<Rightarrow> 'f os_calls \<Rightarrow> path \<Rightarrow> nat list \<Rightarrow> bool" where
  [unit_tests]: "open_stat_and_out_of_order_reads host os path order \<longleftrightarrow>
     (case engine_under_test host of
        Inl err \<Rightarrow> False
      | Inr backend \<Rightarrow>
          prefix ''compio-'' (be_driver backend) \<and>
          (let (eng, received) = settle os [0] (engine_open_stat (plain_request path 4) 0 (be_engine backend)) in
           case map_of received 0 of
             Some (OpenDone (Inr (handle, stat, prefetch))) \<Rightarrow>
               st_size stat = 10 \<and> \<not> st_is_dir stat \<and> prefetch = ''0123'' \<and>
               (let (eng, received) = settle os order (engine_read handle 0 4 2 (engine_read handle 5 5 1 eng)) in
                map_of received 1 = Some (ReadDone (Inr ''56789'')) \<and>
                map_of received 2 = Some (ReadDone (Inr ''0123'')) \<and>
                (let (eng, received) = settle os [0] (engine_read handle 8 10 3 eng) in
                 map_of received 3 = Some (ReadDone (Inr ''89'')) \<and>
                 (let (eng, received) = settle os [0] (engine_read handle 10 4 4 eng) in
                  map_of received 4 = Some (ReadDone (Inr [])))))
           | _ \<Rightarrow> False))"

definition open_missing_file_maps_not_found :: "host \<Rightarrow> 'f os_calls \<Rightarrow> bool" where
  [unit_tests]: "open_missing_file_maps_not_found host os \<longleftrightarrow>
     (case engine_under_test host of
        Inl err \<Rightarrow> False
      | Inr backend \<Rightarrow>
          (let (eng, received) =
             settle os [0] (engine_open_stat (plain_request ''/nonexistent/does/not/exist'' 0) 0 (be_engine backend)) in
           case map_of received 0 of Some (OpenDone (Inl err)) \<Rightarrow> err_kind err = NotFound | _ \<Rightarrow> False))"

definition read_dir_lists_entries :: "host \<Rightarrow> 'f os_calls \<Rightarrow> path \<Rightarrow> bool" where
  [unit_tests]: "read_dir_lists_entries host os sub \<longleftrightarrow>
     (case engine_under_test host of
        Inl err \<Rightarrow> False
      | Inr backend \<Rightarrow>
          (let (eng, received) = settle os [0] (engine_read_dir sub 0 (be_engine backend)) in
           case map_of received 0 of
             Some (ReadDirDone (Inr entries)) \<Rightarrow> sort (map di_name entries) = [''a.txt'', ''b.txt'']
           | _ \<Rightarrow> False))"

section \<open>What the tests rely on\<close>

definition starts_engine :: "host \<Rightarrow> bool" where
  "starts_engine host \<longleftrightarrow> host_spawn host = Inr () \<and> (\<forall>p. \<exists>d. host_build host p = Some (Inr d))"

text \<open>A regular file with its content: opening it and reading it at an offset succeed.\<close>

definition has_file :: "'f os_calls \<Rightarrow> path \<Rightarrow> bytes \<Rightarrow> bool" where
  "has_file os path content \<longleftrightarrow>
     (\<exists>f md. os_open_nofollow os path = Inr f \<and> os_open os path = Inr f \<and> os_metadata_of os f = Inr md \<and>
        md_len md = of_nat (length content) \<and> \<not> md_is_dir md \<and>
        reads_content (os_pread os f) content \<and> (\<forall>i off n. \<exists>bs. os_pread os f i off n = Inr bs))"

definition lacks_file :: "'f os_calls \<Rightarrow> path \<Rightarrow> bool" where
  "lacks_file os path \<longleftrightarrow>
     (\<exists>e. os_open_nofollow os path = Inl e \<and> os_open os path = Inl e \<and> err_kind e = NotFound \<and>
        err_raw_os_error e \<notin> {Some (os_libc_eloop os), Some (os_libc_emlink os)})"

definition has_directory :: "'f os_calls \<Rightarrow> path \<Rightarrow> string list \<Rightarrow> bool" where
  "has_directory os path names \<longleftrightarrow> \<not> os_blocking_panics os path \<and>
     (\<exists>raw. os_read_dir os path = Inr (map Inr raw) \<and> mset (map re_name raw) = mset (map Some names) \<and>
        (\<forall>r \<in> set raw. \<exists>md. re_metadata r = Inr md))"

section \<open>The tests pass\<close>

lemma settle_one:
  assumes "eng_running eng" and "eng_commands eng = []" and "eng_tasks eng = []"
  shows "settle os [0] (engine_open_stat req k eng) =
      run_task os 0 (eng\<lparr>eng_next_id := eng_next_id eng + 1, eng_commands := [], eng_tasks := [OpenTask (eng_next_id eng) req k]\<rparr>)"
    and "settle os [0] (engine_read h off len k eng) =
      run_task os 0 (eng\<lparr>eng_commands := [], eng_tasks := [ReadTask (map_of (eng_files eng) h) off len k]\<rparr>)"
    and "settle os [0] (engine_read_dir p k eng) =
      run_task os 0 (eng\<lparr>eng_commands := [], eng_tasks := [ReadDirTask p k]\<rparr>)"
  using assms
  by (simp_all add: settle_def engine_open_stat_def engine_read_def engine_read_dir_def try_send_def run_reactor_def
      split: prod.split)

lemma engine_starts:
  assumes "starts_engine host"
  obtains backend :: "('f, nat) backend" where "engine_under_test host = Inr backend" "prefix ''compio-'' (be_driver backend)"
    and "be_engine backend = engine_new"
proof -
  obtain d where "build_runtime host 2 False = Some (Inr d)"
    using assms by (auto simp: starts_engine_def build_runtime_def)
  then have *: "engine_under_test host = Inr (\<lparr>be_engine = engine_new, be_driver = driver_name d\<rparr> :: ('f, nat) backend)"
    using assms by (simp add: engine_under_test_def try_new_def starts_engine_def)
  have "prefix ''compio-'' (driver_name d)" by (cases d) (simp_all add: driver_name_def)
  then show ?thesis using that [OF *] by simp
qed

lemma fill_loop_succeeds:
  assumes "\<forall>i off n. \<exists>bs. pread i off n = Inr bs"
  shows "\<exists>bs. fill_loop pread i off len buf = Inr bs"
  using assms
proof (induction pread i off len buf rule: fill_loop.induct)
  case (1 pread i off len buf)
  obtain m where "pread i (off + of_nat (length buf)) (len - length buf) = Inr m" using "1.prems" by blast
  then show ?case using "1.IH" "1.prems" by (simp add: fill_loop.simps [of pread i])
qed

lemma has_file_read:
  assumes "reads_content (os_pread os f) content" and "\<forall>i off n. \<exists>bs. os_pread os f i off n = Inr bs"
    and "unat off + len < 2 ^ 64"
  shows "read_at os (Some f) off len = Inr (slice content (unat off) len)"
proof -
  obtain buf where "os_pread os f 0 off len = Inr buf" using assms(2) by blast
  moreover obtain bs where "fill_loop (os_pread os f) 1 off len buf = Inr bs"
    using fill_loop_succeeds [OF assms(2)] by blast
  ultimately have "\<exists>bs. read_at os (Some f) off len = Inr bs" by (simp add: read_at_def)
  with read_at_slice [OF assms(1,3)] show ?thesis by blast
qed

text \<open>The file is opened: ten bytes, of which four come with the answer; its handle is registered.\<close>

lemma opens_file:
  assumes "has_file os path ''0123456789''"
  obtains f st where "open_stat os hid (plain_request path 4) [] [] = (Inr (hid, st, ''0123''), [(hid, f)], [])"
    and "st_size st = 10" and "\<not> st_is_dir st"
    and "\<forall>off len. unat off + len < 2 ^ 64 \<longrightarrow> read_at os (Some f) off len = Inr (slice ''0123456789'' (unat off) len)"
proof -
  obtain f md where f: "os_open_nofollow os path = Inr f" "os_open os path = Inr f" "os_metadata_of os f = Inr md"
      "md_len md = 10" "\<not> md_is_dir md" "reads_content (os_pread os f) ''0123456789''"
      "\<forall>i off n. \<exists>bs. os_pread os f i off n = Inr bs"
    using assms by (auto simp: has_file_def)
  define st where "st = stat_from_metadata md"
  have st: "st_size st = 10" "\<not> st_is_dir st"
    using f(4,5) by (simp_all add: st_def stat_from_metadata_def split: prod.split)
  have reads: "read_at os (Some f) off len = Inr (slice ''0123456789'' (unat off) len)" if "unat off + len < 2 ^ 64" for off len
    using has_file_read [OF f(6,7) that] .
  have "open_final os (plain_request path 4) = Inr (f, False)"
    using f(1,2) by (cases "os_family os")
      (simp_all add: open_final_def open_final_unix_def open_final_windows_def plain_request_def)
  then have "open_stat os hid (plain_request path 4) [] [] = (Inr (hid, st, ''0123''), [(hid, f)], [])"
    using f(3) st reads [of 0 4]
    by (simp add: open_stat_def st_def [symmetric] check_containment_def plain_request_def slice_def Let_def)
  then show ?thesis using that st reads by blast
qed

lemma out_of_order_reads_test:
  assumes "starts_engine host" and "has_file os path ''0123456789''" and "order = [0, 0] \<or> order = [1, 0]"
  shows "open_stat_and_out_of_order_reads host os path order"
proof -
  obtain backend :: "('a, nat) backend" where b: "engine_under_test host = Inr backend" "prefix ''compio-'' (be_driver backend)"
    "be_engine backend = engine_new" using engine_starts [OF assms(1)] .
  obtain f st where f: "open_stat os 1 (plain_request path 4) [] [] = (Inr (1, st, ''0123''), [(1, f)], [])"
    "st_size st = 10" "\<not> st_is_dir st"
    "\<forall>off len. unat off + len < 2 ^ 64 \<longrightarrow> read_at os (Some f) off len = Inr (slice ''0123456789'' (unat off) len)"
    using opens_file [OF assms(2)] .
  define eng where "eng = (engine_new :: ('a, nat) engine)\<lparr>eng_next_id := 2, eng_files := [(1, f)]\<rparr>"
  have idle: "eng_running eng" "eng_commands eng = []" "eng_tasks eng = []" "map_of (eng_files eng) 1 = Some f"
    by (simp_all add: eng_def engine_new_def)
  have "settle os [0] (engine_open_stat (plain_request path 4) 0 engine_new) = (eng, [(0, OpenDone (Inr (1, st, ''0123'')))])"
    by (subst settle_one) (simp_all add: engine_new_def eng_def run_task_def f(1))
  moreover have "settle os [0] (engine_read 1 off len k eng) = (eng, [(k, ReadDone (Inr (slice ''0123456789'' (unat off) len)))])"
    if "unat off + len < 2 ^ 64" for off len k
    using f(4) that idle by (simp add: settle_one run_task_def eng_def engine_new_def)
  moreover have "fst (settle os order (engine_read 1 0 4 2 (engine_read 1 5 5 1 eng))) = eng"
    "map_of (snd (settle os order (engine_read 1 0 4 2 (engine_read 1 5 5 1 eng)))) 1 = Some (ReadDone (Inr ''56789''))"
    "map_of (snd (settle os order (engine_read 1 0 4 2 (engine_read 1 5 5 1 eng)))) 2 = Some (ReadDone (Inr ''0123''))"
    using assms(3) f(4) [THEN spec, THEN spec, of 5 5] f(4) [THEN spec, THEN spec, of 0 4]
    by (auto simp: settle_def engine_read_def try_send_def run_reactor_def run_task_def eng_def engine_new_def slice_def)
  ultimately show ?thesis
    using b f(2,3) by (simp add: open_stat_and_out_of_order_reads_def split_beta slice_def)
qed

lemma open_missing_test:
  assumes "starts_engine host" and "lacks_file os ''/nonexistent/does/not/exist''"
  shows "open_missing_file_maps_not_found host os"
proof -
  obtain backend :: "('a, nat) backend" where b: "engine_under_test host = Inr backend" "be_engine backend = engine_new"
    using engine_starts [OF assms(1)] by blast
  obtain e where e: "os_open_nofollow os ''/nonexistent/does/not/exist'' = Inl e" "os_open os ''/nonexistent/does/not/exist'' = Inl e"
    "err_kind e = NotFound" "err_raw_os_error e \<notin> {Some (os_libc_eloop os), Some (os_libc_emlink os)}"
    using assms(2) by (auto simp: lacks_file_def)
  have "open_final os (plain_request ''/nonexistent/does/not/exist'' 0) = Inl e"
    using e by (cases "os_family os") (auto simp: open_final_def open_final_unix_def open_final_windows_def plain_request_def)
  then have "settle os [0] (engine_open_stat (plain_request ''/nonexistent/does/not/exist'' 0) 0 (engine_new :: ('a, nat) engine)) =
      (engine_new\<lparr>eng_next_id := 2\<rparr>, [(0, OpenDone (Inl e))])"
    by (subst settle_one) (simp_all add: engine_new_def run_task_def open_stat_def)
  then show ?thesis using b e(3) by (simp add: open_missing_file_maps_not_found_def)
qed

lemma read_dir_loop_all:
  assumes "\<forall>r \<in> set raw. \<exists>md. re_metadata r = Inr md" and "map re_name raw = map Some names"
  shows "\<exists>entries. read_dir_loop (map Inr raw) acc = Inr (acc @ entries) \<and> map di_name entries = names"
  using assms
proof (induction raw arbitrary: acc names)
  case (Cons r raw)
  then obtain md name names' where r: "re_metadata r = Inr md" "re_name r = Some name" "names = name # names'"
    "map re_name raw = map Some names'" by (cases names) auto
  then have "\<exists>entries. read_dir_loop (map Inr raw) acc' = Inr (acc' @ entries) \<and> map di_name entries = names'" for acc'
    using Cons.IH [of names' acc'] Cons.prems(1) by simp
  then obtain entries where "read_dir_loop (map Inr raw) (acc @ [\<lparr>di_name = name, di_is_dir = md_is_dir md, di_size = md_len md,
      di_mtime_unix = fst (mtime_parts (md_modified md))\<rparr>]) = Inr ((acc @ [\<lparr>di_name = name, di_is_dir = md_is_dir md,
      di_size = md_len md, di_mtime_unix = fst (mtime_parts (md_modified md))\<rparr>]) @ entries)" "map di_name entries = names'"
    by blast
  then show ?case using r by simp
qed simp

lemma read_dir_test:
  assumes "starts_engine host" and "has_directory os sub [''a.txt'', ''b.txt'']"
  shows "read_dir_lists_entries host os sub"
proof -
  obtain backend :: "('a, nat) backend" where b: "engine_under_test host = Inr backend" "be_engine backend = engine_new"
    using engine_starts [OF assms(1)] by blast
  obtain raw where raw: "os_read_dir os sub = Inr (map Inr raw)" "mset (map re_name raw) = mset (map Some [''a.txt'', ''b.txt''])"
    "\<forall>r \<in> set raw. \<exists>md. re_metadata r = Inr md" "\<not> os_blocking_panics os sub"
    using assms(2) by (auto simp: has_directory_def)
  have "re_name r \<noteq> None" if "r \<in> set raw" for r
  proof -
    have "re_name r \<in># mset (map re_name raw)" using that by simp
    then show ?thesis unfolding raw(2) by auto
  qed
  then have names: "map re_name raw = map Some (map (the \<circ> re_name) raw)" by simp
  have "mset (map (the \<circ> re_name) raw) = image_mset the (mset (map re_name raw))" by (simp add: image_mset.compositionality)
  also have "\<dots> = mset [''a.txt'', ''b.txt'']" unfolding raw(2) by simp
  finally have sorted: "sort (map (the \<circ> re_name) raw) = sort [''a.txt'', ''b.txt'']"
    by (intro properties_for_sort) simp_all
  obtain entries where "read_dir os sub = Inr entries" "map di_name entries = map (the \<circ> re_name) raw"
    using read_dir_loop_all [OF raw(3) names, of "[]"] raw(1) by (auto simp: read_dir_def)
  moreover have "sort [''a.txt'', ''b.txt''] = [''a.txt'', ''b.txt'']" by simp
  ultimately show ?thesis
    using b raw(4) sorted
    by (simp add: read_dir_lists_entries_def settle_one engine_new_def run_task_def)
qed

end
