(* ===== verification/Harness_Config.thy ===== *)
theory Harness_Config
  imports Std_Num
begin

text \<open>
  The configuration builders of the integration harness, \<^verbatim>\<open>envoy-files-itest/src/lib.rs\<close> and the example
  \<^verbatim>\<open>bench.rs\<close>: the bootstrap documents of Envoy in which the module is a filter. The crate
  \<^verbatim>\<open>serde_json\<close> is a record of functions over opaque values \<open>'v\<close>: the constructors of \<^verbatim>\<open>json!\<close>,
  \<^verbatim>\<open>to_string\<close>, and the accessors; the locale \<open>json_values\<close> has what is documented of them.
\<close>

section \<open>The crate\<close>

record 'v json_crate =
  js_bool :: "bool \<Rightarrow> 'v"
  js_int :: "nat \<Rightarrow> 'v"
  js_str :: "string \<Rightarrow> 'v"
  js_arr :: "'v list \<Rightarrow> 'v"
  js_obj :: "(string \<times> 'v) list \<Rightarrow> 'v"
  js_text :: "'v \<Rightarrow> string"
  js_parse :: "string \<Rightarrow> 'v option"
  js_get :: "'v \<Rightarrow> string \<Rightarrow> 'v"
  js_nth :: "'v \<Rightarrow> nat \<Rightarrow> 'v"
  js_as_str :: "'v \<Rightarrow> string option"
  js_as_u64 :: "'v \<Rightarrow> nat option"
  js_as_bool :: "'v \<Rightarrow> bool option"
  js_as_array :: "'v \<Rightarrow> 'v list option"
  js_as_object :: "'v \<Rightarrow> (string \<times> 'v) list option"

text \<open>Indexing by keys and positions, from the outside in.\<close>

datatype index = Key string | Pos nat

fun at :: "'v json_crate \<Rightarrow> 'v \<Rightarrow> index list \<Rightarrow> 'v" where
  "at jc v [] = v"
| "at jc v (Key k # rest) = at jc (js_get jc v k) rest"
| "at jc v (Pos i # rest) = at jc (js_nth jc v i) rest"

lemma at_append: "at jc v (is @ is') = at jc (at jc v is) is'"
  by (induction jc v "is" rule: at.induct) simp_all

section \<open>The code\<close>

definition MODULE_NAME :: string where
  "MODULE_NAME = ''envoy_files''"

definition HCM :: string where
  "HCM = ''type.googleapis.com/envoy.extensions.filters.network.http_connection_manager.v3.HttpConnectionManager''"

definition dynamic_module_filter :: "'v json_crate \<Rightarrow> 'v \<Rightarrow> bool \<Rightarrow> 'v" where
  "dynamic_module_filter jc filter_cfg terminal =
     js_obj jc [
       (''name'', js_str jc MODULE_NAME),
       (''typed_config'', js_obj jc [
         (''@type'', js_str jc ''type.googleapis.com/envoy.extensions.filters.http.dynamic_modules.v3.DynamicModuleFilter''),
         (''dynamic_module_config'', js_obj jc [(''name'', js_str jc MODULE_NAME)]),
         (''filter_name'', js_str jc MODULE_NAME),
         (''terminal_filter'', js_bool jc terminal),
         (''filter_config'', js_obj jc [
           (''@type'', js_str jc ''type.googleapis.com/google.protobuf.StringValue''),
           (''value'', js_str jc (js_text jc filter_cfg))])])]"

text \<open>The literals that the documents share.\<close>

definition loopback_address :: "'v json_crate \<Rightarrow> 'v" where
  "loopback_address jc = js_obj jc [(''socket_address'',
     js_obj jc [(''address'', js_str jc ''127.0.0.1''), (''port_value'', js_int jc 0)])]"

definition admin_section :: "'v json_crate \<Rightarrow> 'v" where
  "admin_section jc = js_obj jc [(''address'', loopback_address jc)]"

definition connection_manager :: "'v json_crate \<Rightarrow> string \<Rightarrow> 'v \<Rightarrow> 'v list \<Rightarrow> 'v" where
  "connection_manager jc stat_prefix virtual_host http_filters =
     js_arr jc [js_obj jc [(''filters'', js_arr jc [js_obj jc [
       (''name'', js_str jc ''envoy.filters.network.http_connection_manager''),
       (''typed_config'', js_obj jc [
         (''@type'', js_str jc HCM),
         (''stat_prefix'', js_str jc stat_prefix),
         (''generate_request_id'', js_bool jc False),
         (''route_config'', js_obj jc [(''virtual_hosts'', js_arr jc [virtual_host])]),
         (''http_filters'', js_arr jc http_filters)])]])]]"

definition main_listener :: "'v json_crate \<Rightarrow> 'v \<Rightarrow> 'v" where
  "main_listener jc filter_chains =
     js_obj jc [(''name'', js_str jc ''main''), (''address'', loopback_address jc), (''filter_chains'', filter_chains)]"

definition any_host :: "'v json_crate \<Rightarrow> string \<Rightarrow> (string \<times> 'v) list \<Rightarrow> 'v" where
  "any_host jc name members =
     js_obj jc ([(''name'', js_str jc name), (''domains'', js_arr jc [js_str jc ''*''])] @ members)"

definition catch_all :: "'v json_crate \<Rightarrow> string \<Rightarrow> 'v \<Rightarrow> (string \<times> 'v) list" where
  "catch_all jc action v = [(''routes'', js_arr jc [js_obj jc [
     (''match'', js_obj jc [(''prefix'', js_str jc ''/'')]), (action, v)]])]"

definition router :: "'v json_crate \<Rightarrow> 'v" where
  "router jc = js_obj jc [(''name'', js_str jc ''envoy.filters.http.router''),
     (''typed_config'', js_obj jc [(''@type'', js_str jc ''type.googleapis.com/envoy.extensions.filters.http.router.v3.Router'')])]"

definition terminal_config :: "'v json_crate \<Rightarrow> 'v \<Rightarrow> 'v" where
  "terminal_config jc filter_cfg =
     js_obj jc [
       (''admin'', admin_section jc),
       (''static_resources'', js_obj jc [(''listeners'', js_arr jc [
         main_listener jc (connection_manager jc ''ingress_http'' (any_host jc ''local'' [])
           [dynamic_module_filter jc filter_cfg True])])])]"

text \<open>The map of mounts: a prefix that comes again replaces the earlier entry.\<close>

definition mount_action :: "'v json_crate \<Rightarrow> 'v \<Rightarrow> 'v" where
  "mount_action jc filter_cfg =
     js_obj jc [(''action'', js_obj jc [
       (''name'', js_str jc ''composite-action''),
       (''typed_config'', js_obj jc [
         (''@type'', js_str jc ''type.googleapis.com/envoy.extensions.filters.http.composite.v3.ExecuteFilterAction''),
         (''typed_config'', dynamic_module_filter jc filter_cfg True)])])]"

definition mounts_map :: "'v json_crate \<Rightarrow> (string \<times> 'v) list \<Rightarrow> (string \<times> 'v) list" where
  "mounts_map jc mounts = fold (\<lambda>(prefix, filter_cfg). AList.update prefix (mount_action jc filter_cfg)) mounts []"

definition composite_filter :: "'v json_crate \<Rightarrow> (string \<times> 'v) list \<Rightarrow> 'v" where
  "composite_filter jc mounts =
     js_obj jc [
       (''name'', js_str jc ''envoy.filters.http.composite''),
       (''typed_config'', js_obj jc [
         (''@type'', js_str jc ''type.googleapis.com/envoy.extensions.common.matching.v3.ExtensionWithMatcher''),
         (''extension_config'', js_obj jc [
           (''name'', js_str jc ''envoy.filters.http.composite''),
           (''typed_config'', js_obj jc [
             (''@type'', js_str jc ''type.googleapis.com/envoy.extensions.filters.http.composite.v3.Composite'')])]),
         (''xds_matcher'', js_obj jc [(''matcher_tree'', js_obj jc [
           (''input'', js_obj jc [
             (''name'', js_str jc ''request-path''),
             (''typed_config'', js_obj jc [
               (''@type'', js_str jc ''type.googleapis.com/envoy.type.matcher.v3.HttpRequestHeaderMatchInput''),
               (''header_name'', js_str jc '':path'')])]),
           (''prefix_match_map'', js_obj jc [(''map'', js_obj jc (mounts_map jc mounts))])])])])]"

definition mounts_config :: "'v json_crate \<Rightarrow> (string \<times> 'v) list \<Rightarrow> 'v" where
  "mounts_config jc mounts =
     js_obj jc [
       (''admin'', admin_section jc),
       (''static_resources'', js_obj jc [(''listeners'', js_arr jc [
         main_listener jc (connection_manager jc ''ingress_http''
           (any_host jc ''local'' (catch_all jc ''direct_response'' (js_obj jc [(''status'', js_int jc 404),
             (''body'', js_obj jc [(''inline_string'', js_str jc ''not found'')])])))
           [composite_filter jc mounts, router jc])])])]"

definition builtin_file_server_config :: "'v json_crate \<Rightarrow> string \<Rightarrow> 'v" where
  "builtin_file_server_config jc root =
     js_obj jc [
       (''admin'', admin_section jc),
       (''static_resources'', js_obj jc [(''listeners'', js_arr jc [
         main_listener jc (connection_manager jc ''ingress_http''
           (any_host jc ''local'' (catch_all jc ''direct_response'' (js_obj jc [(''status'', js_int jc 404)])))
           [js_obj jc [
              (''name'', js_str jc ''envoy.filters.http.file_server''),
              (''typed_config'', js_obj jc [
                (''@type'', js_str jc ''type.googleapis.com/envoy.extensions.filters.http.file_server.v3.FileServerConfig''),
                (''manager_config'', js_obj jc [(''thread_pool'', js_obj jc [(''thread_count'', js_int jc 4)])]),
                (''path_mappings'', js_arr jc [js_obj jc [(''request_path_prefix'', js_str jc ''/''),
                  (''file_path_prefix'', js_str jc root)]]),
                (''content_types'', js_obj jc [(''html'', js_str jc ''text/html''),
                  (''bin'', js_str jc ''application/octet-stream'')]),
                (''default_content_type'', js_str jc ''application/octet-stream'')])],
            router jc])])])]"

definition cachev2_composition_config :: "'v json_crate \<Rightarrow> 'v \<Rightarrow> 'v" where
  "cachev2_composition_config jc filter_cfg =
     js_obj jc [
       (''admin'', admin_section jc),
       (''bootstrap_extensions'', js_arr jc [js_obj jc [
         (''name'', js_str jc ''envoy.bootstrap.internal_listener''),
         (''typed_config'', js_obj jc [(''@type'', js_str jc
           ''type.googleapis.com/envoy.extensions.bootstrap.internal_listener.v3.InternalListener'')])]]),
       (''static_resources'', js_obj jc [
         (''listeners'', js_arr jc [
           main_listener jc (connection_manager jc ''outer''
             (any_host jc ''local'' (catch_all jc ''route'' (js_obj jc [(''cluster'', js_str jc ''files_internal'')])))
             [js_obj jc [
                (''name'', js_str jc ''envoy.filters.http.cache''),
                (''typed_config'', js_obj jc [
                  (''@type'', js_str jc ''type.googleapis.com/envoy.extensions.filters.http.cache_v2.v3.CacheV2Config''),
                  (''typed_config'', js_obj jc [(''@type'', js_str jc
                    ''type.googleapis.com/envoy.extensions.http.cache_v2.simple_http_cache.v3.SimpleHttpCacheV2Config'')])])],
              router jc]),
           js_obj jc [
             (''name'', js_str jc ''files_internal_listener''),
             (''internal_listener'', js_obj jc []),
             (''filter_chains'', connection_manager jc ''inner'' (any_host jc ''inner'' [])
               [dynamic_module_filter jc filter_cfg True])]]),
         (''clusters'', js_arr jc [js_obj jc [
           (''name'', js_str jc ''files_internal''),
           (''connect_timeout'', js_str jc ''1s''),
           (''load_assignment'', js_obj jc [
             (''cluster_name'', js_str jc ''files_internal''),
             (''endpoints'', js_arr jc [js_obj jc [(''lb_endpoints'', js_arr jc [js_obj jc [(''endpoint'',
               js_obj jc [(''address'', js_obj jc [(''envoy_internal_address'', js_obj jc [
                 (''server_listener_name'', js_str jc ''files_internal_listener'')])])])]])]])])]])])]"

text \<open>The configuration of the extension that \<^verbatim>\<open>bench.rs\<close> compares with.\<close>

definition boe_config :: "'v json_crate \<Rightarrow> string \<Rightarrow> 'v" where
  "boe_config jc root =
     js_obj jc [
       (''path_mappings'', js_arr jc [js_obj jc [(''request_path_prefix'', js_str jc ''/''),
         (''file_path_prefix'', js_str jc root)]]),
       (''content_types'', js_obj jc [(''html'', js_str jc ''text/html''), (''bin'', js_str jc ''application/octet-stream'')]),
       (''default_content_type'', js_str jc ''application/octet-stream''),
       (''directory_index_files'', js_arr jc [js_str jc ''index.html''])]"

section \<open>What the module is given\<close>

text \<open>The value is a filter entry that runs the module, as the last filter, with the given configuration.\<close>

definition runs_module :: "'v json_crate \<Rightarrow> 'v \<Rightarrow> 'v \<Rightarrow> bool" where
  "runs_module jc entry filter_cfg \<longleftrightarrow>
     js_as_str jc (at jc entry [Key ''typed_config'', Key ''dynamic_module_config'', Key ''name'']) = Some MODULE_NAME \<and>
     js_as_str jc (at jc entry [Key ''typed_config'', Key ''filter_name'']) = Some MODULE_NAME \<and>
     js_as_bool jc (at jc entry [Key ''typed_config'', Key ''terminal_filter'']) = Some True \<and>
     js_as_str jc (at jc entry [Key ''typed_config'', Key ''filter_config'', Key ''value'']) = Some (js_text jc filter_cfg)"

definition http_filters_path :: "nat \<Rightarrow> index list" where
  "http_filters_path listener = [Key ''static_resources'', Key ''listeners'', Pos listener, Key ''filter_chains'', Pos 0,
     Key ''filters'', Pos 0, Key ''typed_config'', Key ''http_filters'']"

definition mounts_path :: "index list" where
  "mounts_path = http_filters_path 0 @ [Pos 0, Key ''typed_config'', Key ''xds_matcher'', Key ''matcher_tree'',
     Key ''prefix_match_map'', Key ''map'']"

text \<open>The documents look for a name among the members of an object and for a position in an array.\<close>

locale json_values =
  fixes jc :: "'v json_crate"
  assumes get_obj: "map_of ms k = Some v \<Longrightarrow> distinct (map fst ms) \<Longrightarrow> js_get jc (js_obj jc ms) k = v"
    and nth_arr: "i < length vs \<Longrightarrow> js_nth jc (js_arr jc vs) i = vs ! i"
    and str_str: "js_as_str jc (js_str jc s) = Some s"
    and bool_bool: "js_as_bool jc (js_bool jc b) = Some b"
    and u64_int: "n < 2 ^ 64 \<Longrightarrow> js_as_u64 jc (js_int jc n) = Some n"
    and array_arr: "js_as_array jc (js_arr jc vs) = Some vs"
begin

lemma runs_filter: "runs_module jc (dynamic_module_filter jc cfg True) cfg"
  by (simp add: runs_module_def dynamic_module_filter_def get_obj str_str bool_bool)

lemma filters_at:
  "at jc (js_get jc (js_obj jc [(''name'', name), (place, a), (''filter_chains'',
       connection_manager jc p host filters)]) ''filter_chains'')
     [Pos 0, Key ''filters'', Pos 0, Key ''typed_config'', Key ''http_filters''] = js_arr jc filters"
  if "place \<noteq> ''name''" "place \<noteq> ''filter_chains''"
  using that by (simp add: connection_manager_def get_obj nth_arr)

lemma terminal_filters:
  "at jc (terminal_config jc cfg) (http_filters_path 0) = js_arr jc [dynamic_module_filter jc cfg True]"
  using filters_at [of "''address''"]
  by (simp add: terminal_config_def http_filters_path_def main_listener_def get_obj nth_arr)

lemma mounts_filters:
  "at jc (mounts_config jc mounts) (http_filters_path 0) = js_arr jc [composite_filter jc mounts, router jc]"
  using filters_at [of "''address''"]
  by (simp add: mounts_config_def http_filters_path_def main_listener_def get_obj nth_arr)

lemma cachev2_filters:
  "at jc (cachev2_composition_config jc cfg) (http_filters_path 1) = js_arr jc [dynamic_module_filter jc cfg True]"
  using filters_at [of "''internal_listener''"]
  by (simp add: cachev2_composition_config_def http_filters_path_def get_obj nth_arr)

lemma mounts_members: "at jc (mounts_config jc mounts) mounts_path = js_obj jc (mounts_map jc mounts)"
  by (simp add: mounts_path_def at_append mounts_filters nth_arr composite_filter_def get_obj)

end

text \<open>The last configuration given for a prefix is the one that is mounted there.\<close>

lemma mounts_map_lookup:
  "map_of (mounts_map jc mounts) p = map_option (mount_action jc) (map_of (rev mounts) p)"
proof -
  have "map_of (fold (\<lambda>(prefix, cfg). AList.update prefix (mount_action jc cfg)) mounts al) p =
      (case map_of (rev mounts) p of Some cfg \<Rightarrow> Some (mount_action jc cfg) | None \<Rightarrow> map_of al p)" for al
    by (induction mounts arbitrary: al)
       (auto simp: map_of_append update_conv' map_add_def split: option.split if_splits)
  then show ?thesis by (simp add: mounts_map_def split: option.split)
qed

lemma mounts_map_distinct: "distinct (map fst (mounts_map jc mounts))"
proof -
  have "distinct (map fst al) \<Longrightarrow>
      distinct (map fst (fold (\<lambda>(prefix, cfg). AList.update prefix (mount_action jc cfg)) mounts al))" for al
    by (induction mounts arbitrary: al) (auto intro: distinct_update)
  then show ?thesis by (simp add: mounts_map_def)
qed

text \<open>
  Every bootstrap document hands the module the text of the configuration it was built for: alone, at
  each prefix of the mounts, and behind the cache.
\<close>

lemma bootstraps_run_module:
  assumes "json_values jc"
  shows "runs_module jc (at jc (terminal_config jc cfg) (http_filters_path 0 @ [Pos 0])) cfg"
    and "runs_module jc (at jc (cachev2_composition_config jc cfg) (http_filters_path 1 @ [Pos 0])) cfg"
    and "map_of (rev mounts) p = Some cfg \<Longrightarrow>
      runs_module jc (at jc (mounts_config jc mounts)
        (mounts_path @ [Key p, Key ''action'', Key ''typed_config'', Key ''typed_config''])) cfg"
proof -
  note laws = json_values.runs_filter [OF assms] json_values.nth_arr [OF assms] json_values.get_obj [OF assms]
  show "runs_module jc (at jc (terminal_config jc cfg) (http_filters_path 0 @ [Pos 0])) cfg"
    by (simp add: at_append json_values.terminal_filters [OF assms] laws)
  show "runs_module jc (at jc (cachev2_composition_config jc cfg) (http_filters_path 1 @ [Pos 0])) cfg"
    unfolding at_append json_values.cachev2_filters [OF assms] by (simp add: laws)
  assume "map_of (rev mounts) p = Some cfg"
  then have "js_get jc (js_obj jc (mounts_map jc mounts)) p = mount_action jc cfg"
    by (intro laws) (simp_all add: mounts_map_lookup mounts_map_distinct)
  then show "runs_module jc (at jc (mounts_config jc mounts)
      (mounts_path @ [Key p, Key ''action'', Key ''typed_config'', Key ''typed_config''])) cfg"
    by (simp add: at_append json_values.mounts_members [OF assms] mount_action_def laws)
qed

section \<open>An instance\<close>

text \<open>Values as trees; a member that is not there is null.\<close>

datatype json_tree =
    TNull | TBool bool | TInt nat | TStr string | TArr "json_tree list" | TObj "(string \<times> json_tree) list"

fun tree_text :: "json_tree \<Rightarrow> string" where
  "tree_text TNull = ''null''"
| "tree_text (TBool b) = (if b then ''true'' else ''false'')"
| "tree_text (TInt n) = to_radix 10 n"
| "tree_text (TStr s) = [CHR 0x22] @ s @ [CHR 0x22]"
| "tree_text (TArr vs) = ''['' @ join_with '','' (map tree_text vs) @ '']''"
| "tree_text (TObj ms) = ''{'' @ join_with '','' (map (\<lambda>(k, v). [CHR 0x22] @ k @ [CHR 0x22] @ '':'' @ tree_text v) ms) @ ''}''"

fun tree_get :: "json_tree \<Rightarrow> string \<Rightarrow> json_tree" where
  "tree_get (TObj ms) k = (case map_of ms k of Some v \<Rightarrow> v | None \<Rightarrow> TNull)"
| "tree_get _ k = TNull"

fun tree_nth :: "json_tree \<Rightarrow> nat \<Rightarrow> json_tree" where
  "tree_nth (TArr vs) i = (if i < length vs then vs ! i else TNull)"
| "tree_nth _ i = TNull"

definition json_trees :: "json_tree json_crate" where
  "json_trees = \<lparr>js_bool = TBool, js_int = TInt, js_str = TStr, js_arr = TArr, js_obj = TObj, js_text = tree_text,
     js_parse = (\<lambda>_. None), js_get = tree_get, js_nth = tree_nth,
     js_as_str = (\<lambda>v. case v of TStr s \<Rightarrow> Some s | _ \<Rightarrow> None), js_as_u64 = (\<lambda>v. case v of TInt n \<Rightarrow> Some n | _ \<Rightarrow> None),
     js_as_bool = (\<lambda>v. case v of TBool b \<Rightarrow> Some b | _ \<Rightarrow> None), js_as_array = (\<lambda>v. case v of TArr vs \<Rightarrow> Some vs | _ \<Rightarrow> None),
     js_as_object = (\<lambda>v. case v of TObj ms \<Rightarrow> Some ms | _ \<Rightarrow> None)\<rparr>"

interpretation trees: json_values json_trees
  by unfold_locales (simp_all add: json_trees_def)

text \<open>The mounts of the integration test, two prefixes over one root.\<close>

lemma test_mounts:
  "runs_module json_trees (at json_trees (mounts_config json_trees
      [(''/static/'', TObj [(''root'', TStr ''/www''), (''strip_prefix'', TStr ''/static/'')]),
       (''/assets/'', TObj [(''root'', TStr ''/www''), (''strip_prefix'', TStr ''/assets/'')])])
     (mounts_path @ [Key ''/assets/'', Key ''action'', Key ''typed_config'', Key ''typed_config'']))
     (TObj [(''root'', TStr ''/www''), (''strip_prefix'', TStr ''/assets/'')])"
  by (rule bootstraps_run_module(3) [OF trees.json_values_axioms]) simp

end
