(* ===== verification/Harness_Client.thy ===== *)
theory Harness_Client
  imports Harness_Config Std_Path Std_Order Utf8
begin

text \<open>
  The rest of the integration harness: how \<^verbatim>\<open>envoy-files-itest/src/lib.rs\<close> starts an Envoy, waits for it,
  talks to it and reads its statistics, how \<^verbatim>\<open>envoy.rs\<close> finds the binaries, and the parsing in the
  example \<^verbatim>\<open>bench.rs\<close>. The HTTP client, the process table and the file system are parameters: a loop that
  polls takes the list of what it sees, until its deadline. \<open>None\<close> is a panic unless stated otherwise.
\<close>

section \<open>Strings\<close>

text \<open>\<^verbatim>\<open>str::split_once(&str)\<close>, \<^verbatim>\<open>str::lines\<close>, and the first word of a text.\<close>

fun split_at_text :: "string \<Rightarrow> string \<Rightarrow> (string \<times> string) option" where
  "split_at_text pat [] = (if pat = [] then Some ([], []) else None)"
| "split_at_text pat (c # cs) =
     (if prefix pat (c # cs) then Some ([], drop (length pat) (c # cs))
      else map_option (\<lambda>(a, b). (c # a, b)) (split_at_text pat cs))"

definition strip_cr :: "string \<Rightarrow> string" where
  "strip_cr l = (if l \<noteq> [] \<and> last l = CHR 0x0D then butlast l else l)"

definition text_lines :: "string \<Rightarrow> string list" where
  "text_lines s = (let ls = split_on (CHR 0x0A) s in
     map strip_cr (butlast ls) @ (if last ls = [] then [] else [last ls]))"

fun upto_white :: "string \<Rightarrow> string" where
  "upto_white [] = []"
| "upto_white (c # cs) = (if \<exists>w \<in> set white_space. prefix w (c # cs) then [] else c # upto_white cs)"

definition first_word :: "string \<Rightarrow> string option" where
  "first_word s = (let t = trim_start s in if t = [] then None else Some (upto_white t))"

definition contains_text :: "string \<Rightarrow> string \<Rightarrow> bool" where
  "contains_text pat s \<longleftrightarrow> split_at_text pat s \<noteq> None"

section \<open>Responses and requests\<close>

record response =
  rs_status :: nat
  rs_headers :: "(string \<times> string) list"
  rs_body :: bytes

definition response_header :: "response \<Rightarrow> string \<Rightarrow> string option" where
  "response_header r name = map_option snd (find (\<lambda>(k, _). eq_ignore_ascii_case k name) (rs_headers r))"

text \<open>
  What the client makes of a request: it cannot be built, it fails, or it has a status, headers, of which
  a value may be no text, and a body that may fail to be read.
\<close>

datatype 'e answer =
    Unbuildable
  | Failed 'e
  | Answered nat "(string \<times> string option) list" "'e + bytes"

type_synonym 'e http_client = "string \<Rightarrow> string \<Rightarrow> (string \<times> string) list \<Rightarrow> 'e answer"

definition try_request ::
  "'e http_client \<Rightarrow> nat \<Rightarrow> string \<Rightarrow> string \<Rightarrow> (string \<times> string) list \<Rightarrow> ('e + response) option" where
  "try_request client port method path headers =
     (case client method (''http://127.0.0.1:'' @ to_radix 10 port @ path) headers of
        Unbuildable \<Rightarrow> None
      | Failed e \<Rightarrow> Some (Inl e)
      | Answered status pairs body \<Rightarrow> Some
          (case body of
             Inl e \<Rightarrow> Inl e
           | Inr bs \<Rightarrow> Inr \<lparr>rs_status = status,
               rs_headers = map (\<lambda>(k, v). (k, case v of Some t \<Rightarrow> t | None \<Rightarrow> '''')) pairs, rs_body = bs\<rparr>))"

text \<open>Three attempts; the client may answer each of them differently.\<close>

fun attempts :: "(nat \<Rightarrow> ('e + 'r) option) \<Rightarrow> nat list \<Rightarrow> 'r option" where
  "attempts try [] = None"
| "attempts try (i # rest) =
     (case try i of None \<Rightarrow> None | Some (Inr r) \<Rightarrow> Some r | Some (Inl e) \<Rightarrow> attempts try rest)"

definition request_with_retry ::
  "(nat \<Rightarrow> 'e http_client) \<Rightarrow> nat \<Rightarrow> string \<Rightarrow> string \<Rightarrow> (string \<times> string) list \<Rightarrow> response option" where
  "request_with_retry clients port method path headers =
     attempts (\<lambda>i. try_request (clients i) port method path headers) [0..<3]"

definition get_path :: "(nat \<Rightarrow> 'e http_client) \<Rightarrow> nat \<Rightarrow> string \<Rightarrow> response option" where
  "get_path clients port path = request_with_retry clients port ''GET'' path []"

definition CRLF :: string where
  "CRLF = [CHR 0x0D, CHR 0x0A]"

definition raw_request :: "string \<Rightarrow> bytes" where
  "raw_request path = ''GET '' @ path @ '' HTTP/1.1'' @ CRLF @ ''Host: x'' @ CRLF @ CRLF"

section \<open>Statistics\<close>

definition stat_line :: "string \<Rightarrow> (string \<times> u64) option" where
  "stat_line line = Option.bind (split_at_text '': '' line) (\<lambda>(key, v).
     map_option (Pair key) (u64_from_str (trim v)))"

definition parse_stats :: "string \<Rightarrow> (string \<times> u64) list" where
  "parse_stats body = List.map_filter stat_line (text_lines body)"

definition stats_url :: "string \<Rightarrow> string \<Rightarrow> string" where
  "stats_url admin wanted = ''http://'' @ admin @ ''/stats?filter='' @ wanted"

text \<open>The body of the admin endpoint, by the filter that is asked for.\<close>

definition admin_stat :: "(string \<Rightarrow> string) \<Rightarrow> string \<Rightarrow> u64" where
  "admin_stat body name =
     (case find (\<lambda>(k, _). k = name) (parse_stats (body name)) of Some (_, v) \<Rightarrow> v | None \<Rightarrow> 0)"

definition admin_stat_max :: "(string \<Rightarrow> string) \<Rightarrow> string \<Rightarrow> u64" where
  "admin_stat_max body substr = fold max (map snd (parse_stats (body substr))) 0"

section \<open>Starting and stopping\<close>

definition staged_name :: "bool \<Rightarrow> string" where
  "staged_name windows = (if windows then MODULE_NAME @ ''.dll'' else ''lib'' @ MODULE_NAME @ ''.so'')"

definition envoy_args :: "'v json_crate \<Rightarrow> 'v \<Rightarrow> path \<Rightarrow> bool \<Rightarrow> string list" where
  "envoy_args jc config admin_file capture_log =
     [''--config-yaml'', js_text jc config, ''--admin-address-path'', admin_file, ''--disable-hot-restart'',
      ''--log-level'', if capture_log then ''info'' else ''error'']"

definition log_file :: "path \<Rightarrow> bool \<Rightarrow> path option" where
  "log_file module_dir capture_log = (if capture_log then Some (path_join module_dir ''envoy.log'') else None)"

text \<open>The name of a scratch directory, with the counter after it.\<close>

definition unique_tmp :: "path \<Rightarrow> 32 word \<Rightarrow> string \<Rightarrow> 32 word \<Rightarrow> path \<times> 32 word" where
  "unique_tmp temp_dir pid kind counter =
     (path_join temp_dir (''envoy-files-itest-'' @ kind @ ''-'' @ to_radix 10 (unat pid) @ ''-'' @ to_radix 10 (unat counter)),
      counter + 1)"

text \<open>
  The start of a server: what is done to the file system, the command that is run, and the state the
  counter is left in. The names made by \<open>unique_tmp\<close> have no dot, so that \<^verbatim>\<open>with_extension\<close> appends.
\<close>

datatype file_call =
    MakeDirs path
  | CopyFile path path
  | CreateFile path
  | PutFile path bytes
  | SetMode path nat
  | RenameFile path path

record 'v start_request =
  ss_config :: 'v
  ss_force_kill :: bool
  ss_capture_log :: bool

definition start_terminal :: "'v json_crate \<Rightarrow> 'v \<Rightarrow> 'v start_request" where
  "start_terminal jc filter_cfg =
     \<lparr>ss_config = terminal_config jc filter_cfg, ss_force_kill = False, ss_capture_log = False\<rparr>"

definition start_with_config :: "'v \<Rightarrow> bool \<Rightarrow> 'v start_request" where
  "start_with_config config force_kill = \<lparr>ss_config = config, ss_force_kill = force_kill, ss_capture_log = False\<rparr>"

definition start_capturing_backend :: "'v \<Rightarrow> bool \<Rightarrow> 'v start_request" where
  "start_capturing_backend config force_kill = \<lparr>ss_config = config, ss_force_kill = force_kill, ss_capture_log = True\<rparr>"

record command =
  cmd_program :: path
  cmd_args :: "string list"
  cmd_env :: "(string \<times> string) list"
  cmd_stderr :: "path option"

record started_envoy =
  se_calls :: "file_call list"
  se_command :: command
  se_module_dir :: path
  se_log_path :: "path option"
  se_admin_file :: path

definition server_start ::
  "'v json_crate \<Rightarrow> bool \<Rightarrow> path \<Rightarrow> 32 word \<Rightarrow> path \<Rightarrow> path \<Rightarrow> 'v start_request \<Rightarrow> 32 word \<Rightarrow> started_envoy \<times> 32 word" where
  "server_start jc windows temp_dir pid module binary ss counter =
     (let (module_dir, counter) = unique_tmp temp_dir pid ''module'' counter;
          log_path = log_file module_dir (ss_capture_log ss);
          (admin, counter) = unique_tmp temp_dir pid ''admin'' counter;
          admin_file = admin @ ''.txt'' in
      (\<lparr>se_calls = [MakeDirs module_dir, CopyFile module (path_join module_dir (staged_name windows))] @
          (case log_path of Some p \<Rightarrow> [CreateFile p] | None \<Rightarrow> []),
        se_command = \<lparr>cmd_program = binary, cmd_args = envoy_args jc (ss_config ss) admin_file (ss_capture_log ss),
          cmd_env = [(''ENVOY_DYNAMIC_MODULES_SEARCH_PATH'', module_dir)], cmd_stderr = log_path\<rparr>,
        se_module_dir = module_dir, se_log_path = log_path, se_admin_file = admin_file\<rparr>, counter))"

text \<open>The backend in the module's startup line, from the first read of the log that has it.\<close>

definition logged_backend :: "string \<Rightarrow> string option" where
  "logged_backend log = Option.bind (split_at_text ''with io backend '' log) (\<lambda>(_, rest).
     first_word (case split_at_text ''with io backend '' rest of Some (a, _) \<Rightarrow> a | None \<Rightarrow> rest))"

fun first_backend :: "string option list \<Rightarrow> string option" where
  "first_backend [] = None"
| "first_backend (log # rest) =
     (case Option.bind log logged_backend of Some name \<Rightarrow> Some name | None \<Rightarrow> first_backend rest)"

definition io_backend :: "path option \<Rightarrow> (path \<Rightarrow> string option list) \<Rightarrow> string option" where
  "io_backend log_path reads = Option.bind log_path (\<lambda>p. first_backend (reads p))"

text \<open>The port of the first listener, cut to 16 bits.\<close>

definition discover_port :: "'v json_crate \<Rightarrow> (string \<Rightarrow> string option) \<Rightarrow> string \<Rightarrow> nat option" where
  "discover_port jc fetch admin =
     Option.bind (fetch (''http://'' @ admin @ ''/listeners?format=json'')) (\<lambda>body.
     Option.bind (js_parse jc body) (\<lambda>json.
       map_option (\<lambda>p. p mod 2 ^ 16)
         (js_as_u64 jc (at jc json [Key ''listener_statuses'', Pos 0, Key ''local_address'', Key ''socket_address'',
            Key ''port_value'']))))"

datatype start_failure = ExitedDuringStartup nat | TimedOut

text \<open>A look at the process, which may have exited, and at the file it writes its address to.\<close>

type_synonym look = "nat option \<times> string option"

fun await_ready :: "(string \<Rightarrow> nat option) \<Rightarrow> look list \<Rightarrow> start_failure + (string \<times> nat)" where
  "await_ready discover [] = Inl TimedOut"
| "await_ready discover ((exited, written) # rest) =
     (case exited of
        Some status \<Rightarrow> Inl (ExitedDuringStartup status)
      | None \<Rightarrow>
          (case written of
             None \<Rightarrow> await_ready discover rest
           | Some txt \<Rightarrow>
               (if trim txt = [] then await_ready discover rest
                else case discover (trim txt) of
                  Some port \<Rightarrow> Inr (trim txt, port) | None \<Rightarrow> await_ready discover rest)))"

text \<open>
  What is done to processes and directories. A process id is a \<^verbatim>\<open>u32\<close>, which \<^verbatim>\<open>kill\<close> takes as an \<^verbatim>\<open>i32\<close>.
\<close>

datatype process_call = KillChild "32 word" | SigTerm int | SigKill int | WaitFor "32 word" | RemoveDirAll path

definition drop_server :: "bool \<Rightarrow> bool \<Rightarrow> 32 word option \<Rightarrow> path \<Rightarrow> process_call list" where
  "drop_server unix force_kill process module_dir =
     (case process of
        None \<Rightarrow> []
      | Some pid \<Rightarrow> [if force_kill \<or> \<not> unix then KillChild pid else SigTerm (sint pid), WaitFor pid]) @
     [RemoveDirAll module_dir]"

definition register_for_cleanup :: "32 word \<Rightarrow> 32 word list \<Rightarrow> 32 word list" where
  "register_for_cleanup pid pids = pids @ [pid]"

definition kill_spawned :: "32 word list \<Rightarrow> process_call list" where
  "kill_spawned pids = map (\<lambda>pid. SigKill (sint pid)) pids"

section \<open>Finding the binaries\<close>

definition ENVOY_SERVER_VERSION :: string where
  "ENVOY_SERVER_VERSION = ''1.40.0''"

definition target_dir :: "path option \<Rightarrow> path \<Rightarrow> path option" where
  "target_dir env manifest =
     (case env of
        Some dir \<Rightarrow> Some dir
      | None \<Rightarrow> map_option (\<lambda>root. path_join root ''target'') (Option.bind (path_parent manifest) path_parent))"

definition cached_binary :: "bool \<Rightarrow> path \<Rightarrow> path" where
  "cached_binary windows target =
     path_join (path_join target (''envoy-bin-'' @ ENVOY_SERVER_VERSION)) (if windows then ''envoy.dll'' else ''envoy'')"

definition wheel_entry :: "bool \<Rightarrow> string" where
  "wheel_entry windows = (if windows then ''envoy/_bin/envoy.dll'' else ''envoy/_bin/envoy'')"

definition platform_tag :: "string \<Rightarrow> string \<Rightarrow> string option" where
  "platform_tag os arch =
     (if (os, arch) = (''macos'', ''aarch64'') then Some ''macosx''
      else if (os, arch) = (''linux'', ''aarch64'') then Some ''manylinux_2_31_aarch64''
      else if (os, arch) = (''linux'', ''x86_64'') then Some ''manylinux_2_31_x86_64''
      else if (os, arch) = (''windows'', ''x86_64'') then Some ''win_amd64''
      else None)"

definition wheel_index :: string where
  "wheel_index = ''https://pypi.org/pypi/envoy-server/'' @ ENVOY_SERVER_VERSION @ ''/json''"

fun pick_wheel :: "'v json_crate \<Rightarrow> string \<Rightarrow> 'v list \<Rightarrow> string option" where
  "pick_wheel jc tag [] = None"
| "pick_wheel jc tag (url # urls) =
     (let filename = (case js_as_str jc (js_get jc url ''filename'') of Some s \<Rightarrow> s | None \<Rightarrow> '''') in
      if suffix ''.whl'' filename \<and> contains_text tag filename then js_as_str jc (js_get jc url ''url'')
      else pick_wheel jc tag urls)"

definition wheel_url :: "'v json_crate \<Rightarrow> (string \<Rightarrow> string option) \<Rightarrow> string \<Rightarrow> string \<Rightarrow> string option" where
  "wheel_url jc fetch os arch =
     Option.bind (platform_tag os arch) (\<lambda>tag.
     Option.bind (fetch wheel_index) (\<lambda>body.
     Option.bind (js_parse jc body) (\<lambda>meta.
     Option.bind (js_as_array jc (js_get jc meta ''urls'')) (pick_wheel jc tag))))"

text \<open>The binary is written under another name and renamed, so that one that is cached is complete.\<close>

definition fetch_envoy ::
  "bool \<Rightarrow> bool \<Rightarrow> (path \<Rightarrow> bool) \<Rightarrow> path \<Rightarrow> string option \<Rightarrow> (string \<Rightarrow> bytes option) \<Rightarrow>
     (bytes \<Rightarrow> string \<Rightarrow> bytes option) \<Rightarrow> (file_call list \<times> path) option" where
  "fetch_envoy windows unix exists target url download unzip =
     (let cache = path_join target (''envoy-bin-'' @ ENVOY_SERVER_VERSION); binary = cached_binary windows target in
      if exists binary then Some ([], binary)
      else Option.bind url (\<lambda>url.
        Option.bind (download url) (\<lambda>wheel.
        Option.bind (unzip wheel (wheel_entry windows)) (\<lambda>bs.
          let tmp = path_join cache ''.envoy.partial'' in
          Some ([MakeDirs cache, PutFile tmp bs] @ (if unix then [SetMode tmp 493] else []) @ [RenameFile tmp binary],
            binary)))))"

definition locate_module :: "bool \<Rightarrow> bool \<Rightarrow> bool \<Rightarrow> (path \<Rightarrow> bool) \<Rightarrow> path \<Rightarrow> path option" where
  "locate_module windows macos debug exists target =
     (let (name, ext) = (if windows then (''envoy_files'', ''dll'')
            else if macos then (''libenvoy_files'', ''dylib'') else (''libenvoy_files'', ''so''));
          profile_dir = (if debug then ''debug'' else ''release'');
          p = path_join (path_join target profile_dir) (name @ ''.'' @ ext) in
      if exists p then Some p else None)"

section \<open>The benchmark\<close>

definition bench_duration :: "string option \<Rightarrow> string" where
  "bench_duration env = (case env of Some d \<Rightarrow> d | None \<Rightarrow> ''10s'')"

definition oha_args :: "string \<Rightarrow> nat \<Rightarrow> string \<Rightarrow> string \<Rightarrow> string list" where
  "oha_args duration port path connections =
     [''-z'', duration, ''-c'', connections, ''--no-tui'', ''--output-format'', ''json'',
      ''http://127.0.0.1:'' @ to_radix 10 port @ path]"

definition warmup_args :: "nat \<Rightarrow> string \<Rightarrow> string \<Rightarrow> string list" where
  "warmup_args port path connections =
     [''-z'', ''2s'', ''-c'', connections, ''--no-tui'', ''http://127.0.0.1:'' @ to_radix 10 port @ path]"

definition ok_2xx :: "'v json_crate \<Rightarrow> 'v \<Rightarrow> u64" where
  "ok_2xx jc data =
     (case js_as_object jc (js_get jc data ''statusCodeDistribution'') of
        None \<Rightarrow> 0
      | Some codes \<Rightarrow> sum_list (List.map_filter (\<lambda>(_, v). map_option of_nat (js_as_u64 jc v))
          (filter (\<lambda>(k, _). prefix ''2'' k) codes)))"

text \<open>The middle one of the times to the first byte that were measured, if any; the comparison is that of the floats.\<close>

definition ttfb_median :: "('t \<Rightarrow> 't \<Rightarrow> ordering) \<Rightarrow> 't option list \<Rightarrow> 't option" where
  "ttfb_median cmp tries =
     (let samples = List.map_filter id tries in
      if samples = [] then None else Some (sort_by cmp samples ! (length samples div 2)))"

definition bench_request :: "string \<Rightarrow> bytes" where
  "bench_request path = ''GET '' @ path @ '' HTTP/1.1'' @ CRLF @ ''Host: x'' @ CRLF @ ''Connection: close'' @ CRLF @ CRLF"

text \<open>The status in what one read of at most 64 bytes gave; here \<open>None\<close> is the \<^verbatim>\<open>None\<close> of the source.\<close>

definition status_of :: "bytes \<Rightarrow> nat option" where
  "status_of buf =
     Option.bind (from_utf8 buf) (\<lambda>head.
     Option.bind (case split_on (CHR '' '') head of _ # s # _ \<Rightarrow> Some s | _ \<Rightarrow> None) (\<lambda>s.
     Option.bind (u64_from_str s) (\<lambda>n. if unat n < 2 ^ 16 then Some (unat n) else None)))"

definition bench_title :: "string \<Rightarrow> string option \<Rightarrow> string" where
  "bench_title label backend =
     [CHR 0x0A] @ label @ (case backend of Some b \<Rightarrow> ''  [io backend: '' @ b @ '']'' | None \<Rightarrow> [])"

definition boe_args :: "string \<Rightarrow> string list" where
  "boe_args config =
     [''run'', ''--extension'', ''file-server'', ''--dev'', ''--config'', config, ''--listen-port'', to_radix 10 18080,
      ''--admin-port'', to_radix 10 18081, ''--log-level'', ''all:error'']"

text \<open>Polling until it serves: each look tells whether the process has exited, and the status of a request.\<close>

fun boe_ready :: "(bool \<times> nat option) list \<Rightarrow> bool" where
  "boe_ready [] \<longleftrightarrow> False"
| "boe_ready ((exited, status) # rest) \<longleftrightarrow> \<not> exited \<and> (status = Some 200 \<or> boe_ready rest)"

definition bench_configs :: "'v json_crate \<Rightarrow> string \<Rightarrow> (string \<times> 'v) list" where
  "bench_configs jc root =
     [(''envoy-files (compio)'', terminal_config jc (js_obj jc [(''root'', js_str jc root)])),
      (''envoy-files (blocking)'', terminal_config jc (js_obj jc [(''root'', js_str jc root), (''force_blocking'', js_bool jc True)])),
      (''built-in file_server'', builtin_file_server_config jc root)]"

section \<open>Retrying hides no response\<close>

text \<open>What a test asserts on is the first response there was, at most two failures before it.\<close>

lemma retry_returns_first:
  "request_with_retry clients port method path headers = Some r \<longleftrightarrow>
     (\<exists>n < 3. try_request (clients n) port method path headers = Some (Inr r) \<and>
        (\<forall>m < n. \<exists>e. try_request (clients m) port method path headers = Some (Inl e)))"
proof -
  define att where "att n = try_request (clients n) port method path headers" for n
  have "(\<exists>n < 3. P n \<and> (\<forall>m < n. Q m)) \<longleftrightarrow> P 0 \<or> P 1 \<and> Q 0 \<or> P 2 \<and> Q 0 \<and> Q 1" for P Q :: "nat \<Rightarrow> bool"
    by (auto simp: numeral_3_eq_3 numeral_2_eq_2 less_Suc_eq)
  moreover have "attempts att [0, 1, 2] = Some r \<longleftrightarrow> att 0 = Some (Inr r) \<or> att 1 = Some (Inr r) \<and> (\<exists>e. att 0 = Some (Inl e)) \<or>
      att 2 = Some (Inr r) \<and> (\<exists>e. att 0 = Some (Inl e)) \<and> (\<exists>e. att 1 = Some (Inl e))"
    by (auto split: option.split sum.split)
  moreover have "[0..<3] = [0, 1, 2 :: nat]" by (simp add: upt_rec)
  ultimately show ?thesis by (simp add: request_with_retry_def att_def [symmetric])
qed

section \<open>Statistics round trip\<close>

lemma split_at_text_key:
  "c \<notin> set key \<Longrightarrow> split_at_text (c # pat) (key @ c # pat @ v) = Some (key, v)"
  by (induction key) (auto simp: prefix_def)

lemma text_lines_printed:
  assumes "\<forall>l \<in> set ls. CHR 0x0A \<notin> set l \<and> (l \<noteq> [] \<longrightarrow> last l \<noteq> CHR 0x0D)"
  shows "text_lines (concat (map (\<lambda>l. l @ [CHR 0x0A]) ls)) = ls"
proof -
  have "split_on (CHR 0x0A) (concat (map (\<lambda>l. l @ [CHR 0x0A]) ls)) = ls @ [[]]"
    using assms by (induction ls) (simp_all add: split_on_append_sep)
  moreover have "map strip_cr ls = ls" using assms by (intro map_idI) (auto simp: strip_cr_def)
  ultimately show ?thesis by (simp add: text_lines_def)
qed

lemma digits_graphic: "c \<in> set (dec_u64 v) \<Longrightarrow> ascii_graphic c"
  using dec_u64_digits [of c v] by (auto simp: is_ascii_digit_def ascii_graphic_def)

definition print_stats :: "(string \<times> u64) list \<Rightarrow> string" where
  "print_stats kvs = concat (map (\<lambda>l. l @ [CHR 0x0A]) (map (\<lambda>(k, v). k @ '': '' @ dec_u64 v) kvs))"

text \<open>What the admin endpoint prints, one statistic in a line, is read back.\<close>

lemma stats_roundtrip:
  assumes "\<forall>(k, v) \<in> set kvs. CHR '':'' \<notin> set k \<and> CHR 0x0A \<notin> set k"
  shows "parse_stats (print_stats kvs) = kvs"
proof -
  have digit: "c \<noteq> CHR 0x0A \<and> c \<noteq> CHR 0x0D" if "c \<in> set (dec_u64 v)" for c v
    using digits_graphic [OF that] by (auto simp: ascii_graphic_def)
  then have lines: "text_lines (print_stats kvs) = map (\<lambda>(k, v). k @ '': '' @ dec_u64 v) kvs"
    unfolding print_stats_def using assms digit [OF last_in_set [OF dec_u64_ne]]
    by (intro text_lines_printed) (auto simp: last_append)
  have "stat_line (k @ '': '' @ dec_u64 v) = Some (k, v)" if "(k, v) \<in> set kvs" for k v
  proof -
    have "trim (dec_u64 v) = dec_u64 v" by (rule trim_graphic) (simp_all add: digits_graphic [where v = v])
    moreover have "split_at_text '': '' (k @ '': '' @ dec_u64 v) = Some (k, dec_u64 v)"
      using split_at_text_key [of "CHR '':''" k "'' ''" "dec_u64 v"] assms that by auto
    ultimately show ?thesis by (simp add: stat_line_def)
  qed
  then have "List.map_filter stat_line (map (\<lambda>(k, v). k @ '': '' @ dec_u64 v) kvs) = kvs"
    by (induction kvs) (auto simp: List.map_filter_def)
  with lines show ?thesis by (simp add: parse_stats_def)
qed

section \<open>Waiting for the server\<close>

text \<open>A server that is ready has written its address, and no look before found it gone.\<close>

lemma ready_address:
  assumes "await_ready discover looks = Inr (admin, port)"
  shows "\<exists>n < length looks. (\<exists>txt. looks ! n = (None, Some txt) \<and> trim txt = admin) \<and> admin \<noteq> [] \<and> discover admin = Some port \<and>
    (\<forall>m \<le> n. fst (looks ! m) = None)"
  using assms
proof (induction discover looks rule: await_ready.induct)
  case (2 discover exited written rest)
  have later: ?case if "await_ready discover rest = Inr (admin, port)" "exited = None"
    "\<exists>n < length rest. (\<exists>txt. rest ! n = (None, Some txt) \<and> trim txt = admin) \<and> admin \<noteq> [] \<and> discover admin = Some port \<and>
      (\<forall>m \<le> n. fst (rest ! m) = None)"
  proof -
    from that(3) obtain n where n: "n < length rest" "\<exists>txt. rest ! n = (None, Some txt) \<and> trim txt = admin" "admin \<noteq> []"
      "discover admin = Some port" "\<forall>m \<le> n. fst (rest ! m) = None" by blast
    then show ?thesis using that(2)
      by (intro exI [of _ "Suc n"]) (auto simp: nth_Cons')
  qed
  show ?case
    using "2.prems" "2.IH" later
    by (auto split: option.splits if_splits intro: exI [of _ 0])
qed simp

section \<open>The benchmark\<close>

lemma status_printed:
  assumes "n < 2 ^ 16" and "CHR '' '' \<notin> set version" and "utf8_valid (version @ CHR '' '' # to_radix 10 n @ CHR '' '' # rest)"
  shows "status_of (version @ CHR '' '' # to_radix 10 n @ CHR '' '' # rest) = Some n"
proof -
  define w :: u64 where "w = of_nat n"
  have w: "unat w = n" using assms(1) by (simp add: w_def unat_of_nat_u64)
  then have "to_radix 10 n = dec_u64 w" by (simp add: dec_u64_def)
  moreover have "CHR '' '' \<notin> set (dec_u64 w)" using digits_graphic [of "CHR '' ''" w] by (auto simp: ascii_graphic_def)
  ultimately show ?thesis
    using assms w by (simp add: status_of_def from_utf8_def split_on_append_sep)
qed

lemma median_measured:
  assumes "ttfb_median cmp tries = Some t"
  shows "Some t \<in> set tries"
proof -
  let ?samples = "List.map_filter id tries"
  have t: "?samples \<noteq> []" "t = sort_by cmp ?samples ! (length ?samples div 2)"
    using assms by (auto simp: ttfb_median_def Let_def split: if_splits)
  then have "length ?samples div 2 < length (sort_by cmp ?samples)" by simp
  then have "t \<in> set (sort_by cmp ?samples)" unfolding t(2) by (rule nth_mem)
  then have "t \<in> set ?samples" by simp
  then show ?thesis by (auto simp: List.map_filter_def)
qed

section \<open>Scratch directories and binaries\<close>

text \<open>Two scratch paths of one process are the same only if the counter has wrapped between them.\<close>

lemma path_join_inj:
  "path_join d a = path_join d b \<Longrightarrow> \<not> is_absolute a \<Longrightarrow> \<not> is_absolute b \<Longrightarrow> a = b"
  by (simp add: path_join_def split: if_splits)

lemma scratch_apart:
  assumes "fst (unique_tmp dir pid kind n) = fst (unique_tmp dir pid kind n')"
  shows "n = n'"
proof -
  have "to_radix 10 (unat n) = to_radix 10 (unat n')"
    using path_join_inj [OF assms [unfolded unique_tmp_def fst_conv]] by (simp add: is_absolute_def)
  then show ?thesis using to_radix_inj [of 10 "unat n" "unat n'"] by (simp add: word_unat_eq_iff)
qed

text \<open>The module is staged in a fresh directory, where Envoy is told to look for it.\<close>

lemma module_staged:
  assumes "server_start jc windows temp_dir pid module binary ss counter = (se, counter')"
  shows "CopyFile module (path_join (se_module_dir se) (staged_name windows)) \<in> set (se_calls se) \<and>
    cmd_env (se_command se) = [(''ENVOY_DYNAMIC_MODULES_SEARCH_PATH'', se_module_dir se)] \<and>
    counter' = counter + 1 + 1 \<and> (se_log_path se \<noteq> None \<longleftrightarrow> ss_capture_log ss)"
  using assms by (auto simp: server_start_def unique_tmp_def log_file_def Let_def split: if_splits)

text \<open>Nothing is ever written to the cached binary; it comes into being by one rename, which is the last call.\<close>

lemma binary_complete:
  assumes "fetch_envoy windows unix exists target url download unzip = Some (calls, binary)" and "\<not> exists binary"
  shows "\<exists>tmp bs front. calls = front @ [RenameFile tmp binary] \<and> PutFile tmp bs \<in> set front \<and>
    (\<forall>c \<in> set front. \<forall>bs. c \<noteq> PutFile binary bs)"
proof -
  have apart: "path_join cache ''.envoy.partial'' \<noteq> path_join cache (if windows then ''envoy.dll'' else ''envoy'')" for cache
    using path_join_inj [of cache "''.envoy.partial''" "if windows then ''envoy.dll'' else ''envoy''"]
    by (auto simp: is_absolute_def split: if_splits)
  show ?thesis
    using assms apart [of "path_join target (''envoy-bin-'' @ ENVOY_SERVER_VERSION)"]
    by (auto simp: fetch_envoy_def cached_binary_def Let_def bind_eq_Some_conv split: if_splits)
qed

text \<open>The module that is staged has the name that the configuration asks for.\<close>

lemma module_names_agree:
  "locate_module False False debug (\<lambda>_. True) target =
     Some (path_join (path_join target (if debug then ''debug'' else ''release'')) (staged_name False))"
  "locate_module True macos debug (\<lambda>_. True) target =
     Some (path_join (path_join target (if debug then ''debug'' else ''release'')) (staged_name True))"
  by (simp_all add: staged_name_def locate_module_def MODULE_NAME_def)

text \<open>The name of the backend is found in the module's startup line, wherever it is in the log.\<close>

lemma upto_white_word:
  "list_all ascii_graphic w \<Longrightarrow> upto_white (w @ CHR 0x0A # rest) = w"
proof (induction w)
  case Nil
  have "[CHR 0x0A] \<in> set white_space" by (simp add: white_space_def)
  moreover have "prefix [CHR 0x0A] (CHR 0x0A # rest)" by (simp add: prefix_def)
  ultimately show ?case unfolding append_Nil upto_white.simps by (meson if_P)
next
  case (Cons c w)
  then have "\<not> (\<exists>p \<in> set white_space. prefix p (c # w @ CHR 0x0A # rest))"
    using white_space_ends by (fastforce simp: prefix_def Cons_eq_append_conv)
  then show ?case using Cons by simp
qed

lemma backend_found:
  assumes "split_at_text ''with io backend '' log = Some (before, name @ CHR 0x0A # rest)"
    and "split_at_text ''with io backend '' (name @ CHR 0x0A # rest) = None"
    and "name \<noteq> []" and "list_all ascii_graphic name"
  shows "io_backend (Some p) (\<lambda>_. [None, Some []] @ Some log # later) = Some name"
proof -
  have "trim_start (name @ CHR 0x0A # rest) = name @ CHR 0x0A # rest"
    using assms(3,4) by (intro trim_start_of_graphic) (cases name; simp)+
  then have "first_word (name @ CHR 0x0A # rest) = Some name"
    using upto_white_word [OF assms(4)] by (simp add: first_word_def)
  then show ?thesis using assms(1,2) by (simp add: logged_backend_def io_backend_def)
qed

lemma backend_of_startup_line:
  "io_backend (Some ''envoy.log'') (\<lambda>_. [None, Some []] @ Some (''serving /www with io backend compio-poll'' @ CHR 0x0A # ''more'') # []) =
     Some ''compio-poll''"
  by (rule backend_found [of _ "''serving /www ''" _ "''more''"]) (simp_all add: prefix_def ascii_graphic_def)

end
