(* ===== verification/Harness_Fixtures.thy ===== *)
theory Harness_Fixtures
  imports Std_Path Std_Num
begin

text \<open>
  The document root of the integration tests, \<^verbatim>\<open>envoy-files-itest/src/fixtures.rs\<close>. Building it is a
  list of calls to the file system, in their order. The compression of \<^verbatim>\<open>flate2\<close>, the digest of \<^verbatim>\<open>sha2\<close>
  in hexadecimal, the page that is included at compile time and the process are parameters.
\<close>

section \<open>The code\<close>

datatype fs_call =
    CreateDirAll path
  | WriteFile path bytes
  | Symlink path path

record fixture_env =
  fe_temp_dir :: path
  fe_process_id :: "32 word"
  fe_unix :: bool
  fe_home_html :: bytes
  fe_gzip :: "bytes \<Rightarrow> bytes"
  fe_sha256_hex :: "bytes \<Rightarrow> string"

record www =
  www_root :: path
  www_big_sha256 :: string

definition BIG_FILE_BYTES :: nat where
  "BIG_FILE_BYTES = 100 * 1024 * 1024"

text \<open>The counter is an atomic \<^verbatim>\<open>u32\<close>, which wraps.\<close>

definition unique :: "32 word \<Rightarrow> 32 word \<times> 32 word" where
  "unique counter = (counter, counter + 1)"

definition numbered :: "string \<Rightarrow> 32 word \<Rightarrow> 32 word \<Rightarrow> string" where
  "numbered stem pid n = stem @ to_radix 10 (unat pid) @ ''-'' @ to_radix 10 (unat n)"

definition byte_cycle :: "nat \<Rightarrow> nat \<Rightarrow> bytes" where
  "byte_cycle period n = map (\<lambda>i. char_of (i mod period)) [0..<n]"

text \<open>
  The loop writes pieces of the block until enough is written; with an empty block it would not end. The
  same pieces go to the file and to the digest.
\<close>

partial_function (option) write_big_loop :: "nat \<Rightarrow> bytes \<Rightarrow> nat \<Rightarrow> bytes list option" where
  "write_big_loop limit block written =
     (if written < limit then
        let n = min (length block) (limit - written) in
        Option.bind (write_big_loop limit block (written + n)) (\<lambda>rest. Some (take n block # rest))
      else Some [])"

definition write_big :: "fixture_env \<Rightarrow> path \<Rightarrow> (fs_call \<times> string) option" where
  "write_big env p =
     map_option (\<lambda>blocks. (WriteFile p (concat blocks), fe_sha256_hex env (concat blocks)))
       (write_big_loop BIG_FILE_BYTES (byte_cycle 251 65536) 0)"

definition JS :: bytes where
  "JS = concat (replicate 10 (''console.log('' @ [CHR 0x27] @ ''envoy files'' @ [CHR 0x27] @ '');'' @ [CHR 0x0A]))"

definition outside_link :: "fixture_env \<Rightarrow> path \<Rightarrow> 32 word \<Rightarrow> fs_call list" where
  "outside_link env root n =
     (case path_parent root of
        None \<Rightarrow> []
      | Some dir \<Rightarrow>
          (let outside = path_join dir (numbered ''envoy-files-outside-'' (fe_process_id env) n) in
           [WriteFile outside ''outside'', Symlink outside (path_join root ''escape.txt''),
            Symlink (path_join root ''hello.txt'') (path_join root ''inside-link.txt'')]))"

text \<open>The whole tree. \<open>None\<close> is a panic: a root without a parent on unix.\<close>

definition www_build :: "fixture_env \<Rightarrow> 32 word \<Rightarrow> (www \<times> fs_call list \<times> 32 word) option" where
  "www_build env counter =
     (let (n, counter) = unique counter;
          root = path_join (fe_temp_dir env) (numbered ''envoy-files-www-'' (fe_process_id env) n);
          put = (\<lambda>rel bs. WriteFile (path_join root rel) bs) in
      Option.bind (write_big env (path_join root ''big.bin'')) (\<lambda>(big, sha256).
        let calls =
          [CreateDirAll root,
           put ''index.html'' ''<html>home</html>'',
           put ''home.html'' (fe_home_html env),
           put ''hello.txt'' (''hello world'' @ [CHR 0x0A]),
           put ''data.bin'' (byte_cycle 256 10240),
           put ''.secret'' ''dotfile'',
           CreateDirAll (path_join root ''sub''),
           put ''sub/index.html'' ''<html>sub</html>'',
           put ''sub/nested.txt'' ''nested'',
           CreateDirAll (path_join root ''listing-dir''),
           put ''listing-dir/a.txt'' ''a'',
           put ''listing-dir/evil&name.txt'' ''x'',
           put ''app.js'' JS,
           put ''app.js.gz'' (fe_gzip env JS),
           put ''app.js.br'' ''BROTLI-BYTES'',
           big] in
        if fe_unix env then
          (if path_parent root = None then None
           else let (n', counter) = unique counter in
             Some (\<lparr>www_root = root, www_big_sha256 = sha256\<rparr>, calls @ outside_link env root n', counter))
        else Some (\<lparr>www_root = root, www_big_sha256 = sha256\<rparr>, calls, counter)))"

definition www_path :: "www \<Rightarrow> path" where
  "www_path w = www_root w"

section \<open>The big file\<close>

lemma length_byte_cycle [simp]: "length (byte_cycle period n) = n"
  by (simp add: byte_cycle_def)

lemma byte_cycle_nth: "i < n \<Longrightarrow> byte_cycle period n ! i = char_of (i mod period)"
  by (simp add: byte_cycle_def)

lemma cycle_shift:
  assumes "l \<le> n"
  shows "map (\<lambda>i. f (i mod l)) [0..<n] = map f [0..<l] @ map (\<lambda>i. f (i mod l)) [0..<n - l]"
proof -
  obtain k where k: "n = l + k" using assms le_Suc_ex by blast
  have "[0..<n] = [0..<l] @ map (\<lambda>i. i + l) [0..<n - l]"
    unfolding k using upt_add_eq_append [of 0 l k] by (simp add: map_add_upt add.commute)
  then show ?thesis by (simp add: comp_def)
qed

text \<open>The pieces are the block again and again, cut where enough is written: the loop ends, for a block that is not empty.\<close>

lemma write_big_loop_cycles:
  assumes "block \<noteq> []" and "written \<le> limit"
  shows "\<exists>blocks. write_big_loop limit block written = Some blocks \<and>
    concat blocks = map (\<lambda>i. block ! (i mod length block)) [0..<limit - written] \<and>
    list_all (\<lambda>b. b \<noteq> [] \<and> length b \<le> length block) blocks"
  using assms(2)
proof (induction "limit - written" arbitrary: written rule: less_induct)
  case less
  show ?case
  proof (cases "written < limit")
    case False
    then show ?thesis using less.prems by (simp add: write_big_loop.simps)
  next
    case True
    define n where "n = min (length block) (limit - written)"
    have n: "0 < n" "n \<le> length block" "written + n \<le> limit"
      using True assms(1) by (auto simp: n_def)
    then have "limit - (written + n) < limit - written" by simp
    from less.hyps [OF this n(3)] obtain blocks where
      blocks: "write_big_loop limit block (written + n) = Some blocks"
        "concat blocks = map (\<lambda>i. block ! (i mod length block)) [0..<limit - (written + n)]"
        "list_all (\<lambda>b. b \<noteq> [] \<and> length b \<le> length block) blocks" by blast
    have "write_big_loop limit block written = Some (take n block # blocks)"
      using True blocks(1) by (subst write_big_loop.simps) (simp add: n_def [symmetric])
    moreover have "concat (take n block # blocks) = map (\<lambda>i. block ! (i mod length block)) [0..<limit - written]"
    proof (cases "length block \<le> limit - written")
      case True
      then have "n = length block" by (simp add: n_def)
      then show ?thesis
        using blocks(2) cycle_shift [OF True, of "(!) block"] by (simp add: map_nth diff_diff_add)
    next
      case False
      then have "n = limit - written" by (simp add: n_def)
      then have "concat blocks = []" using blocks(2) n(3) by simp
      then have "concat (take n block # blocks) = take n block" by simp
      also have "\<dots> = map (\<lambda>i. block ! (i mod length block)) [0..<n]"
        using n(2) False \<open>n = limit - written\<close> by (intro nth_equalityI) simp_all
      finally show ?thesis using \<open>n = limit - written\<close> by simp
    qed
    moreover have "take n block \<noteq> []" "length (take n block) \<le> length block" using n assms(1) by auto
    ultimately show ?thesis using blocks(3) by simp
  qed
qed

text \<open>
  The big file: exactly 100 MiB, byte \<open>i\<close> is \<open>(i mod 65536) mod 251\<close>, and the recorded digest is that of the bytes
  in the file.
\<close>

lemma write_big_exact:
  "write_big env p =
     Some (WriteFile p (map (\<lambda>i. char_of ((i mod 65536) mod 251)) [0..<BIG_FILE_BYTES]),
       fe_sha256_hex env (map (\<lambda>i. char_of ((i mod 65536) mod 251)) [0..<BIG_FILE_BYTES]))"
proof -
  have "byte_cycle 251 65536 \<noteq> []" using length_byte_cycle [of 251 65536] by (metis length_greater_0_conv zero_less_numeral)
  from write_big_loop_cycles [OF this, of 0 BIG_FILE_BYTES] obtain blocks where
    "write_big_loop BIG_FILE_BYTES (byte_cycle 251 65536) 0 = Some blocks"
    "concat blocks = map (\<lambda>i. byte_cycle 251 65536 ! (i mod 65536)) [0..<BIG_FILE_BYTES]"
    by auto
  moreover have "byte_cycle 251 65536 ! (i mod 65536) = char_of ((i mod 65536) mod 251)" for i
    by (simp add: byte_cycle_nth)
  ultimately show ?thesis by (simp add: write_big_def)
qed

text \<open>The tree is built: on unix, for a temporary directory that is absolute, say.\<close>

lemma www_builds:
  assumes "path_parent (path_join (fe_temp_dir env) (numbered ''envoy-files-www-'' (fe_process_id env) counter)) \<noteq> None"
  shows "\<exists>w calls counter'. www_build env counter = Some (w, calls, counter') \<and>
    WriteFile (path_join (www_path w) ''big.bin'') (map (\<lambda>i. char_of ((i mod 65536) mod 251)) [0..<BIG_FILE_BYTES]) \<in> set calls \<and>
    www_big_sha256 w = fe_sha256_hex env (map (\<lambda>i. char_of ((i mod 65536) mod 251)) [0..<BIG_FILE_BYTES])"
proof (cases "fe_unix env")
  case True
  then show ?thesis using assms by (simp add: www_build_def unique_def write_big_exact Let_def www_path_def)
next
  case False
  then show ?thesis by (simp add: www_build_def unique_def write_big_exact Let_def www_path_def)
qed

text \<open>Two fixtures of one process never share a directory, until the counter has wrapped.\<close>

lemma numbered_apart:
  assumes "numbered stem pid n = numbered stem pid n'"
  shows "n = n'"
  using assms to_radix_inj [of 10 "unat n" "unat n'"] by (simp add: numbered_def word_unat_eq_iff)

end
