(* ===== verification/Spec2Isabelle.thy ===== *)
theory Spec2Isabelle
  imports Filter_Directories Stream_Refinement Stream_Window Stream_Resolution Filter_Module Server_Properties Server_Liveness
    Tests_Ranges Tests_Path Tests_Mime Tests_Encoding Tests_Error Tests_Listing Tests_Validators Tests_Response_Plan
    Tests_Config Tests_Engine Harness_Config Harness_Client Harness_Fixtures
begin

text \<open>
  Verification of \<^verbatim>\<open>envoy-files\<close>, an Envoy dynamic module that serves static files.

  The program. Envoy calls one filter per stream (\<^verbatim>\<open>envoy-files-filter\<close>); the filter decides with
  pure functions (\<^verbatim>\<open>envoy-files-core\<close>) what to open and what to answer, asks an I/O engine
  (\<^verbatim>\<open>envoy-files-io\<close>) that runs on a thread of its own to open and read files, and takes the
  completions, which come back through a mailbox and a scheduled callback, to stream the
  body under Envoy's back-pressure.

  Foundations. \<open>Prelude\<close>: errors as sums, option sequencing, slices, status codes, the fact collections.
  \<open>Std_String\<close>, \<open>Std_Num\<close>, \<open>Std_Order\<close>, \<open>Std_Path\<close>, \<open>Std_Float\<close>, \<open>Utf8\<close>: what the source uses
  of the standard library (\<^verbatim>\<open>str\<close>, parsing and printing of integers, \<^verbatim>\<open>sort_by\<close> and comparators,
  \<^verbatim>\<open>Path\<close>, \<^verbatim>\<open>f32\<close>, lossy and strict UTF-8).

  The core (\<^verbatim>\<open>envoy-files-core/src\<close>), one theory per file. \<open>Ranges\<close> (\<^verbatim>\<open>range.rs\<close>): planning equals
  the RFC meaning of a printed header, planned ranges are in bounds, ascending, disjoint, and
  the multipart length is the length of the body. \<open>Request_Path\<close> (\<^verbatim>\<open>path.rs\<close>): a resolved path stays under its
  root, rejection is exact, encoded names resolve to themselves. \<open>Mime\<close>, \<open>Io_Error\<close>, \<open>Encoding\<close>, \<open>Validators\<close>,
  \<open>Listing\<close>, \<open>Response_Plan\<close> (\<^verbatim>\<open>mime.rs\<close>, \<^verbatim>\<open>error.rs\<close>, \<^verbatim>\<open>encoding.rs\<close>, \<^verbatim>\<open>validators.rs\<close>, \<^verbatim>\<open>listing.rs\<close>,
  \<^verbatim>\<open>response_plan.rs\<close>): negotiation order, revalidation round trips, listings that are deterministic and free
  of injected markup, and the response for every request. \<open>Preconditions\<close>: the preconditions of RFC 9110 over tags and
  seconds, stated apart from the code, and that the code's conditionals have their outcome.

  Configuration and entry. \<open>Config\<close> (\<^verbatim>\<open>config.rs\<close>): an accepted configuration says what the first document of the
  text does, and is well formed (\<open>config_ok\<close>), which is what the other theories assume of a configuration. \<open>Filter_Module\<close> (\<^verbatim>\<open>lib.rs\<close> of the filter, \<^verbatim>\<open>lib.rs\<close> and the
  start of \<^verbatim>\<open>engine.rs\<close> of the I/O crate): the entry point, the start of the engine and its teardown,
  and the bound on the reads in flight for any document.

  The engine. \<open>Event_Bridge\<close> (\<^verbatim>\<open>eventbridge.rs\<close>): the mailbox, a FIFO queue for every interleaving (locale
  \<open>mailbox\<close>). \<open>Io_Engine\<close> (\<^verbatim>\<open>engine.rs\<close>): commands, tasks, the reactor, opens with their containment
  check and the cache of canonical parents (locale \<open>path_cache\<close>), prefetch, short reads, directory reads. Its
  state is the record \<open>engine\<close>: the queue of commands, the spawned tasks, the open files by handle, the cache.

  The filter (\<^verbatim>\<open>filter.rs\<close>). \<open>Stream_Filter\<close> has every callback and helper over the record \<open>stream_filter\<close>; its
  field \<open>fl_out\<close> is the trace of everything said to Envoy, the engine and the scheduler. \<open>Stream_Body\<close>: the
  chunks of a planned body. \<open>Stream_Invariant\<close>: one pump. \<open>Stream_System\<close>: the step relation \<open>sys_step\<close> of a
  stream, in which completions arrive in any order and the callbacks and watermarks of Envoy
  interleave freely. \<open>Stream_Safety\<close>: its invariant \<open>sys_ok\<close>, by rule induction. \<open>Stream_Properties\<close>: the body is
  delivered exactly, a prefix of it at any time, the window is kept, no wake-up is lost. \<open>Stream_Liveness\<close>: a response that has begun inevitably ends or is held by a watermark;
  \<open>Stream_Resolution\<close>: so is every request, from the open of its first candidate on, unless an answer brings a value
  that is no valid header or has no date, which is all that makes the filter panic (\<open>invalid_value\<close>). \<open>Handler_Frame\<close>: what
  all handlers have in common (locale \<open>handler_relation\<close>). \<open>Stream_Handles\<close>: no file handle leaks and none is
  dropped twice.
  \<open>Stream_Refinement\<close>: what is sent to Envoy, with its end flags (\<open>wire\<close>), refines an abstract response machine, so that
  there is one response with one end. \<open>Filter_Confinement\<close>: disciplines on what the engine is asked (locale
  \<open>discipline\<close>), with three instances: confined opens, bounded reads, and what an open prefetches. \<open>Filter_Requests\<close>, \<open>Filter_Directories\<close>, \<open>Stream_Window\<close>: the intake of a request, mounts,
  redirects, index files, listings, and where the read window departs from its documentation.
  \<open>Stream_Sample\<close>: a concrete run for the closed examples.

  The whole server. \<open>Server_System\<close>: any number of streams (record \<open>slot\<close>) that share one engine, as a step
  relation in which their callbacks, the destruction of their filters, their submissions, the reactor, the tasks and
  a shutdown interleave.
  \<open>Server_Engine\<close>: commands, tasks and ids fit together, and the engine's answers are those \<open>Stream_System\<close>
  allows. \<open>Server_Slots\<close>, \<open>Server_Refinement\<close>: by simulation, each stream of the server is a stream of
  \<open>Stream_System\<close>, for fewer than 2^64 steps, so that ids of opens do not repeat. \<open>Server_Handles\<close>: where every
  handle is. \<open>Server_Inert\<close>: the inert handle 0 is never read from. \<open>Server_Sample\<close>: a concrete run. \<open>Server_Properties\<close>: what clients get, and what the
  engine keeps open. \<open>Server_Liveness\<close>: by a rank per stream, that the whole server, left to run, answers every
  request, with the exceptions \<open>server_settles\<close> names. This theory: the confinement of every open.

  The program's own tests. One theory \<open>Tests_X\<close> per source file with a \<^verbatim>\<open>cfg(test)\<close> module: each of its 157
  tests is the truth value of its assertions on the definitions of the model, and a lemma says that it holds. The
  model thus answers as the program does wherever the program says what it answers. Where a test runs against a
  real crate, file system or host, the lemma holds for any that does what it documents (\<open>percent_decoding\<close>,
  \<open>built_in_types\<close>, \<open>typed_headers\<close>, \<open>text_documented\<close>, \<open>reads_json\<close>, \<open>has_file\<close>, ...).

  The integration harness (\<^verbatim>\<open>envoy-files-itest\<close>), which starts a real Envoy. \<open>Harness_Config\<close>: the bootstrap
  documents, over any JSON crate (locale \<open>json_values\<close>); each hands the module the text of its configuration.
  \<open>Harness_Client\<close>: start, readiness, retries, statistics, the search for binaries. \<open>Harness_Fixtures\<close>: the
  document root, with the exact content of the 100 MiB file. A loop that polls is a function of what it sees.

  Reading the model. Integers of the source are words of their width and wrap as in a release build;
  \<^verbatim>\<open>usize\<close> lengths are naturals where nothing can overflow them. A panic is \<open>None\<close>; an I/O error is \<open>Inl\<close>.
  Loops are total functions (the flush by the ready chunks, the issue loop by the cursor, short reads by
  the missing bytes), so no fuel is used; the cutting of a body, which would not end for a chunk size of
  zero, is a partial function, and its termination for every accepted configuration is proved.

  Parameters. The crates \<^verbatim>\<open>headers\<close>, \<^verbatim>\<open>http\<close>, \<^verbatim>\<open>httpdate\<close>, \<^verbatim>\<open>html_escape\<close>, \<^verbatim>\<open>percent_encoding\<close>,
  \<^verbatim>\<open>new_mime_guess\<close>, \<^verbatim>\<open>yaml_rust2\<close>, compio, the operating system (\<open>os_calls\<close>), the host of the module
  and the watermark hooks Envoy runs inside a send (\<open>react\<close>). Hypotheses about them are named in each
  theorem and have instances in its closed example.

  Bounds of the model. A run has fewer than 2^64 steps where ids of opens must not repeat. The operating system is one
  record for a run: the file system does not change while it lasts (\<open>stable_files\<close>: reads and sizes agree with one
  content per open file). Envoy is taken to call \<^verbatim>\<open>on_stream_complete\<close> before it destroys a filter.

  Not modelled. The memory order of the atomics and the mutex (every operation of the mailbox and the
  channel is one atomic step), the borrow flags of the cells, logging, \<^verbatim>\<open>CatchUnwind\<close> of the SDK, the
  registration macro of \<^verbatim>\<open>envoy-files-module\<close>, and of the harness its sockets, clocks and printed
  measurements.
\<close>

section \<open>Confinement\<close>

text \<open>
  C10: Whatever a request asks for, every file that is ever handed to a filter lies, links resolved, under the
  document root of that filter. This holds of every open that any reachable state of the server finishes, whether the
  engine used its cache of canonical parents, as its earlier opens have left it, or not; and the handle that
  is handed over, unless it is the inert one, is of the file that was opened. The file system does not
  change during a run.
\<close>

theorem served_inside_root:
  assumes "server_run os cr n sv" and "n + 1 < 2 ^ 64" and "stable_files os content_of" and "nofollow_contract os"
    and "run_task os j (sv_engine sv) = (eng', [((i, ROpen req ctx), OpenDone (Inr (h, stat, prefetch)))])"
  shows "\<exists>p f b. os_canonicalize os (or_path req) = Inr p \<and>
    path_starts_with p (cfg_root (fl_config (sl_filter (sv_slots sv ! i)))) \<and>
    open_final os req = Inr (f, b) \<and> (h \<noteq> 0 \<longrightarrow> map_of (eng_files eng') h = Some f)"
proof -
  have ok: "server_ok os content_of cr n sv" using server_reachable_ok [OF assms(1,3,4,2)] .
  obtain hid files cache where
    res: "open_stat os hid req (eng_files (sv_engine sv)) (eng_cache (sv_engine sv)) = (Inr (h, stat, prefetch), files, cache)"
    and files: "eng_files eng' = files"
    by (rule finished_task [OF server_ok_parts(1) [OF ok] assms(5), of "open_event ctx (Inr (h, stat, prefetch))"])
       (auto simp: open_event_def split: sum.splits)
  have out: "(i, ROpen req ctx) \<in># outstanding (sv_engine sv)" using run_task_tags [of "sv_engine sv" os j] assms(5) by simp
  obtain content pending where slot: "slot_ok os content_of cr (sv_engine sv) i (sv_slots sv ! i) content pending"
    using server_ok_parts(3) [OF ok outstanding_slot [OF server_ok_parts(1) [OF ok] out]] unfolding simulated_def by auto
  note root = pending_open(2) [OF slot asked_pending [OF slot out]]
  have "\<exists>f b. open_final os req = Inr (f, b) \<and> (h \<noteq> 0 \<longrightarrow> map_of (eng_files eng') h = Some f)"
    using open_stat_files [OF res] files res by (auto simp: map_of_update open_stat_def split: sum.splits)
  with open_stat_under_root [OF assms(4) server_ok_parts(2) [OF ok] root res] show ?thesis by blast
qed

theorem served_inside_root_witness:
  "\<exists>p. os_canonicalize page_os ''/srv/a'' = Inr p \<and> path_starts_with p ''/srv''"
  using served_inside_root [OF small_opens _ small_files small_nofollow small_task]
  by (auto simp: small_request_def small_server_def small_slot_def small_filter_def small_config_def sample_config_def
      default_config_def)

end
